(* ===== verification/Cart_Prelude.thy ===== *)
theory Cart_Prelude
  imports Main "HOL-Library.Word" "HOL-Library.Signed_Division" "HOL-Library.Monad_Syntax"
begin

text \<open>
  Shared vocabulary of the development: the machine integers of the ARMv7 target
  (\<open>size_t\<close> and \<open>unsigned long\<close> are 32 bits wide), pointers that may be NULL,
  memory accesses that may be out of bounds, and the loops over arrays that the components
  are written with.  An access outside an object is \<open>None\<close>, so that a theorem which
  says that an operation returns \<open>Some\<close> states its memory safety.
\<close>

unbundle bit_operations_syntax

named_theorems frame_simps \<open>what an operation leaves unchanged\<close>
named_theorems safe_intros \<open>memory safety of the operations\<close>

section \<open>Machine integers\<close>

type_synonym u8 = "8 word"
type_synonym u16 = "16 word"
type_synonym u32 = "32 word"
type_synonym u64 = "64 word"
type_synonym size_t = "32 word"

abbreviation SIZE_MAX :: size_t where "SIZE_MAX \<equiv> - 1"
abbreviation UINT64_MAX :: u64 where "UINT64_MAX \<equiv> - 1"
abbreviation INT32_MAX :: int where "INT32_MAX \<equiv> 2147483647"
abbreviation INT32_MIN :: int where "INT32_MIN \<equiv> - 2147483648"

text \<open>A C \<open>int\<close> is an integer inside the 32-bit range; a computation outside it is
  undefined behaviour, and the model of the operation says so where it can happen.\<close>

definition in_int32 :: "int \<Rightarrow> bool" where
  "in_int32 i \<longleftrightarrow> INT32_MIN \<le> i \<and> i \<le> INT32_MAX"

definition in_int64 :: "int \<Rightarrow> bool" where
  "in_int64 i \<longleftrightarrow> - (2 ^ 63) \<le> i \<and> i < 2 ^ 63"

lemma unat_of_int_nonneg:
  assumes "0 \<le> i" and "i < 2 ^ LENGTH('a)"
  shows "unat (of_int i :: 'a::len word) = nat i"
  using assms by (simp add: unat_eq_nat_uint uint_word_of_int take_bit_int_eq_self)

lemma nat_less_unat_iff: "0 \<le> i \<Longrightarrow> nat i < unat w \<longleftrightarrow> i < uint w"
  by (subst unat_eq_nat_uint) (rule nat_less_eq_zless)

lemma unat_le_div_iff:
  fixes a b :: "'a::len word"
  assumes "0 < b"
  shows "a \<le> (- 1) div b \<longleftrightarrow> unat a * unat b < 2 ^ LENGTH('a)"
proof -
  have "0 < unat b" using assms by (simp add: unat_gt_0 word_neq_0_conv)
  have "a \<le> (- 1) div b \<longleftrightarrow> unat a \<le> (2 ^ LENGTH('a) - 1) div unat b"
    by (simp add: word_le_nat_alt unat_div unsigned_minus_1_eq_mask mask_eq_exp_minus_1)
  also have "\<dots> \<longleftrightarrow> unat a * unat b \<le> 2 ^ LENGTH('a) - 1"
    using \<open>0 < unat b\<close> by (rule less_eq_div_iff_mult_less_eq)
  also have "\<dots> \<longleftrightarrow> unat a * unat b < 2 ^ LENGTH('a)"
  proof -
    have "0 < (2::nat) ^ LENGTH('a)" by simp
    then show ?thesis by arith
  qed
  finally show ?thesis .
qed

lemma unat_mult_no_wrap:
  fixes a b :: "'a::len word"
  assumes "unat a * unat b < 2 ^ LENGTH('a)"
  shows "unat (a * b) = unat a * unat b"
  using assms by (simp add: unat_word_ariths)

lemma unat_add_no_wrap:
  fixes a b :: "'a::len word"
  assumes "unat a + unat b < 2 ^ LENGTH('a)"
  shows "unat (a + b) = unat a + unat b"
  using assms by (simp add: unat_word_ariths)

lemma unat_sub_no_wrap:
  fixes a b :: "'a::len word"
  assumes "unat b \<le> unat a"
  shows "unat (a - b) = unat a - unat b"
  using assms by (simp add: unat_sub_if')

lemma unat_ucast_no_wrap:
  fixes w :: "'a::len word"
  assumes "unat w < 2 ^ LENGTH('b)"
  shows "unat (ucast w :: 'b::len word) = unat w"
proof -
  have "unat (ucast w :: 'b word) = take_bit LENGTH('b) (unat w)"
    by (simp add: unsigned_ucast_eq unsigned_take_bit_eq)
  then show ?thesis using assms by (simp add: take_bit_nat_eq_self)
qed

lemma unat_max_minus: "unat (- 1 - b :: 'a::len word) = 2 ^ LENGTH('a) - 1 - unat b"
proof -
  have m: "unat (- 1 :: 'a word) = 2 ^ LENGTH('a) - 1"
    by (simp add: unsigned_minus_1_eq_mask mask_eq_exp_minus_1)
  have "unat b < 2 ^ LENGTH('a)" by (rule unsigned_less)
  then have "unat b \<le> unat (- 1 :: 'a word)" unfolding m by arith
  then show ?thesis by (simp only: unat_sub_no_wrap m)
qed

lemma le_max_minus_iff:
  "a \<le> - 1 - (b :: 'a::len word) \<longleftrightarrow> unat a + unat b < 2 ^ LENGTH('a)"
proof -
  have "unat b < 2 ^ LENGTH('a)" by (rule unsigned_less)
  then show ?thesis unfolding word_le_nat_alt unat_max_minus by arith
qed

text \<open>Signed division and remainder of C truncate towards zero.\<close>

lemma sdiv_nonneg: "0 \<le> a \<Longrightarrow> 0 < b \<Longrightarrow> a sdiv b = a div (b :: int)"
  by (cases "a = 0") (simp_all add: signed_divide_int_def)

lemma sdiv_neg: "a \<le> 0 \<Longrightarrow> 0 < b \<Longrightarrow> a sdiv b = - ((- a) div (b :: int))"
  by (cases "a = 0") (simp_all add: signed_divide_int_def)

section \<open>Pointers and memory\<close>

datatype 'a ptr = NULL | Ptr (deref: 'a)

text \<open>A buffer is the list of its elements; reading or writing outside it is undefined.\<close>

definition load :: "'a list \<Rightarrow> nat \<Rightarrow> 'a option" where
  "load buf i = (if i < length buf then Some (buf ! i) else None)"

definition store :: "'a list \<Rightarrow> nat \<Rightarrow> 'a \<Rightarrow> 'a list option" where
  "store buf i v = (if i < length buf then Some (buf[i := v]) else None)"

lemma store_Some [simp]: "i < length buf \<Longrightarrow> store buf i v = Some (buf[i := v])"
  by (simp add: store_def)

lemma load_Some [simp]: "i < length buf \<Longrightarrow> load buf i = Some (buf ! i)"
  by (simp add: load_def)

lemma store_eq_Some_iff: "store buf i v = Some b \<longleftrightarrow> i < length buf \<and> b = buf[i := v]"
  by (auto simp: store_def)

text \<open>\<open>memcpy(dst + off, src, n)\<close>, in elements.\<close>

definition memcpy_at :: "'a list \<Rightarrow> nat \<Rightarrow> 'a list \<Rightarrow> nat \<Rightarrow> 'a list option" where
  "memcpy_at dst off src n =
     (if off + n \<le> length dst \<and> n \<le> length src
      then Some (take off dst @ take n src @ drop (off + n) dst) else None)"

lemma memcpy_at_Some:
  assumes "off + n \<le> length dst" "n \<le> length src"
  obtains d where "memcpy_at dst off src n = Some d" "length d = length dst"
    "\<And>i. d ! i = (if off \<le> i \<and> i < off + n then src ! (i - off) else dst ! i)"
proof
  let ?d = "take off dst @ take n src @ drop (off + n) dst"
  show "memcpy_at dst off src n = Some ?d" using assms by (simp add: memcpy_at_def)
  show "length ?d = length dst" using assms by simp
  show "?d ! i = (if off \<le> i \<and> i < off + n then src ! (i - off) else dst ! i)" for i
    using assms by (auto simp: nth_append)
qed

section \<open>Loops over a list of index values\<close>

primrec mfold :: "('a \<Rightarrow> 's \<Rightarrow> 's option) \<Rightarrow> 'a list \<Rightarrow> 's \<Rightarrow> 's option" where
  "mfold f [] s = Some s"
| "mfold f (x # xs) s = (case f x s of None \<Rightarrow> None | Some t \<Rightarrow> mfold f xs t)"

lemma mfold_append: "mfold f (xs @ ys) s = (case mfold f xs s of None \<Rightarrow> None | Some t \<Rightarrow> mfold f ys t)"
  by (induction xs arbitrary: s) (auto split: option.splits)

lemma mfold_map: "mfold f (map g xs) s = mfold (\<lambda>x. f (g x)) xs s"
  by (induction xs arbitrary: s) (auto split: option.splits)

lemma mfold_cong:
  assumes "xs = ys" and "\<And>x s. x \<in> set ys \<Longrightarrow> f x s = g x s"
  shows "mfold f xs s = mfold g ys s"
  using assms(2) unfolding assms(1) by (induction ys arbitrary: s) (auto split: option.splits)

lemma mfold_cong_inv:
  assumes "I s" and "\<And>x s. x \<in> set xs \<Longrightarrow> I s \<Longrightarrow> f x s = g x s"
    and "\<And>x s t. x \<in> set xs \<Longrightarrow> I s \<Longrightarrow> g x s = Some t \<Longrightarrow> I t"
  shows "mfold f xs s = mfold g xs s"
  using assms
proof (induction xs arbitrary: s)
  case (Cons x xs)
  have "f x s = g x s" using Cons.prems(1,2) by simp
  moreover have "mfold f xs t = mfold g xs t" if t: "g x s = Some t" for t
  proof (rule Cons.IH)
    show "I t" using Cons.prems(3)[of x s t] Cons.prems(1) t by simp
  qed (use Cons.prems(2,3) in \<open>simp_all, blast\<close>)
  ultimately show ?case by (simp split: option.split)
qed simp

lemma mfold_product:
  "mfold (\<lambda>r. mfold (f r) cs) rs s = mfold (\<lambda>(r, c). f r c) (List.product rs cs) s"
  by (induction rs arbitrary: s) (auto simp: mfold_append mfold_map split: option.splits)

lemma mfold_invariant:
  assumes "I s" and "\<And>x s. x \<in> set xs \<Longrightarrow> I s \<Longrightarrow> \<exists>t. f x s = Some t \<and> I t"
  shows "\<exists>t. mfold f xs s = Some t \<and> I t"
  using assms
proof (induction xs arbitrary: s)
  case Nil
  then show ?case by simp
next
  case (Cons x xs)
  from Cons.prems(2)[of x s] Cons.prems(1) obtain t where "f x s = Some t" "I t" by auto
  moreover have "\<exists>u. mfold f xs t = Some u \<and> I u"
    using \<open>I t\<close> by (rule Cons.IH) (simp add: Cons.prems(2))
  ultimately show ?case by auto
qed

text \<open>
  A loop that stores \<open>val p\<close> at \<open>ix p\<close> for every \<open>p\<close> of a list that satisfies
  the guard \<open>P\<close>.  If every guarded index is inside the buffer the loop is defined; an index
  that no guarded iteration names keeps its contents, and one that is named once holds its
  value.
\<close>

definition paint :: "('p \<Rightarrow> bool) \<Rightarrow> ('p \<Rightarrow> nat) \<Rightarrow> ('p \<Rightarrow> 'a) \<Rightarrow> 'p list \<Rightarrow> 'a list \<Rightarrow> 'a list option"
  where "paint P ix val ps buf = mfold (\<lambda>p b. if P p then store b (ix p) (val p) else Some b) ps buf"

lemma paint_spec:
  assumes "\<And>p. p \<in> set ps \<Longrightarrow> P p \<Longrightarrow> ix p < length buf"
    and "\<And>p q. p \<in> set ps \<Longrightarrow> q \<in> set ps \<Longrightarrow> P p \<Longrightarrow> P q \<Longrightarrow> ix p = ix q \<Longrightarrow> val p = val q"
  shows "\<exists>b. paint P ix val ps buf = Some b \<and> length b = length buf
    \<and> (\<forall>p \<in> set ps. P p \<longrightarrow> b ! ix p = val p)
    \<and> (\<forall>k. (\<forall>p \<in> set ps. P p \<longrightarrow> ix p \<noteq> k) \<longrightarrow> b ! k = buf ! k)"
  using assms
proof (induction ps rule: rev_induct)
  case Nil
  then show ?case by (simp add: paint_def)
next
  case (snoc q qs)
  obtain b where b: "paint P ix val qs buf = Some b" "length b = length buf"
      "\<forall>p \<in> set qs. P p \<longrightarrow> b ! ix p = val p"
      "\<forall>k. (\<forall>p \<in> set qs. P p \<longrightarrow> ix p \<noteq> k) \<longrightarrow> b ! k = buf ! k"
    using snoc.IH snoc.prems by auto
  show ?case
  proof (cases "P q")
    case False
    then show ?thesis using b by (auto simp: paint_def mfold_append)
  next
    case True
    have lt: "ix q < length b" using snoc.prems(1)[of q] True b(2) by simp
    have val: "b[ix q := val q] ! ix p = val p" if "p \<in> set (qs @ [q])" "P p" for p
    proof (cases "ix p = ix q")
      case True
      then show ?thesis using snoc.prems(2)[of p q] that \<open>P q\<close> lt by simp
    next
      case False
      then show ?thesis using b(3) that by auto
    qed
    have keep: "b[ix q := val q] ! k = buf ! k"
      if "\<forall>p \<in> set (qs @ [q]). P p \<longrightarrow> ix p \<noteq> k" for k
      using that b(4) True by auto
    have "paint P ix val (qs @ [q]) buf = Some (b[ix q := val q])"
      using b(1) True lt by (simp add: paint_def mfold_append)
    then show ?thesis using val keep b(2) by auto
  qed
qed

end
