(* ===== verification/C_Library.thy ===== *)
theory C_Library
  imports Cart_Prelude "HOL-Library.Char_ord"
begin

text \<open>
  The parts of the C library that the sources use and whose behaviour the components depend on:
  decimal printing (\<open>%u\<close>, \<open>%zu\<close>, \<open>%llu\<close>), decimal parsing (\<open>strtoul\<close> on a
  string of digits, \<open>atoi\<close>), truncating string copies and an output stream that may refuse a write.
\<close>

section \<open>Decimal text\<close>

definition isdigit :: "char \<Rightarrow> bool" where
  "isdigit c \<longleftrightarrow> of_char c \<ge> (48 :: nat) \<and> of_char c \<le> (57 :: nat)"

definition digit_char :: "nat \<Rightarrow> char" where
  "digit_char d = char_of (48 + d)"

definition digit_value :: "char \<Rightarrow> nat" where
  "digit_value c = of_char c - 48"

fun show_nat :: "nat \<Rightarrow> string" where
  "show_nat n = (if n < 10 then [digit_char n] else show_nat (n div 10) @ [digit_char (n mod 10)])"

declare show_nat.simps [simp del]

text \<open>\<open>%d\<close>.\<close>

definition show_int :: "int \<Rightarrow> string" where
  "show_int i = (if i < 0 then ''-'' @ show_nat (nat (- i)) else show_nat (nat i))"

definition digits_value :: "string \<Rightarrow> nat" where
  "digits_value = foldl (\<lambda>n c. n * 10 + digit_value c) 0"

lemma digit_char_value: "d < 10 \<Longrightarrow> digit_value (digit_char d) = d"
  by (simp add: digit_value_def digit_char_def)

lemma isdigit_digit_char: "d < 10 \<Longrightarrow> isdigit (digit_char d)"
  by (simp add: isdigit_def digit_char_def)

lemma show_nat_digits: "list_all isdigit (show_nat n) \<and> show_nat n \<noteq> []"
proof (induction n rule: show_nat.induct)
  case (1 n)
  then show ?case by (subst (1 2) show_nat.simps) (auto simp: isdigit_digit_char)
qed

lemma digits_value_show_nat [simp]: "digits_value (show_nat n) = n"
proof (induction n rule: show_nat.induct)
  case (1 n)
  show ?case
  proof (cases "n < 10")
    case True
    then show ?thesis by (subst show_nat.simps) (simp add: digits_value_def digit_char_value)
  next
    case False
    then have "digits_value (show_nat n) = digits_value (show_nat (n div 10)) * 10 + n mod 10"
      by (subst show_nat.simps) (simp add: digits_value_def digit_char_value)
    then show ?thesis using 1 False by simp
  qed
qed

lemma digits_value_bound: "list_all isdigit s \<Longrightarrow> digits_value s < 10 ^ length s"
proof (induction s rule: rev_induct)
  case Nil
  then show ?case by (simp add: digits_value_def)
next
  case (snoc c s)
  then have "digits_value s + 1 \<le> 10 ^ length s" "digit_value c < 10"
    by (auto simp: isdigit_def digit_value_def)
  then have "digits_value s * 10 + digit_value c < 10 ^ length s * 10" by simp
  then show ?case by (simp add: digits_value_def mult.commute)
qed

lemma length_show_nat: "n < 10 ^ k \<Longrightarrow> 0 < k \<Longrightarrow> length (show_nat n) \<le> k"
proof (induction n arbitrary: k rule: show_nat.induct)
  case (1 n)
  show ?case
  proof (cases "n < 10")
    case True
    then show ?thesis using "1.prems" by (subst show_nat.simps) simp
  next
    case False
    then obtain j where k: "k = Suc j" "0 < j" using "1.prems" by (cases k; cases "k - 1") auto
    then have "n div 10 < 10 ^ j" using "1.prems"(1) by (simp add: less_mult_imp_div_less mult.commute)
    then have "length (show_nat (n div 10)) \<le> j" using "1.IH"[OF False] k(2) by simp
    then show ?thesis using False k(1) by (subst show_nat.simps) simp
  qed
qed

lemma digit_chars:
  "digit_char 0 = CHR ''0''" "digit_char 1 = CHR ''1''" "digit_char (Suc 0) = CHR ''1''" "digit_char 2 = CHR ''2''"
  "digit_char 3 = CHR ''3''" "digit_char 4 = CHR ''4''" "digit_char 5 = CHR ''5''" "digit_char 6 = CHR ''6''"
  "digit_char 7 = CHR ''7''" "digit_char 8 = CHR ''8''" "digit_char 9 = CHR ''9''"
  by (simp_all add: digit_char_def char_of_def bit_0)

text \<open>\<open>atoi\<close>: white space, an optional sign, digits; a value outside \<open>int\<close> is undefined.\<close>

definition isspace :: "char \<Rightarrow> bool" where
  "isspace c \<longleftrightarrow> of_char c = (32 :: nat) \<or> (9 \<le> (of_char c :: nat) \<and> of_char c \<le> (13 :: nat))"

definition atoi :: "string \<Rightarrow> int option" where
  "atoi s = (let t = dropWhile isspace s;
       negative = (t \<noteq> [] \<and> hd t = CHR ''-'');
       t = (if t \<noteq> [] \<and> (hd t = CHR ''-'' \<or> hd t = CHR ''+'') then tl t else t);
       n = int (digits_value (takeWhile isdigit t));
       n = (if negative then - n else n)
     in if in_int32 n then Some n else None)"

text \<open>The integer conversions of \<open>scanf\<close>: white space, an optional sign and at least one digit.  The C
  library converts with \<open>strtoul\<close> and \<open>strtol\<close>, which saturate; \<open>strtoul\<close> negates after a minus sign.\<close>

definition scan_sign :: "string \<Rightarrow> bool \<times> string" where
  "scan_sign s = (let t = dropWhile isspace s in case t of [] \<Rightarrow> (False, [])
     | c # cs \<Rightarrow> if c = CHR ''-'' then (True, cs) else if c = CHR ''+'' then (False, cs) else (False, t))"

definition scan_unsigned :: "string \<Rightarrow> (u32 \<times> string) option" where
  "scan_unsigned s = (case scan_sign s of (negative, t) \<Rightarrow>
     let ds = takeWhile isdigit t; rest = dropWhile isdigit t; n = digits_value ds
     in if ds = [] then None
        else if 4294967295 < n then Some (4294967295, rest)
        else Some (if negative then - of_nat n else of_nat n, rest))"

definition scan_int :: "string \<Rightarrow> (int \<times> string) option" where
  "scan_int s = (case scan_sign s of (negative, t) \<Rightarrow>
     let ds = takeWhile isdigit t; rest = dropWhile isdigit t;
         n = (if negative then - int (digits_value ds) else int (digits_value ds))
     in if ds = [] then None else Some (max INT32_MIN (min INT32_MAX n), rest))"

text \<open>A printed number scans back.\<close>

lemma not_isspace_digit: "isdigit c \<Longrightarrow> \<not> isspace c"
  by (auto simp: isdigit_def isspace_def)

lemma scan_sign_digits: "list_all isdigit s \<Longrightarrow> scan_sign s = (False, s)"
  by (cases s) (auto simp: scan_sign_def not_isspace_digit isdigit_def)

lemma takeWhile_digits: "list_all isdigit s \<Longrightarrow> takeWhile isdigit s = s"
  by (simp add: list_all_iff)

lemma dropWhile_digits: "list_all isdigit s \<Longrightarrow> dropWhile isdigit s = []"
  by (simp add: list_all_iff)

lemma scan_int_show_nat: "scan_int (show_nat n) = Some (min INT32_MAX (int n), [])"
  using show_nat_digits[of n]
  by (simp add: scan_int_def scan_sign_digits takeWhile_digits dropWhile_digits)

lemma scan_unsigned_show_nat:
  "scan_unsigned (show_nat n) = Some (if 4294967295 < n then 4294967295 else of_nat n, [])"
  using show_nat_digits[of n]
  by (simp add: scan_unsigned_def scan_sign_digits takeWhile_digits dropWhile_digits)

text \<open>Two numbers with a comma between them, \<open>%u,%u\<close>.\<close>

definition scan_pair :: "string \<Rightarrow> (u32 \<times> u32) option" where
  "scan_pair s = (case scan_unsigned s of None \<Rightarrow> None
     | Some (a, rest) \<Rightarrow> (case rest of [] \<Rightarrow> None
       | c # cs \<Rightarrow> if c \<noteq> CHR '','' then None
                  else case scan_unsigned cs of None \<Rightarrow> None | Some (b, _) \<Rightarrow> Some (a, b)))"

text \<open>\<open>strtoull\<close> in base 10: the value, the text after it and whether \<open>errno\<close> says that it is out of range;
  \<open>None\<close> when there is nothing to convert.\<close>

definition strtoull :: "string \<Rightarrow> (u64 \<times> string \<times> bool) option" where
  "strtoull s = (case scan_sign s of (negative, t) \<Rightarrow>
     let ds = takeWhile isdigit t; rest = dropWhile isdigit t; n = digits_value ds
     in if ds = [] then None
        else if 18446744073709551615 < n then Some (UINT64_MAX, rest, True)
        else Some (if negative then - of_nat n else of_nat n, rest, False))"

lemma strtoull_show_nat:
  "n \<le> 18446744073709551615 \<Longrightarrow> strtoull (show_nat n) = Some (of_nat n, [], False)"
  using show_nat_digits[of n]
  by (simp add: strtoull_def scan_sign_digits takeWhile_digits dropWhile_digits)

text \<open>\<open>strtoul\<close> likewise; \<open>unsigned long\<close> has 32 bits.\<close>

definition strtoul :: "string \<Rightarrow> (u32 \<times> string \<times> bool) option" where
  "strtoul s = (case scan_sign s of (negative, t) \<Rightarrow>
     let ds = takeWhile isdigit t; rest = dropWhile isdigit t; n = digits_value ds
     in if ds = [] then None
        else if 4294967295 < n then Some (- 1, rest, True)
        else Some (if negative then - of_nat n else of_nat n, rest, False))"

lemma strtoul_show_nat: "n \<le> 4294967295 \<Longrightarrow> strtoul (show_nat n) = Some (of_nat n, [], False)"
  using show_nat_digits[of n]
  by (simp add: strtoul_def scan_sign_digits takeWhile_digits dropWhile_digits)

text \<open>The string in a character array ends at the first NUL.\<close>

definition c_str :: "string \<Rightarrow> string" where
  "c_str buf = takeWhile (\<lambda>c. c \<noteq> CHR 0x00) buf"

lemma c_str_digits: "list_all isdigit s \<Longrightarrow> c_str s = s"
  by (auto simp: c_str_def takeWhile_eq_all_conv list_all_iff isdigit_def)

text \<open>A text without the line ends at its end.\<close>

definition trim_end :: "string \<Rightarrow> string" where
  "trim_end s = rev (dropWhile (\<lambda>c. c = CHR 0x0A \<or> c = CHR 0x0D) (rev s))"

text \<open>\<open>fgets\<close>: up to and including the next newline, at most \<open>cap - 1\<close> characters; the buffer is then the string before
  its first NUL.\<close>

fun fgets :: "nat \<Rightarrow> string \<Rightarrow> string \<times> string" where
  "fgets 0 s = ('''', s)"
| "fgets (Suc n) [] = ('''', [])"
| "fgets (Suc n) (c # cs) = (if n = 0 then ('''', c # cs)
     else if c = CHR 0x0A then ([c], cs) else case fgets n cs of (l, rest) \<Rightarrow> (c # l, rest))"

text \<open>The conversion \<open>%Ns\<close> of \<open>scanf\<close>: a word of at most \<open>n\<close> characters after white space.\<close>

definition scan_word :: "nat \<Rightarrow> string \<Rightarrow> (string \<times> string) option" where
  "scan_word n s = (let t = dropWhile isspace s; word = take n (takeWhile (\<lambda>c. \<not> isspace c) t)
     in if word = [] then None else Some (word, drop (length word) t))"

section \<open>Bytes and output streams\<close>

definition bytes_of :: "string \<Rightarrow> u8 list" where
  "bytes_of s = map (\<lambda>c. of_char c) s"

text \<open>A \<open>FILE\<close> opened for writing: what has reached it, whether it takes the next chunk, and
  whether its error flag is up after the chunks it took.  The behaviour is the environment's.\<close>

record out_stream =
  written :: "u8 list"
  accepts :: "u8 list \<Rightarrow> u8 list \<Rightarrow> bool"
  stream_error :: "u8 list \<Rightarrow> bool"

definition emit :: "out_stream \<Rightarrow> u8 list \<Rightarrow> out_stream option" where
  "emit f chunk = (if accepts f (written f) chunk then Some (f\<lparr>written := written f @ chunk\<rparr>) else None)"

definition healthy :: "out_stream \<Rightarrow> bool" where
  "healthy f \<longleftrightarrow> (\<forall>pre chunk. accepts f pre chunk) \<and> (\<forall>pre. \<not> stream_error f pre)"

lemma emit_healthy:
  "healthy f \<Longrightarrow> emit f chunk = Some (f\<lparr>written := written f @ chunk\<rparr>)"
  by (simp add: emit_def healthy_def)

lemma healthy_written [simp]: "healthy (f\<lparr>written := w\<rparr>) = healthy f"
  by (simp add: healthy_def)

section \<open>Strings in fixed buffers\<close>

text \<open>Copying a string into an array of \<open>cap\<close> characters keeps what fits before the
  terminator.\<close>

definition fit :: "nat \<Rightarrow> string \<Rightarrow> string" where
  "fit cap s = take (cap - 1) s"

lemma length_fit: "0 < cap \<Longrightarrow> length (fit cap s) < cap"
  by (simp add: fit_def)

lemma fit_short: "length s < cap \<Longrightarrow> fit cap s = s"
  by (simp add: fit_def)

end
