(* ===== verification/Canvas.thy ===== *)
theory Canvas
  imports C_Library
begin

text \<open>
  The software canvas of the demo cart, \<open>cart/src/canvas.c\<close> and
  \<open>cart/include/cart/canvas.h\<close>: validation of the geometry, clipped pixel, rectangle and
  circle drawing, colour packing and mixing, and the PPM writer.  The lemmas show that drawing
  on a well-formed canvas is defined (no access outside the pixel buffer), paints exactly the
  clipped shape, and leaves the geometry and every other word of the buffer alone.
\<close>

section \<open>Canvas geometry\<close>

record cart_canvas =
  pixels :: "u32 list ptr"
  width :: size_t
  height :: size_t
  stride :: size_t

definition cart_canvas_valid :: "cart_canvas ptr \<Rightarrow> bool" where
  "cart_canvas_valid canvas = (case canvas of NULL \<Rightarrow> False | Ptr c \<Rightarrow>
     if pixels c = NULL \<or> width c = 0 \<or> height c = 0 \<or> stride c < width c then False
     else if height c > SIZE_MAX div stride c then False
     else if stride c * height c > SIZE_MAX div 4 then False
     else True)"

definition cart_canvas_init ::
  "cart_canvas ptr \<Rightarrow> u32 list ptr \<Rightarrow> size_t \<Rightarrow> size_t \<Rightarrow> size_t \<Rightarrow> int \<times> cart_canvas ptr" where
  "cart_canvas_init canvas px w h st =
     (if canvas = NULL then (- 1, canvas)
      else let candidate = \<lparr>pixels = px, width = w, height = h, stride = st\<rparr> in
        if \<not> cart_canvas_valid (Ptr candidate) then (- 1, canvas)
        else (0, Ptr candidate))"

definition cart_canvas_byte_size :: "cart_canvas ptr \<Rightarrow> size_t" where
  "cart_canvas_byte_size canvas = (case canvas of NULL \<Rightarrow> 0 | Ptr c \<Rightarrow>
     if \<not> cart_canvas_valid canvas then 0 else stride c * height c * 4)"

text \<open>The size of the canvas in words and the buffer that backs it.\<close>

definition canvas_words :: "cart_canvas \<Rightarrow> nat" where
  "canvas_words c = unat (stride c) * unat (height c)"

definition wf_canvas :: "cart_canvas \<Rightarrow> bool" where
  "wf_canvas c \<longleftrightarrow> cart_canvas_valid (Ptr c) \<and> canvas_words c \<le> length (deref (pixels c))"

section \<open>Colours\<close>

definition clamp_channel :: "int \<Rightarrow> int" where
  "clamp_channel value = (if value < 0 then 0 else if value > 255 then 255 else value)"

definition cart_rgba :: "int \<Rightarrow> int \<Rightarrow> int \<Rightarrow> u32" where
  "cart_rgba red green blue =
     word_of_int (clamp_channel red)
       OR push_bit 8 (word_of_int (clamp_channel green))
       OR push_bit 16 (word_of_int (clamp_channel blue)) OR 0xff000000"

text \<open>The \<open>>>\<close> of a negative \<open>int\<close> is the arithmetic shift of the target's compilers,
  which rounds towards minus infinity.\<close>

definition mix_channel :: "int \<Rightarrow> int \<Rightarrow> u32 \<Rightarrow> int" where
  "mix_channel from to amount = from + drop_bit 8 ((to - from) * uint amount)"

definition channel_red :: "u32 \<Rightarrow> int" where
  "channel_red c = uint (c AND 0xff)"

definition channel_green :: "u32 \<Rightarrow> int" where
  "channel_green c = uint (drop_bit 8 c AND 0xff)"

definition channel_blue :: "u32 \<Rightarrow> int" where
  "channel_blue c = uint (drop_bit 16 c AND 0xff)"

definition cart_mix :: "u32 \<Rightarrow> u32 \<Rightarrow> u32 \<Rightarrow> u32" where
  "cart_mix from to amount0 =
     (let amount = (if amount0 > 256 then 256 else amount0) in
      cart_rgba (mix_channel (channel_red from) (channel_red to) amount)
                (mix_channel (channel_green from) (channel_green to) amount)
                (mix_channel (channel_blue from) (channel_blue to) amount))"

section \<open>Drawing\<close>

definition pixel_index :: "cart_canvas \<Rightarrow> int \<Rightarrow> int \<Rightarrow> nat" where
  "pixel_index c x y = unat (word_of_int y * stride c + word_of_int x :: size_t)"

text \<open>\<open>canvas->pixels[y * stride + x] = color\<close>.\<close>

definition put_word :: "cart_canvas \<Rightarrow> int \<Rightarrow> int \<Rightarrow> u32 \<Rightarrow> cart_canvas option" where
  "put_word c x y color = (case pixels c of NULL \<Rightarrow> None | Ptr buf \<Rightarrow>
     (case store buf (pixel_index c x y) color of None \<Rightarrow> None
      | Some buf' \<Rightarrow> Some (c\<lparr>pixels := Ptr buf'\<rparr>)))"

definition cart_canvas_px ::
  "cart_canvas ptr \<Rightarrow> int \<Rightarrow> int \<Rightarrow> u32 \<Rightarrow> cart_canvas ptr option" where
  "cart_canvas_px canvas x y color = (case canvas of NULL \<Rightarrow> Some NULL | Ptr c \<Rightarrow>
     if \<not> cart_canvas_valid canvas \<or> x < 0 \<or> y < 0
        \<or> (word_of_int x :: size_t) \<ge> width c \<or> (word_of_int y :: size_t) \<ge> height c
     then Some canvas
     else map_option Ptr (put_word c x y color))"

definition cart_canvas_rect ::
  "cart_canvas ptr \<Rightarrow> int \<Rightarrow> int \<Rightarrow> int \<Rightarrow> int \<Rightarrow> u32 \<Rightarrow> cart_canvas ptr option" where
  "cart_canvas_rect canvas x y w h color = (case canvas of NULL \<Rightarrow> Some NULL | Ptr c \<Rightarrow>
     if \<not> cart_canvas_valid canvas \<or> w \<le> 0 \<or> h \<le> 0 then Some canvas
     else let x1 = x + w; y1 = y + h;
       x0 = (if x < 0 then 0 else x);
       y0 = (if y < 0 then 0 else y);
       x1 = (if x1 > uint (width c) then uint (width c) else x1);
       y1 = (if y1 > uint (height c) then uint (height c) else y1)
     in if x0 \<ge> x1 \<or> y0 \<ge> y1 then Some canvas
        else map_option Ptr
          (mfold (\<lambda>row. mfold (\<lambda>column d. put_word d column row color) [x0..x1 - 1]) [y0..y1 - 1] c))"

definition cart_canvas_circle ::
  "cart_canvas ptr \<Rightarrow> int \<Rightarrow> int \<Rightarrow> int \<Rightarrow> u32 \<Rightarrow> cart_canvas ptr option" where
  "cart_canvas_circle canvas center_x center_y radius color = (case canvas of NULL \<Rightarrow> Some NULL | Ptr c \<Rightarrow>
     if \<not> cart_canvas_valid canvas \<or> radius < 0 then Some canvas
     else let left = center_x - radius; top = center_y - radius;
       right = center_x + radius; bottom = center_y + radius;
       left = (if left < 0 then 0 else left);
       top = (if top < 0 then 0 else top);
       right = (if right \<ge> uint (width c) then uint (width c) - 1 else right);
       bottom = (if bottom \<ge> uint (height c) then uint (height c) - 1 else bottom)
     in if left > right \<or> top > bottom then Some canvas
        else let squared_radius = radius * radius in map_option Ptr
          (mfold (\<lambda>row. let delta_y = row - center_y in
             mfold (\<lambda>column d. let delta_x = column - center_x in
               if delta_x * delta_x + delta_y * delta_y \<le> squared_radius
               then put_word d column row color else Some d) [left..right]) [top..bottom] c))"


section \<open>Well-formed canvases\<close>

lemma cart_canvas_valid_iff:
  "cart_canvas_valid (Ptr c) \<longleftrightarrow> pixels c \<noteq> NULL \<and> width c \<noteq> 0 \<and> height c \<noteq> 0
     \<and> width c \<le> stride c \<and> canvas_words c * 4 < 2 ^ 32"
proof (cases "stride c = 0")
  case True
  then have "cart_canvas_valid (Ptr c) \<longleftrightarrow> False"
    by (simp add: cart_canvas_valid_def word_neq_0_conv)
  then show ?thesis using True by auto
next
  case False
  then have pos: "0 < stride c" by (simp add: word_neq_0_conv)
  have h: "height c \<le> SIZE_MAX div stride c \<longleftrightarrow> canvas_words c < 2 ^ 32"
    using unat_le_div_iff[OF pos, of "height c"] by (simp add: canvas_words_def mult.commute)
  have "stride c * height c \<le> SIZE_MAX div 4 \<longleftrightarrow> canvas_words c * 4 < 2 ^ 32"
    if "canvas_words c < 2 ^ 32"
    using that unat_le_div_iff[of "4 :: size_t" "stride c * height c"]
    by (simp add: canvas_words_def unat_mult_no_wrap)
  then show ?thesis using h by (auto simp: cart_canvas_valid_def not_less linorder_not_le)
qed

lemma wf_canvas_iff:
  "wf_canvas c \<longleftrightarrow> (\<exists>buf. pixels c = Ptr buf \<and> canvas_words c \<le> length buf)
     \<and> width c \<noteq> 0 \<and> height c \<noteq> 0 \<and> width c \<le> stride c \<and> canvas_words c * 4 < 2 ^ 32"
  by (cases "pixels c") (auto simp: wf_canvas_def cart_canvas_valid_iff)

definition in_canvas :: "cart_canvas \<Rightarrow> int \<Rightarrow> int \<Rightarrow> bool" where
  "in_canvas c x y \<longleftrightarrow> 0 \<le> x \<and> x < uint (width c) \<and> 0 \<le> y \<and> y < uint (height c)"

lemma row_major_less:
  fixes x y w s h :: nat
  assumes "x < w" "w \<le> s" "y < h"
  shows "y * s + x < s * h"
proof -
  have "y * s + x < Suc y * s" using assms by simp
  also have "\<dots> \<le> h * s" using assms(3) by (intro mult_le_mono1) simp
  finally show ?thesis by (simp add: mult.commute)
qed

lemma pixel_index_in_canvas:
  assumes "wf_canvas c" "in_canvas c x y"
  shows "pixel_index c x y = nat y * unat (stride c) + nat x"
    and "nat y * unat (stride c) + nat x < canvas_words c"
proof -
  have W: "nat x < unat (width c)" and H: "nat y < unat (height c)"
    using assms(2) by (simp_all add: in_canvas_def nat_less_unat_iff)
  have S: "unat (width c) \<le> unat (stride c)"
    using assms(1) by (simp add: wf_canvas_iff word_le_nat_alt)
  show lt: "nat y * unat (stride c) + nat x < canvas_words c"
    unfolding canvas_words_def using row_major_less[OF W S H] .
  have small: "canvas_words c < 2 ^ 32" using assms(1) by (simp add: wf_canvas_iff)
  have x32: "unat (word_of_int x :: size_t) = nat x" and y32: "unat (word_of_int y :: size_t) = nat y"
    using assms(2) uint_bounded[of "width c"] uint_bounded[of "height c"]
    by (auto simp: in_canvas_def intro!: unat_of_int_nonneg)
  have "unat (word_of_int y * stride c) = nat y * unat (stride c)"
    using lt small by (subst unat_mult_no_wrap) (auto simp: y32)
  then show "pixel_index c x y = nat y * unat (stride c) + nat x"
    unfolding pixel_index_def using lt small by (subst unat_add_no_wrap) (auto simp: x32)
qed

lemma put_word_in_canvas:
  assumes "wf_canvas c" "in_canvas c x y"
  shows "put_word c x y v =
    Some (c\<lparr>pixels := Ptr ((deref (pixels c))[nat y * unat (stride c) + nat x := v])\<rparr>)"
  using assms pixel_index_in_canvas[OF assms]
  by (auto simp: put_word_def wf_canvas_iff)

section \<open>What a drawing operation paints\<close>

text \<open>
  The abstract effect of drawing: a shape gives the new colour of each coordinate it covers.
  \<open>painted f c c'\<close> says that \<open>c'\<close> is \<open>c\<close> with the shape \<open>f\<close> painted over
  it: same geometry, every word that is a visible pixel covered by the shape has its colour, and
  every other word of the buffer (uncovered pixels, the padding between \<open>width\<close> and
  \<open>stride\<close>, words after the last row) is unchanged.
\<close>

type_synonym shape = "int \<Rightarrow> int \<Rightarrow> u32 option"

definition word_at :: "cart_canvas \<Rightarrow> nat \<Rightarrow> int \<times> int" where
  "word_at c k = (int (k mod unat (stride c)), int (k div unat (stride c)))"

definition painted :: "shape \<Rightarrow> cart_canvas \<Rightarrow> cart_canvas \<Rightarrow> bool" where
  "painted f c c' \<longleftrightarrow> (\<exists>buf buf'. pixels c = Ptr buf \<and> pixels c' = Ptr buf'
     \<and> width c' = width c \<and> height c' = height c \<and> stride c' = stride c
     \<and> length buf' = length buf
     \<and> (\<forall>k < length buf. buf' ! k =
          (case word_at c k of (x, y) \<Rightarrow>
             if in_canvas c x y then (case f x y of Some v \<Rightarrow> v | None \<Rightarrow> buf ! k) else buf ! k)))"

definition pixel :: "cart_canvas \<Rightarrow> int \<Rightarrow> int \<Rightarrow> u32" where
  "pixel c x y = deref (pixels c) ! (nat y * unat (stride c) + nat x)"

lemma word_at_index:
  assumes "wf_canvas c" "in_canvas c x y"
  shows "word_at c (nat y * unat (stride c) + nat x) = (x, y)"
proof -
  have "nat x < unat (width c)" using assms(2) by (simp_all add: in_canvas_def nat_less_unat_iff)
  also have "\<dots> \<le> unat (stride c)" using assms(1) by (simp add: wf_canvas_iff word_le_nat_alt)
  finally show ?thesis using assms(2) by (simp add: word_at_def in_canvas_def)
qed

lemma index_word_at:
  "word_at c k = (x, y) \<Longrightarrow> nat y * unat (stride c) + nat x = k"
  by (auto simp: word_at_def)

lemma painted_wf [safe_intros]: "painted f c c' \<Longrightarrow> wf_canvas c \<Longrightarrow> wf_canvas c'"
  by (auto simp: painted_def wf_canvas_iff canvas_words_def)

lemma painted_frame [frame_simps]:
  assumes "painted f c c'"
  shows "width c' = width c" "height c' = height c" "stride c' = stride c"
    "length (deref (pixels c')) = length (deref (pixels c))"
    "in_canvas c' = in_canvas c"
  using assms by (auto simp: painted_def in_canvas_def fun_eq_iff)

lemma painted_pixel:
  assumes "painted f c c'" "wf_canvas c" "in_canvas c x y"
  shows "pixel c' x y = (case f x y of Some v \<Rightarrow> v | None \<Rightarrow> pixel c x y)"
proof -
  have "nat y * unat (stride c) + nat x < length (deref (pixels c))"
    using pixel_index_in_canvas(2)[OF assms(2,3)] assms(2) by (auto simp: wf_canvas_iff)
  then show ?thesis using assms(1) word_at_index[OF assms(2,3)] assms(3)
    by (auto simp: painted_def pixel_def split: option.split)
qed

lemma painted_beyond:
  assumes "painted f c d" "wf_canvas c" "canvas_words c \<le> k" "k < length (deref (pixels c))"
  shows "deref (pixels d) ! k = deref (pixels c) ! k"
proof -
  obtain x y where xy: "word_at c k = (x, y)" by fastforce
  have "\<not> in_canvas c x y"
    using index_word_at[OF xy] pixel_index_in_canvas(2)[OF assms(2), of x y] assms(3) by auto
  then show ?thesis using assms(1,4) xy by (auto simp: painted_def)
qed

lemma painted_refl: "pixels c \<noteq> NULL \<Longrightarrow> (\<And>x y. in_canvas c x y \<Longrightarrow> f x y = None) \<Longrightarrow> painted f c c"
  by (cases "pixels c") (auto simp: painted_def split: prod.splits)

lemma painted_cong:
  assumes "painted f c d" "\<And>x y. in_canvas c x y \<Longrightarrow> f x y = g x y"
  shows "painted g c d"
  using assms by (auto simp: painted_def split: prod.splits)

definition paint_over :: "shape \<Rightarrow> shape \<Rightarrow> shape" where
  "paint_over f g = (\<lambda>x y. case g x y of Some v \<Rightarrow> Some v | None \<Rightarrow> f x y)"

lemma painted_trans:
  assumes "painted f c d" "painted g d e"
  shows "painted (paint_over f g) c e"
proof -
  have "in_canvas d = in_canvas c" "word_at d = word_at c"
    using painted_frame[OF assms(1)] by (auto simp: word_at_def fun_eq_iff)
  then show ?thesis using assms
    by (auto simp: painted_def paint_over_def split: option.split prod.split)
qed

lemma mfold_put_word:
  assumes "pixels c = Ptr buf"
  shows "mfold (\<lambda>p d. if P p then put_word d (fx p) (fy p) (val p) else Some d) ps c =
    map_option (\<lambda>b. c\<lparr>pixels := Ptr b\<rparr>)
      (paint P (\<lambda>p. pixel_index c (fx p) (fy p)) val ps buf)"
  using assms
proof (induction ps arbitrary: c buf)
  case Nil
  then show ?case by (simp add: paint_def)
next
  case (Cons p ps)
  have ix: "pixel_index (c\<lparr>pixels := Ptr b\<rparr>) = pixel_index c" for b
    by (simp add: pixel_index_def fun_eq_iff)
  show ?case
  proof (cases "P p")
    case False
    then show ?thesis using Cons by (simp add: paint_def)
  next
    case True
    show ?thesis
    proof (cases "store buf (pixel_index c (fx p) (fy p)) (val p)")
      case None
      then show ?thesis using True Cons.prems by (simp add: paint_def put_word_def)
    next
      case (Some b)
      have "mfold (\<lambda>p d. if P p then put_word d (fx p) (fy p) (val p) else Some d) ps (c\<lparr>pixels := Ptr b\<rparr>)
          = map_option (\<lambda>b. c\<lparr>pixels := Ptr b\<rparr>) (paint P (\<lambda>p. pixel_index c (fx p) (fy p)) val ps b)"
        using Cons.IH[of "c\<lparr>pixels := Ptr b\<rparr>" b] by (simp add: ix)
      then show ?thesis using True Some Cons.prems by (simp add: paint_def put_word_def)
    qed
  qed
qed

lemma draw_painted:
  assumes wf: "wf_canvas c"
    and inside: "\<And>p. p \<in> set ps \<Longrightarrow> P p \<Longrightarrow> in_canvas c (fx p) (fy p) \<and> f (fx p) (fy p) = Some (val p)"
    and covers: "\<And>x y v. in_canvas c x y \<Longrightarrow> f x y = Some v \<Longrightarrow> \<exists>p \<in> set ps. P p \<and> fx p = x \<and> fy p = y"
  shows "\<exists>d. mfold (\<lambda>p d. if P p then put_word d (fx p) (fy p) (val p) else Some d) ps c = Some d
    \<and> painted f c d"
proof -
  obtain buf where buf: "pixels c = Ptr buf" "canvas_words c \<le> length buf"
    using wf by (auto simp: wf_canvas_iff)
  let ?ix = "\<lambda>p. pixel_index c (fx p) (fy p)"
  have ix: "?ix p = nat (fy p) * unat (stride c) + nat (fx p)" "?ix p < length buf"
      "word_at c (?ix p) = (fx p, fy p)" if "p \<in> set ps" "P p" for p
    using pixel_index_in_canvas[OF wf] word_at_index[OF wf] inside[OF that] buf(2) by fastforce+
  have "val p = val q" if "p \<in> set ps" "q \<in> set ps" "P p" "P q" "?ix p = ?ix q" for p q
  proof -
    have "(fx p, fy p) = (fx q, fy q)" using ix(3)[OF that(1,3)] ix(3)[OF that(2,4)] that(5) by metis
    then show ?thesis using inside[OF that(1,3)] inside[OF that(2,4)] by simp
  qed
  then obtain b where b: "paint P ?ix val ps buf = Some b" "length b = length buf"
      "\<And>p. p \<in> set ps \<Longrightarrow> P p \<Longrightarrow> b ! ?ix p = val p"
      "\<And>k. (\<forall>p \<in> set ps. P p \<longrightarrow> ?ix p \<noteq> k) \<Longrightarrow> b ! k = buf ! k"
    using paint_spec[of ps P ?ix buf val] ix(2) by blast
  have "b ! k = (if in_canvas c x y then (case f x y of Some v \<Rightarrow> v | None \<Rightarrow> buf ! k) else buf ! k)"
    if k: "word_at c k = (x, y)" for k x y
  proof (cases "\<exists>p \<in> set ps. P p \<and> ?ix p = k")
    case True
    then obtain p where p: "p \<in> set ps" "P p" "?ix p = k" by auto
    then have "fx p = x" "fy p = y" using ix(3)[of p] k by auto
    then show ?thesis using inside[OF p(1,2)] b(3)[OF p(1,2)] p(3) by simp
  next
    case False
    then have old: "b ! k = buf ! k" using b(4) by blast
    have "f x y = None" if "in_canvas c x y"
    proof (rule ccontr)
      assume "f x y \<noteq> None"
      then obtain p where p: "p \<in> set ps" "P p" "fx p = x" "fy p = y"
        using covers[of x y] \<open>in_canvas c x y\<close> by blast
      then have "?ix p = k" using ix(1)[OF p(1,2)] index_word_at[OF k] by simp
      then show False using False p by blast
    qed
    then show ?thesis using old by auto
  qed
  then have "painted f c (c\<lparr>pixels := Ptr b\<rparr>)"
    using buf(1) b(2) by (auto simp: painted_def split: prod.splits)
  then show ?thesis using mfold_put_word[OF buf(1), of P fx fy val ps] b(1) by simp
qed


section \<open>The drawing operations\<close>

definition px_shape :: "int \<Rightarrow> int \<Rightarrow> u32 \<Rightarrow> shape" where
  "px_shape x y color = (\<lambda>i j. if i = x \<and> j = y then Some color else None)"

definition rect_shape :: "int \<Rightarrow> int \<Rightarrow> int \<Rightarrow> int \<Rightarrow> u32 \<Rightarrow> shape" where
  "rect_shape x y w h color =
     (\<lambda>i j. if x \<le> i \<and> i < x + w \<and> y \<le> j \<and> j < y + h then Some color else None)"

definition circle_shape :: "int \<Rightarrow> int \<Rightarrow> int \<Rightarrow> u32 \<Rightarrow> shape" where
  "circle_shape cx cy r color =
     (\<lambda>i j. if 0 \<le> r \<and> (i - cx)\<^sup>2 + (j - cy)\<^sup>2 \<le> r\<^sup>2 then Some color else None)"

lemma word_of_int_ge_iff:
  fixes w :: "'a::len word"
  assumes "0 \<le> i" "i < 2 ^ LENGTH('a)"
  shows "w \<le> word_of_int i \<longleftrightarrow> uint w \<le> i"
  using assms by (simp add: word_le_def uint_word_of_int take_bit_int_eq_self)

lemma wf_canvas_valid [simp]: "wf_canvas c \<Longrightarrow> cart_canvas_valid (Ptr c)"
  by (simp add: wf_canvas_def)

lemma wf_canvas_pixels: "wf_canvas c \<Longrightarrow> pixels c \<noteq> NULL"
  by (auto simp: wf_canvas_iff)

lemma cart_canvas_px_painted:
  assumes "wf_canvas c" "in_int32 x" "in_int32 y"
  shows "\<exists>d. cart_canvas_px (Ptr c) x y color = Some (Ptr d) \<and> painted (px_shape x y color) c d"
proof (cases "in_canvas c x y")
  case True
  have guard: "\<not> (x < 0 \<or> y < 0 \<or> (word_of_int x :: size_t) \<ge> width c \<or> (word_of_int y :: size_t) \<ge> height c)"
    using True assms(2,3) by (auto simp: in_canvas_def in_int32_def word_of_int_ge_iff)
  have "\<exists>d. mfold (\<lambda>p d. if True then put_word d x y color else Some d) [()] c = Some d
      \<and> painted (px_shape x y color) c d"
    by (rule draw_painted[OF assms(1)]) (auto simp: px_shape_def True split: if_splits)
  then obtain d where "put_word c x y color = Some d" "painted (px_shape x y color) c d"
    by (auto split: option.splits)
  then show ?thesis using guard assms(1) by (simp add: cart_canvas_px_def)
next
  case False
  have guard: "x < 0 \<or> y < 0 \<or> (word_of_int x :: size_t) \<ge> width c \<or> (word_of_int y :: size_t) \<ge> height c"
    using False assms(2,3) by (auto simp: in_canvas_def in_int32_def word_of_int_ge_iff)
  have "painted (px_shape x y color) c c"
    using False by (intro painted_refl wf_canvas_pixels assms(1)) (auto simp: px_shape_def)
  then show ?thesis using guard by (auto simp: cart_canvas_px_def)
qed

lemma cart_canvas_rect_painted:
  assumes "wf_canvas c"
  shows "\<exists>d. cart_canvas_rect (Ptr c) x y w h color = Some (Ptr d) \<and> painted (rect_shape x y w h color) c d"
proof -
  define x0 where "x0 = (if x < 0 then 0 else x)"
  define y0 where "y0 = (if y < 0 then 0 else y)"
  define x1 where "x1 = (if x + w > uint (width c) then uint (width c) else x + w)"
  define y1 where "y1 = (if y + h > uint (height c) then uint (height c) else y + h)"
  note clip = x0_def y0_def x1_def y1_def
  have span: "(x0 \<le> i \<and> i < x1 \<and> y0 \<le> j \<and> j < y1) \<longleftrightarrow>
      (in_canvas c i j \<and> x \<le> i \<and> i < x + w \<and> y \<le> j \<and> j < y + h)" for i j
    by (auto simp: clip in_canvas_def)
  show ?thesis
  proof (cases "w \<le> 0 \<or> h \<le> 0 \<or> x0 \<ge> x1 \<or> y0 \<ge> y1")
    case True
    have "painted (rect_shape x y w h color) c c"
      using True span by (intro painted_refl wf_canvas_pixels assms) (fastforce simp: rect_shape_def)+
    moreover have "cart_canvas_rect (Ptr c) x y w h color = Some (Ptr c)"
      using True by (auto simp: cart_canvas_rect_def Let_def clip)
    ultimately show ?thesis by blast
  next
    case False
    let ?ps = "List.product [y0..y1 - 1] [x0..x1 - 1]"
    have "\<exists>d. mfold (\<lambda>p d. if True then put_word d (snd p) (fst p) color else Some d) ?ps c = Some d
        \<and> painted (rect_shape x y w h color) c d"
      by (rule draw_painted[OF assms]) (auto simp: rect_shape_def in_canvas_def clip split: if_splits)
    then obtain d where "mfold (\<lambda>p d. put_word d (snd p) (fst p) color) ?ps c = Some d"
        and d: "painted (rect_shape x y w h color) c d" by auto
    then have "mfold (\<lambda>row. mfold (\<lambda>column d. put_word d column row color) [x0..x1 - 1]) [y0..y1 - 1] c = Some d"
      by (simp add: mfold_product case_prod_beta')
    then have "cart_canvas_rect (Ptr c) x y w h color = Some (Ptr d)"
      using False assms by (auto simp: cart_canvas_rect_def Let_def clip)
    then show ?thesis using d by blast
  qed
qed

lemma cart_canvas_circle_painted:
  assumes "wf_canvas c"
  shows "\<exists>d. cart_canvas_circle (Ptr c) cx cy r color = Some (Ptr d) \<and> painted (circle_shape cx cy r color) c d"
proof -
  define x0 where "x0 = (if cx - r < 0 then 0 else cx - r)"
  define y0 where "y0 = (if cy - r < 0 then 0 else cy - r)"
  define x1 where "x1 = (if cx + r \<ge> uint (width c) then uint (width c) - 1 else cx + r)"
  define y1 where "y1 = (if cy + r \<ge> uint (height c) then uint (height c) - 1 else cy + r)"
  note clip = x0_def y0_def x1_def y1_def
  have near: "\<bar>i - cx\<bar> \<le> r \<and> \<bar>j - cy\<bar> \<le> r" if "(i - cx)\<^sup>2 + (j - cy)\<^sup>2 \<le> r\<^sup>2" "0 \<le> r" for i j
  proof -
    have "(i - cx)\<^sup>2 \<le> r\<^sup>2" "(j - cy)\<^sup>2 \<le> r\<^sup>2"
      using that zero_le_power2[of "i - cx"] zero_le_power2[of "j - cy"] by linarith+
    then show ?thesis using that(2) by (simp add: abs_le_square_iff[symmetric])
  qed
  have span: "(x0 \<le> i \<and> i \<le> x1 \<and> y0 \<le> j \<and> j \<le> y1) \<longleftrightarrow>
      (in_canvas c i j \<and> \<bar>i - cx\<bar> \<le> r \<and> \<bar>j - cy\<bar> \<le> r)" for i j
    by (auto simp: clip in_canvas_def)
  show ?thesis
  proof (cases "r < 0 \<or> x0 > x1 \<or> y0 > y1")
    case True
    have "painted (circle_shape cx cy r color) c c"
    proof (intro painted_refl wf_canvas_pixels assms)
      fix i j assume "in_canvas c i j"
      then show "circle_shape cx cy r color i j = None"
        using True span[of i j] near[of i j] by (auto simp: circle_shape_def)
    qed
    moreover have "cart_canvas_circle (Ptr c) cx cy r color = Some (Ptr c)"
      using True by (auto simp: cart_canvas_circle_def Let_def clip)
    ultimately show ?thesis by blast
  next
    case False
    let ?ps = "List.product [y0..y1] [x0..x1]"
    let ?P = "\<lambda>p :: int \<times> int. (snd p - cx)\<^sup>2 + (fst p - cy)\<^sup>2 \<le> r\<^sup>2"
    have "\<exists>d. mfold (\<lambda>p d. if ?P p then put_word d (snd p) (fst p) color else Some d) ?ps c = Some d
        \<and> painted (circle_shape cx cy r color) c d"
    proof (rule draw_painted[OF assms])
      fix p assume "p \<in> set ?ps" "?P p"
      then show "in_canvas c (snd p) (fst p) \<and> circle_shape cx cy r color (snd p) (fst p) = Some color"
        using span[of "snd p" "fst p"] False by (auto simp: circle_shape_def)
    next
      fix x y v assume "in_canvas c x y" "circle_shape cx cy r color x y = Some v"
      then show "\<exists>p \<in> set ?ps. ?P p \<and> snd p = x \<and> fst p = y"
        using span[of x y] near[of x y] by (intro bexI[of _ "(y, x)"]) (auto simp: circle_shape_def split: if_splits)
    qed
    then obtain d where d: "mfold (\<lambda>p d. if ?P p then put_word d (snd p) (fst p) color else Some d) ?ps c = Some d"
        "painted (circle_shape cx cy r color) c d" by auto
    have "cart_canvas_circle (Ptr c) cx cy r color = Some (Ptr d)"
      using False assms d(1)
      by (auto simp: cart_canvas_circle_def Let_def clip mfold_product case_prod_beta' power2_eq_square)
    then show ?thesis using d(2) by blast
  qed
qed


section \<open>Colour packing and mixing\<close>

lemma clamp_channel_range: "0 \<le> clamp_channel v \<and> clamp_channel v \<le> 255"
  by (simp add: clamp_channel_def)

lemma clamp_channel_id: "0 \<le> v \<Longrightarrow> v \<le> 255 \<Longrightarrow> clamp_channel v = v"
  by (simp add: clamp_channel_def)

lemma clamp_channel_take_bit: "clamp_channel v = take_bit 8 (clamp_channel v)"
  using clamp_channel_range[of v] by (simp add: take_bit_int_eq_self)

definition pack_channels :: "int \<Rightarrow> int \<Rightarrow> int \<Rightarrow> u32" where
  "pack_channels r g b = word_of_int (take_bit 8 r) OR push_bit 8 (word_of_int (take_bit 8 g))
     OR push_bit 16 (word_of_int (take_bit 8 b)) OR push_bit 24 (mask 8)"

lemma cart_rgba_pack:
  "cart_rgba r g b = pack_channels (clamp_channel r) (clamp_channel g) (clamp_channel b)"
  unfolding cart_rgba_def pack_channels_def
  by (simp flip: clamp_channel_take_bit add: mask_eq_exp_minus_1)

lemma pack_channels_fields:
  "pack_channels r g b AND 0xff = word_of_int (take_bit 8 r)"
  "drop_bit 8 (pack_channels r g b) AND 0xff = word_of_int (take_bit 8 g)"
  "drop_bit 16 (pack_channels r g b) AND 0xff = word_of_int (take_bit 8 b)"
  "drop_bit 24 (pack_channels r g b) = 0xff"
proof -
  have m: "0xff = (mask 8 :: u32)" by (simp add: mask_eq_exp_minus_1)
  show "pack_channels r g b AND 0xff = word_of_int (take_bit 8 r)"
    unfolding m by (rule bit_word_eqI) (auto simp: pack_channels_def bit_simps)
  show "drop_bit 8 (pack_channels r g b) AND 0xff = word_of_int (take_bit 8 g)"
    unfolding m by (rule bit_word_eqI) (auto simp: pack_channels_def bit_simps)
  show "drop_bit 16 (pack_channels r g b) AND 0xff = word_of_int (take_bit 8 b)"
    unfolding m by (rule bit_word_eqI) (auto simp: pack_channels_def bit_simps)
  show "drop_bit 24 (pack_channels r g b) = 0xff"
    unfolding m by (rule bit_word_eqI) (auto simp: pack_channels_def bit_simps)
qed

lemma uint_clamp_channel: "uint (word_of_int (clamp_channel v) :: u32) = clamp_channel v"
  using clamp_channel_range[of v] by (simp add: uint_word_of_int take_bit_int_eq_self)

lemma channel_rgba [simp]:
  "channel_red (cart_rgba r g b) = clamp_channel r"
  "channel_green (cart_rgba r g b) = clamp_channel g"
  "channel_blue (cart_rgba r g b) = clamp_channel b"
  "drop_bit 24 (cart_rgba r g b) = 0xff"
  by (simp_all add: channel_red_def channel_green_def channel_blue_def cart_rgba_pack
      pack_channels_fields uint_clamp_channel flip: clamp_channel_take_bit)

lemma uint_and_ff: "0 \<le> uint (c AND 0xff :: u32) \<and> uint (c AND 0xff) \<le> 255"
proof -
  have "c AND 0xff \<le> (0xff :: u32)" by (rule word_and_le1)
  then have "uint (c AND 0xff) \<le> uint (0xff :: u32)" by (rule word_le_def[THEN iffD1])
  then show ?thesis by simp
qed

lemma channel_range:
  "0 \<le> channel_red c \<and> channel_red c \<le> 255"
  "0 \<le> channel_green c \<and> channel_green c \<le> 255"
  "0 \<le> channel_blue c \<and> channel_blue c \<le> 255"
  using uint_and_ff by (simp_all add: channel_red_def channel_green_def channel_blue_def)

lemma mix_channel_between:
  assumes "a \<le> 256"
  shows "min f t \<le> mix_channel f t a \<and> mix_channel f t a \<le> max f t"
proof -
  have a: "0 \<le> uint a" "uint a \<le> 256" using assms by (auto simp: word_le_def)
  define d p where "d = t - f" and "p = d * uint a"
  have "p div 256 \<le> max 0 d \<and> min 0 d \<le> p div 256"
  proof (cases "0 \<le> d")
    case True
    then have "p \<le> d * 256" "0 \<le> p"
      using a mult_left_mono[of "uint a" 256 d] by (simp_all add: p_def)
    then show ?thesis using True by linarith
  next
    case False
    then have "d * 256 \<le> p" "p \<le> 0"
      using a mult_left_mono_neg[of "uint a" 256 d] by (simp_all add: p_def mult_nonpos_nonneg)
    then show ?thesis using False by linarith
  qed
  then show ?thesis by (auto simp: mix_channel_def drop_bit_eq_div p_def d_def)
qed

lemma channel_mix:
  assumes "a \<le> 256"
  shows "channel_red (cart_mix f t a) = mix_channel (channel_red f) (channel_red t) a"
    "channel_green (cart_mix f t a) = mix_channel (channel_green f) (channel_green t) a"
    "channel_blue (cart_mix f t a) = mix_channel (channel_blue f) (channel_blue t) a"
proof -
  have keep: "clamp_channel (mix_channel x y a) = mix_channel x y a"
    if "0 \<le> x \<and> x \<le> 255" "0 \<le> y \<and> y \<le> 255" for x y
    using mix_channel_between[OF assms, of x y] that by (auto intro!: clamp_channel_id)
  have "\<not> a > 256" using assms by simp
  then show "channel_red (cart_mix f t a) = mix_channel (channel_red f) (channel_red t) a"
    "channel_green (cart_mix f t a) = mix_channel (channel_green f) (channel_green t) a"
    "channel_blue (cart_mix f t a) = mix_channel (channel_blue f) (channel_blue t) a"
    by (simp_all add: cart_mix_def keep channel_range)
qed

section \<open>Mixing, one channel at a time\<close>

text \<open>What a client of \<open>cart_mix\<close> relies on, for each of the three colour channels.\<close>

locale channel_blend =
  fixes mix :: "'c \<Rightarrow> 'c \<Rightarrow> u32 \<Rightarrow> 'c" and chan :: "'c \<Rightarrow> int"
  assumes chan_range: "0 \<le> chan c \<and> chan c \<le> 255"
    and chan_mix: "a \<le> 256 \<Longrightarrow> chan (mix f t a) = mix_channel (chan f) (chan t) a"
begin

lemma blend_between:
  "a \<le> 256 \<Longrightarrow> min (chan f) (chan t) \<le> chan (mix f t a) \<and> chan (mix f t a) \<le> max (chan f) (chan t)"
  by (simp only: chan_mix mix_channel_between)

lemma blend_ends: "chan (mix f t 0) = chan f" "chan (mix f t 256) = chan t"
  by (simp_all add: chan_mix mix_channel_def drop_bit_eq_div)

lemma blend_step:
  assumes "a \<le> b" "b \<le> 256"
  shows "\<bar>chan (mix f t b) - chan (mix f t a)\<bar> \<le> (255 * (uint b - uint a)) div 256 + 1"
proof -
  have le: "a \<le> 256" using assms by simp
  define d where "d = chan t - chan f"
  have d: "\<bar>d\<bar> \<le> 255" using chan_range[of t] chan_range[of f] unfolding d_def by linarith
  have ab: "uint a \<le> uint b" using assms(1) by (simp add: word_le_def)
  have "\<bar>d * uint b - d * uint a\<bar> \<le> 255 * (uint b - uint a)"
  proof -
    have "\<bar>d * uint b - d * uint a\<bar> = \<bar>d\<bar> * (uint b - uint a)"
      using ab by (simp add: abs_mult flip: right_diff_distrib)
    also have "\<dots> \<le> 255 * (uint b - uint a)" using d ab by (intro mult_right_mono) simp_all
    finally show ?thesis .
  qed
  then have "\<bar>d * uint b div 256 - d * uint a div 256\<bar> \<le> (255 * (uint b - uint a)) div 256 + 1"
    by linarith
  then show ?thesis
    by (simp add: chan_mix[OF assms(2)] chan_mix[OF le] mix_channel_def drop_bit_eq_div d_def)
qed

end

interpretation red_mix: channel_blend cart_mix channel_red
  by unfold_locales (simp_all add: channel_range channel_mix)

interpretation green_mix: channel_blend cart_mix channel_green
  by unfold_locales (simp_all add: channel_range channel_mix)

interpretation blue_mix: channel_blend cart_mix channel_blue
  by unfold_locales (simp_all add: channel_range channel_mix)


section \<open>The PPM writer\<close>

definition rgb_bytes :: "u32 \<Rightarrow> u8 list" where
  "rgb_bytes color = [ucast (color AND 0xff), ucast (drop_bit 8 color AND 0xff), ucast (drop_bit 16 color AND 0xff)]"

text \<open>The two nested loops, over the list of (row, column) pairs; the result is the return code and
  the stream.\<close>

fun ppm_loop :: "cart_canvas \<Rightarrow> (nat \<times> nat) list \<Rightarrow> out_stream \<Rightarrow> (int \<times> out_stream) option" where
  "ppm_loop c [] f = Some (0, f)"
| "ppm_loop c ((row, column) # rest) f = (case pixels c of NULL \<Rightarrow> None | Ptr buf \<Rightarrow>
     (case load buf (pixel_index c (int column) (int row)) of None \<Rightarrow> None | Some color \<Rightarrow>
       (case emit f (rgb_bytes color) of None \<Rightarrow> Some (- 1, f) | Some f' \<Rightarrow> ppm_loop c rest f')))"

definition ppm_header :: "nat \<Rightarrow> nat \<Rightarrow> string" where
  "ppm_header w h = ''P6'' @ [CHR 0x0A] @ show_nat w @ '' '' @ show_nat h @ [CHR 0x0A] @ ''255'' @ [CHR 0x0A]"

definition cart_canvas_write_ppm ::
  "cart_canvas ptr \<Rightarrow> out_stream ptr \<Rightarrow> (int \<times> out_stream ptr) option" where
  "cart_canvas_write_ppm canvas stream = (case (canvas, stream) of
     (Ptr c, Ptr f) \<Rightarrow>
       if \<not> cart_canvas_valid canvas then Some (- 1, stream)
       else (case emit f (bytes_of (ppm_header (unat (width c)) (unat (height c)))) of
         None \<Rightarrow> Some (- 1, stream)
       | Some f1 \<Rightarrow>
         (case ppm_loop c (List.product [0..<unat (height c)] [0..<unat (width c)]) f1 of
            None \<Rightarrow> None
          | Some (rc, f2) \<Rightarrow>
              if rc \<noteq> 0 then Some (- 1, Ptr f2)
              else Some (if stream_error f2 (written f2) then - 1 else 0, Ptr f2)))
   | _ \<Rightarrow> Some (- 1, stream))"

lemma ppm_loop_healthy:
  assumes "wf_canvas c" "healthy f" "\<forall>(r, x) \<in> set ps. in_canvas c (int x) (int r)"
  shows "ppm_loop c ps f =
    Some (0, f\<lparr>written := written f @ concat (map (\<lambda>(r, x). rgb_bytes (pixel c (int x) (int r))) ps)\<rparr>)"
  using assms(2,3)
proof (induction ps arbitrary: f)
  case Nil
  then show ?case by simp
next
  case (Cons p ps)
  obtain r x where p: "p = (r, x)" by (cases p)
  have "in_canvas c (int x) (int r)" using Cons.prems p by simp
  then have "\<exists>buf. pixels c = Ptr buf \<and> load buf (pixel_index c (int x) (int r)) = Some (pixel c (int x) (int r))"
    using assms(1) pixel_index_in_canvas[OF assms(1), of "int x" "int r"]
    by (auto simp: wf_canvas_iff pixel_def)
  then show ?case using Cons p by (auto simp: emit_healthy)
qed

definition image_bytes :: "cart_canvas \<Rightarrow> u8 list" where
  "image_bytes c = concat (map (\<lambda>(r, x). rgb_bytes (pixel c (int x) (int r)))
     (List.product [0..<unat (height c)] [0..<unat (width c)]))"

lemma write_ppm_healthy:
  assumes "wf_canvas c" "healthy f"
  shows "cart_canvas_write_ppm (Ptr c) (Ptr f) = Some (0, Ptr (f\<lparr>written :=
    written f @ bytes_of (ppm_header (unat (width c)) (unat (height c))) @ image_bytes c\<rparr>))"
proof -
  let ?f = "f\<lparr>written := written f @ bytes_of (ppm_header (unat (width c)) (unat (height c)))\<rparr>"
  have inside: "\<forall>(r, x) \<in> set (List.product [0..<unat (height c)] [0..<unat (width c)]). in_canvas c (int x) (int r)"
    by (auto simp: in_canvas_def nat_less_unat_iff[of "int x" for x, simplified])
  have "\<not> stream_error f w" for w using assms(2) by (simp add: healthy_def)
  then show ?thesis using assms ppm_loop_healthy[OF assms(1) _ inside, of ?f]
    by (simp add: cart_canvas_write_ppm_def emit_healthy image_bytes_def)
qed

text \<open>A reference reader of the format: the header, then one triple per pixel.\<close>

definition byte_isdigit :: "u8 \<Rightarrow> bool" where
  "byte_isdigit b = isdigit (char_of (unat b))"

definition byte_digits_value :: "u8 list \<Rightarrow> nat" where
  "byte_digits_value bs = digits_value (map (\<lambda>b. char_of (unat b)) bs)"

definition strip_prefix :: "'a list \<Rightarrow> 'a list \<Rightarrow> 'a list option" where
  "strip_prefix p xs = (if take (length p) xs = p then Some (drop (length p) xs) else None)"

fun read_triples :: "u8 list \<Rightarrow> (int \<times> int \<times> int) list" where
  "read_triples (r # g # b # rest) = (uint r, uint g, uint b) # read_triples rest"
| "read_triples _ = []"

definition read_ppm :: "u8 list \<Rightarrow> (nat \<times> nat \<times> (int \<times> int \<times> int) list) option" where
  "read_ppm bs = do {
     bs \<leftarrow> strip_prefix (bytes_of (''P6'' @ [CHR 0x0A])) bs;
     let w = takeWhile byte_isdigit bs;
     bs \<leftarrow> strip_prefix (bytes_of '' '') (dropWhile byte_isdigit bs);
     let h = takeWhile byte_isdigit bs;
     bs \<leftarrow> strip_prefix (bytes_of ([CHR 0x0A] @ ''255'' @ [CHR 0x0A])) (dropWhile byte_isdigit bs);
     Some (byte_digits_value w, byte_digits_value h, read_triples bs) }"

lemma chars_of_bytes [simp]: "map (\<lambda>b. char_of (unat b)) (bytes_of s) = s"
proof -
  have "unat (of_char c :: u8) = of_char c" for c :: char
  proof -
    have "(of_char c :: u8) = of_nat (of_char c)" by (rule of_nat_of_char[symmetric])
    moreover have "(of_char c :: nat) < 256" by simp
    ultimately show ?thesis by (simp only: unat_of_nat) (simp add: take_bit_nat_eq_self)
  qed
  then show ?thesis by (induction s) (simp_all add: bytes_of_def)
qed

lemma bytes_of_append: "bytes_of (s @ t) = bytes_of s @ bytes_of t"
  by (simp add: bytes_of_def)

lemma byte_digits_of: "list_all isdigit s \<Longrightarrow> \<forall>b \<in> set (bytes_of s). byte_isdigit b"
proof -
  assume "list_all isdigit s"
  then have "list_all isdigit (map (\<lambda>b. char_of (unat b)) (bytes_of s))" by simp
  then show ?thesis by (simp add: byte_isdigit_def list_all_iff del: chars_of_bytes)
qed

lemma read_decimal:
  assumes "rest \<noteq> []" "\<not> byte_isdigit (hd rest)"
  shows "takeWhile byte_isdigit (bytes_of (show_nat n) @ rest) = bytes_of (show_nat n)"
    "dropWhile byte_isdigit (bytes_of (show_nat n) @ rest) = rest"
proof -
  have all: "\<forall>b \<in> set (bytes_of (show_nat n)). byte_isdigit b"
    using show_nat_digits byte_digits_of by blast
  obtain b bs where rest: "rest = b # bs" using assms(1) by (cases rest) auto
  then show "takeWhile byte_isdigit (bytes_of (show_nat n) @ rest) = bytes_of (show_nat n)"
    "dropWhile byte_isdigit (bytes_of (show_nat n) @ rest) = rest"
    using all assms(2) by (simp_all add: takeWhile_append dropWhile_append)
qed

lemma strip_prefix_append [simp]: "strip_prefix p (p @ xs) = Some xs"
  by (simp add: strip_prefix_def)

lemma read_triples_image:
  "read_triples (concat (map rgb_bytes cs)) = map (\<lambda>c. (channel_red c, channel_green c, channel_blue c)) cs"
proof -
  have "uint (ucast (c AND 0xff) :: u8) = uint (c AND 0xff)" for c :: u32
    using uint_and_ff[of c] by (simp add: unsigned_ucast_eq unsigned_take_bit_eq take_bit_int_eq_self)
  then show ?thesis
    by (induction cs) (simp_all add: rgb_bytes_def channel_red_def channel_green_def channel_blue_def)
qed

lemma read_ppm_header:
  "read_ppm (bytes_of (ppm_header w h) @ body) = Some (w, h, read_triples body)"
proof -
  have nd: "\<not> byte_isdigit (hd (bytes_of '' '' @ ys))" "bytes_of '' '' @ ys \<noteq> []"
      "\<not> byte_isdigit (hd (bytes_of ([CHR 0x0A] @ ''255'' @ [CHR 0x0A]) @ ys))"
      "bytes_of ([CHR 0x0A] @ ''255'' @ [CHR 0x0A]) @ ys \<noteq> []" for ys
    by (simp_all add: bytes_of_def byte_isdigit_def isdigit_def)
  have "bytes_of (ppm_header w h) @ body = bytes_of (''P6'' @ [CHR 0x0A]) @ bytes_of (show_nat w)
      @ bytes_of '' '' @ bytes_of (show_nat h) @ bytes_of ([CHR 0x0A] @ ''255'' @ [CHR 0x0A]) @ body"
    by (simp add: ppm_header_def bytes_of_def)
  then show ?thesis
    unfolding read_ppm_def
    by (simp only: strip_prefix_append read_decimal nd bind.bind_lunit Let_def byte_digits_value_def
        chars_of_bytes digits_value_show_nat not_False_eq_True)
qed


section \<open>Properties\<close>

text \<open>\<open>cart_canvas_init\<close> accepts a geometry exactly when there is a pixel buffer, both
  dimensions are non-zero, a row fits in the stride and the byte size of the canvas fits in
  \<open>size_t\<close>; \<open>cart_canvas_byte_size\<close> is then that size, with no wrap-around.\<close>

theorem canvas_init_accepts:
  "(fst (cart_canvas_init (Ptr c0) px w h st) = 0 \<longleftrightarrow>
     px \<noteq> NULL \<and> w \<noteq> 0 \<and> h \<noteq> 0 \<and> w \<le> st \<and> unat st * unat h * 4 < 2 ^ 32)
   \<and> unat (cart_canvas_byte_size (snd (cart_canvas_init (Ptr \<lparr>pixels = NULL, width = 0, height = 0, stride = 0\<rparr>) px w h st))) =
     (if px \<noteq> NULL \<and> w \<noteq> 0 \<and> h \<noteq> 0 \<and> w \<le> st \<and> unat st * unat h * 4 < 2 ^ 32
      then unat st * unat h * 4 else 0)"
proof -
  have "unat (st * h * 4) = unat st * unat h * 4" if "unat st * unat h * 4 < 2 ^ 32"
  proof -
    have "unat st * unat h < 2 ^ 32" using that by linarith
    then have "unat (st * h) = unat st * unat h" by (simp add: unat_mult_no_wrap)
    then show ?thesis using that unat_mult_no_wrap[of "st * h" 4] by simp
  qed
  then show ?thesis
    by (auto simp: cart_canvas_init_def cart_canvas_valid_iff canvas_words_def cart_canvas_byte_size_def)
qed

text \<open>C21. Clipped rectangles.  On a well-formed canvas \<open>cart_canvas_rect\<close> never accesses
  memory outside the buffer, whatever the rectangle; afterwards a pixel has the new colour if it lies
  in the rectangle and its old colour otherwise, and the words of the buffer that are no pixels
  (padding and tail) are unchanged.\<close>

theorem rect_paints_clipped:
  assumes "wf_canvas c"
  shows "\<exists>d. cart_canvas_rect (Ptr c) x y w h color = Some (Ptr d) \<and> wf_canvas d
    \<and> (\<forall>i j. in_canvas c i j \<longrightarrow> pixel d i j =
         (if x \<le> i \<and> i < x + w \<and> y \<le> j \<and> j < y + h then color else pixel c i j))
    \<and> painted (rect_shape x y w h color) c d"
proof -
  obtain d where d: "cart_canvas_rect (Ptr c) x y w h color = Some (Ptr d)" "painted (rect_shape x y w h color) c d"
    using cart_canvas_rect_painted[OF assms] by blast
  then show ?thesis using painted_wf[OF d(2) assms] painted_pixel[OF d(2) assms]
    by (auto simp: rect_shape_def)
qed

text \<open>Clipped discs.  \<open>cart_canvas_circle\<close> on a well-formed canvas is memory safe and
  paints exactly the visible pixels whose distance from the centre is at most the radius; a negative
  radius paints nothing.\<close>

theorem circle_paints_disc:
  assumes "wf_canvas c"
  shows "\<exists>d. cart_canvas_circle (Ptr c) cx cy r color = Some (Ptr d) \<and> wf_canvas d
    \<and> (\<forall>i j. in_canvas c i j \<longrightarrow> pixel d i j =
         (if 0 \<le> r \<and> (i - cx)\<^sup>2 + (j - cy)\<^sup>2 \<le> r\<^sup>2 then color else pixel c i j))
    \<and> painted (circle_shape cx cy r color) c d"
proof -
  obtain d where d: "cart_canvas_circle (Ptr c) cx cy r color = Some (Ptr d)" "painted (circle_shape cx cy r color) c d"
    using cart_canvas_circle_painted[OF assms] by blast
  then show ?thesis using painted_wf[OF d(2) assms] painted_pixel[OF d(2) assms]
    by (auto simp: circle_shape_def)
qed

text \<open>Colour mixing.  For a weight of at most 256 every channel of \<open>cart_mix\<close> lies between
  the two inputs, equals the first at weight 0 and the second at weight 256 (and above), and the alpha
  byte is always opaque.\<close>

theorem mix_between_and_exact:
  "min (channel_red f) (channel_red t) \<le> channel_red (cart_mix f t a)
   \<and> channel_red (cart_mix f t a) \<le> max (channel_red f) (channel_red t)
   \<and> min (channel_green f) (channel_green t) \<le> channel_green (cart_mix f t a)
   \<and> channel_green (cart_mix f t a) \<le> max (channel_green f) (channel_green t)
   \<and> min (channel_blue f) (channel_blue t) \<le> channel_blue (cart_mix f t a)
   \<and> channel_blue (cart_mix f t a) \<le> max (channel_blue f) (channel_blue t)
   \<and> drop_bit 24 (cart_mix f t a) = 0xff
   \<and> cart_mix f t 0 = cart_rgba (channel_red f) (channel_green f) (channel_blue f)
   \<and> (256 \<le> a \<longrightarrow> cart_mix f t a = cart_rgba (channel_red t) (channel_green t) (channel_blue t))"
proof -
  define b where "b = (if a > 256 then 256 else a)"
  have b: "b \<le> 256" by (simp add: b_def linorder_not_less)
  have mix: "cart_mix f t a = cart_mix f t b" by (simp add: cart_mix_def b_def)
  have "cart_mix f t 0 = cart_rgba (channel_red f) (channel_green f) (channel_blue f)"
    by (simp add: cart_mix_def mix_channel_def)
  moreover have "cart_mix f t a = cart_rgba (channel_red t) (channel_green t) (channel_blue t)" if "256 \<le> a"
  proof -
    have "b = 256" using that by (auto simp: b_def)
    then show ?thesis unfolding mix by (simp add: cart_mix_def mix_channel_def drop_bit_eq_div)
  qed
  moreover have "drop_bit 24 (cart_mix f t a) = 0xff" by (simp add: cart_mix_def Let_def)
  ultimately show ?thesis
    using red_mix.blend_between[OF b, of f t] green_mix.blend_between[OF b, of f t]
      blue_mix.blend_between[OF b, of f t] by (simp add: mix)
qed


section \<open>A concrete canvas\<close>

definition demo_canvas :: cart_canvas where
  "demo_canvas = \<lparr>pixels = Ptr [1, 2, 3, 4, 5, 6, 7], width = 2, height = 2, stride = 3\<rparr>"

lemma demo_canvas_wf: "wf_canvas demo_canvas"
  by (simp add: wf_canvas_iff demo_canvas_def canvas_words_def word_le_nat_alt)

theorem rect_paints_clipped_witness:
  "cart_canvas_rect (Ptr demo_canvas) (-3) 1 4 9 0xff = Some (Ptr (demo_canvas\<lparr>pixels := Ptr [1, 2, 3, 0xff, 5, 6, 7]\<rparr>))
   \<and> (\<exists>d. cart_canvas_rect (Ptr demo_canvas) (-3) 1 4 9 0xff = Some (Ptr d) \<and> wf_canvas d)"
proof
  show "cart_canvas_rect (Ptr demo_canvas) (-3) 1 4 9 0xff = Some (Ptr (demo_canvas\<lparr>pixels := Ptr [1, 2, 3, 0xff, 5, 6, 7]\<rparr>))"
    by code_simp
  show "\<exists>d. cart_canvas_rect (Ptr demo_canvas) (-3) 1 4 9 0xff = Some (Ptr d) \<and> wf_canvas d"
    using rect_paints_clipped[OF demo_canvas_wf, of "-3" 1 4 9 "0xff"] by blast
qed

theorem circle_paints_disc_witness:
  "cart_canvas_circle (Ptr demo_canvas) 0 0 1 0xff = Some (Ptr (demo_canvas\<lparr>pixels := Ptr [0xff, 0xff, 3, 0xff, 5, 6, 7]\<rparr>))
   \<and> (\<exists>d. cart_canvas_circle (Ptr demo_canvas) 0 0 1 0xff = Some (Ptr d) \<and> wf_canvas d)"
proof
  show "cart_canvas_circle (Ptr demo_canvas) 0 0 1 0xff = Some (Ptr (demo_canvas\<lparr>pixels := Ptr [0xff, 0xff, 3, 0xff, 5, 6, 7]\<rparr>))"
    by code_simp
  show "\<exists>d. cart_canvas_circle (Ptr demo_canvas) 0 0 1 0xff = Some (Ptr d) \<and> wf_canvas d"
    using circle_paints_disc[OF demo_canvas_wf, of 0 0 1 "0xff"] by blast
qed

theorem mix_between_and_exact_witness:
  "channel_red (cart_mix 0 0xff 128) \<le> max (channel_red 0) (channel_red 0xff) \<and> channel_red (cart_mix 0 0xff 128) = 127"
  using mix_between_and_exact[of 0 "0xff" 128] by (intro conjI) (blast, code_simp)

definition open_stream :: out_stream where
  "open_stream = \<lparr>written = [], accepts = (\<lambda>_ _. True), stream_error = (\<lambda>_. False)\<rparr>"


end
