(* ===== verification/Scene_Registry.thy ===== *)
theory Scene_Registry
  imports Canvas
begin

text \<open>
  The table of built-in scenes, \<open>cart/src/scenes_builtin.c\<close> and
  \<open>cart/include/cart/scene.h\<close>.  A render function pointer of the table is a constructor of
  \<open>cart_scene_render_fn\<close>; the theory \<open>Legacy_Scenes\<close> says what each of them does.
\<close>

datatype cart_scene_render_fn =
    cart_legacy_scene_candy
  | cart_legacy_scene_girl_mode
  | cart_legacy_scene_bubblegum
  | cart_legacy_scene_butterfly_riot
  | cart_legacy_scene_hyperdrive
  | cart_legacy_scene_too_much

datatype cart_scene_phase = CART_SCENE_RENDER_ROWS | CART_SCENE_RENDER_OVERLAY

record cart_scene =
  scene_id :: u32
  display_name :: string
  preferred_width :: size_t
  preferred_height :: size_t
  capabilities :: u32
  scene_render :: cart_scene_render_fn

definition CART_SCENE_CAP_2D :: u32 where "CART_SCENE_CAP_2D = 1"

definition builtin_scenes :: "cart_scene list" where
  "builtin_scenes = [
     \<lparr>scene_id = 0, display_name = ''Candy Vortex'', preferred_width = 320, preferred_height = 180,
      capabilities = CART_SCENE_CAP_2D, scene_render = cart_legacy_scene_candy\<rparr>,
     \<lparr>scene_id = 1, display_name = ''Girl Mode'', preferred_width = 320, preferred_height = 180,
      capabilities = CART_SCENE_CAP_2D, scene_render = cart_legacy_scene_girl_mode\<rparr>,
     \<lparr>scene_id = 2, display_name = ''Bubblegum Overdrive'', preferred_width = 320, preferred_height = 180,
      capabilities = CART_SCENE_CAP_2D, scene_render = cart_legacy_scene_bubblegum\<rparr>,
     \<lparr>scene_id = 3, display_name = ''Butterfly Riot'', preferred_width = 320, preferred_height = 180,
      capabilities = CART_SCENE_CAP_2D, scene_render = cart_legacy_scene_butterfly_riot\<rparr>,
     \<lparr>scene_id = 4, display_name = ''She Her Hyperdrive'', preferred_width = 320, preferred_height = 180,
      capabilities = CART_SCENE_CAP_2D, scene_render = cart_legacy_scene_hyperdrive\<rparr>,
     \<lparr>scene_id = 5, display_name = ''Too Much Is Enough'', preferred_width = 320, preferred_height = 180,
      capabilities = CART_SCENE_CAP_2D, scene_render = cart_legacy_scene_too_much\<rparr>]"

definition cart_scene_count :: size_t where
  "cart_scene_count = of_nat (length builtin_scenes)"

definition cart_scene_at :: "size_t \<Rightarrow> cart_scene ptr" where
  "cart_scene_at index =
     (if index \<ge> cart_scene_count then NULL else Ptr (builtin_scenes ! unat index))"

text \<open>The scan over the table that the three lookups share: the first index whose entry has the
  id.\<close>

fun scan_scenes :: "(size_t \<Rightarrow> cart_scene ptr) \<Rightarrow> u32 \<Rightarrow> nat list \<Rightarrow> cart_scene ptr" where
  "scan_scenes result key [] = NULL"
| "scan_scenes result key (i # is) =
     (if scene_id (builtin_scenes ! i) = key then result (of_nat i) else scan_scenes result key is)"

definition cart_scene_find :: "u32 \<Rightarrow> cart_scene ptr" where
  "cart_scene_find key =
     scan_scenes (\<lambda>i. Ptr (builtin_scenes ! unat i)) key [0..<unat cart_scene_count]"

definition cart_scene_next :: "u32 \<Rightarrow> cart_scene ptr" where
  "cart_scene_next key =
     scan_scenes (\<lambda>i. Ptr (builtin_scenes ! unat ((i + 1) mod cart_scene_count))) key
       [0..<unat cart_scene_count]"

definition cart_scene_previous :: "u32 \<Rightarrow> cart_scene ptr" where
  "cart_scene_previous key =
     scan_scenes (\<lambda>i. Ptr (builtin_scenes ! unat ((i + cart_scene_count - 1) mod cart_scene_count))) key
       [0..<unat cart_scene_count]"

section \<open>The table\<close>

lemma cart_scene_count_6 [simp]: "cart_scene_count = 6"
  by (simp add: cart_scene_count_def builtin_scenes_def)

lemma builtin_scene_ids: "map scene_id builtin_scenes = map of_nat [0..<6]"
  by (simp add: builtin_scenes_def upt_rec)

lemma scene_id_nth: "i < 6 \<Longrightarrow> scene_id (builtin_scenes ! i) = of_nat i"
proof -
  assume "i < 6"
  moreover have "length builtin_scenes = 6" by (simp add: builtin_scenes_def)
  ultimately show ?thesis using arg_cong[OF builtin_scene_ids, of "\<lambda>xs. xs ! i"] by simp
qed

lemma of_nat_small_eq_iff: "i < 6 \<Longrightarrow> (of_nat i :: u32) = k \<longleftrightarrow> i = unat k"
  by (auto simp: unat_of_nat take_bit_nat_eq_self)

lemma scan_scenes_eq:
  assumes "\<forall>i \<in> set is. i < 6"
  shows "scan_scenes result key is = (if unat key \<in> set is then result (of_nat (unat key)) else NULL)"
  using assms by (induction "is") (auto simp: scene_id_nth of_nat_small_eq_iff)

lemma scan_all: "scan_scenes result key [0..<unat cart_scene_count] =
    (if key < 6 then result key else NULL)"
proof -
  have "scan_scenes result key [0..<unat cart_scene_count] =
      (if unat key < 6 then result (of_nat (unat key)) else NULL)"
    by (subst scan_scenes_eq) simp_all
  then show ?thesis by (simp add: word_less_nat_alt)
qed

lemma scene_lookups:
  "cart_scene_find key = (if key < 6 then Ptr (builtin_scenes ! unat key) else NULL)"
  "cart_scene_next key = (if key < 6 then Ptr (builtin_scenes ! unat ((key + 1) mod 6)) else NULL)"
  "cart_scene_previous key = (if key < 6 then Ptr (builtin_scenes ! unat ((key + 5) mod 6)) else NULL)"
  by (simp_all add: cart_scene_find_def cart_scene_next_def cart_scene_previous_def scan_all del: cart_scene_count_6)
    (simp_all add: algebra_simps)


lemma key_cases: "key < 6 \<Longrightarrow> key \<in> {0, 1, 2, 3, 4, 5 :: u32}"
proof -
  assume "key < 6"
  then have "unat key \<in> {0, 1, 2, 3, 4, 5}" by (auto simp: word_less_nat_alt)
  then show ?thesis by (auto simp: word_unat_eq_iff)
qed

text \<open>The registry is a ring.  A registered id is found at the index equal to it, its successor
  is the next id (the last wraps to the first), and the predecessor of the successor is the scene
  itself; every lookup of an id that is not registered gives NULL.\<close>

theorem scene_ring:
  "(key < 6 \<longrightarrow> cart_scene_find key = cart_scene_at key
     \<and> scene_id (deref (cart_scene_find key)) = key
     \<and> scene_id (deref (cart_scene_next key)) = (if key = 5 then 0 else key + 1)
     \<and> cart_scene_previous (scene_id (deref (cart_scene_next key))) = cart_scene_find key
     \<and> cart_scene_next (scene_id (deref (cart_scene_previous key))) = cart_scene_find key)
   \<and> (\<not> key < 6 \<longrightarrow> cart_scene_find key = NULL \<and> cart_scene_next key = NULL
        \<and> cart_scene_previous key = NULL \<and> cart_scene_at key = NULL)"
proof -
  have "cart_scene_find key = cart_scene_at key
     \<and> scene_id (deref (cart_scene_find key)) = key
     \<and> scene_id (deref (cart_scene_next key)) = (if key = 5 then 0 else key + 1)
     \<and> cart_scene_previous (scene_id (deref (cart_scene_next key))) = cart_scene_find key
     \<and> cart_scene_next (scene_id (deref (cart_scene_previous key))) = cart_scene_find key" if "key < 6"
    using key_cases[OF that]
    by (auto simp: scene_lookups cart_scene_at_def scene_id_nth word_less_nat_alt word_le_nat_alt)
  moreover have "cart_scene_find key = NULL \<and> cart_scene_next key = NULL
        \<and> cart_scene_previous key = NULL \<and> cart_scene_at key = NULL" if "\<not> key < 6"
    using that by (simp add: scene_lookups cart_scene_at_def not_less)
  ultimately show ?thesis by blast
qed

theorem scene_ring_witness: "scene_id (deref (cart_scene_next 5)) = 0 \<and> cart_scene_find 6 = NULL"
  using scene_ring[of 5] scene_ring[of 6] by (simp add: word_less_nat_alt)

end
