(* ===== verification/Legacy_Scenes.thy ===== *)
theory Legacy_Scenes
  imports Scene_Registry
begin

text \<open>
  The six scenes of the demo cart, \<open>cart/scenes/scene_2d_legacy.c\<close>.  A scene is rendered in two
  phases: the row phase computes every pixel of a band of rows and stores it at \<open>low[y * LW + x]\<close>,
  without looking at the geometry of the canvas; the overlay phase draws sprites and text with the
  clipped operations of \<open>Canvas\<close>.  The table of sines, which the C code fills with \<open>sinf\<close>, is a
  parameter: entry \<open>k\<close> of \<open>tb\<close> is the value \<open>(int)(sins[k] * 1024.0f)\<close>.  The frame number is reduced
  to 0..65535 first, so the \<open>int\<close> expressions of the scenes stay far inside 32 bits for rows of the
  canvas, and they are computed over \<open>int\<close> here; what the C code computes in \<open>unsigned\<close> is a word.

  The lemmas show that every drawing routine is a painter: on any well-formed canvas it is defined,
  and what it paints does not depend on what the canvas held before.
\<close>

abbreviation LW :: int where "LW \<equiv> 320"
abbreviation LH :: int where "LH \<equiv> 180"
abbreviation SCENES :: int where "SCENES \<equiv> 6"
abbreviation LEGACY_FRAME_PERIOD :: u64 where "LEGACY_FRAME_PERIOD \<equiv> 65536"

record cart_scene_render_context =
  ctx_canvas :: "cart_canvas ptr"
  row_start :: int
  row_end :: int
  ctx_frame :: u64
  ctx_phase :: cart_scene_phase

type_synonym drawing = "cart_canvas \<Rightarrow> cart_canvas option"

section \<open>Palette and sines\<close>

definition PAL :: "u32 list" where
  "PAL = [0xffb8a9f5, 0xffe8d6ff, 0xffffffff, 0xffface5b, 0xffe8bc49,
          0xffff8cc5, 0xffff6c9d, 0xffc8f7ff, 0xffa82a6b, 0xffa147f4]"

abbreviation pal :: "int \<Rightarrow> u32" where "pal i \<equiv> PAL ! nat i"

definition cart_legacy_scenes_init :: "(nat \<Rightarrow> int) \<Rightarrow> int \<times> int list" where
  "cart_legacy_scenes_init sine = (0, map sine [0..<2048])"

definition si :: "int list \<Rightarrow> int \<Rightarrow> int" where
  "si tb x = tb ! nat (x AND 2047)"

definition mix :: "u32 \<Rightarrow> u32 \<Rightarrow> int \<Rightarrow> u32" where
  "mix a b t = cart_mix a b (if t < 0 then 0 else word_of_int t)"

section \<open>Sprites and text\<close>

text \<open>The statements of a drawing routine, one after the other.\<close>

definition draw_all :: "drawing list \<Rightarrow> drawing" where
  "draw_all gs c = mfold (\<lambda>g. g) gs c"

definition px :: "int \<Rightarrow> int \<Rightarrow> u32 \<Rightarrow> drawing" where
  "px x y color c = map_option deref (cart_canvas_px (Ptr c) x y color)"

definition rect :: "int \<Rightarrow> int \<Rightarrow> int \<Rightarrow> int \<Rightarrow> u32 \<Rightarrow> drawing" where
  "rect x y w h color c = map_option deref (cart_canvas_rect (Ptr c) x y w h color)"

definition circle :: "int \<Rightarrow> int \<Rightarrow> int \<Rightarrow> u32 \<Rightarrow> drawing" where
  "circle cx cy r color c = map_option deref (cart_canvas_circle (Ptr c) cx cy r color)"

definition heart_shape :: "string list" where
  "heart_shape = [''01100110'', ''11111111'', ''11111111'', ''11111111'',
                  ''01111110'', ''00111100'', ''00011000'', ''00000000'']"

definition heart_cell :: "nat \<Rightarrow> nat \<Rightarrow> char" where
  "heart_cell y x = heart_shape ! y ! x"

definition heart_border :: "nat \<Rightarrow> nat \<Rightarrow> bool" where
  "heart_border y x \<longleftrightarrow> x = 0 \<or> x = 7 \<or> y = 0 \<or> y = 6
     \<or> (x > 0 \<and> heart_cell y (x - 1) = CHR ''0'')
     \<or> (x < 7 \<and> heart_cell y (x + 1) = CHR ''0'')
     \<or> (y > 0 \<and> heart_cell (y - 1) x = CHR ''0'')"

definition heart :: "int \<Rightarrow> int \<Rightarrow> int \<Rightarrow> u32 \<Rightarrow> u32 \<Rightarrow> drawing" where
  "heart cx cy s c edge = draw_all (
     [rect (cx + (int x - 4) * s) (cy + (int y - 3) * s) s s (if heart_border y x then edge else c).
        y \<leftarrow> [0..<8], x \<leftarrow> [0..<8], heart_cell y x = CHR ''1'']
     @ (if s > 1 then [rect (cx - 2 * s) (cy - 2 * s) s s 0xffffffff] else []))"

definition star :: "int \<Rightarrow> int \<Rightarrow> int \<Rightarrow> u32 \<Rightarrow> drawing" where
  "star cx cy r c = draw_all (concat (map (\<lambda>i.
     [px (cx + i) cy c, px cx (cy + i) c]
     @ (if \<bar>i\<bar> < r sdiv 2 + 1 then [px (cx + i) (cy + i) c, px (cx + i) (cy - i) c] else [])) [- r..r]))"

definition flower :: "int \<Rightarrow> int \<Rightarrow> int \<Rightarrow> u32 \<Rightarrow> u32 \<Rightarrow> drawing" where
  "flower cx cy s petal center = draw_all
     [circle (cx - s) cy s petal, circle (cx + s) cy s petal,
      circle cx (cy - s) s petal, circle cx (cy + s) s petal, circle cx cy s center]"

definition FONT :: "int list list" where
  "FONT = [
   [14,17,17,31,17,17,17], [30,17,17,30,17,17,30], [14,17,16,16,16,17,14],
   [30,17,17,17,17,17,30], [31,16,16,30,16,16,31], [31,16,16,30,16,16,16],
   [14,17,16,23,17,17,15], [17,17,17,31,17,17,17], [14,4,4,4,4,4,14],
   [7,2,2,2,18,18,12], [17,18,20,24,20,18,17], [16,16,16,16,16,16,31],
   [17,27,21,21,17,17,17], [17,25,21,19,17,17,17], [14,17,17,17,17,17,14],
   [30,17,17,30,16,16,16], [14,17,17,17,21,18,13], [30,17,17,30,20,18,17],
   [15,16,16,14,1,1,30], [31,4,4,4,4,4,4], [17,17,17,17,17,17,14],
   [17,17,17,17,17,10,4], [17,17,17,21,21,21,10], [17,17,10,4,10,17,17],
   [17,17,10,4,4,4,4], [31,1,2,4,8,16,31],
   [14,17,19,21,25,17,14], [4,12,4,4,4,4,14], [14,17,1,2,4,8,31],
   [30,1,1,14,1,1,30], [2,6,10,18,31,2,2], [31,16,16,30,1,1,30],
   [14,16,16,30,17,17,14], [31,1,2,4,8,8,8], [14,17,17,14,17,17,14],
   [14,17,17,15,1,1,14], [0,0,0,0,0,0,0]]"

definition font_index :: "char \<Rightarrow> nat" where
  "font_index c =
     (if of_char c \<ge> (65 :: nat) \<and> of_char c \<le> (90 :: nat) then of_char c - 65
      else if of_char c \<ge> (48 :: nat) \<and> of_char c \<le> (57 :: nat) then 26 + (of_char c - 48)
      else 36)"

definition glyph :: "int \<Rightarrow> int \<Rightarrow> char \<Rightarrow> int \<Rightarrow> u32 \<Rightarrow> drawing" where
  "glyph x y ch scale c = draw_all
     [rect (x + int xx * scale) (y + int yy * scale) scale scale c.
        yy \<leftarrow> [0..<7], xx \<leftarrow> [0..<5], FONT ! font_index ch ! yy AND push_bit (4 - xx) 1 \<noteq> 0]"

fun text_run :: "int \<Rightarrow> int \<Rightarrow> string \<Rightarrow> int \<Rightarrow> u32 \<Rightarrow> drawing" where
  "text_run x y [] scale c = Some"
| "text_run x y (ch # s) scale c = draw_all
     [if ch = CHR '' '' then Some else glyph x y ch scale c, text_run (x + 6 * scale) y s scale c]"

definition text_at :: "int \<Rightarrow> int \<Rightarrow> string \<Rightarrow> int \<Rightarrow> u32 \<Rightarrow> u32 \<Rightarrow> drawing" where
  "text_at x y s scale c shadow = draw_all
     [if shadow \<noteq> 0 then text_run (x + scale) (y + scale) s scale shadow else Some,
      text_run x y s scale c]"

definition text_center :: "int \<Rightarrow> string \<Rightarrow> int \<Rightarrow> u32 \<Rightarrow> u32 \<Rightarrow> drawing" where
  "text_center y s scale c shadow =
     (let w = (int (length s) * 6 - 1) * scale in text_at ((LW - w) sdiv 2) y s scale c shadow)"

section \<open>The row phase\<close>

text \<open>\<open>low[y * LW + x] = v\<close>, whatever the geometry of the canvas.\<close>

definition poke :: "int \<Rightarrow> int \<Rightarrow> u32 \<Rightarrow> drawing" where
  "poke y x v c = (case pixels c of NULL \<Rightarrow> None | Ptr buf \<Rightarrow>
     if y * LW + x < 0 then None
     else map_option (\<lambda>b. c\<lparr>pixels := Ptr b\<rparr>) (store buf (nat (y * LW + x)) v))"

definition scan_rows :: "(int \<Rightarrow> int \<Rightarrow> u32) \<Rightarrow> int \<Rightarrow> int \<Rightarrow> drawing" where
  "scan_rows colour y0 y1 c = mfold (\<lambda>y. mfold (\<lambda>x. poke y x (colour y x)) [0..LW - 1]) [y0..y1 - 1] c"

definition candy_colour :: "int list \<Rightarrow> int \<Rightarrow> int \<Rightarrow> int \<Rightarrow> u32" where
  "candy_colour tb t y x =
     (let dx = x - 160; dy = y - 90;
         d = drop_bit 4 (dx * dx + dy * dy);
         warp = si tb ((x * 9 + t * 11) AND 2047) + si tb ((y * 13 - t * 7) AND 2047);
         band = drop_bit 4 (d + drop_bit 7 warp - t * 8) AND 7;
         a = pal (band mod 5); b = pal ((band + 1) mod 5)
     in mix a b (drop_bit 3 (si tb (d * 5 + t * 17) + 1024)))"

definition scene_candy :: "int list \<Rightarrow> int \<Rightarrow> int \<Rightarrow> int \<Rightarrow> drawing" where
  "scene_candy tb y0 y1 t = scan_rows (candy_colour tb t) y0 y1"

definition checker_colour :: "int list \<Rightarrow> int \<Rightarrow> int \<Rightarrow> int \<Rightarrow> u32" where
  "checker_colour tb t y x =
     (let yy = y + drop_bit 8 (si tb (x * 10 + t * 14));
         xx = x + drop_bit 8 (si tb (y * 13 - t * 9));
         q = (drop_bit 3 xx XOR drop_bit 3 yy) AND 1;
         glow = drop_bit 4 (si tb (x * 6 + y * 8 + t * 12) + 1024)
     in mix (if q \<noteq> 0 then pal 0 else pal 4) (if q \<noteq> 0 then pal 2 else pal 5) glow)"

definition scene_checker :: "int list \<Rightarrow> int \<Rightarrow> int \<Rightarrow> int \<Rightarrow> drawing" where
  "scene_checker tb y0 y1 t = scan_rows (checker_colour tb t) y0 y1"

definition bubble_x :: "int list \<Rightarrow> int \<Rightarrow> int \<Rightarrow> int" where
  "bubble_x tb t i = 160 + drop_bit 10 (si tb (t * (7 + i) + i * 273) * (45 + i * 5))"

definition bubble_y :: "int list \<Rightarrow> int \<Rightarrow> int \<Rightarrow> int" where
  "bubble_y tb t i = 90 + drop_bit 10 (si tb (t * (9 + i) + i * 411) * (28 + i * 4))"

definition bubble_field :: "int list \<Rightarrow> int \<Rightarrow> int \<Rightarrow> int \<Rightarrow> int" where
  "bubble_field tb t y x = sum_list (map (\<lambda>i.
     let dx = x - bubble_x tb t i; dy = y - bubble_y tb t i
     in (9000 + i * 700) sdiv (18 + dx * dx + dy * dy)) [0..6])"

definition bubbles_colour :: "int list \<Rightarrow> int \<Rightarrow> int \<Rightarrow> int \<Rightarrow> u32" where
  "bubbles_colour tb t y x =
     (let field = bubble_field tb t y x;
         wave = drop_bit 5 (si tb (x * 8 - y * 6 + t * 18) + 1024)
     in if field > 22 then mix (pal 1) (pal 5) ((field * 9 + wave) AND 255)
        else mix (pal 8) (pal 6) wave)"

definition scene_bubbles :: "int list \<Rightarrow> int \<Rightarrow> int \<Rightarrow> int \<Rightarrow> drawing" where
  "scene_bubbles tb y0 y1 t = scan_rows (bubbles_colour tb t) y0 y1"

definition ribbons_colour :: "int list \<Rightarrow> int \<Rightarrow> int \<Rightarrow> int \<Rightarrow> u32" where
  "ribbons_colour tb t y x =
     (let wave = 90 + drop_bit 5 (si tb (x * 12 + t * 13));
         wave2 = 90 + drop_bit 4 (si tb (x * 9 - t * 17 + 500));
         d1 = \<bar>y - wave\<bar>; d2 = \<bar>y - wave2\<bar>;
         base = mix (pal 3) (pal 1) ((y * 255) sdiv LH);
         base = (if d1 < 8 then mix (pal 0) (pal 2) (d1 * 30) else base);
         base = (if d2 < 5 then mix (pal 6) (pal 2) (d2 * 45) else base)
     in base)"

definition scene_ribbons :: "int list \<Rightarrow> int \<Rightarrow> int \<Rightarrow> int \<Rightarrow> drawing" where
  "scene_ribbons tb y0 y1 t = scan_rows (ribbons_colour tb t) y0 y1"

definition chrome_colour :: "int list \<Rightarrow> int \<Rightarrow> int \<Rightarrow> int \<Rightarrow> u32" where
  "chrome_colour tb t y x =
     (if y < 95 then let glow = drop_bit 4 (si tb (x * 5 + y * 4) + 1024) in mix (pal 8) (pal 0) glow
     else
       let z = y - 94;
           horizon = (z * 13) AND 31 < 2;
           van = (x - 160) * 90 sdiv (z + 8);
           vertical = \<bar>van\<bar> mod 42 < 2
       in if horizon \<or> vertical then pal 2 else mix (pal 6) (pal 8) z)"

definition scene_chrome :: "int list \<Rightarrow> int \<Rightarrow> int \<Rightarrow> int \<Rightarrow> drawing" where
  "scene_chrome tb y0 y1 t = scan_rows (chrome_colour tb t) y0 y1"

definition sugar_colour :: "int list \<Rightarrow> int \<Rightarrow> int \<Rightarrow> int \<Rightarrow> u32" where
  "sugar_colour tb t y x =
     (let a = si tb (x * 10 + t * 13); b = si tb (y * 14 - t * 9); c = si tb ((x + y) * 7 + t * 5);
         v = (a + b + c + 3072) sdiv 12;
         stripe = drop_bit 3 (x + y + drop_bit 7 (si tb (t * 17 + x * 3))) AND 3
     in mix (pal (stripe mod 5)) (pal ((stripe + 2) mod 5)) (v AND 255))"

definition scene_sugar :: "int list \<Rightarrow> int \<Rightarrow> int \<Rightarrow> int \<Rightarrow> drawing" where
  "scene_sugar tb y0 y1 t = scan_rows (sugar_colour tb t) y0 y1"

section \<open>The overlay phase\<close>

definition rng32 :: "u32 \<Rightarrow> u32" where
  "rng32 x = (let x = x XOR drop_bit 16 x; x = x * 0x7feb352d;
                  x = x XOR drop_bit 15 x; x = x * 0x846ca68b
              in x XOR drop_bit 16 x)"

definition overlay_candy :: "int \<Rightarrow> drawing" where
  "overlay_candy t = draw_all (
     map (\<lambda>i. let r = rng32 (word_of_int i * 991);
                  x = uint ((r + word_of_int (t * (1 + i mod 3))) mod 320);
                  y = uint ((drop_bit 11 r + word_of_int (i * 17)) mod 180)
              in star x y (2 + i mod 3) (pal 2)) [0..17]
     @ [heart 160 82 5 (pal 0) (pal 8), text_center 139 ''CANDY VORTEX'' 3 (pal 2) (pal 8)])"

definition overlay_girl_mode :: "int \<Rightarrow> drawing" where
  "overlay_girl_mode t = draw_all (
     map (\<lambda>i. let r = rng32 (word_of_int i * 1777);
                  x = sint (r mod 340 - 10);
                  y = sint ((drop_bit 10 r + word_of_int (t * (2 + i mod 4))) mod 210 - 15)
              in heart x y (1 + (if i mod 3 = 0 then 1 else 0)) (pal (i mod 5)) (pal 8)) [0..23]
     @ [text_center 72 ''GIRL MODE'' 5 (pal 2) (pal 8), text_center 119 ''MAXIMUM'' 4 (pal 0) (pal 8)])"

definition overlay_bubblegum :: "int \<Rightarrow> drawing" where
  "overlay_bubblegum t = draw_all (
     map (\<lambda>i. let r = rng32 (word_of_int i * 31337)
              in star (uint (r mod 320)) (uint (drop_bit 10 r mod 180)) (1 + i mod 3) (pal 2)) [0..19]
     @ [text_center 14 ''BUBBLEGUM'' 5 (pal 2) (pal 8), text_center 145 ''OVERDRIVE'' 4 (pal 0) (pal 8)])"

definition butterfly :: "int list \<Rightarrow> int \<Rightarrow> int \<Rightarrow> drawing" where
  "butterfly tb t i =
     (let x = (i * 29 + t * (i mod 3 + 1)) mod 350 - 15;
          y = 70 + drop_bit 10 (si tb (t * (8 + i) + i * 193) * 55);
          left = pal (i mod 5); right = pal ((i + 3) mod 5)
      in draw_all (
        [circle (x - 4) (y - 2) 3 left, circle (x + 4) (y - 2) 3 right,
         circle (x - 3) (y + 3) 2 left, circle (x + 3) (y + 3) 2 right,
         rect (x - 1) (y - 4) 2 9 (pal 8)]
        @ (if (i + t div 3) mod 4 = 0 then [star (x - 10) (y + 5) 2 (pal 2)] else [])))"

definition overlay_butterfly_riot :: "int list \<Rightarrow> int \<Rightarrow> drawing" where
  "overlay_butterfly_riot tb t = draw_all (
     map (butterfly tb t) [0..23]
     @ map (\<lambda>i. flower ((i * 41 + t) mod 340 - 10) (20 + (i * 23) mod 140) 2 (pal ((i + 1) mod 5)) (pal 2)) [0..11]
     @ [text_center 143 ''BUTTERFLY RIOT'' 3 (pal 2) (pal 8)])"

definition overlay_hyperdrive :: "int list \<Rightarrow> int \<Rightarrow> drawing" where
  "overlay_hyperdrive tb t =
     (let cx = 160 + drop_bit 10 (si tb (t * 9) * 28);
          cy = 67 + drop_bit 10 (si tb (t * 13) * 9);
          r = 39
      in draw_all (
        [px (cx + x) (cy + y) (pal ((((y + r) * 10) div (2 * r + 1)) mod 8)).
           y \<leftarrow> [- r..r], x \<leftarrow> [- r..r], x * x + y * y \<le> r * r]
        @ [circle (cx - 13) (cy - 15) 7 0xffffffff, star (cx - 17) (cy - 18) 6 0xffffffff,
           text_center 11 ''SHE HER'' 6 (pal 2) (pal 8), text_center 143 ''HYPERDRIVE'' 4 (pal 0) (pal 8)]))"

definition overlay_too_much :: "int \<Rightarrow> drawing" where
  "overlay_too_much t = draw_all (
     map (\<lambda>i. let r = rng32 (word_of_int i * 7331);
                  x = uint (r mod 320); y = uint (drop_bit 10 r mod 180); s = 1 + i mod 3
              in if i mod 3 = 0 then heart x y s (pal (i mod 5)) (pal 8)
                 else if i mod 3 = 1 then flower x y (2 + s) (pal (i mod 5)) (pal 2)
                 else star x y (2 + s) (pal 2)) [0..34]
     @ [text_center 54 ''TOO MUCH'' 6 (pal 2) (pal 8), text_center 104 ''IS ENOUGH'' 5 (pal 9) (pal 8)])"

definition scene_dots :: "int \<Rightarrow> drawing" where
  "scene_dots which = draw_all (map (\<lambda>i.
     circle (145 + i * 6) 171 (if i = which then 2 else 1) (if i = which then pal 2 else pal 8)) [0..SCENES - 1])"

definition overlay :: "int list \<Rightarrow> int \<Rightarrow> int \<Rightarrow> drawing" where
  "overlay tb which t = draw_all
     [if which = 0 then overlay_candy t
      else if which = 1 then overlay_girl_mode t
      else if which = 2 then overlay_bubblegum t
      else if which = 3 then overlay_butterfly_riot tb t
      else if which = 4 then overlay_hyperdrive tb t
      else overlay_too_much t,
      scene_dots which]"

section \<open>Dispatch\<close>

definition legacy_frame_phase :: "u64 \<Rightarrow> int" where
  "legacy_frame_phase frame = uint (frame mod LEGACY_FRAME_PERIOD)"

definition scene_rows :: "int list \<Rightarrow> int \<Rightarrow> int \<Rightarrow> int \<Rightarrow> int \<Rightarrow> drawing" where
  "scene_rows tb which =
     (if which = 0 then scene_candy tb else if which = 1 then scene_checker tb
      else if which = 2 then scene_bubbles tb else if which = 3 then scene_ribbons tb
      else if which = 4 then scene_chrome tb else scene_sugar tb)"

text \<open>The colours that the row phase of a scene computes.\<close>

definition scene_colour :: "int list \<Rightarrow> int \<Rightarrow> int \<Rightarrow> int \<Rightarrow> int \<Rightarrow> u32" where
  "scene_colour tb which =
     (if which = 0 then candy_colour tb else if which = 1 then checker_colour tb
      else if which = 2 then bubbles_colour tb else if which = 3 then ribbons_colour tb
      else if which = 4 then chrome_colour tb else sugar_colour tb)"

definition render_legacy_scene ::
  "int list \<Rightarrow> cart_scene_render_context ptr \<Rightarrow> int \<Rightarrow> cart_scene_render_context ptr option" where
  "render_legacy_scene tb context which = (case context of NULL \<Rightarrow> Some NULL | Ptr ctx \<Rightarrow>
     (case ctx_canvas ctx of NULL \<Rightarrow> Some context | Ptr c \<Rightarrow>
        if which < 0 \<or> which \<ge> SCENES then Some context
        else let frame = legacy_frame_phase (ctx_frame ctx) in
          map_option (\<lambda>d. Ptr (ctx\<lparr>ctx_canvas := Ptr d\<rparr>))
            (case ctx_phase ctx of
               CART_SCENE_RENDER_ROWS \<Rightarrow> scene_rows tb which (row_start ctx) (row_end ctx) frame c
             | CART_SCENE_RENDER_OVERLAY \<Rightarrow> overlay tb which frame c)))"

fun scene_number :: "cart_scene_render_fn \<Rightarrow> int" where
  "scene_number cart_legacy_scene_candy = 0"
| "scene_number cart_legacy_scene_girl_mode = 1"
| "scene_number cart_legacy_scene_bubblegum = 2"
| "scene_number cart_legacy_scene_butterfly_riot = 3"
| "scene_number cart_legacy_scene_hyperdrive = 4"
| "scene_number cart_legacy_scene_too_much = 5"

definition cart_legacy_scene ::
  "int list \<Rightarrow> cart_scene_render_fn \<Rightarrow> cart_scene_render_context ptr \<Rightarrow> cart_scene_render_context ptr option" where
  "cart_legacy_scene tb fn context = render_legacy_scene tb context (scene_number fn)"

section \<open>Painters\<close>

text \<open>
  The contract of a drawing routine: on every well-formed canvas it is defined and paints one fixed
  shape, in opaque colours.
\<close>

definition opaque :: "u32 \<Rightarrow> bool" where
  "opaque v \<longleftrightarrow> drop_bit 24 v = 0xff"

definition opaque_shape :: "shape \<Rightarrow> bool" where
  "opaque_shape f \<longleftrightarrow> (\<forall>x y v. f x y = Some v \<longrightarrow> opaque v)"

definition paints :: "shape \<Rightarrow> drawing \<Rightarrow> bool" where
  "paints f g \<longleftrightarrow> (\<forall>c. wf_canvas c \<longrightarrow> (\<exists>d. g c = Some d \<and> painted f c d))"

definition painter :: "drawing \<Rightarrow> bool" where
  "painter g \<longleftrightarrow> (\<exists>f. opaque_shape f \<and> paints f g)"

named_theorems painters \<open>drawing routines that are painters\<close>

lemma paints_seq:
  assumes "paints f g" "paints f' g'"
  shows "paints (paint_over f f') (\<lambda>c. case g c of None \<Rightarrow> None | Some d \<Rightarrow> g' d)"
  unfolding paints_def
proof (intro allI impI)
  fix c assume wf: "wf_canvas c"
  obtain d where d: "g c = Some d" "painted f c d" using assms(1) wf by (auto simp: paints_def)
  obtain e where e: "g' d = Some e" "painted f' d e"
    using assms(2) painted_wf[OF d(2) wf] by (auto simp: paints_def)
  show "\<exists>e. (case g c of None \<Rightarrow> None | Some d \<Rightarrow> g' d) = Some e \<and> painted (paint_over f f') c e"
    using d(1) e(1) painted_trans[OF d(2) e(2)] by auto
qed

lemma opaque_paint_over: "opaque_shape f \<Longrightarrow> opaque_shape g \<Longrightarrow> opaque_shape (paint_over f g)"
  by (auto simp: opaque_shape_def paint_over_def split: option.splits)

lemma painter_Some [painters]: "painter Some"
  unfolding painter_def
  by (intro exI[of _ "\<lambda>_ _. None"]) (auto simp: opaque_shape_def paints_def intro!: painted_refl wf_canvas_pixels)

lemma painter_draw_all [painters]:
  assumes "\<And>g. g \<in> set gs \<Longrightarrow> painter g"
  shows "painter (draw_all gs)"
  using assms
proof (induction gs)
  case Nil
  have "draw_all [] = Some" by (simp add: draw_all_def fun_eq_iff)
  then show ?case by (simp add: painter_Some)
next
  case (Cons g gs)
  obtain f where f: "opaque_shape f" "paints f g" using Cons.prems[of g] by (auto simp: painter_def)
  obtain f' where f': "opaque_shape f'" "paints f' (draw_all gs)"
    using Cons by (auto simp: painter_def)
  have "draw_all (g # gs) = (\<lambda>c. case g c of None \<Rightarrow> None | Some d \<Rightarrow> draw_all gs d)"
    by (simp add: draw_all_def fun_eq_iff split: option.split)
  then show ?case
    unfolding painter_def using paints_seq[OF f(2) f'(2)] opaque_paint_over[OF f(1) f'(1)] by auto
qed

text \<open>The six clipped primitives.\<close>

lemma painter_px [painters]:
  assumes "in_int32 x" "in_int32 y" "opaque v"
  shows "painter (px x y v)"
  unfolding painter_def paints_def
  using cart_canvas_px_painted[OF _ assms(1,2), of _ v] assms(3)
  by (intro exI[of _ "px_shape x y v"]) (fastforce simp: px_def opaque_shape_def px_shape_def split: if_splits)

lemma painter_rect [painters]: "opaque v \<Longrightarrow> painter (rect x y w h v)"
  unfolding painter_def paints_def
  using cart_canvas_rect_painted[of _ x y w h v]
  by (intro exI[of _ "rect_shape x y w h v"]) (fastforce simp: rect_def opaque_shape_def rect_shape_def split: if_splits)

lemma painter_circle [painters]: "opaque v \<Longrightarrow> painter (circle x y r v)"
  unfolding painter_def paints_def
  using cart_canvas_circle_painted[of _ x y r v]
  by (intro exI[of _ "circle_shape x y r v"]) (fastforce simp: circle_def opaque_shape_def circle_shape_def split: if_splits)

section \<open>Colours are opaque\<close>

lemma opaque_mix [simp]: "opaque (mix a b t)"
  by (simp add: opaque_def mix_def cart_mix_def Let_def)

lemma opaque_pal [simp]: "k < 10 \<Longrightarrow> opaque (PAL ! k)"
proof -
  have "list_all opaque PAL" by (simp add: PAL_def opaque_def)
  moreover have "length PAL = 10" by (simp add: PAL_def)
  ultimately show "k < 10 \<Longrightarrow> opaque (PAL ! k)" by (simp add: list_all_length)
qed

lemma opaque_white [simp]: "opaque 0xffffffff"
  by (simp add: opaque_def)

section \<open>Sprites are painters\<close>

lemma painter_heart [painters]: "opaque c \<Longrightarrow> opaque edge \<Longrightarrow> painter (heart cx cy s c edge)"
  unfolding heart_def by (rule painter_draw_all) (auto split: if_splits intro: painters)

lemma painter_star [painters]:
  assumes "\<bar>cx\<bar> \<le> 1000000" "\<bar>cy\<bar> \<le> 1000000" "r \<le> 1000" "opaque c"
  shows "painter (star cx cy r c)"
  unfolding star_def
  by (rule painter_draw_all) (use assms in \<open>auto simp: in_int32_def split: if_splits intro!: painter_px\<close>)

lemma painter_flower [painters]: "opaque a \<Longrightarrow> opaque b \<Longrightarrow> painter (flower cx cy s a b)"
  unfolding flower_def by (rule painter_draw_all) (auto intro: painters)

lemma painter_glyph [painters]: "opaque c \<Longrightarrow> painter (glyph x y ch scale c)"
  unfolding glyph_def by (rule painter_draw_all) (auto intro: painters)

lemma painter_text_run [painters]: "opaque c \<Longrightarrow> painter (text_run x y s scale c)"
proof (induction s arbitrary: x)
  case Nil
  then show ?case by (simp add: painter_Some)
next
  case (Cons ch s)
  show ?case unfolding text_run.simps
    by (rule painter_draw_all) (use Cons in \<open>auto intro: painters\<close>)
qed

lemma painter_text_center [painters]:
  "opaque c \<Longrightarrow> opaque shadow \<Longrightarrow> painter (text_center y s scale c shadow)"
  unfolding text_center_def text_at_def Let_def by (rule painter_draw_all) (auto intro: painters)

section \<open>The overlay is a painter\<close>

text \<open>What is used of the table of sines: its length, and that no value is larger than 1024.\<close>

definition sine_table :: "int list \<Rightarrow> bool" where
  "sine_table tb \<longleftrightarrow> length tb = 2048 \<and> (\<forall>v \<in> set tb. \<bar>v\<bar> \<le> 1024)"

lemma and_2047: "(x :: int) AND 2047 = x mod 2048"
proof -
  have m: "(2047 :: int) = mask 11" by (simp add: mask_eq_exp_minus_1)
  show ?thesis unfolding m take_bit_eq_mask[symmetric] by (simp add: take_bit_eq_mod)
qed

lemma si_bound: "sine_table tb \<Longrightarrow> \<bar>si tb x\<bar> \<le> 1024"
  by (simp add: si_def sine_table_def and_2047 nat_less_iff)

lemma shifted_sine:
  assumes "sine_table tb" "0 \<le> k" "k \<le> 64"
  shows "- 64 \<le> drop_bit 10 (si tb x * k) \<and> drop_bit 10 (si tb x * k) \<le> 64"
proof -
  have "\<bar>si tb x * k\<bar> \<le> 1024 * 64"
    unfolding abs_mult using si_bound[OF assms(1), of x] assms(2,3) by (intro mult_mono) auto
  then have "- 64 \<le> (si tb x * k) div 1024 \<and> (si tb x * k) div 1024 \<le> 64" by linarith
  then show ?thesis by (simp add: drop_bit_eq_div)
qed

lemma uint_mod_small: "uint ((w :: u32) mod 320) < 320" "uint ((w :: u32) mod 180) < 180"
  by (simp_all add: uint_mod)

lemmas place_bounds = uint_mod_small[THEN less_imp_le, THEN order_trans]

lemma painter_overlay_candy [painters]: "painter (overlay_candy t)"
  unfolding overlay_candy_def Let_def
  by (rule painter_draw_all) (auto intro!: painters place_bounds)

lemma painter_overlay_girl_mode [painters]: "painter (overlay_girl_mode t)"
  unfolding overlay_girl_mode_def Let_def
  by (rule painter_draw_all) (auto intro!: painters)

lemma painter_overlay_bubblegum [painters]: "painter (overlay_bubblegum t)"
  unfolding overlay_bubblegum_def Let_def
  by (rule painter_draw_all) (auto intro!: painters place_bounds)

lemma painter_butterfly [painters]: 
  assumes "sine_table tb" "0 \<le> i"
  shows "painter (butterfly tb t i)"
proof -
  have y: "- 64 \<le> drop_bit 10 (si tb (t * (8 + i) + i * 193) * 55) \<and> drop_bit 10 (si tb (t * (8 + i) + i * 193) * 55) \<le> 64"
    by (rule shifted_sine[OF assms(1)]) simp_all
  have x: "0 \<le> (i * 29 + t * (i mod 3 + 1)) mod 350" "(i * 29 + t * (i mod 3 + 1)) mod 350 < 350" by simp_all
  show ?thesis unfolding butterfly_def Let_def
    by (rule painter_draw_all) (use y x assms(2) in \<open>auto intro!: painters split: if_splits\<close>)
qed

lemma painter_overlay_butterfly_riot [painters]: "sine_table tb \<Longrightarrow> painter (overlay_butterfly_riot tb t)"
  unfolding overlay_butterfly_riot_def
  by (rule painter_draw_all) (auto intro!: painters)

lemma painter_disc:
  assumes "\<bar>cx\<bar> \<le> 1000" "\<bar>cy\<bar> \<le> 1000" "g \<in> set [px (cx + x) (cy + y) (pal (colour y mod 8)).
    y \<leftarrow> [- r..r], x \<leftarrow> [- r..r], P x y]" "r \<le> 1000"
  shows "painter g"
proof -
  obtain x y where g: "g = px (cx + x) (cy + y) (pal (colour y mod 8))" and xy: "x \<in> {- r..r}" "y \<in> {- r..r}"
    using assms(3) by auto
  have "nat (colour y mod 8) < 10" by (simp add: nat_less_iff order_less_trans[OF pos_mod_bound])
  then show ?thesis unfolding g using assms(1,2,4) xy by (intro painter_px opaque_pal) (auto simp: in_int32_def)
qed

lemma painter_overlay_hyperdrive [painters]:
  assumes "sine_table tb"
  shows "painter (overlay_hyperdrive tb t)"
proof -
  define cx cy where "cx = 160 + drop_bit 10 (si tb (t * 9) * 28)" and "cy = 67 + drop_bit 10 (si tb (t * 13) * 9)"
  have b: "\<bar>cx\<bar> \<le> 1000" "\<bar>cy\<bar> \<le> 1000"
    using shifted_sine[OF assms, of 28 "t * 9"] shifted_sine[OF assms, of 9 "t * 13"] by (simp_all add: cx_def cy_def)
  have "painter g" if "g \<in> set [circle (cx - 13) (cy - 15) 7 0xffffffff, star (cx - 17) (cy - 18) 6 0xffffffff,
      text_center 11 ''SHE HER'' 6 (pal 2) (pal 8), text_center 143 ''HYPERDRIVE'' 4 (pal 0) (pal 8)]" for g
    using that b by (auto intro!: painters)
  moreover have "painter g" if "g \<in> set [px (cx + x) (cy + y) (pal ((((y + 39) * 10) div (2 * 39 + 1)) mod 8)).
      y \<leftarrow> [- 39..39], x \<leftarrow> [- 39..39], x * x + y * y \<le> 39 * 39]" for g
    by (rule painter_disc[OF b that]) simp
  ultimately show ?thesis
    unfolding overlay_hyperdrive_def Let_def cx_def[symmetric] cy_def[symmetric]
    by (intro painter_draw_all) (unfold set_append, blast)
qed

lemma painter_overlay_too_much [painters]: "painter (overlay_too_much t)"
  unfolding overlay_too_much_def Let_def
  by (rule painter_draw_all) (auto intro!: painters place_bounds)

lemma painter_overlay [painters]: "sine_table tb \<Longrightarrow> painter (overlay tb which t)"
  unfolding overlay_def scene_dots_def
  by (rule painter_draw_all) (auto intro!: painters)

lemma overlay_shape:
  assumes "sine_table tb"
  obtains f where "opaque_shape f" "paints f (overlay tb which t)"
  using painter_overlay[OF assms, of which t] by (auto simp: painter_def)

section \<open>The row phase paints a band\<close>

text \<open>The canvas of the cart: 320 by 180 words, without padding.\<close>

definition stage :: "cart_canvas \<Rightarrow> bool" where
  "stage c \<longleftrightarrow> wf_canvas c \<and> width c = 320 \<and> height c = 180 \<and> stride c = 320"

definition band_shape :: "(int \<Rightarrow> int \<Rightarrow> u32) \<Rightarrow> int \<Rightarrow> int \<Rightarrow> shape" where
  "band_shape colour y0 y1 = (\<lambda>x y. if y0 \<le> y \<and> y < y1 then Some (colour y x) else None)"

lemma painted_stage: "painted f c d \<Longrightarrow> stage c \<Longrightarrow> stage d"
  by (simp add: stage_def painted_wf painted_frame)

lemma in_stage: "stage c \<Longrightarrow> in_canvas c x y \<longleftrightarrow> 0 \<le> x \<and> x < LW \<and> 0 \<le> y \<and> y < LH"
  by (simp add: stage_def in_canvas_def)

lemma poke_put_word:
  assumes "stage c" "in_canvas c x y"
  shows "poke y x v c = put_word c x y v"
proof -
  have wf: "wf_canvas c" "stride c = 320" using assms(1) by (simp_all add: stage_def)
  have xy: "0 \<le> x" "x < 320" "0 \<le> y" "y < 180" using assms in_stage by auto
  have "nat (y * LW + x) = nat y * unat (stride c) + nat x"
    using xy wf(2) by (simp add: nat_add_distrib nat_mult_distrib)
  then show ?thesis
    using pixel_index_in_canvas(1)[OF wf(1) assms(2)] xy
    by (simp add: poke_def put_word_def split: ptr.split option.split)
qed

lemma scan_rows_painted:
  assumes "stage c" "0 \<le> y0" "y1 \<le> LH"
  shows "\<exists>d. scan_rows colour y0 y1 c = Some d \<and> painted (band_shape colour y0 y1) c d"
proof -
  let ?ps = "List.product [y0..y1 - 1] [0..LW - 1]"
  let ?put = "\<lambda>p d. if True then put_word d (snd p) (fst p) (colour (fst p) (snd p)) else Some d"
  have wf: "wf_canvas c" using assms(1) by (simp add: stage_def)
  have inside: "in_canvas d (snd p) (fst p)" if "p \<in> set ?ps" "stage d" for p d
    using that assms(2,3) by (auto simp: in_stage)
  have "mfold (\<lambda>p. poke (fst p) (snd p) (colour (fst p) (snd p))) ?ps c = mfold ?put ?ps c"
  proof (rule mfold_cong_inv[where I = stage])
    show "stage c" by (rule assms(1))
    show "poke (fst p) (snd p) (colour (fst p) (snd p)) d = ?put p d" if "p \<in> set ?ps" "stage d" for p d
      using poke_put_word[OF that(2) inside[OF that]] by simp
    show "stage e" if p: "p \<in> set ?ps" and d: "stage d" and e: "?put p d = Some e" for p d e
      using e put_word_in_canvas[OF _ inside[OF p d]] d
      by (auto simp: stage_def wf_canvas_iff canvas_words_def)
  qed
  moreover have "\<exists>d. mfold ?put ?ps c = Some d \<and> painted (band_shape colour y0 y1) c d"
  proof (rule draw_painted[OF wf])
    show "in_canvas c (snd p) (fst p) \<and> band_shape colour y0 y1 (snd p) (fst p) = Some (colour (fst p) (snd p))"
      if "p \<in> set ?ps" for p
      using inside[OF that assms(1)] that by (auto simp: band_shape_def)
    show "\<exists>p \<in> set ?ps. True \<and> snd p = x \<and> fst p = y"
      if "in_canvas c x y" "band_shape colour y0 y1 x y = Some v" for x y v
      using that in_stage[OF assms(1)] by (auto simp: band_shape_def split: if_splits)
  qed
  ultimately show ?thesis
    by (simp add: scan_rows_def mfold_product case_prod_beta')
qed

section \<open>Rendering\<close>

lemma scene_rows_scan: "scene_rows tb which y0 y1 t = scan_rows (scene_colour tb which t) y0 y1"
  by (simp add: scene_rows_def scene_colour_def scene_candy_def scene_checker_def scene_bubbles_def
      scene_ribbons_def scene_chrome_def scene_sugar_def)

lemma opaque_scene_colour: "opaque (scene_colour tb which t y x)"
  by (simp add: scene_colour_def candy_colour_def checker_colour_def bubbles_colour_def
      ribbons_colour_def chrome_colour_def sugar_colour_def Let_def)

lemma scene_number_range: "0 \<le> scene_number fn \<and> scene_number fn < SCENES"
  by (cases fn) simp_all

lemma cart_legacy_scene_rows:
  assumes "ctx_canvas ctx = Ptr c" "stage c" "0 \<le> row_start ctx" "row_end ctx \<le> LH" "ctx_phase ctx = CART_SCENE_RENDER_ROWS"
  shows "\<exists>d. cart_legacy_scene tb fn (Ptr ctx) = Some (Ptr (ctx\<lparr>ctx_canvas := Ptr d\<rparr>))
    \<and> painted (band_shape (scene_colour tb (scene_number fn) (legacy_frame_phase (ctx_frame ctx))) (row_start ctx) (row_end ctx)) c d"
  using scan_rows_painted[OF assms(2-4), of "scene_colour tb (scene_number fn) (legacy_frame_phase (ctx_frame ctx))"]
    assms(1,5) scene_number_range[of fn]
  by (auto simp: cart_legacy_scene_def render_legacy_scene_def Let_def scene_rows_scan)

lemma cart_legacy_scene_overlay:
  assumes "ctx_canvas ctx = Ptr c" "stage c" "ctx_phase ctx = CART_SCENE_RENDER_OVERLAY"
    and "paints f (overlay tb (scene_number fn) (legacy_frame_phase (ctx_frame ctx)))"
  shows "\<exists>d. cart_legacy_scene tb fn (Ptr ctx) = Some (Ptr (ctx\<lparr>ctx_canvas := Ptr d\<rparr>)) \<and> painted f c d"
  using assms scene_number_range[of fn]
  by (fastforce simp: cart_legacy_scene_def render_legacy_scene_def Let_def paints_def stage_def)

text \<open>The row phase.  Rendering a band of rows of the cart's canvas is memory safe, gives every
  pixel of the band the colour of the scene at the frame, which is opaque and does not depend on the
  band or on the old contents, and leaves every other word of the buffer alone.\<close>

theorem rows_paint_their_band:
  assumes "stage c" "0 \<le> y0" "y1 \<le> LH" "sine_table tb"
    and "ctx = \<lparr>ctx_canvas = Ptr c, row_start = y0, row_end = y1, ctx_frame = frame, ctx_phase = CART_SCENE_RENDER_ROWS\<rparr>"
  shows "\<exists>d. cart_legacy_scene tb fn (Ptr ctx) = Some (Ptr (ctx\<lparr>ctx_canvas := Ptr d\<rparr>)) \<and> stage d
    \<and> (\<forall>x y. 0 \<le> x \<and> x < LW \<and> 0 \<le> y \<and> y < LH \<longrightarrow> pixel d x y =
         (if y0 \<le> y \<and> y < y1 then scene_colour tb (scene_number fn) (uint frame mod 65536) y x else pixel c x y))
    \<and> (\<forall>x y. opaque (scene_colour tb (scene_number fn) (uint frame mod 65536) y x))
    \<and> (\<forall>k. canvas_words c \<le> k \<and> k < length (deref (pixels c)) \<longrightarrow> deref (pixels d) ! k = deref (pixels c) ! k)"
proof -
  let ?col = "scene_colour tb (scene_number fn) (uint frame mod 65536)"
  have frame: "legacy_frame_phase frame = uint frame mod 65536"
    by (simp add: legacy_frame_phase_def uint_mod)
  obtain d where d: "cart_legacy_scene tb fn (Ptr ctx) = Some (Ptr (ctx\<lparr>ctx_canvas := Ptr d\<rparr>))"
      "painted (band_shape ?col y0 y1) c d"
    using cart_legacy_scene_rows[of ctx c tb fn] assms frame by auto
  have wf: "wf_canvas c" using assms(1) by (simp add: stage_def)
  have pix: "pixel d x y = (if y0 \<le> y \<and> y < y1 then ?col y x else pixel c x y)"
    if "0 \<le> x \<and> x < LW \<and> 0 \<le> y \<and> y < LH" for x y
    using painted_pixel[OF d(2) wf, of x y] in_stage[OF assms(1)] that by (simp add: band_shape_def)
  have rest: "deref (pixels d) ! k = deref (pixels c) ! k" if "canvas_words c \<le> k" "k < length (deref (pixels c))" for k
    by (rule painted_beyond[OF d(2) wf that])
  show ?thesis
    using d(1) painted_stage[OF d(2) assms(1)] pix rest opaque_scene_colour
    by (intro exI[of _ d]) blast
qed

definition blank_stage :: cart_canvas where
  "blank_stage = \<lparr>pixels = Ptr (replicate 57600 0), width = 320, height = 180, stride = 320\<rparr>"

definition sawtooth :: "nat \<Rightarrow> int" where
  "sawtooth k = (if k < 512 then 2 * int k else if k < 1536 then 2048 - 2 * int k else 2 * int k - 4096)"

lemma blank_stage_ok: "stage blank_stage"
  by (simp add: stage_def blank_stage_def wf_canvas_iff canvas_words_def)

lemma sawtooth_ok: "sine_table (snd (cart_legacy_scenes_init sawtooth))"
  by (auto simp: sine_table_def cart_legacy_scenes_init_def sawtooth_def)

theorem rows_paint_their_band_witness:
  "\<exists>d. cart_legacy_scene (snd (cart_legacy_scenes_init sawtooth)) cart_legacy_scene_bubblegum
      (Ptr \<lparr>ctx_canvas = Ptr blank_stage, row_start = 45, row_end = 90, ctx_frame = 65537, ctx_phase = CART_SCENE_RENDER_ROWS\<rparr>)
    = Some (Ptr \<lparr>ctx_canvas = Ptr d, row_start = 45, row_end = 90, ctx_frame = 65537, ctx_phase = CART_SCENE_RENDER_ROWS\<rparr>)
    \<and> pixel d 7 50 = scene_colour (snd (cart_legacy_scenes_init sawtooth)) 2 1 50 7"
  using rows_paint_their_band[OF blank_stage_ok _ _ sawtooth_ok refl, of 45 90 cart_legacy_scene_bubblegum 65537]
  by (force simp: uint_word_of_int)

end
