(* ===== verification/Release_Scenes.thy ===== *)
theory Release_Scenes
  imports Legacy_Scenes
begin

text \<open>
  The drawing code of the released v0.1 cart, \<open>cart/provenance/v0.1/pstv-demo-cart.c\<close>: one file,
  which draws into the array \<open>low\<close> of 320 times 180 words without a canvas.  Its successor
  \<open>cart/scenes/scene_2d_legacy.c\<close> promises to \<open>keep the v0.1 drawing body literal\<close> and replaces the
  primitives under it (colour packing, mixing, clipped pixel, rectangle and circle) by those of the canvas.
  This theory models the released code by itself; the relation \<open>agrees\<close> says that a routine of the release
  and a routine of the successor paint the same shape, and is carried from the primitives through the sprites
  and the text to the overlays.  The \<open>int\<close> expressions are computed over \<open>int\<close>; they stay inside 32 bits
  for the rows of the image and frame numbers below \<open>2 ^ 26\<close>.
\<close>

type_synonym low_draw = "u32 list \<Rightarrow> u32 list option"

section \<open>Palette, sines and colours\<close>

definition v1_PAL :: "u32 list" where
  "v1_PAL = [0xffb8a9f5, 0xffe8d6ff, 0xffffffff, 0xffface5b, 0xffe8bc49,
             0xffff8cc5, 0xffff6c9d, 0xffc8f7ff, 0xffa82a6b, 0xffa147f4]"

abbreviation v1_pal :: "int \<Rightarrow> u32" where "v1_pal i \<equiv> v1_PAL ! nat i"

definition v1_rgba :: "int \<Rightarrow> int \<Rightarrow> int \<Rightarrow> u32" where
  "v1_rgba r g b =
     (let r = (if r < 0 then 0 else r); r = (if r > 255 then 255 else r);
          g = (if g < 0 then 0 else g); g = (if g > 255 then 255 else g);
          b = (if b < 0 then 0 else b); b = (if b > 255 then 255 else b)
      in word_of_int r OR push_bit 8 (word_of_int g) OR push_bit 16 (word_of_int b) OR 0xff000000)"

text \<open>Entry \<open>k\<close> of \<open>tb\<close> is \<open>(int)(sins[k] * 1024.0f)\<close>.\<close>

definition v1_si :: "int list \<Rightarrow> int \<Rightarrow> int" where
  "v1_si tb x = tb ! nat (x AND 2047)"

definition v1_mix :: "u32 \<Rightarrow> u32 \<Rightarrow> int \<Rightarrow> u32" where
  "v1_mix a b t =
     (let ar = uint (a AND 255); ag = uint (drop_bit 8 a AND 255); ab = uint (drop_bit 16 a AND 255);
          br = uint (b AND 255); bg = uint (drop_bit 8 b AND 255); bb = uint (drop_bit 16 b AND 255)
      in v1_rgba (ar + drop_bit 8 ((br - ar) * t)) (ag + drop_bit 8 ((bg - ag) * t)) (ab + drop_bit 8 ((bb - ab) * t)))"

section \<open>Primitives\<close>

text \<open>\<open>low[y * LW + x] = c\<close>, and the statements of a routine one after the other.\<close>

definition v1_put :: "int \<Rightarrow> int \<Rightarrow> u32 \<Rightarrow> low_draw" where
  "v1_put y x c low = (if y * LW + x < 0 then None else store low (nat (y * LW + x)) c)"

definition v1_seq :: "low_draw list \<Rightarrow> low_draw" where
  "v1_seq gs low = mfold (\<lambda>g. g) gs low"

definition v1_px :: "int \<Rightarrow> int \<Rightarrow> u32 \<Rightarrow> low_draw" where
  "v1_px x y c low = (if (word_of_int x :: u32) < 320 \<and> (word_of_int y :: u32) < 180 then v1_put y x c low else Some low)"

definition v1_rect :: "int \<Rightarrow> int \<Rightarrow> int \<Rightarrow> int \<Rightarrow> u32 \<Rightarrow> low_draw" where
  "v1_rect x y w h c low =
     (let x0 = (if x < 0 then 0 else x); y0 = (if y < 0 then 0 else y);
          x1 = (if x + w > LW then LW else x + w); y1 = (if y + h > LH then LH else y + h)
      in mfold (\<lambda>yy. mfold (\<lambda>xx. v1_put yy xx c) [x0..x1 - 1]) [y0..y1 - 1] low)"

definition v1_circle :: "int \<Rightarrow> int \<Rightarrow> int \<Rightarrow> u32 \<Rightarrow> low_draw" where
  "v1_circle cx cy r c low =
     (let rr = r * r in
      mfold (\<lambda>y. mfold (\<lambda>x low. if x * x + y * y \<le> rr then v1_px (cx + x) (cy + y) c low else Some low) [- r..r]) [- r..r] low)"

section \<open>Sprites and text\<close>

definition v1_shape :: "string list" where
  "v1_shape = [''01100110'', ''11111111'', ''11111111'', ''11111111'',
               ''01111110'', ''00111100'', ''00011000'', ''00000000'']"

definition v1_border :: "nat \<Rightarrow> nat \<Rightarrow> bool" where
  "v1_border y x \<longleftrightarrow> x = 0 \<or> x = 7 \<or> y = 0 \<or> y = 6
     \<or> (x > 0 \<and> v1_shape ! y ! (x - 1) = CHR ''0'')
     \<or> (x < 7 \<and> v1_shape ! y ! (x + 1) = CHR ''0'')
     \<or> (y > 0 \<and> v1_shape ! (y - 1) ! x = CHR ''0'')"

definition v1_heart :: "int \<Rightarrow> int \<Rightarrow> int \<Rightarrow> u32 \<Rightarrow> u32 \<Rightarrow> low_draw" where
  "v1_heart cx cy s c edge = v1_seq (
     [v1_rect (cx + (int x - 4) * s) (cy + (int y - 3) * s) s s (if v1_border y x then edge else c).
        y \<leftarrow> [0..<8], x \<leftarrow> [0..<8], v1_shape ! y ! x = CHR ''1'']
     @ (if s > 1 then [v1_rect (cx - 2 * s) (cy - 2 * s) s s 0xffffffff] else []))"

definition v1_star :: "int \<Rightarrow> int \<Rightarrow> int \<Rightarrow> u32 \<Rightarrow> low_draw" where
  "v1_star cx cy r c = v1_seq (concat (map (\<lambda>i.
     [v1_px (cx + i) cy c, v1_px cx (cy + i) c]
     @ (if \<bar>i\<bar> < r sdiv 2 + 1 then [v1_px (cx + i) (cy + i) c, v1_px (cx + i) (cy - i) c] else [])) [- r..r]))"

definition v1_flower :: "int \<Rightarrow> int \<Rightarrow> int \<Rightarrow> u32 \<Rightarrow> u32 \<Rightarrow> low_draw" where
  "v1_flower cx cy s petal center = v1_seq
     [v1_circle (cx - s) cy s petal, v1_circle (cx + s) cy s petal,
      v1_circle cx (cy - s) s petal, v1_circle cx (cy + s) s petal, v1_circle cx cy s center]"

definition v1_FONT :: "int list list" where
  "v1_FONT = [
   [14,17,17,31,17,17,17], [30,17,17,30,17,17,30], [14,17,16,16,16,17,14],
   [30,17,17,17,17,17,30], [31,16,16,30,16,16,31], [31,16,16,30,16,16,16],
   [14,17,16,23,17,17,15], [17,17,17,31,17,17,17], [14,4,4,4,4,4,14],
   [7,2,2,2,18,18,12], [17,18,20,24,20,18,17], [16,16,16,16,16,16,31],
   [17,27,21,21,17,17,17], [17,25,21,19,17,17,17], [14,17,17,17,17,17,14],
   [30,17,17,30,16,16,16], [14,17,17,17,21,18,13], [30,17,17,30,20,18,17],
   [15,16,16,14,1,1,30], [31,4,4,4,4,4,4], [17,17,17,17,17,17,14],
   [17,17,17,17,17,10,4], [17,17,17,21,21,21,10], [17,17,10,4,10,17,17],
   [17,17,10,4,4,4,4], [31,1,2,4,8,16,31],
   [14,17,19,21,25,17,14], [4,12,4,4,4,4,14], [14,17,1,2,4,8,31],
   [30,1,1,14,1,1,30], [2,6,10,18,31,2,2], [31,16,16,30,1,1,30],
   [14,16,16,30,17,17,14], [31,1,2,4,8,8,8], [14,17,17,14,17,17,14],
   [14,17,17,15,1,1,14], [0,0,0,0,0,0,0]]"

definition v1_font_index :: "char \<Rightarrow> nat" where
  "v1_font_index c =
     (if of_char c \<ge> (65 :: nat) \<and> of_char c \<le> (90 :: nat) then of_char c - 65
      else if of_char c \<ge> (48 :: nat) \<and> of_char c \<le> (57 :: nat) then 26 + (of_char c - 48)
      else 36)"

definition v1_glyph :: "int \<Rightarrow> int \<Rightarrow> char \<Rightarrow> int \<Rightarrow> u32 \<Rightarrow> low_draw" where
  "v1_glyph x y ch scale c = v1_seq
     [v1_rect (x + int xx * scale) (y + int yy * scale) scale scale c.
        yy \<leftarrow> [0..<7], xx \<leftarrow> [0..<5], v1_FONT ! v1_font_index ch ! yy AND push_bit (4 - xx) 1 \<noteq> 0]"

fun v1_text_run :: "int \<Rightarrow> int \<Rightarrow> string \<Rightarrow> int \<Rightarrow> u32 \<Rightarrow> low_draw" where
  "v1_text_run x y [] scale c = Some"
| "v1_text_run x y (ch # s) scale c = v1_seq
     [if ch = CHR '' '' then Some else v1_glyph x y ch scale c, v1_text_run (x + 6 * scale) y s scale c]"

definition v1_text :: "int \<Rightarrow> int \<Rightarrow> string \<Rightarrow> int \<Rightarrow> u32 \<Rightarrow> u32 \<Rightarrow> low_draw" where
  "v1_text x y s scale c shadow = v1_seq
     [if shadow \<noteq> 0 then v1_text_run (x + scale) (y + scale) s scale shadow else Some,
      v1_text_run x y s scale c]"

definition v1_text_center :: "int \<Rightarrow> string \<Rightarrow> int \<Rightarrow> u32 \<Rightarrow> u32 \<Rightarrow> low_draw" where
  "v1_text_center y s scale c shadow =
     (let width = (int (length s) * 6 - 1) * scale in v1_text ((LW - width) sdiv 2) y s scale c shadow)"

section \<open>The scenes\<close>

text \<open>The stores of a scene's row function, in the order in which it makes them.\<close>

definition v1_stores :: "(int \<Rightarrow> int \<Rightarrow> u32) \<Rightarrow> int \<Rightarrow> int \<Rightarrow> (int \<times> int \<times> u32) list" where
  "v1_stores colour y0 y1 = [(y, x, colour y x). y \<leftarrow> [y0..y1 - 1], x \<leftarrow> [0..LW - 1]]"

definition v1_candy_colour :: "int list \<Rightarrow> int \<Rightarrow> int \<Rightarrow> int \<Rightarrow> u32" where
  "v1_candy_colour tb t y x =
     (let dx = x - 160; dy = y - 90;
         d = drop_bit 4 (dx * dx + dy * dy);
         warp = v1_si tb ((x * 9 + t * 11) AND 2047) + v1_si tb ((y * 13 - t * 7) AND 2047);
         band = drop_bit 4 (d + drop_bit 7 warp - t * 8) AND 7;
         a = v1_pal (band mod 5); b = v1_pal ((band + 1) mod 5)
     in v1_mix a b (drop_bit 3 (v1_si tb (d * 5 + t * 17) + 1024)))"

definition v1_scene_candy :: "int list \<Rightarrow> int \<Rightarrow> int \<Rightarrow> int \<Rightarrow> (int \<times> int \<times> u32) list" where
  "v1_scene_candy tb y0 y1 t = v1_stores (v1_candy_colour tb t) y0 y1"

definition v1_checker_colour :: "int list \<Rightarrow> int \<Rightarrow> int \<Rightarrow> int \<Rightarrow> u32" where
  "v1_checker_colour tb t y x =
     (let yy = y + drop_bit 8 (v1_si tb (x * 10 + t * 14));
         xx = x + drop_bit 8 (v1_si tb (y * 13 - t * 9));
         q = (drop_bit 3 xx XOR drop_bit 3 yy) AND 1;
         glow = drop_bit 4 (v1_si tb (x * 6 + y * 8 + t * 12) + 1024)
     in v1_mix (if q \<noteq> 0 then v1_pal 0 else v1_pal 4) (if q \<noteq> 0 then v1_pal 2 else v1_pal 5) glow)"

definition v1_scene_checker :: "int list \<Rightarrow> int \<Rightarrow> int \<Rightarrow> int \<Rightarrow> (int \<times> int \<times> u32) list" where
  "v1_scene_checker tb y0 y1 t = v1_stores (v1_checker_colour tb t) y0 y1"

definition v1_bubbles_colour :: "int list \<Rightarrow> int \<Rightarrow> int \<Rightarrow> int \<Rightarrow> u32" where
  "v1_bubbles_colour tb t y x =
     (let bx = (\<lambda>i. 160 + drop_bit 10 (v1_si tb (t * (7 + i) + i * 273) * (45 + i * 5)));
          by = (\<lambda>i. 90 + drop_bit 10 (v1_si tb (t * (9 + i) + i * 411) * (28 + i * 4)));
          field = sum_list (map (\<lambda>i. let dx = x - bx i; dy = y - by i
                    in (9000 + i * 700) sdiv (18 + dx * dx + dy * dy)) [0..6]);
          wave = drop_bit 5 (v1_si tb (x * 8 - y * 6 + t * 18) + 1024)
     in if field > 22 then v1_mix (v1_pal 1) (v1_pal 5) ((field * 9 + wave) AND 255)
        else v1_mix (v1_pal 8) (v1_pal 6) wave)"

definition v1_scene_bubbles :: "int list \<Rightarrow> int \<Rightarrow> int \<Rightarrow> int \<Rightarrow> (int \<times> int \<times> u32) list" where
  "v1_scene_bubbles tb y0 y1 t = v1_stores (v1_bubbles_colour tb t) y0 y1"

definition v1_ribbons_colour :: "int list \<Rightarrow> int \<Rightarrow> int \<Rightarrow> int \<Rightarrow> u32" where
  "v1_ribbons_colour tb t y x =
     (let wave = 90 + drop_bit 5 (v1_si tb (x * 12 + t * 13));
         wave2 = 90 + drop_bit 4 (v1_si tb (x * 9 - t * 17 + 500));
         d1 = \<bar>y - wave\<bar>; d2 = \<bar>y - wave2\<bar>;
         base = v1_mix (v1_pal 3) (v1_pal 1) ((y * 255) sdiv LH);
         base = (if d1 < 8 then v1_mix (v1_pal 0) (v1_pal 2) (d1 * 30) else base);
         base = (if d2 < 5 then v1_mix (v1_pal 6) (v1_pal 2) (d2 * 45) else base)
     in base)"

definition v1_scene_ribbons :: "int list \<Rightarrow> int \<Rightarrow> int \<Rightarrow> int \<Rightarrow> (int \<times> int \<times> u32) list" where
  "v1_scene_ribbons tb y0 y1 t = v1_stores (v1_ribbons_colour tb t) y0 y1"

definition v1_chrome_colour :: "int list \<Rightarrow> int \<Rightarrow> int \<Rightarrow> int \<Rightarrow> u32" where
  "v1_chrome_colour tb t y x =
     (if y < 95 then let glow = drop_bit 4 (v1_si tb (x * 5 + y * 4) + 1024) in v1_mix (v1_pal 8) (v1_pal 0) glow
     else
       let z = y - 94;
           horizon = (z * 13) AND 31 < 2;
           van = (x - 160) * 90 sdiv (z + 8);
           vertical = \<bar>van\<bar> mod 42 < 2
       in if horizon \<or> vertical then v1_pal 2 else v1_mix (v1_pal 6) (v1_pal 8) z)"

definition v1_scene_chrome :: "int list \<Rightarrow> int \<Rightarrow> int \<Rightarrow> int \<Rightarrow> (int \<times> int \<times> u32) list" where
  "v1_scene_chrome tb y0 y1 t = v1_stores (v1_chrome_colour tb t) y0 y1"

definition v1_sugar_colour :: "int list \<Rightarrow> int \<Rightarrow> int \<Rightarrow> int \<Rightarrow> u32" where
  "v1_sugar_colour tb t y x =
     (let a = v1_si tb (x * 10 + t * 13); b = v1_si tb (y * 14 - t * 9); c = v1_si tb ((x + y) * 7 + t * 5);
         v = (a + b + c + 3072) sdiv 12;
         stripe = drop_bit 3 (x + y + drop_bit 7 (v1_si tb (t * 17 + x * 3))) AND 3
     in v1_mix (v1_pal (stripe mod 5)) (v1_pal ((stripe + 2) mod 5)) (v AND 255))"

definition v1_scene_sugar :: "int list \<Rightarrow> int \<Rightarrow> int \<Rightarrow> int \<Rightarrow> (int \<times> int \<times> u32) list" where
  "v1_scene_sugar tb y0 y1 t = v1_stores (v1_sugar_colour tb t) y0 y1"

text \<open>A job of a thread, and the stores that the thread makes for it.\<close>

record v1_job =
  job_y0 :: int
  job_y1 :: int
  job_t :: int
  job_which :: int

definition v1_worker :: "int list \<Rightarrow> v1_job \<Rightarrow> (int \<times> int \<times> u32) list" where
  "v1_worker tb j =
     (if job_which j = 0 then v1_scene_candy tb (job_y0 j) (job_y1 j) (job_t j)
      else if job_which j = 1 then v1_scene_checker tb (job_y0 j) (job_y1 j) (job_t j)
      else if job_which j = 2 then v1_scene_bubbles tb (job_y0 j) (job_y1 j) (job_t j)
      else if job_which j = 3 then v1_scene_ribbons tb (job_y0 j) (job_y1 j) (job_t j)
      else if job_which j = 4 then v1_scene_chrome tb (job_y0 j) (job_y1 j) (job_t j)
      else v1_scene_sugar tb (job_y0 j) (job_y1 j) (job_t j))"

section \<open>The overlays\<close>

definition v1_rng32 :: "u32 \<Rightarrow> u32" where
  "v1_rng32 x = (let x = x XOR drop_bit 16 x; x = x * 0x7feb352d;
                     x = x XOR drop_bit 15 x; x = x * 0x846ca68b
                 in x XOR drop_bit 16 x)"

definition v1_overlay_candy :: "int \<Rightarrow> low_draw" where
  "v1_overlay_candy t = v1_seq (
     map (\<lambda>i. let r = v1_rng32 (word_of_int i * 991);
                  x = uint ((r + word_of_int (t * (1 + i mod 3))) mod 320);
                  y = uint ((drop_bit 11 r + word_of_int (i * 17)) mod 180)
              in v1_star x y (2 + i mod 3) (v1_pal 2)) [0..17]
     @ [v1_heart 160 82 5 (v1_pal 0) (v1_pal 8), v1_text_center 139 ''CANDY VORTEX'' 3 (v1_pal 2) (v1_pal 8)])"

definition v1_overlay_girl_mode :: "int \<Rightarrow> low_draw" where
  "v1_overlay_girl_mode t = v1_seq (
     map (\<lambda>i. let r = v1_rng32 (word_of_int i * 1777);
                  x = sint (r mod 340 - 10);
                  y = sint ((drop_bit 10 r + word_of_int (t * (2 + i mod 4))) mod 210 - 15)
              in v1_heart x y (1 + (if i mod 3 = 0 then 1 else 0)) (v1_pal (i mod 5)) (v1_pal 8)) [0..23]
     @ [v1_text_center 72 ''GIRL MODE'' 5 (v1_pal 2) (v1_pal 8), v1_text_center 119 ''MAXIMUM'' 4 (v1_pal 0) (v1_pal 8)])"

definition v1_overlay_bubblegum :: "int \<Rightarrow> low_draw" where
  "v1_overlay_bubblegum t = v1_seq (
     map (\<lambda>i. let r = v1_rng32 (word_of_int i * 31337)
              in v1_star (uint (r mod 320)) (uint (drop_bit 10 r mod 180)) (1 + i mod 3) (v1_pal 2)) [0..19]
     @ [v1_text_center 14 ''BUBBLEGUM'' 5 (v1_pal 2) (v1_pal 8), v1_text_center 145 ''OVERDRIVE'' 4 (v1_pal 0) (v1_pal 8)])"

text \<open>The remainders of what grows with the frame number truncate towards zero.\<close>

definition v1_butterfly :: "int list \<Rightarrow> int \<Rightarrow> int \<Rightarrow> low_draw" where
  "v1_butterfly tb t i =
     (let x = (i * 29 + t * (i mod 3 + 1)) smod 350 - 15;
          y = 70 + drop_bit 10 (v1_si tb (t * (8 + i) + i * 193) * 55);
          left = v1_pal (i mod 5); right = v1_pal ((i + 3) mod 5)
      in v1_seq (
        [v1_circle (x - 4) (y - 2) 3 left, v1_circle (x + 4) (y - 2) 3 right,
         v1_circle (x - 3) (y + 3) 2 left, v1_circle (x + 3) (y + 3) 2 right,
         v1_rect (x - 1) (y - 4) 2 9 (v1_pal 8)]
        @ (if (i + t sdiv 3) smod 4 = 0 then [v1_star (x - 10) (y + 5) 2 (v1_pal 2)] else [])))"

definition v1_overlay_butterfly_riot :: "int list \<Rightarrow> int \<Rightarrow> low_draw" where
  "v1_overlay_butterfly_riot tb t = v1_seq (
     map (v1_butterfly tb t) [0..23]
     @ map (\<lambda>i. v1_flower ((i * 41 + t) smod 340 - 10) (20 + (i * 23) mod 140) 2 (v1_pal ((i + 1) mod 5)) (v1_pal 2)) [0..11]
     @ [v1_text_center 143 ''BUTTERFLY RIOT'' 3 (v1_pal 2) (v1_pal 8)])"

definition v1_overlay_hyperdrive :: "int list \<Rightarrow> int \<Rightarrow> low_draw" where
  "v1_overlay_hyperdrive tb t =
     (let cx = 160 + drop_bit 10 (v1_si tb (t * 9) * 28);
          cy = 67 + drop_bit 10 (v1_si tb (t * 13) * 9);
          r = 39
      in v1_seq (
        [v1_px (cx + x) (cy + y) (v1_pal ((((y + r) * 10) div (2 * r + 1)) mod 8)).
           y \<leftarrow> [- r..r], x \<leftarrow> [- r..r], x * x + y * y \<le> r * r]
        @ [v1_circle (cx - 13) (cy - 15) 7 0xffffffff, v1_star (cx - 17) (cy - 18) 6 0xffffffff,
           v1_text_center 11 ''SHE HER'' 6 (v1_pal 2) (v1_pal 8), v1_text_center 143 ''HYPERDRIVE'' 4 (v1_pal 0) (v1_pal 8)]))"

definition v1_overlay_too_much :: "int \<Rightarrow> low_draw" where
  "v1_overlay_too_much t = v1_seq (
     map (\<lambda>i. let r = v1_rng32 (word_of_int i * 7331);
                  x = uint (r mod 320); y = uint (drop_bit 10 r mod 180); s = 1 + i mod 3
              in if i mod 3 = 0 then v1_heart x y s (v1_pal (i mod 5)) (v1_pal 8)
                 else if i mod 3 = 1 then v1_flower x y (2 + s) (v1_pal (i mod 5)) (v1_pal 2)
                 else v1_star x y (2 + s) (v1_pal 2)) [0..34]
     @ [v1_text_center 54 ''TOO MUCH'' 6 (v1_pal 2) (v1_pal 8), v1_text_center 104 ''IS ENOUGH'' 5 (v1_pal 9) (v1_pal 8)])"

definition v1_scene_dots :: "int \<Rightarrow> low_draw" where
  "v1_scene_dots which = v1_seq (map (\<lambda>i.
     v1_circle (145 + i * 6) 171 (if i = which then 2 else 1) (if i = which then v1_pal 2 else v1_pal 8)) [0..SCENES - 1])"

definition v1_overlay :: "int list \<Rightarrow> int \<Rightarrow> int \<Rightarrow> low_draw" where
  "v1_overlay tb which t = v1_seq
     [if which = 0 then v1_overlay_candy t
      else if which = 1 then v1_overlay_girl_mode t
      else if which = 2 then v1_overlay_bubblegum t
      else if which = 3 then v1_overlay_butterfly_riot tb t
      else if which = 4 then v1_overlay_hyperdrive tb t
      else v1_overlay_too_much t,
      v1_scene_dots which]"

section \<open>The same tables\<close>

named_theorems v1_same \<open>tables and expressions of the release that the successor copies\<close>

lemma v1_PAL_same [v1_same]: "v1_PAL = PAL"
  by (simp add: v1_PAL_def PAL_def)

lemma v1_FONT_same [v1_same]: "v1_FONT = FONT"
  by (simp add: v1_FONT_def FONT_def)

lemma v1_font_index_same [v1_same]: "v1_font_index = font_index"
  by (simp add: v1_font_index_def font_index_def fun_eq_iff)

lemma v1_shape_same [v1_same]: "v1_shape ! y ! x = heart_cell y x"
  by (simp add: v1_shape_def heart_cell_def heart_shape_def)

lemma v1_border_same [v1_same]: "v1_border = heart_border"
  by (simp add: v1_border_def heart_border_def v1_same fun_eq_iff)

lemma v1_si_same [v1_same]: "v1_si = si"
  by (simp add: v1_si_def si_def fun_eq_iff)

lemma v1_rng32_same [v1_same]: "v1_rng32 = rng32"
  by (simp add: v1_rng32_def rng32_def fun_eq_iff)

section \<open>The same colours\<close>

lemma v1_rgba_same: "v1_rgba = cart_rgba"
  by (simp add: v1_rgba_def cart_rgba_def clamp_channel_def Let_def fun_eq_iff)

text \<open>The successor's mix limits the amount to 0..256; the release does not, and never exceeds it.\<close>

lemma v1_mix_same:
  assumes "0 \<le> t" "t \<le> 256"
  shows "v1_mix a b t = mix a b t"
proof -
  have t: "uint (word_of_int t :: u32) = t" using assms by (simp add: uint_word_of_int take_bit_int_eq_self)
  then have "\<not> (word_of_int t :: u32) > 256" using assms by (simp add: word_less_def)
  then show ?thesis using assms t
    by (simp add: v1_mix_def mix_def cart_mix_def v1_rgba_same mix_channel_def channel_red_def channel_green_def
        channel_blue_def Let_def)
qed

lemma sine_amount:
  assumes "sine_table tb"
  shows "0 \<le> si tb x + 1024" "drop_bit 3 (si tb x + 1024) \<le> 256" "drop_bit 4 (si tb x + 1024) \<le> 256"
    "drop_bit 5 (si tb x + 1024) \<le> 256"
  using si_bound[OF assms, of x] by (auto simp: drop_bit_eq_div)

lemma and_255: "(x :: int) AND 255 \<le> 256"
proof -
  have "x AND mask 8 = x mod 2 ^ 8" by (simp add: take_bit_eq_mask[symmetric] take_bit_eq_mod)
  then have "x AND 255 = x mod 256" by (simp add: mask_eq_exp_minus_1)
  then show "x AND 255 \<le> 256" by (simp add: less_imp_le)
qed

lemma candy_same: "sine_table tb \<Longrightarrow> v1_candy_colour tb t y x = candy_colour tb t y x"
  by (simp add: v1_candy_colour_def candy_colour_def Let_def v1_same v1_mix_same sine_amount)

lemma checker_same: "sine_table tb \<Longrightarrow> v1_checker_colour tb t y x = checker_colour tb t y x"
  by (simp add: v1_checker_colour_def checker_colour_def Let_def v1_same v1_mix_same sine_amount)

lemma bubbles_same: "sine_table tb \<Longrightarrow> v1_bubbles_colour tb t y x = bubbles_colour tb t y x"
  by (simp add: v1_bubbles_colour_def bubbles_colour_def bubble_field_def bubble_x_def bubble_y_def Let_def
      v1_same v1_mix_same sine_amount and_255)

lemma ribbons_same:
  assumes "0 \<le> y" "y < LH"
  shows "v1_ribbons_colour tb t y x = ribbons_colour tb t y x"
proof -
  have "0 \<le> y * 255 sdiv LH" "y * 255 sdiv LH \<le> 256" using assms by (simp_all add: sdiv_nonneg)
  then show ?thesis by (simp add: v1_ribbons_colour_def ribbons_colour_def Let_def v1_same v1_mix_same)
qed

lemma chrome_same:
  assumes "sine_table tb" "y < LH"
  shows "v1_chrome_colour tb t y x = chrome_colour tb t y x"
  using assms by (auto simp: v1_chrome_colour_def chrome_colour_def Let_def v1_same v1_mix_same sine_amount)

lemma sugar_same: "v1_sugar_colour tb t y x = sugar_colour tb t y x"
  by (simp add: v1_sugar_colour_def sugar_colour_def Let_def v1_same v1_mix_same and_255)

lemma v1_stores_cong:
  assumes "0 \<le> y0" "y1 \<le> LH" "\<And>y x. 0 \<le> y \<Longrightarrow> y < LH \<Longrightarrow> f y x = g y x"
  shows "v1_stores f y0 y1 = v1_stores g y0 y1"
  unfolding v1_stores_def by (intro arg_cong[of _ _ concat] map_cong refl) (use assms in auto)

lemma v1_worker_same:
  assumes "sine_table tb" "0 \<le> y0" "y1 \<le> LH"
  shows "v1_worker tb \<lparr>job_y0 = y0, job_y1 = y1, job_t = t, job_which = which\<rparr>
    = v1_stores (scene_colour tb which t) y0 y1"
proof -
  note same = v1_stores_cong[OF assms(2,3)]
  have "v1_scene_candy tb y0 y1 t = v1_stores (candy_colour tb t) y0 y1"
    unfolding v1_scene_candy_def by (rule same) (rule candy_same[OF assms(1)])
  moreover have "v1_scene_checker tb y0 y1 t = v1_stores (checker_colour tb t) y0 y1"
    unfolding v1_scene_checker_def by (rule same) (rule checker_same[OF assms(1)])
  moreover have "v1_scene_bubbles tb y0 y1 t = v1_stores (bubbles_colour tb t) y0 y1"
    unfolding v1_scene_bubbles_def by (rule same) (rule bubbles_same[OF assms(1)])
  moreover have "v1_scene_ribbons tb y0 y1 t = v1_stores (ribbons_colour tb t) y0 y1"
    unfolding v1_scene_ribbons_def by (rule same) (rule ribbons_same)
  moreover have "v1_scene_chrome tb y0 y1 t = v1_stores (chrome_colour tb t) y0 y1"
    unfolding v1_scene_chrome_def by (rule same) (rule chrome_same[OF assms(1)])
  moreover have "v1_scene_sugar tb y0 y1 t = v1_stores (sugar_colour tb t) y0 y1"
    unfolding v1_scene_sugar_def by (rule same) (rule sugar_same)
  ultimately show ?thesis by (simp add: v1_worker_def scene_colour_def)
qed

section \<open>The same shapes\<close>

text \<open>The array \<open>low\<close> seen as a canvas, and what it means that two routines paint the same shape.\<close>

definition v1_stage :: "u32 list \<Rightarrow> cart_canvas" where
  "v1_stage b = \<lparr>pixels = Ptr b, width = 320, height = 180, stride = 320\<rparr>"

definition low_paints :: "shape \<Rightarrow> low_draw \<Rightarrow> bool" where
  "low_paints f g \<longleftrightarrow> (\<forall>b. length b = 57600 \<longrightarrow> (\<exists>b'. g b = Some b' \<and> painted f (v1_stage b) (v1_stage b')))"

definition agrees :: "low_draw \<Rightarrow> drawing \<Rightarrow> bool" where
  "agrees g d \<longleftrightarrow> (\<exists>f. low_paints f g \<and> paints f d)"

named_theorems agreeing \<open>routines of the release that agree with their successors\<close>

lemma v1_stage_ok: "length b = 57600 \<Longrightarrow> stage (v1_stage b)"
  by (simp add: stage_def v1_stage_def wf_canvas_iff canvas_words_def)

lemma painted_v1_length: "painted f (v1_stage b) (v1_stage b') \<Longrightarrow> length b' = length b"
  by (auto simp: painted_def v1_stage_def)

lemma low_paints_seq:
  assumes "low_paints f g" "low_paints f' g'"
  shows "low_paints (paint_over f f') (\<lambda>b. case g b of None \<Rightarrow> None | Some c \<Rightarrow> g' c)"
  unfolding low_paints_def
proof (intro allI impI)
  fix b :: "u32 list" assume len: "length b = 57600"
  obtain c where c: "g b = Some c" "painted f (v1_stage b) (v1_stage c)"
    using assms(1) len by (auto simp: low_paints_def)
  obtain e where e: "g' c = Some e" "painted f' (v1_stage c) (v1_stage e)"
    using assms(2) painted_v1_length[OF c(2)] len by (auto simp: low_paints_def)
  show "\<exists>e. (case g b of None \<Rightarrow> None | Some c \<Rightarrow> g' c) = Some e \<and> painted (paint_over f f') (v1_stage b) (v1_stage e)"
    using c(1) e(1) painted_trans[OF c(2) e(2)] by auto
qed

lemma agrees_Some [agreeing]: "agrees Some Some"
proof -
  have "low_paints (\<lambda>_ _. None) Some"
    by (auto simp: low_paints_def v1_stage_def intro!: painted_refl)
  moreover have "paints (\<lambda>_ _. None) Some"
    by (auto simp: paints_def intro!: painted_refl wf_canvas_pixels)
  ultimately show ?thesis unfolding agrees_def by blast
qed

lemma agrees_seq:
  assumes "list_all2 agrees gs ds"
  shows "agrees (v1_seq gs) (draw_all ds)"
  using assms
proof (induction gs ds rule: list_all2_induct)
  case Nil
  have "v1_seq [] = Some" "draw_all [] = Some" by (simp_all add: v1_seq_def draw_all_def fun_eq_iff)
  then show ?case by (simp add: agrees_Some)
next
  case (Cons g gs d ds)
  obtain f where f: "low_paints f g" "paints f d" using Cons.hyps(1) by (auto simp: agrees_def)
  obtain f' where f': "low_paints f' (v1_seq gs)" "paints f' (draw_all ds)" using Cons.IH by (auto simp: agrees_def)
  have "v1_seq (g # gs) = (\<lambda>b. case g b of None \<Rightarrow> None | Some c \<Rightarrow> v1_seq gs c)"
    by (simp add: v1_seq_def fun_eq_iff split: option.split)
  moreover have "draw_all (d # ds) = (\<lambda>c. case d c of None \<Rightarrow> None | Some e \<Rightarrow> draw_all ds e)"
    by (simp add: draw_all_def fun_eq_iff split: option.split)
  ultimately show ?case
    using low_paints_seq[OF f(1) f'(1)] paints_seq[OF f(2) f'(2)] by (auto simp: agrees_def)
qed

lemma all2_map: "(\<And>x. x \<in> set xs \<Longrightarrow> R (f x) (g x)) \<Longrightarrow> list_all2 R (map f xs) (map g xs)"
  by (simp add: list_all2_map1 list_all2_map2 list_all2_same)

lemma all2_concat: "(\<And>x. x \<in> set xs \<Longrightarrow> list_all2 R (f x) (g x)) \<Longrightarrow> list_all2 R (concat (map f xs)) (concat (map g xs))"
  by (induction xs) (auto intro: list_all2_appendI)

lemma all2_if: "(P \<Longrightarrow> list_all2 R a b) \<Longrightarrow> (\<not> P \<Longrightarrow> list_all2 R c d) \<Longrightarrow> list_all2 R (if P then a else c) (if P then b else d)"
  by simp

lemma agrees_if [agreeing]: "(P \<Longrightarrow> agrees a b) \<Longrightarrow> (\<not> P \<Longrightarrow> agrees c d) \<Longrightarrow> agrees (if P then a else c) (if P then b else d)"
  by simp

section \<open>The primitives agree\<close>

text \<open>A loop of guarded stores inside the image paints the shape of its stores.\<close>

lemma low_paints_loop:
  assumes inside: "\<And>p. p \<in> set ps \<Longrightarrow> P p \<Longrightarrow> 0 \<le> fx p \<and> fx p < LW \<and> 0 \<le> fy p \<and> fy p < LH \<and> f (fx p) (fy p) = Some (val p)"
    and covers: "\<And>x y v. 0 \<le> x \<Longrightarrow> x < LW \<Longrightarrow> 0 \<le> y \<Longrightarrow> y < LH \<Longrightarrow> f x y = Some v \<Longrightarrow> \<exists>p \<in> set ps. P p \<and> fx p = x \<and> fy p = y"
  shows "low_paints f (mfold (\<lambda>p b. if P p then v1_put (fy p) (fx p) (val p) b else Some b) ps)"
  unfolding low_paints_def
proof (intro allI impI)
  fix b :: "u32 list" assume len: "length b = 57600"
  let ?c = "v1_stage b" and ?ix = "\<lambda>p. nat (fy p * LW + fx p)"
  have wf: "wf_canvas ?c" using v1_stage_ok[OF len] by (simp add: stage_def)
  have in_c: "in_canvas ?c x y \<longleftrightarrow> 0 \<le> x \<and> x < LW \<and> 0 \<le> y \<and> y < LH" for x y
    by (rule in_stage[OF v1_stage_ok[OF len]])
  have "\<exists>d. mfold (\<lambda>p d. if P p then put_word d (fx p) (fy p) (val p) else Some d) ps ?c = Some d \<and> painted f ?c d"
  proof (rule draw_painted[OF wf])
    show "in_canvas ?c (fx p) (fy p) \<and> f (fx p) (fy p) = Some (val p)" if "p \<in> set ps" "P p" for p
      using inside[OF that] by (simp add: in_c)
    show "\<exists>p \<in> set ps. P p \<and> fx p = x \<and> fy p = y" if "in_canvas ?c x y" "f x y = Some v" for x y v
      using covers[of x y v] that by (simp add: in_c)
  qed
  then obtain d where d: "mfold (\<lambda>p d. if P p then put_word d (fx p) (fy p) (val p) else Some d) ps ?c = Some d" "painted f ?c d"
    by blast
  have "mfold (\<lambda>p d. if P p then put_word d (fx p) (fy p) (val p) else Some d) ps ?c
      = map_option (\<lambda>b'. ?c\<lparr>pixels := Ptr b'\<rparr>) (paint P (\<lambda>p. pixel_index ?c (fx p) (fy p)) val ps b)"
    by (rule mfold_put_word) (simp add: v1_stage_def)
  then obtain b' where b': "paint P (\<lambda>p. pixel_index ?c (fx p) (fy p)) val ps b = Some b'" "d = v1_stage b'"
    using d(1) by (auto simp: v1_stage_def)
  have "pixel_index ?c (fx p) (fy p) = ?ix p" if "p \<in> set ps" "P p" for p
    using pixel_index_in_canvas(1)[OF wf, of "fx p" "fy p"] inside[OF that] in_c
    by (simp add: v1_stage_def nat_add_distrib nat_mult_distrib)
  then have "mfold (\<lambda>p b. if P p then v1_put (fy p) (fx p) (val p) b else Some b) ps b
      = paint P (\<lambda>p. pixel_index ?c (fx p) (fy p)) val ps b"
    unfolding paint_def
  proof (intro mfold_cong refl)
    fix p s assume p: "p \<in> set ps"
    have "\<not> fy p * LW + fx p < 0" if "P p" using inside[OF p that] by linarith
    then show "(if P p then v1_put (fy p) (fx p) (val p) s else Some s)
        = (if P p then store s (pixel_index ?c (fx p) (fy p)) (val p) else Some s)"
      using p \<open>\<And>p. p \<in> set ps \<Longrightarrow> P p \<Longrightarrow> pixel_index ?c (fx p) (fy p) = ?ix p\<close> by (simp add: v1_put_def)
  qed
  then show "\<exists>b'. mfold (\<lambda>p b. if P p then v1_put (fy p) (fx p) (val p) b else Some b) ps b = Some b'
      \<and> painted f ?c (v1_stage b')"
    using b' d(2) by simp
qed

lemma v1_px_guard:
  assumes "in_int32 x" "in_int32 y"
  shows "(word_of_int x :: u32) < 320 \<and> (word_of_int y :: u32) < 180 \<longleftrightarrow> 0 \<le> x \<and> x < LW \<and> 0 \<le> y \<and> y < LH"
proof -
  have "(word_of_int i :: u32) < word_of_int k \<longleftrightarrow> 0 \<le> i \<and> i < k" if "in_int32 i" "0 \<le> k" "k \<le> 320" for i k
  proof (cases "0 \<le> i")
    case True
    then show ?thesis using that by (simp add: word_less_def in_int32_def uint_word_of_int take_bit_int_eq_self)
  next
    case False
    then have "uint (word_of_int i :: u32) = i + 2 ^ 32"
      using that(1) mod_pos_pos_trivial[of "i + 2 ^ 32" "2 ^ 32"] by (simp add: uint_word_of_int take_bit_eq_mod in_int32_def)
    then show ?thesis using that False by (simp add: word_less_def in_int32_def uint_word_of_int take_bit_int_eq_self)
  qed
  from this[OF assms(1), of 320] this[OF assms(2), of 180] show ?thesis by auto
qed

lemma agrees_px [agreeing]:
  assumes "in_int32 x" "in_int32 y"
  shows "agrees (v1_px x y v) (px x y v)"
proof -
  let ?P = "\<lambda>_ :: unit. 0 \<le> x \<and> x < LW \<and> 0 \<le> y \<and> y < LH"
  have "v1_px x y v = mfold (\<lambda>p b. if ?P p then v1_put y x v b else Some b) [()]"
    using v1_px_guard[OF assms] by (auto simp: v1_px_def fun_eq_iff split: option.split)
  moreover have "low_paints (px_shape x y v) (mfold (\<lambda>p b. if ?P p then v1_put y x v b else Some b) [()])"
    by (rule low_paints_loop) (auto simp: px_shape_def split: if_splits)
  moreover have "paints (px_shape x y v) (px x y v)"
    using cart_canvas_px_painted[OF _ assms, of _ v] by (fastforce simp: paints_def px_def)
  ultimately show ?thesis by (auto simp: agrees_def)
qed

lemma agrees_rect [agreeing]: "agrees (v1_rect x y w h v) (rect x y w h v)"
proof -
  define x0 y0 x1 y1 where "x0 = (if x < 0 then 0 else x)" and "y0 = (if y < 0 then 0 else y)"
    and "x1 = (if x + w > LW then LW else x + w)" and "y1 = (if y + h > LH then LH else y + h)"
  note clip = x0_def y0_def x1_def y1_def
  let ?ps = "List.product [y0..y1 - 1] [x0..x1 - 1]"
  have "v1_rect x y w h v = mfold (\<lambda>p b. if True then v1_put (fst p) (snd p) v b else Some b) ?ps"
    by (simp add: v1_rect_def Let_def mfold_product case_prod_beta' clip fun_eq_iff)
  moreover have "low_paints (rect_shape x y w h v) (mfold (\<lambda>p b. if True then v1_put (fst p) (snd p) v b else Some b) ?ps)"
    by (rule low_paints_loop) (auto simp: rect_shape_def clip split: if_splits)
  moreover have "paints (rect_shape x y w h v) (rect x y w h v)"
    using cart_canvas_rect_painted[of _ x y w h v] by (fastforce simp: paints_def rect_def)
  ultimately show ?thesis by (auto simp: agrees_def)
qed

lemma agrees_circle [agreeing]:
  assumes "\<bar>cx\<bar> \<le> 1000000" "\<bar>cy\<bar> \<le> 1000000" "r \<le> 1000"
  shows "agrees (v1_circle cx cy r v) (circle cx cy r v)"
proof -
  let ?ps = "List.product [- r..r] [- r..r]"
  let ?P = "\<lambda>p :: int \<times> int. (snd p)\<^sup>2 + (fst p)\<^sup>2 \<le> r\<^sup>2 \<and> 0 \<le> cx + snd p \<and> cx + snd p < LW \<and> 0 \<le> cy + fst p \<and> cy + fst p < LH"
  have near: "\<bar>i\<bar> \<le> r \<and> \<bar>j\<bar> \<le> r" if "i\<^sup>2 + j\<^sup>2 \<le> r\<^sup>2" "0 \<le> r" for i j :: int
  proof -
    have "i\<^sup>2 \<le> r\<^sup>2" "j\<^sup>2 \<le> r\<^sup>2" using that zero_le_power2[of i] zero_le_power2[of j] by linarith+
    then show ?thesis using that(2) by (simp add: abs_le_square_iff[symmetric])
  qed
  have guard: "v1_px (cx + snd p) (cy + fst p) v b
      = (if 0 \<le> cx + snd p \<and> cx + snd p < LW \<and> 0 \<le> cy + fst p \<and> cy + fst p < LH
         then v1_put (cy + fst p) (cx + snd p) v b else Some b)" if "p \<in> set ?ps" for p b
  proof -
    have "in_int32 (cx + snd p)" "in_int32 (cy + fst p)" using that assms by (auto simp: in_int32_def)
    then show ?thesis by (simp only: v1_px_def v1_px_guard)
  qed
  have "v1_circle cx cy r v b
      = mfold (\<lambda>p b. if (snd p)\<^sup>2 + (fst p)\<^sup>2 \<le> r\<^sup>2 then v1_px (cx + snd p) (cy + fst p) v b else Some b) ?ps b" for b
    by (simp add: v1_circle_def Let_def mfold_product case_prod_beta' power2_eq_square)
  moreover have "mfold (\<lambda>p b. if (snd p)\<^sup>2 + (fst p)\<^sup>2 \<le> r\<^sup>2 then v1_px (cx + snd p) (cy + fst p) v b else Some b) ?ps b
      = mfold (\<lambda>p b. if ?P p then v1_put (cy + fst p) (cx + snd p) v b else Some b) ?ps b" for b
    by (rule mfold_cong[OF refl]) (simp add: guard)
  moreover have "low_paints (circle_shape cx cy r v) (mfold (\<lambda>p b. if ?P p then v1_put (cy + fst p) (cx + snd p) v b else Some b) ?ps)"
  proof (rule low_paints_loop)
    fix p assume "p \<in> set ?ps" "?P p"
    then show "0 \<le> cx + snd p \<and> cx + snd p < LW \<and> 0 \<le> cy + fst p \<and> cy + fst p < LH
        \<and> circle_shape cx cy r v (cx + snd p) (cy + fst p) = Some v"
      by (auto simp: circle_shape_def)
  next
    fix x y u assume "0 \<le> x" "x < LW" "0 \<le> y" "y < LH" "circle_shape cx cy r v x y = Some u"
    then show "\<exists>p \<in> set ?ps. ?P p \<and> cx + snd p = x \<and> cy + fst p = y"
      using near[of "x - cx" "y - cy"] by (intro bexI[of _ "(y - cy, x - cx)"]) (auto simp: circle_shape_def split: if_splits)
  qed
  moreover have "paints (circle_shape cx cy r v) (circle cx cy r v)"
    using cart_canvas_circle_painted[of _ cx cy r v] by (fastforce simp: paints_def circle_def)
  ultimately have "low_paints (circle_shape cx cy r v) (v1_circle cx cy r v)" by (simp add: low_paints_def)
  then show ?thesis using \<open>paints (circle_shape cx cy r v) (circle cx cy r v)\<close> by (auto simp: agrees_def)
qed

section \<open>Sprites, text and overlays agree\<close>

lemmas agrees_lists = list_all2_appendI all2_map all2_concat all2_if

lemma agrees_heart [agreeing]: "agrees (v1_heart cx cy s c edge) (heart cx cy s c edge)"
  unfolding heart_def v1_heart_def v1_same
  by (intro agrees_seq agrees_lists) (auto intro: agreeing)

lemma agrees_star [agreeing]:
  assumes "\<bar>cx\<bar> \<le> 1000000" "\<bar>cy\<bar> \<le> 1000000" "r \<le> 1000"
  shows "agrees (v1_star cx cy r c) (star cx cy r c)"
  unfolding star_def v1_star_def
  by (intro agrees_seq agrees_lists) (use assms in \<open>auto simp: in_int32_def intro!: agrees_px\<close>)

lemma agrees_flower [agreeing]:
  assumes "\<bar>cx\<bar> \<le> 100000" "\<bar>cy\<bar> \<le> 100000" "0 \<le> s" "s \<le> 1000"
  shows "agrees (v1_flower cx cy s a b) (flower cx cy s a b)"
  unfolding flower_def v1_flower_def
  by (intro agrees_seq) (use assms in \<open>auto intro!: agrees_circle\<close>)

lemma agrees_glyph [agreeing]: "agrees (v1_glyph x y ch scale c) (glyph x y ch scale c)"
  unfolding glyph_def v1_glyph_def v1_same
  by (intro agrees_seq agrees_lists) (auto intro: agreeing)

lemma agrees_text_run [agreeing]: "agrees (v1_text_run x y s scale c) (text_run x y s scale c)"
proof (induction s arbitrary: x)
  case Nil
  then show ?case by (simp add: agrees_Some)
next
  case (Cons ch s)
  then show ?case unfolding text_run.simps v1_text_run.simps
    by (intro agrees_seq) (auto intro: agreeing)
qed

lemma agrees_text_center [agreeing]: "agrees (v1_text_center y s scale c shadow) (text_center y s scale c shadow)"
  unfolding text_center_def v1_text_center_def text_at_def v1_text_def Let_def
  by (intro agrees_seq) (auto intro: agreeing)

lemma agrees_overlay_candy: "agrees (v1_overlay_candy t) (overlay_candy t)"
  unfolding overlay_candy_def v1_overlay_candy_def Let_def v1_same
  by (intro agrees_seq agrees_lists) (auto intro!: agreeing place_bounds)

lemma agrees_overlay_girl_mode: "agrees (v1_overlay_girl_mode t) (overlay_girl_mode t)"
  unfolding overlay_girl_mode_def v1_overlay_girl_mode_def Let_def v1_same
  by (intro agrees_seq agrees_lists) (auto intro!: agreeing)

lemma agrees_overlay_bubblegum: "agrees (v1_overlay_bubblegum t) (overlay_bubblegum t)"
  unfolding overlay_bubblegum_def v1_overlay_bubblegum_def Let_def v1_same
  by (intro agrees_seq agrees_lists) (auto intro!: agreeing place_bounds)

lemma agrees_butterfly_at:
  assumes "\<bar>x\<bar> \<le> 1000" "\<bar>y\<bar> \<le> 1000"
  shows "agrees
    (v1_seq ([v1_circle (x - 4) (y - 2) 3 left, v1_circle (x + 4) (y - 2) 3 right,
       v1_circle (x - 3) (y + 3) 2 left, v1_circle (x + 3) (y + 3) 2 right, v1_rect (x - 1) (y - 4) 2 9 body]
      @ (if P then [v1_star (x - 10) (y + 5) 2 tip] else [])))
    (draw_all ([circle (x - 4) (y - 2) 3 left, circle (x + 4) (y - 2) 3 right,
       circle (x - 3) (y + 3) 2 left, circle (x + 3) (y + 3) 2 right, rect (x - 1) (y - 4) 2 9 body]
      @ (if P then [star (x - 10) (y + 5) 2 tip] else [])))"
  by (intro agrees_seq list_all2_appendI all2_if) (use assms in \<open>auto intro!: agreeing\<close>)

lemma agrees_butterfly:
  assumes "sine_table tb" "0 \<le> i" "0 \<le> t"
  shows "agrees (v1_butterfly tb t i) (butterfly tb t i)"
proof -
  have y: "- 64 \<le> drop_bit 10 (si tb (t * (8 + i) + i * 193) * 55) \<and> drop_bit 10 (si tb (t * (8 + i) + i * 193) * 55) \<le> 64"
    by (rule shifted_sine[OF assms(1)]) simp_all
  have x: "0 \<le> (i * 29 + t * (i mod 3 + 1)) mod 350" "(i * 29 + t * (i mod 3 + 1)) mod 350 < 350" by simp_all
  have rem: "(i * 29 + t * (i mod 3 + 1)) smod 350 = (i * 29 + t * (i mod 3 + 1)) mod 350"
      "(i + t sdiv 3) smod 4 = (i + t div 3) mod 4"
    using assms(2,3) by (simp_all add: smod_mod_positive sdiv_nonneg pos_imp_zdiv_nonneg_iff)
  show ?thesis unfolding butterfly_def v1_butterfly_def Let_def v1_same rem
    by (rule agrees_butterfly_at) (use x y in linarith)+
qed

lemma agrees_overlay_butterfly_riot:
  assumes "sine_table tb" "0 \<le> t"
  shows "agrees (v1_overlay_butterfly_riot tb t) (overlay_butterfly_riot tb t)"
proof -
  have f: "agrees (v1_flower ((i * 41 + t) smod 340 - 10) (20 + i * 23 mod 140) 2 a b)
      (flower ((i * 41 + t) mod 340 - 10) (20 + i * 23 mod 140) 2 a b)" if "0 \<le> i" for i a b
  proof -
    have "(i * 41 + t) smod 340 = (i * 41 + t) mod 340" using that assms(2) by (simp add: smod_mod_positive)
    moreover have "0 \<le> (i * 41 + t) mod 340" "(i * 41 + t) mod 340 < 340" "0 \<le> i * 23 mod 140" "i * 23 mod 140 < 140"
      by simp_all
    then have "\<bar>(i * 41 + t) mod 340 - 10\<bar> \<le> 100000" "\<bar>20 + i * 23 mod 140\<bar> \<le> 100000" by linarith+
    ultimately show ?thesis by (simp add: agrees_flower)
  qed
  show ?thesis unfolding overlay_butterfly_riot_def v1_overlay_butterfly_riot_def v1_same
    by (intro agrees_seq agrees_lists) (use assms in \<open>auto intro!: agrees_butterfly f agrees_text_center\<close>)
qed

lemma agrees_disc:
  assumes "\<bar>cx\<bar> \<le> 1000" "\<bar>cy\<bar> \<le> 1000" "r \<le> 1000"
  shows "list_all2 agrees [v1_px (cx + x) (cy + y) (colour y). y \<leftarrow> [- r..r], x \<leftarrow> [- r..r], P x y]
    [px (cx + x) (cy + y) (colour y). y \<leftarrow> [- r..r], x \<leftarrow> [- r..r], P x y]"
  by (intro agrees_lists) (use assms in \<open>auto simp: in_int32_def intro!: agrees_px\<close>)

lemma agrees_overlay_hyperdrive:
  assumes "sine_table tb"
  shows "agrees (v1_overlay_hyperdrive tb t) (overlay_hyperdrive tb t)"
proof -
  define cx cy where "cx = 160 + drop_bit 10 (si tb (t * 9) * 28)" and "cy = 67 + drop_bit 10 (si tb (t * 13) * 9)"
  have b: "\<bar>cx\<bar> \<le> 1000" "\<bar>cy\<bar> \<le> 1000"
    using shifted_sine[OF assms, of 28 "t * 9"] shifted_sine[OF assms, of 9 "t * 13"] by (simp_all add: cx_def cy_def)
  have "list_all2 agrees
     [v1_circle (cx - 13) (cy - 15) 7 0xffffffff, v1_star (cx - 17) (cy - 18) 6 0xffffffff,
      v1_text_center 11 ''SHE HER'' 6 (pal 2) (pal 8), v1_text_center 143 ''HYPERDRIVE'' 4 (pal 0) (pal 8)]
     [circle (cx - 13) (cy - 15) 7 0xffffffff, star (cx - 17) (cy - 18) 6 0xffffffff,
      text_center 11 ''SHE HER'' 6 (pal 2) (pal 8), text_center 143 ''HYPERDRIVE'' 4 (pal 0) (pal 8)]"
    using b by (auto intro!: agreeing)
  then show ?thesis
    unfolding overlay_hyperdrive_def v1_overlay_hyperdrive_def Let_def v1_same cx_def[symmetric] cy_def[symmetric]
    by (intro agrees_seq list_all2_appendI agrees_disc b) simp_all
qed

lemma agrees_overlay_too_much: "agrees (v1_overlay_too_much t) (overlay_too_much t)"
  unfolding overlay_too_much_def v1_overlay_too_much_def Let_def v1_same
  by (intro agrees_seq agrees_lists) (auto intro!: agreeing place_bounds order_trans[OF less_imp_le[OF uint_mod_small(1)]])

lemma agrees_overlay:
  assumes "sine_table tb" "0 \<le> t"
  shows "agrees (v1_overlay tb which t) (overlay tb which t)"
  unfolding overlay_def v1_overlay_def scene_dots_def v1_scene_dots_def v1_same
  by (intro agrees_seq agrees_lists list.rel_intros agrees_if agrees_overlay_candy agrees_overlay_girl_mode
      agrees_overlay_bubblegum agrees_overlay_butterfly_riot agrees_overlay_hyperdrive agrees_overlay_too_much assms)
    (auto intro!: agrees_circle)

end
