(* ===== verification/Worker_Pool.thy ===== *)
theory Worker_Pool
  imports Cart_Prelude "HOL-Library.Multiset"
begin

text \<open>
  The render worker pool (\<open>cart/src/worker_pool.c\<close>).  The sequential part of initialisation is a
  function of the pthread calls' results; the concurrent part is a step relation over the program
  counters of the main thread and the workers.  A critical section under \<open>startup_mutex\<close> is one step, a
  \<open>pthread_cond_wait\<close> loop is a guard, and a barrier releases all its participants in one step, once all
  of them wait in it.
\<close>

section \<open>Bands\<close>

abbreviation CART_WORKER_POOL_MAX :: int where "CART_WORKER_POOL_MAX \<equiv> 8"

text \<open>Both products are computed in \<open>int\<close>; \<open>None\<close> is their overflow.\<close>

definition worker_band :: "int \<Rightarrow> int \<Rightarrow> nat \<Rightarrow> (int \<times> int) option" where
  "worker_band rows worker_count index =
     (if in_int32 (int index * rows) \<and> in_int32 ((int index + 1) * rows)
      then Some ((int index * rows) sdiv worker_count, ((int index + 1) * rows) sdiv worker_count)
      else None)"

section \<open>State\<close>

datatype worker_pc =
    Unborn        \<comment> \<open>\<open>pthread_create\<close> has not been called\<close>
  | Gate          \<comment> \<open>waiting for \<open>startup_ready\<close>\<close>
  | BeforeStart   \<comment> \<open>about to call \<open>pthread_barrier_wait(&start_barrier)\<close>\<close>
  | WaitStart     \<comment> \<open>inside it\<close>
  | Check         \<comment> \<open>released, before the test of \<open>shutting_down\<close>\<close>
  | BeforeStop    \<comment> \<open>the job has returned\<close>
  | WaitStop      \<comment> \<open>inside \<open>pthread_barrier_wait(&stop_barrier)\<close>\<close>
  | Exited        \<comment> \<open>\<open>worker_main\<close> has returned\<close>

datatype main_pc =
    Creating nat        \<comment> \<open>\<open>pthread_create\<close> loop, next index\<close>
  | FailJoin nat nat    \<comment> \<open>creation failed at the first index, joining the second\<close>
  | Releasing           \<comment> \<open>waiting for \<open>startup_released\<close>\<close>
  | Idle                \<comment> \<open>outside the pool's functions\<close>
  | WantStart           \<comment> \<open>dispatch: about to wait at the start barrier\<close>
  | InStart             \<comment> \<open>dispatch: inside the start barrier\<close>
  | WantStop            \<comment> \<open>dispatch: about to wait at the stop barrier\<close>
  | InStop              \<comment> \<open>dispatch: inside the stop barrier\<close>
  | ShutWant            \<comment> \<open>shutdown: about to wait at the start barrier\<close>
  | ShutIn              \<comment> \<open>shutdown: inside the start barrier\<close>
  | Joining nat         \<comment> \<open>shutdown: joining the worker of that index\<close>
  | Down                \<comment> \<open>shutdown has returned\<close>
  | InitFailed          \<comment> \<open>init has returned -1\<close>

text \<open>One call of the job.\<close>

record ('j, 's) band_call =
  call_job :: 'j
  call_slot :: 's
  call_start :: int
  call_end :: int
  call_generation :: u64

record ('j, 's) cart_worker_pool =
  pool_active :: bool
  worker_count :: nat
  pool_rows :: int
  pool_slots :: "'s list"
  pool_job :: "'j option"
  pool_generation :: u64
  startup_ready :: bool
  startup_released :: nat
  shutting_down :: bool
  pool_main :: main_pc
  pool_workers :: "worker_pc list"
  pool_calls :: "('j, 's) band_call list"   \<comment> \<open>ghost: the calls of the current dispatch\<close>

section \<open>Initialisation\<close>

text \<open>The objects that initialisation creates, in order, and whether each of the calls succeeds.\<close>

datatype pool_object = StartupMutex | StartupCond | StartBarrier | StopBarrier

definition zero_pool :: "('j, 's) cart_worker_pool" where
  "zero_pool = \<lparr>pool_active = False, worker_count = 0, pool_rows = 0, pool_slots = [], pool_job = None, pool_generation = 0,
     startup_ready = False, startup_released = 0, shutting_down = False, pool_main = Idle, pool_workers = [], pool_calls = []\<rparr>"

text \<open>The result is the return code if the function returns before the first \<open>pthread_create\<close>, the pool
  and the objects that exist.  On success the main thread goes on in the creation loop.\<close>

definition cart_worker_pool_init ::
  "(pool_object \<Rightarrow> bool) \<Rightarrow> ('j, 's) cart_worker_pool ptr \<Rightarrow> int \<Rightarrow> int
     \<Rightarrow> int option \<times> ('j, 's) cart_worker_pool ptr \<times> pool_object list" where
  "cart_worker_pool_init works pool wc rows =
     (if pool = NULL \<or> wc < 0 \<or> wc > CART_WORKER_POOL_MAX \<or> rows \<le> 0 then (Some (- 1), pool, [])
      else let p = zero_pool\<lparr>worker_count := nat wc, pool_rows := rows\<rparr> in
      if wc = 0 then (Some 0, Ptr (p\<lparr>pool_active := True\<rparr>), [])
      else if \<not> works StartupMutex then (Some (- 1), Ptr p, [])
      else if \<not> works StartupCond then (Some (- 1), Ptr p, removeAll StartupMutex [StartupMutex])
      else if \<not> works StartBarrier then
        (Some (- 1), Ptr p, removeAll StartupMutex (removeAll StartupCond [StartupMutex, StartupCond]))
      else if \<not> works StopBarrier then
        (Some (- 1), Ptr p, removeAll StartupMutex (removeAll StartupCond (removeAll StartBarrier
           [StartupMutex, StartupCond, StartBarrier])))
      else (None, Ptr (p\<lparr>pool_main := Creating 0, pool_workers := replicate (nat wc) Unborn\<rparr>),
            [StartupMutex, StartupCond, StartBarrier, StopBarrier]))"

section \<open>Dispatch and shutdown up to their first wait\<close>

text \<open>In inline mode the job runs once over all rows.  Otherwise the arguments are published and the main
  thread goes to the start barrier.\<close>

definition cart_worker_pool_dispatch ::
  "('j, 's) cart_worker_pool ptr \<Rightarrow> 'j option \<Rightarrow> 's list ptr \<Rightarrow> u64
     \<Rightarrow> (int option \<times> ('j, 's) cart_worker_pool ptr) option" where
  "cart_worker_pool_dispatch pool j ss gen =
     (case pool of NULL \<Rightarrow> Some (Some (- 1), pool)
      | Ptr p \<Rightarrow>
        (case j of None \<Rightarrow> Some (Some (- 1), pool)
         | Some f \<Rightarrow>
           if \<not> pool_active p \<or> ss = NULL then Some (Some (- 1), pool)
           else if worker_count p = 0 then do {
             s \<leftarrow> load (deref ss) 0;
             Some (Some 0, Ptr (p\<lparr>pool_calls := [\<lparr>call_job = f, call_slot = s, call_start = 0, call_end = pool_rows p,
                                        call_generation = gen\<rparr>]\<rparr>))
           }
           else if length (deref ss) < worker_count p then None
           else Some (None, Ptr (p\<lparr>pool_job := Some f, pool_slots := take (worker_count p) (deref ss), pool_generation := gen,
                                pool_main := WantStart, pool_calls := []\<rparr>))))"

definition cart_worker_pool_shutdown :: "('j, 's) cart_worker_pool ptr \<Rightarrow> ('j, 's) cart_worker_pool ptr" where
  "cart_worker_pool_shutdown pool =
     (case pool of NULL \<Rightarrow> NULL
      | Ptr p \<Rightarrow>
        if \<not> pool_active p then Ptr p
        else if worker_count p = 0 then Ptr (p\<lparr>pool_active := False\<rparr>)
        else Ptr (p\<lparr>pool_active := False, shutting_down := True, pool_main := ShutWant\<rparr>))"

section \<open>The threads\<close>

definition set_worker :: "nat \<Rightarrow> worker_pc \<Rightarrow> ('j, 's) cart_worker_pool \<Rightarrow> ('j, 's) cart_worker_pool" where
  "set_worker i pc p = p\<lparr>pool_workers := (pool_workers p)[i := pc]\<rparr>"

text \<open>\<open>worker_main\<close>, one rule per step.\<close>

inductive worker_step :: "nat \<Rightarrow> ('j, 's) cart_worker_pool \<Rightarrow> ('j, 's) cart_worker_pool \<Rightarrow> bool" for i where
  gate_exit: "\<lbrakk>pool_workers p ! i = Gate; startup_ready p; shutting_down p\<rbrakk>
    \<Longrightarrow> worker_step i p (set_worker i Exited p)"
| gate_pass: "\<lbrakk>pool_workers p ! i = Gate; startup_ready p; \<not> shutting_down p\<rbrakk>
    \<Longrightarrow> worker_step i p (set_worker i BeforeStart (p\<lparr>startup_released := startup_released p + 1\<rparr>))"
| arrive_start: "pool_workers p ! i = BeforeStart \<Longrightarrow> worker_step i p (set_worker i WaitStart p)"
| check_exit: "\<lbrakk>pool_workers p ! i = Check; shutting_down p\<rbrakk> \<Longrightarrow> worker_step i p (set_worker i Exited p)"
| run_band: "\<lbrakk>pool_workers p ! i = Check; \<not> shutting_down p; pool_job p = Some f; i < length (pool_slots p);
      worker_band (pool_rows p) (int (worker_count p)) i = Some (row_start, row_end)\<rbrakk>
    \<Longrightarrow> worker_step i p (set_worker i BeforeStop (p\<lparr>pool_calls := pool_calls p @
         [\<lparr>call_job = f, call_slot = pool_slots p ! i, call_start = row_start, call_end = row_end,
           call_generation = pool_generation p\<rparr>]\<rparr>))"
| arrive_stop: "pool_workers p ! i = BeforeStop \<Longrightarrow> worker_step i p (set_worker i WaitStop p)"

text \<open>The main thread inside \<open>cart_worker_pool_init\<close>, \<open>_dispatch\<close> and \<open>_shutdown\<close>.\<close>

inductive main_step :: "('j, 's) cart_worker_pool \<Rightarrow> ('j, 's) cart_worker_pool \<Rightarrow> bool" where
  create: "\<lbrakk>pool_main p = Creating k; k < worker_count p\<rbrakk>
    \<Longrightarrow> main_step p (set_worker k Gate (p\<lparr>pool_main := Creating (k + 1)\<rparr>))"
| create_fails: "\<lbrakk>pool_main p = Creating k; k < worker_count p\<rbrakk>
    \<Longrightarrow> main_step p (p\<lparr>pool_main := FailJoin k 0, shutting_down := True, startup_ready := True\<rparr>)"
| fail_join: "\<lbrakk>pool_main p = FailJoin k j; j < k; pool_workers p ! j = Exited\<rbrakk>
    \<Longrightarrow> main_step p (p\<lparr>pool_main := FailJoin k (j + 1)\<rparr>)"
| fail_return: "\<lbrakk>pool_main p = FailJoin k j; j = k\<rbrakk>
    \<Longrightarrow> main_step p (p\<lparr>pool_main := InitFailed, worker_count := 0, pool_rows := 0\<rparr>)"
| created: "\<lbrakk>pool_main p = Creating k; k = worker_count p\<rbrakk>
    \<Longrightarrow> main_step p (p\<lparr>pool_main := Releasing, startup_ready := True\<rparr>)"
| released: "\<lbrakk>pool_main p = Releasing; startup_released p \<ge> worker_count p\<rbrakk>
    \<Longrightarrow> main_step p (p\<lparr>pool_main := Idle, pool_active := True\<rparr>)"
| main_arrive_start: "pool_main p = WantStart \<Longrightarrow> main_step p (p\<lparr>pool_main := InStart\<rparr>)"
| main_arrive_stop: "pool_main p = WantStop \<Longrightarrow> main_step p (p\<lparr>pool_main := InStop\<rparr>)"
| shut_arrive: "pool_main p = ShutWant \<Longrightarrow> main_step p (p\<lparr>pool_main := ShutIn\<rparr>)"
| join: "\<lbrakk>pool_main p = Joining j; j < worker_count p; pool_workers p ! j = Exited\<rbrakk>
    \<Longrightarrow> main_step p (p\<lparr>pool_main := Joining (j + 1)\<rparr>)"
| shut_return: "\<lbrakk>pool_main p = Joining j; j = worker_count p\<rbrakk>
    \<Longrightarrow> main_step p (p\<lparr>pool_main := Down, worker_count := 0, pool_rows := 0\<rparr>)"

text \<open>The two barriers, each for the workers and the main thread.\<close>

definition all_at :: "worker_pc \<Rightarrow> ('j, 's) cart_worker_pool \<Rightarrow> bool" where
  "all_at pc p \<longleftrightarrow> (\<forall>w \<in> set (pool_workers p). w = pc)"

inductive barrier_step :: "('j, 's) cart_worker_pool \<Rightarrow> ('j, 's) cart_worker_pool \<Rightarrow> bool" where
  start_trips: "\<lbrakk>pool_main p = InStart; all_at WaitStart p\<rbrakk>
    \<Longrightarrow> barrier_step p (p\<lparr>pool_main := WantStop, pool_workers := map (\<lambda>_. Check) (pool_workers p)\<rparr>)"
| stop_trips: "\<lbrakk>pool_main p = InStop; all_at WaitStop p\<rbrakk>
    \<Longrightarrow> barrier_step p (p\<lparr>pool_main := Idle, pool_workers := map (\<lambda>_. BeforeStart) (pool_workers p)\<rparr>)"
| shut_trips: "\<lbrakk>pool_main p = ShutIn; all_at WaitStart p\<rbrakk>
    \<Longrightarrow> barrier_step p (p\<lparr>pool_main := Joining 0, pool_workers := map (\<lambda>_. Check) (pool_workers p)\<rparr>)"

inductive pool_step :: "('j, 's) cart_worker_pool \<Rightarrow> ('j, 's) cart_worker_pool \<Rightarrow> bool" where
  worker_moves: "\<lbrakk>i < length (pool_workers p); worker_step i p q\<rbrakk> \<Longrightarrow> pool_step p q"
| main_moves: "main_step p q \<Longrightarrow> pool_step p q"
| barrier_trips: "barrier_step p q \<Longrightarrow> pool_step p q"

text \<open>Calls from outside, which the main thread makes when it is idle.\<close>

inductive pool_call :: "('j, 's) cart_worker_pool \<Rightarrow> ('j, 's) cart_worker_pool \<Rightarrow> bool" where
  dispatch: "\<lbrakk>pool_main p = Idle; cart_worker_pool_dispatch (Ptr p) (Some f) (Ptr ss) gen = Some (None, Ptr q)\<rbrakk>
    \<Longrightarrow> pool_call p q"
| shutdown: "\<lbrakk>pool_main p = Idle; pool_active p; cart_worker_pool_shutdown (Ptr p) = Ptr q\<rbrakk> \<Longrightarrow> pool_call p q"

inductive pool_reachable :: "nat \<Rightarrow> int \<Rightarrow> ('j, 's) cart_worker_pool \<Rightarrow> bool" for n rows where
  started: "cart_worker_pool_init works (Ptr p0) (int n) rows = (None, Ptr p, objs) \<Longrightarrow> pool_reachable n rows p"
| steps: "\<lbrakk>pool_reachable n rows p; pool_step p q\<rbrakk> \<Longrightarrow> pool_reachable n rows q"
| called: "\<lbrakk>pool_reachable n rows p; pool_call p q\<rbrakk> \<Longrightarrow> pool_reachable n rows q"

inductive_cases worker_stepE: "worker_step i p q"
inductive_cases main_stepE: "main_step p q"
inductive_cases barrier_stepE: "barrier_step p q"
inductive_cases pool_stepE: "pool_step p q"
inductive_cases pool_callE: "pool_call p q"

section \<open>The bands cover the rows\<close>

lemma worker_band_Some:
  assumes "0 < n" "0 < rows" "int n * rows \<le> INT32_MAX" "i < n"
  shows "worker_band rows (int n) i = Some (int i * rows div int n, (int i + 1) * rows div int n)"
proof -
  have i: "0 \<le> int i * rows" "0 \<le> (int i + 1) * rows" using assms(2) by simp_all
  have "int i * rows \<le> int n * rows" "(int i + 1) * rows \<le> int n * rows"
    using assms(2,4) by (intro mult_right_mono; simp)+
  then have "in_int32 (int i * rows)" "in_int32 ((int i + 1) * rows)" using i assms(3) by (simp_all add: in_int32_def)
  moreover have "a sdiv int n = a div int n" if "0 \<le> a" for a
    using that assms(1) by (cases "a = 0") (simp_all add: signed_divide_int_def)
  ultimately show ?thesis using i by (simp add: worker_band_def)
qed

lemma band_start_mono:
  assumes "0 < rows" "i \<le> j"
  shows "int i * rows div int n \<le> int j * rows div int n"
  using assms by (cases "n = 0") (simp_all add: zdiv_mono1 mult_right_mono)

text \<open>The worker that renders a row is \<open>((r + 1) * n - 1) div rows\<close>.\<close>

lemma row_in_one_band:
  assumes "0 < n" "0 < rows" "0 \<le> r" "r < rows"
  shows "\<exists>!i. i < n \<and> int i * rows div int n \<le> r \<and> r < (int i + 1) * rows div int n"
proof (rule ex_ex1I)
  let ?P = "\<lambda>i. r < int (Suc i) * rows div int n"
  have top: "?P (n - 1)" using assms by simp
  define i where "i = (LEAST i. ?P i)"
  have i: "?P i" "i \<le> n - 1" unfolding i_def using top by (auto intro: LeastI Least_le)
  have "int i * rows div int n \<le> r"
  proof (cases i)
    case 0
    then show ?thesis using assms by simp
  next
    case (Suc k)
    then have "\<not> ?P k" using not_less_Least[of k ?P] by (simp add: i_def)
    then show ?thesis using Suc by simp
  qed
  then show "\<exists>i. i < n \<and> int i * rows div int n \<le> r \<and> r < (int i + 1) * rows div int n"
    using i assms(1) by (intro exI[of _ i]) (auto simp: add.commute)
next
  have less: "False" if "i < j" "r < (int i + 1) * rows div int n" "int j * rows div int n \<le> r" for i j
  proof -
    have "int (Suc i) * rows div int n \<le> int j * rows div int n" using band_start_mono[OF assms(2), of "Suc i" j n] that(1) by simp
    then show False using that(2,3) by (simp add: add.commute)
  qed
  fix i j
  assume "i < n \<and> int i * rows div int n \<le> r \<and> r < (int i + 1) * rows div int n"
    "j < n \<and> int j * rows div int n \<le> r \<and> r < (int j + 1) * rows div int n"
  then show "i = j" using less[of i j] less[of j i] by (meson linorder_neqE_nat)
qed

section \<open>The invariant of the pool\<close>

definition the_call :: "('j, 's) cart_worker_pool \<Rightarrow> nat \<Rightarrow> ('j, 's) band_call" where
  "the_call p i = \<lparr>call_job = the (pool_job p), call_slot = pool_slots p ! i,
     call_start = int i * pool_rows p div int (worker_count p),
     call_end = (int i + 1) * pool_rows p div int (worker_count p), call_generation = pool_generation p\<rparr>"

definition published :: "nat \<Rightarrow> ('j, 's) cart_worker_pool \<Rightarrow> bool" where
  "published n p \<longleftrightarrow> pool_job p \<noteq> None \<and> length (pool_slots p) = n"

definition workers_in :: "worker_pc set \<Rightarrow> ('j, 's) cart_worker_pool \<Rightarrow> bool" where
  "workers_in S p \<longleftrightarrow> set (pool_workers p) \<subseteq> S"

text \<open>Where worker \<open>i\<close> may be while the main thread joins the workers one after the other.\<close>

definition fail_pcs :: "nat \<Rightarrow> nat \<Rightarrow> nat \<Rightarrow> worker_pc \<Rightarrow> bool" where
  "fail_pcs k j i w \<longleftrightarrow> (if i < j then w = Exited else if i < k then w \<in> {Gate, Exited} else w = Unborn)"

definition join_pcs :: "nat \<Rightarrow> nat \<Rightarrow> worker_pc \<Rightarrow> bool" where
  "join_pcs j i w \<longleftrightarrow> (if i < j then w = Exited else w \<in> {Check, Exited})"

definition phase_inv :: "nat \<Rightarrow> ('j, 's) cart_worker_pool \<Rightarrow> bool" where
  "phase_inv n p \<longleftrightarrow> (case pool_main p of
     Creating k \<Rightarrow> k \<le> n \<and> \<not> startup_ready p \<and> \<not> shutting_down p \<and> startup_released p = 0
       \<and> pool_workers p = replicate k Gate @ replicate (n - k) Unborn
   | FailJoin k j \<Rightarrow> j \<le> k \<and> k \<le> n \<and> startup_ready p \<and> shutting_down p
       \<and> (\<forall>i < n. fail_pcs k j i (pool_workers p ! i))
   | Releasing \<Rightarrow> startup_ready p \<and> \<not> shutting_down p \<and> workers_in {Gate, BeforeStart, WaitStart} p
       \<and> startup_released p = length (filter (\<lambda>w. w \<noteq> Gate) (pool_workers p))
   | Idle \<Rightarrow> \<not> shutting_down p \<and> workers_in {BeforeStart, WaitStart} p
   | WantStart \<Rightarrow> \<not> shutting_down p \<and> workers_in {BeforeStart, WaitStart} p \<and> published n p \<and> pool_calls p = []
   | InStart \<Rightarrow> \<not> shutting_down p \<and> workers_in {BeforeStart, WaitStart} p \<and> published n p \<and> pool_calls p = []
   | WantStop \<Rightarrow> \<not> shutting_down p \<and> workers_in {Check, BeforeStop, WaitStop} p \<and> published n p
       \<and> mset (pool_calls p) = image_mset (the_call p) (mset_set {i. i < n \<and> pool_workers p ! i \<noteq> Check})
   | InStop \<Rightarrow> \<not> shutting_down p \<and> workers_in {Check, BeforeStop, WaitStop} p \<and> published n p
       \<and> mset (pool_calls p) = image_mset (the_call p) (mset_set {i. i < n \<and> pool_workers p ! i \<noteq> Check})
   | ShutWant \<Rightarrow> shutting_down p \<and> workers_in {BeforeStart, WaitStart} p
   | ShutIn \<Rightarrow> shutting_down p \<and> workers_in {BeforeStart, WaitStart} p
   | Joining j \<Rightarrow> j \<le> n \<and> shutting_down p
       \<and> (\<forall>i < n. join_pcs j i (pool_workers p ! i))
   | Down \<Rightarrow> workers_in {Exited} p
   | InitFailed \<Rightarrow> workers_in {Exited, Unborn} p)"

definition pool_inv :: "nat \<Rightarrow> int \<Rightarrow> ('j, 's) cart_worker_pool \<Rightarrow> bool" where
  "pool_inv n rows p \<longleftrightarrow> 0 < n \<and> n \<le> 8 \<and> 0 < rows \<and> length (pool_workers p) = n
     \<and> (pool_main p \<notin> {Down, InitFailed} \<longrightarrow> worker_count p = n \<and> pool_rows p = rows) \<and> phase_inv n p"

lemma workers_in_nth: "workers_in S p \<longleftrightarrow> (\<forall>i < length (pool_workers p). pool_workers p ! i \<in> S)"
  by (auto simp: workers_in_def set_conv_nth)

lemma workers_in_set_worker: "workers_in S p \<Longrightarrow> pc \<in> S \<Longrightarrow> set_worker i pc p = q \<Longrightarrow> workers_in S q"
  by (auto simp: workers_in_def set_worker_def dest!: set_update_subset_insert[THEN subsetD])

lemma set_worker_simps [simp]:
  "pool_main (set_worker i pc p) = pool_main p" "worker_count (set_worker i pc p) = worker_count p"
  "pool_rows (set_worker i pc p) = pool_rows p" "pool_slots (set_worker i pc p) = pool_slots p"
  "pool_job (set_worker i pc p) = pool_job p" "pool_generation (set_worker i pc p) = pool_generation p"
  "startup_ready (set_worker i pc p) = startup_ready p" "shutting_down (set_worker i pc p) = shutting_down p"
  "startup_released (set_worker i pc p) = startup_released p" "pool_calls (set_worker i pc p) = pool_calls p"
  "pool_active (set_worker i pc p) = pool_active p"
  "pool_workers (set_worker i pc p) = (pool_workers p)[i := pc]" "the_call (set_worker i pc p) = the_call p"
  "published n (set_worker i pc p) = published n p"
  by (auto simp: set_worker_def the_call_def published_def fun_eq_iff)

lemma ran_set:
  assumes "i < n" "n = length ws" "ws ! i = Check" "pc \<noteq> Check"
  shows "{k. k < n \<and> ws[i := pc] ! k \<noteq> Check} = insert i {k. k < n \<and> ws ! k \<noteq> Check}"
    "i \<notin> {k. k < n \<and> ws ! k \<noteq> Check}"
  using assms by (auto simp: nth_list_update split: if_splits)

lemma ran_set_same:
  assumes "n = length ws" "ws ! i \<noteq> Check" "pc \<noteq> Check"
  shows "{k. k < n \<and> ws[i := pc] ! k \<noteq> Check} = {k. k < n \<and> ws ! k \<noteq> Check}"
proof -
  have "ws[i := pc] ! k \<noteq> Check \<longleftrightarrow> ws ! k \<noteq> Check" if "k < length ws" for k
    using assms(2,3) that by (cases "i = k") auto
  then show ?thesis using assms(1) by auto
qed

lemma gates_passed:
  assumes "i < length ws" "ws ! i = Gate" "pc \<noteq> Gate"
  shows "length (filter (\<lambda>w. w \<noteq> Gate) (ws[i := pc])) = Suc (length (filter (\<lambda>w. w \<noteq> Gate) ws))"
  using assms by (induction ws arbitrary: i) (auto split: nat.splits)

lemma gates_same:
  assumes "ws ! i \<noteq> Gate" "pc \<noteq> Gate"
  shows "length (filter (\<lambda>w. w \<noteq> Gate) (ws[i := pc])) = length (filter (\<lambda>w. w \<noteq> Gate) ws)"
  using assms by (induction ws arbitrary: i) (auto split: nat.splits)

text \<open>A worker step in each phase.\<close>

fun allowed :: "main_pc \<Rightarrow> worker_pc set" where
  "allowed (Creating k) = {Gate, Unborn}"
| "allowed (FailJoin k j) = {Gate, Exited, Unborn}"
| "allowed Releasing = {Gate, BeforeStart, WaitStart}"
| "allowed WantStop = {Check, BeforeStop, WaitStop}"
| "allowed InStop = {Check, BeforeStop, WaitStop}"
| "allowed (Joining j) = {Check, Exited}"
| "allowed Down = {Exited}"
| "allowed InitFailed = {Exited, Unborn}"
| "allowed _ = {BeforeStart, WaitStart}"

lemma phase_allowed:
  assumes "phase_inv n p" "n = length (pool_workers p)" "i < n"
  shows "pool_workers p ! i \<in> allowed (pool_main p)"
proof (cases "pool_main p")
  case (Creating k)
  then have "pool_workers p = replicate k Gate @ replicate (n - k) Unborn" using assms(1) by (simp add: phase_inv_def)
  moreover have "pool_workers p ! i \<in> set (pool_workers p)" using assms(2,3) by simp
  ultimately have "pool_workers p ! i \<in> set (replicate k Gate @ replicate (n - k) Unborn)" by metis
  then show ?thesis using Creating by (auto split: if_splits)
next
  case (FailJoin k j)
  then have "fail_pcs k j i (pool_workers p ! i)" using assms by (simp add: phase_inv_def)
  then show ?thesis using FailJoin by (auto simp: fail_pcs_def split: if_splits)
next
  case (Joining j)
  then have "join_pcs j i (pool_workers p ! i)" using assms by (simp add: phase_inv_def)
  then show ?thesis using Joining by (auto simp: join_pcs_def split: if_splits)
qed (use assms in \<open>simp_all add: phase_inv_def workers_in_nth\<close>)

lemma worker_pc_phase:
  assumes "phase_inv n p" "n = length (pool_workers p)" "i < n"
  shows "pool_workers p ! i = Gate \<Longrightarrow> startup_ready p \<Longrightarrow> (\<exists>k j. pool_main p = FailJoin k j) \<or> pool_main p = Releasing"
    "pool_workers p ! i = BeforeStart \<Longrightarrow> pool_main p \<in> {Releasing, Idle, WantStart, InStart, ShutWant, ShutIn}"
    "pool_workers p ! i = Check \<Longrightarrow> pool_main p \<in> {WantStop, InStop} \<or> (\<exists>j. pool_main p = Joining j)"
    "pool_workers p ! i = BeforeStop \<Longrightarrow> pool_main p \<in> {WantStop, InStop}"
  using phase_allowed[OF assms] assms(1) by (cases "pool_main p"; simp add: phase_inv_def)+

lemma update_all:
  assumes "\<forall>k < n. Q k (ws ! k)" "Q i pc" "n = length ws"
  shows "\<forall>k < n. Q k (ws[i := pc] ! k)"
proof (intro allI impI)
  fix k
  assume "k < n"
  then show "Q k (ws[i := pc] ! k)" using assms by (cases "i = k") auto
qed

lemma workers_in_fields [simp]:
  "workers_in S (p\<lparr>startup_released := x\<rparr>) = workers_in S p" "workers_in S (p\<lparr>pool_calls := cs\<rparr>) = workers_in S p"
  by (simp_all add: workers_in_def)

lemma worker_exit_inv:
  assumes "pool_inv n rows p" "i < n" "pool_workers p ! i = Gate \<and> startup_ready p \<or> pool_workers p ! i = Check" "shutting_down p"
  shows "pool_inv n rows (set_worker i Exited p)"
proof -
  have p: "phase_inv n p" "n = length (pool_workers p)" using assms(1) by (auto simp: pool_inv_def)
  from assms(3) worker_pc_phase(1,3)[OF p assms(2)] assms(4) p(1) consider
    (fail) k j where "pool_main p = FailJoin k j" "pool_workers p ! i = Gate"
    | (joining) j where "pool_main p = Joining j" "pool_workers p ! i = Check"
    by (auto simp: phase_inv_def)
  then show ?thesis
  proof cases
    case fail
    then have old: "\<forall>x < n. fail_pcs k j x (pool_workers p ! x)" using p(1) by (simp add: phase_inv_def)
    then have "fail_pcs k j i (pool_workers p ! i)" using assms(2) by blast
    then have "fail_pcs k j i Exited" using fail(2) by (auto simp: fail_pcs_def split: if_splits)
    from update_all[where Q = "fail_pcs k j", OF old this p(2)] show ?thesis
      using fail assms(1) by (simp add: pool_inv_def phase_inv_def)
  next
    case joining
    then have old: "\<forall>x < n. join_pcs j x (pool_workers p ! x)" using p(1) by (simp add: phase_inv_def)
    have "join_pcs j i Exited" by (simp add: join_pcs_def)
    from update_all[where Q = "join_pcs j", OF old this p(2)] show ?thesis
      using joining assms(1) by (simp add: pool_inv_def phase_inv_def)
  qed
qed

lemma worker_step_inv:
  assumes inv: "pool_inv n rows p" and fit: "int n * rows \<le> INT32_MAX" and i: "i < length (pool_workers p)"
    and step: "worker_step i p q"
  shows "pool_inv n rows q"
proof -
  have p: "phase_inv n p" "n = length (pool_workers p)" "i < n" "0 < n" "0 < rows"
    using inv i by (auto simp: pool_inv_def)
  note phase = worker_pc_phase[OF p(1-3)]
  from step show ?thesis
  proof cases
    case gate_exit
    then show ?thesis using worker_exit_inv[OF inv p(3)] by simp
  next
    case gate_pass
    then show ?thesis using phase(1) inv gates_passed[OF i gate_pass(2), of BeforeStart]
      by (auto simp: pool_inv_def phase_inv_def intro!: workers_in_set_worker[OF _ _ refl])
  next
    case arrive_start
    then show ?thesis using phase(2) inv gates_same[of "pool_workers p" i WaitStart]
      by (auto simp: pool_inv_def phase_inv_def intro!: workers_in_set_worker[OF _ _ refl])
  next
    case check_exit
    then show ?thesis using worker_exit_inv[OF inv p(3)] by simp
  next
    case (run_band f row_start row_end)
    then have main: "pool_main p \<in> {WantStop, InStop}" using phase(3) inv by (auto simp: pool_inv_def phase_inv_def)
    then have "worker_count p = n" "pool_rows p = rows" using inv by (auto simp: pool_inv_def)
    then have "\<lparr>call_job = f, call_slot = pool_slots p ! i, call_start = row_start, call_end = row_end,
           call_generation = pool_generation p\<rparr> = the_call p i"
      using run_band worker_band_Some[OF p(4,5) fit p(3)] by (simp add: the_call_def)
    then have q: "q = set_worker i BeforeStop (p\<lparr>pool_calls := pool_calls p @ [the_call p i]\<rparr>)" using run_band(1) by simp
    let ?ran = "{k. k < n \<and> pool_workers p ! k \<noteq> Check}"
    have "mset_set {k. k < n \<and> pool_workers q ! k \<noteq> Check} = add_mset i (mset_set ?ran)"
      using ran_set[OF p(3,2) run_band(2), of BeforeStop] by (simp add: q)
    moreover have "mset (pool_calls p) = image_mset (the_call p) (mset_set ?ran)" "workers_in {Check, BeforeStop, WaitStop} p"
      "published n p" "\<not> shutting_down p"
      using main inv by (auto simp: pool_inv_def phase_inv_def)
    moreover have "the_call q = the_call p" "published n q = published n p"
      by (simp_all add: q the_call_def published_def fun_eq_iff)
    ultimately have stop: "mset (pool_calls q) = image_mset (the_call q) (mset_set {k. k < n \<and> pool_workers q ! k \<noteq> Check})"
        "workers_in {Check, BeforeStop, WaitStop} q" "published n q" "\<not> shutting_down q"
      by (simp_all add: q workers_in_set_worker[OF _ _ refl])
    have "pool_main q = pool_main p" "length (pool_workers q) = length (pool_workers p)" "worker_count q = worker_count p"
      "pool_rows q = pool_rows p" by (simp_all add: q)
    then show ?thesis using stop main inv unfolding pool_inv_def phase_inv_def by auto
  next
    case arrive_stop
    then have "pool_main p = WantStop \<or> pool_main p = InStop" using phase(4) by simp
    moreover have "{k. k < n \<and> (pool_workers p)[i := WaitStop] ! k \<noteq> Check} = {k. k < n \<and> pool_workers p ! k \<noteq> Check}"
      using ran_set_same[OF p(2), of i WaitStop] arrive_stop by simp
    moreover have "workers_in {Check, BeforeStop, WaitStop} p \<Longrightarrow> workers_in {Check, BeforeStop, WaitStop} (set_worker i WaitStop p)"
      using workers_in_set_worker by blast
    ultimately show ?thesis using arrive_stop(1) inv by (elim disjE) (simp_all add: pool_inv_def phase_inv_def)
  qed
qed

lemma pool_fields [simp]:
  "workers_in S (p\<lparr>pool_main := m\<rparr>) = workers_in S p" "workers_in S (p\<lparr>pool_active := a\<rparr>) = workers_in S p"
  "workers_in S (p\<lparr>shutting_down := b\<rparr>) = workers_in S p" "workers_in S (p\<lparr>startup_ready := b\<rparr>) = workers_in S p"
  "published n (p\<lparr>pool_main := m\<rparr>) = published n p" "the_call (p\<lparr>pool_main := m\<rparr>) = the_call p"
  "published n (p\<lparr>pool_workers := ws\<rparr>) = published n p" "the_call (p\<lparr>pool_workers := ws\<rparr>) = the_call p"
  "workers_in S (p\<lparr>worker_count := c\<rparr>) = workers_in S p" "workers_in S (p\<lparr>pool_rows := r\<rparr>) = workers_in S p"
  by (auto simp: workers_in_def published_def the_call_def fun_eq_iff)

lemma main_step_inv:
  assumes inv: "pool_inv n rows p" and step: "main_step p q"
  shows "pool_inv n rows q"
  using step
proof cases
  case (create k)
  have "(replicate k Gate @ replicate (n - k) Unborn)[k := Gate] = replicate (Suc k) Gate @ replicate (n - Suc k) Unborn"
    if "k < n"
    using that Suc_diff_Suc[OF that, symmetric] by (simp add: list_update_append replicate_append_same flip: append_Cons)
  then show ?thesis using create inv by (auto simp: pool_inv_def phase_inv_def)
next
  case (create_fails k)
  have "fail_pcs k 0 i ((replicate k Gate @ replicate (n - k) Unborn) ! i)" if "i < n" for i
    using that by (simp add: fail_pcs_def nth_append)
  then show ?thesis using create_fails inv by (simp add: pool_inv_def phase_inv_def)
next
  case (fail_join k j)
  have "fail_pcs k (j + 1) i w" if "fail_pcs k j i w" "i = j \<longrightarrow> w = Exited" for i w
    using that by (auto simp: fail_pcs_def less_Suc_eq split: if_splits)
  then show ?thesis using fail_join inv by (auto simp: pool_inv_def phase_inv_def)
next
  case (fail_return k j)
  have "\<forall>i < length (pool_workers p). fail_pcs k k i (pool_workers p ! i)"
    using fail_return inv by (simp add: pool_inv_def phase_inv_def)
  then have "workers_in {Exited, Unborn} p" unfolding workers_in_nth fail_pcs_def by (auto split: if_splits)
  then show ?thesis using fail_return inv by (simp add: pool_inv_def phase_inv_def)
next
  case (created k)
  then show ?thesis using inv by (auto simp: pool_inv_def phase_inv_def workers_in_def)
next
  case released
  have all: "\<forall>x \<in> set xs. P x" if "length xs \<le> length (filter P xs)" for P and xs :: "worker_pc list"
    using that length_filter_less[of _ xs P] linorder_not_less by blast
  have "\<forall>w \<in> set (pool_workers p). w \<noteq> Gate"
  proof (rule all)
    have "startup_released p = length (filter (\<lambda>w. w \<noteq> Gate) (pool_workers p))" "worker_count p = length (pool_workers p)"
      using released(2) inv by (simp_all add: pool_inv_def phase_inv_def)
    then show "length (pool_workers p) \<le> length (filter (\<lambda>w. w \<noteq> Gate) (pool_workers p))" using released(3) by simp
  qed
  then have "workers_in {BeforeStart, WaitStart} p"
    using released inv by (auto simp: pool_inv_def phase_inv_def workers_in_def)
  then show ?thesis using released inv by (simp add: pool_inv_def phase_inv_def)
next
  case (join j)
  have "join_pcs (j + 1) i w" if "join_pcs j i w" "i = j \<longrightarrow> w = Exited" for i w
    using that by (auto simp: join_pcs_def less_Suc_eq split: if_splits)
  then show ?thesis using join inv by (auto simp: pool_inv_def phase_inv_def)
next
  case (shut_return j)
  then show ?thesis using inv by (auto simp: pool_inv_def phase_inv_def workers_in_nth join_pcs_def)
qed (use inv in \<open>simp_all add: pool_inv_def phase_inv_def\<close>)

lemma barrier_step_inv:
  assumes inv: "pool_inv n rows p" and step: "barrier_step p q"
  shows "pool_inv n rows q"
  using step
proof cases
  case start_trips
  have none: "{i. i < length ws \<and> map (\<lambda>_. Check) ws ! i \<noteq> Check} = {}" for ws :: "worker_pc list" by auto
  have all: "workers_in {Check, BeforeStop, WaitStop} q" using start_trips by (auto simp: workers_in_def)
  have n: "n = length (pool_workers p)" using inv by (simp add: pool_inv_def)
  show ?thesis using start_trips inv all unfolding pool_inv_def phase_inv_def n by (simp add: none)
next
  case stop_trips
  then show ?thesis using inv by (auto simp: pool_inv_def phase_inv_def workers_in_def)
next
  case shut_trips
  then show ?thesis using inv by (auto simp: pool_inv_def phase_inv_def join_pcs_def)
qed

lemma pool_call_inv:
  assumes inv: "pool_inv n rows p" and call: "pool_call p q"
  shows "pool_inv n rows q"
  using call
proof cases
  case (dispatch f ss gen)
  then show ?thesis using inv
    by (auto simp: cart_worker_pool_dispatch_def pool_inv_def phase_inv_def published_def workers_in_def split: if_splits)
next
  case shutdown
  then show ?thesis using inv
    by (auto simp: cart_worker_pool_shutdown_def pool_inv_def phase_inv_def workers_in_def split: if_splits)
qed

lemma pool_step_inv:
  assumes "pool_inv n rows p" "int n * rows \<le> INT32_MAX" "pool_step p q"
  shows "pool_inv n rows q"
  using assms(3) by cases (use assms worker_step_inv main_step_inv barrier_step_inv in blast)+

lemma pool_init_inv:
  assumes "cart_worker_pool_init works (Ptr p0) (int n) rows = (None, Ptr p, objs)"
  shows "pool_inv n rows p"
  using assms by (auto simp: cart_worker_pool_init_def zero_pool_def Let_def pool_inv_def phase_inv_def split: if_splits)

lemma pool_reachable_inv:
  assumes "pool_reachable n rows p" "int n * rows \<le> INT32_MAX"
  shows "pool_inv n rows p"
  using assms(1) by induction (use assms(2) pool_init_inv pool_step_inv pool_call_inv in blast)+

section \<open>Progress\<close>

definition at_rest :: "('j, 's) cart_worker_pool \<Rightarrow> bool" where
  "at_rest p \<longleftrightarrow> pool_main p \<in> {Idle, Down, InitFailed}"

fun main_rank :: "nat \<Rightarrow> main_pc \<Rightarrow> nat" where
  "main_rank n (Creating k) = 20 + (n - k)"
| "main_rank n (FailJoin k j) = 1 + (k - j)"
| "main_rank n Releasing = 5"
| "main_rank n WantStart = 4"
| "main_rank n InStart = 3"
| "main_rank n WantStop = 2"
| "main_rank n InStop = 1"
| "main_rank n ShutWant = 12"
| "main_rank n ShutIn = 11"
| "main_rank n (Joining j) = 1 + (n - j)"
| "main_rank n _ = 0"

fun worker_rank :: "worker_pc \<Rightarrow> nat" where
  "worker_rank Check = 3"
| "worker_rank Gate = 2"
| "worker_rank BeforeStop = 2"
| "worker_rank BeforeStart = 1"
| "worker_rank WaitStop = 1"
| "worker_rank _ = 0"

definition pool_measure :: "('j, 's) cart_worker_pool \<Rightarrow> nat" where
  "pool_measure p = main_rank (length (pool_workers p)) (pool_main p) * (3 * length (pool_workers p) + 1)
     + sum_list (map worker_rank (pool_workers p))"

lemma worker_rank_sum: "sum_list (map worker_rank ws) \<le> 3 * length ws"
proof (induction ws)
  case (Cons w ws)
  then show ?case by (cases w) auto
qed simp

lemma sum_update_less:
  assumes "i < length ws" "worker_rank pc < worker_rank (ws ! i)"
  shows "sum_list (map worker_rank (ws[i := pc])) < sum_list (map worker_rank ws)"
  using assms by (induction ws arbitrary: i) (auto split: nat.splits)

lemma measure_main_less:
  assumes "length (pool_workers q) = length (pool_workers p)"
    "main_rank (length (pool_workers p)) (pool_main q) < main_rank (length (pool_workers p)) (pool_main p)"
  shows "pool_measure q < pool_measure p"
proof -
  let ?n = "3 * length (pool_workers p) + 1"
  have "pool_measure q \<le> main_rank (length (pool_workers p)) (pool_main q) * ?n + 3 * length (pool_workers p)"
    unfolding pool_measure_def assms(1) using worker_rank_sum[of "pool_workers q"] assms(1) by simp
  also have "\<dots> < (main_rank (length (pool_workers p)) (pool_main q) + 1) * ?n" by simp
  also have "\<dots> \<le> main_rank (length (pool_workers p)) (pool_main p) * ?n" using assms(2) by (intro mult_right_mono) simp_all
  also have "\<dots> \<le> pool_measure p" by (simp add: pool_measure_def)
  finally show ?thesis .
qed

lemma worker_step_less:
  assumes "i < length (pool_workers p)" "worker_step i p q"
  shows "pool_measure q < pool_measure p"
  using assms(2)
proof cases
  case (run_band f s e)
  then show ?thesis using sum_update_less[OF assms(1), of BeforeStop] by (simp add: pool_measure_def)
next
  case gate_pass
  then show ?thesis using sum_update_less[OF assms(1), of BeforeStart] by (simp add: pool_measure_def)
qed (use sum_update_less[OF assms(1)] in \<open>simp_all add: pool_measure_def\<close>)

lemma pool_step_less:
  assumes inv: "pool_inv n rows p" and step: "pool_step p q"
  shows "pool_measure q < pool_measure p"
  using step
proof cases
  case (worker_moves i)
  then show ?thesis using worker_step_less by blast
next
  case main_moves
  have n: "length (pool_workers p) = n" "n \<le> 8" "phase_inv n p" using inv by (auto simp: pool_inv_def)
  have "length (pool_workers q) = n \<and> main_rank n (pool_main q) < main_rank n (pool_main p)"
    using main_moves
  proof cases
    case (create k)
    then show ?thesis using inv by (auto simp: pool_inv_def)
  next
    case (create_fails k)
    then have "k \<le> n" using n by (simp add: phase_inv_def)
    then show ?thesis using create_fails n by simp
  next
    case (join j)
    then show ?thesis using inv by (auto simp: pool_inv_def)
  qed (use n in simp_all)
  then show ?thesis using measure_main_less[of q p] n(1) by simp
next
  case barrier_trips
  then have "length (pool_workers q) = length (pool_workers p)
      \<and> main_rank (length (pool_workers p)) (pool_main q) < main_rank (length (pool_workers p)) (pool_main p)"
  proof cases
    case shut_trips
    then show ?thesis using inv by (simp add: pool_inv_def)
  qed simp_all
  then show ?thesis using measure_main_less[of q p] by simp
qed

lemma some_worker:
  assumes "\<not> all_at pc p" "workers_in S p"
  obtains i where "i < length (pool_workers p)" "pool_workers p ! i \<in> S - {pc}"
  using assms by (auto simp: all_at_def workers_in_def in_set_conv_nth) (metis nth_mem subsetD)

lemma start_barrier_progress:
  assumes "workers_in {BeforeStart, WaitStart} p" "pool_main p = InStart \<or> pool_main p = ShutIn"
  shows "\<exists>q. pool_step p q"
proof (cases "all_at WaitStart p")
  case True
  then show ?thesis using assms(2) barrier_trips start_trips shut_trips by metis
next
  case False
  then obtain i where "i < length (pool_workers p)" "pool_workers p ! i = BeforeStart"
    using some_worker[OF _ assms(1)] by (metis Diff_iff insert_iff empty_iff)
  then show ?thesis using worker_moves arrive_start by blast
qed

lemma stop_barrier_progress:
  assumes inv: "pool_inv n rows p" and fit: "int n * rows \<le> INT32_MAX" and main: "pool_main p = InStop"
  shows "\<exists>q. pool_step p q"
proof (cases "all_at WaitStop p")
  case True
  then show ?thesis using main barrier_trips stop_trips by blast
next
  case False
  have st: "workers_in {Check, BeforeStop, WaitStop} p" "\<not> shutting_down p" "published n p" "length (pool_workers p) = n"
      "worker_count p = n" "pool_rows p = rows" "0 < n" "0 < rows"
    using inv main by (auto simp: pool_inv_def phase_inv_def)
  obtain i where i: "i < length (pool_workers p)" "pool_workers p ! i = Check \<or> pool_workers p ! i = BeforeStop"
    using some_worker[OF False st(1)] by blast
  show ?thesis
  proof (cases "pool_workers p ! i = Check")
    case True
    obtain f where "pool_job p = Some f" "i < length (pool_slots p)" using st(3,4) i(1) by (auto simp: published_def)
    moreover have "worker_band (pool_rows p) (int (worker_count p)) i = Some (int i * rows div int n, (int i + 1) * rows div int n)"
      using worker_band_Some[OF st(7,8) fit, of i] i(1) st(4-6) by simp
    ultimately show ?thesis using worker_moves[OF i(1) run_band[OF True st(2)]] by blast
  next
    case False
    then show ?thesis using i worker_moves arrive_stop by blast
  qed
qed

lemma join_progress:
  assumes "pool_main p = Joining j" "join_pcs j j (pool_workers p ! j)" "j < worker_count p" "j < length (pool_workers p)" "shutting_down p"
  shows "\<exists>q. pool_step p q"
proof (cases "pool_workers p ! j = Exited")
  case True
  then show ?thesis using main_moves[OF join[OF assms(1,3)]] by blast
next
  case False
  then have "pool_workers p ! j = Check" using assms(2) by (simp add: join_pcs_def)
  then show ?thesis using worker_moves[OF assms(4) check_exit] assms(5) by blast
qed

lemma fail_progress:
  assumes "pool_main p = FailJoin k j" "fail_pcs k j j (pool_workers p ! j)" "j < k" "j < length (pool_workers p)"
    "startup_ready p" "shutting_down p"
  shows "\<exists>q. pool_step p q"
proof (cases "pool_workers p ! j = Exited")
  case True
  then show ?thesis using main_moves[OF fail_join[OF assms(1,3)]] by blast
next
  case False
  then have "pool_workers p ! j = Gate" using assms(2,3) by (simp add: fail_pcs_def)
  then show ?thesis using worker_moves[OF assms(4) gate_exit] assms(5,6) by blast
qed

lemma release_progress:
  assumes "pool_main p = Releasing" "workers_in {Gate, BeforeStart, WaitStart} p" "startup_ready p" "\<not> shutting_down p"
    "worker_count p = length (pool_workers p)" "startup_released p = length (filter (\<lambda>w. w \<noteq> Gate) (pool_workers p))"
  shows "\<exists>q. pool_step p q"
proof (cases "Gate \<in> set (pool_workers p)")
  case True
  then obtain i where "i < length (pool_workers p)" "pool_workers p ! i = Gate" by (auto simp: in_set_conv_nth)
  then show ?thesis using worker_moves gate_pass assms(3,4) by blast
next
  case False
  then have "filter (\<lambda>w. w \<noteq> Gate) (pool_workers p) = pool_workers p" by (auto intro: filter_True)
  then have "worker_count p \<le> startup_released p" using assms(5,6) by simp
  then show ?thesis using main_moves[OF released[OF assms(1)]] by blast
qed

lemma pool_progress:
  assumes inv: "pool_inv n rows p" and fit: "int n * rows \<le> INT32_MAX" and "\<not> at_rest p"
  shows "\<exists>q. pool_step p q"
proof (cases "pool_main p")
  case (Creating k)
  then have "k < worker_count p \<or> k = worker_count p" using inv by (auto simp: pool_inv_def phase_inv_def)
  then show ?thesis using main_moves[OF create[OF Creating]] main_moves[OF created[OF Creating]] by blast
next
  case (FailJoin k j)
  have "j < k \<or> j = k" "\<forall>i < n. fail_pcs k j i (pool_workers p ! i)" "k \<le> n" "length (pool_workers p) = n" "startup_ready p" "shutting_down p"
    using inv FailJoin by (auto simp: pool_inv_def phase_inv_def)
  then show ?thesis using fail_progress[OF FailJoin] main_moves[OF fail_return[OF FailJoin]] by auto
next
  case (Joining j)
  have "j < worker_count p \<or> j = worker_count p" "\<forall>i < n. join_pcs j i (pool_workers p ! i)" "worker_count p = n" "length (pool_workers p) = n" "shutting_down p"
    using inv Joining by (auto simp: pool_inv_def phase_inv_def)
  then show ?thesis using join_progress[OF Joining] main_moves[OF shut_return[OF Joining]] by auto
next
  case Releasing
  then show ?thesis using inv release_progress by (auto simp: pool_inv_def phase_inv_def)
next
  case InStart
  then show ?thesis using inv start_barrier_progress by (auto simp: pool_inv_def phase_inv_def)
next
  case ShutIn
  then show ?thesis using inv start_barrier_progress by (auto simp: pool_inv_def phase_inv_def)
next
  case InStop
  then show ?thesis using stop_barrier_progress[OF inv fit] by simp
next
  case WantStart
  then show ?thesis using main_moves[OF main_arrive_start] by blast
next
  case WantStop
  then show ?thesis using main_moves[OF main_arrive_stop] by blast
next
  case ShutWant
  then show ?thesis using main_moves[OF shut_arrive] by blast
qed (use assms(3) in \<open>simp_all add: at_rest_def\<close>)

section \<open>One dispatch\<close>

definition in_dispatch :: "nat \<Rightarrow> int \<Rightarrow> 'j \<Rightarrow> 's list \<Rightarrow> u64 \<Rightarrow> ('j, 's) cart_worker_pool \<Rightarrow> bool" where
  "in_dispatch n rows f ss gen p \<longleftrightarrow> pool_inv n rows p \<and> pool_main p \<in> {WantStart, InStart, WantStop, InStop, Idle}
     \<and> pool_job p = Some f \<and> pool_slots p = take n ss \<and> pool_generation p = gen
     \<and> (pool_main p = Idle \<longrightarrow> mset (pool_calls p) = image_mset (the_call p) (mset_set {i. i < n}))"

lemma in_dispatch_step:
  assumes "in_dispatch n rows f ss gen p" "int n * rows \<le> INT32_MAX" "pool_step p q"
  shows "in_dispatch n rows f ss gen q"
proof -
  have inv: "pool_inv n rows p" and main: "pool_main p \<in> {WantStart, InStart, WantStop, InStop, Idle}"
    using assms(1) by (auto simp: in_dispatch_def)
  have q: "pool_inv n rows q" using pool_step_inv[OF inv assms(2,3)] .
  from assms(3) show ?thesis
  proof cases
    case (worker_moves i)
    have "phase_inv n p" "n = length (pool_workers p)" "i < n" using inv worker_moves(1) by (auto simp: pool_inv_def)
    then have "pool_workers p ! i \<in> allowed (pool_main p)" using phase_allowed by blast
    then have idle: "pool_main p = Idle \<Longrightarrow> pool_workers p ! i \<in> {BeforeStart, WaitStart}" by simp
    have same: "pool_main q = pool_main p \<and> pool_job q = pool_job p \<and> pool_slots q = pool_slots p
        \<and> pool_generation q = pool_generation p \<and> the_call q = the_call p
        \<and> (pool_main p = Idle \<longrightarrow> pool_calls q = pool_calls p)"
      using worker_moves(2) idle by cases (auto simp: the_call_def fun_eq_iff)
    then show ?thesis using assms(1) q by (auto simp: in_dispatch_def)
  next
    case main_moves
    then show ?thesis using main assms(1) q by cases (auto simp: in_dispatch_def)
  next
    case barrier_trips
    then show ?thesis
    proof cases
      case stop_trips
      have "length (pool_workers p) = n" using inv by (simp add: pool_inv_def)
      then have "pool_workers p ! i = WaitStop" if "i < n" for i using stop_trips(3) that by (simp add: all_at_def)
      then have "{i. i < n \<and> pool_workers p ! i \<noteq> Check} = {i. i < n}" by auto
      then show ?thesis using stop_trips assms(1) q inv by (auto simp: in_dispatch_def pool_inv_def phase_inv_def)
    qed (use main assms(1) q in \<open>auto simp: in_dispatch_def\<close>)
  qed
qed

lemma dispatch_begins:
  assumes "pool_inv n rows p" "pool_main p = Idle"
    and "cart_worker_pool_dispatch (Ptr p) (Some f) (Ptr ss) gen = Some (None, Ptr q)"
  shows "in_dispatch n rows f ss gen q \<and> n \<le> length ss"
proof -
  have "pool_call p q" using dispatch[OF assms(2,3)] .
  then have "pool_inv n rows q" using pool_call_inv[OF assms(1)] by blast
  moreover have "worker_count p = n" using assms(1,2) by (simp add: pool_inv_def)
  ultimately show ?thesis using assms(3)
    by (auto simp: in_dispatch_def cart_worker_pool_dispatch_def split: if_splits Option.bind_splits)
qed

lemma in_dispatch_run:
  assumes "pool_step\<^sup>*\<^sup>* p q" "in_dispatch n rows f ss gen p" "int n * rows \<le> INT32_MAX"
  shows "in_dispatch n rows f ss gen q"
  using assms by (induction rule: rtranclp_induct) (blast intro: in_dispatch_step)+

lemma pool_comes_to_rest:
  assumes "pool_inv n rows p" "int n * rows \<le> INT32_MAX"
  shows "\<exists>q. pool_step\<^sup>*\<^sup>* p q \<and> at_rest q"
  using assms(1)
proof (induction "pool_measure p" arbitrary: p rule: less_induct)
  case less
  show ?case
  proof (cases "at_rest p")
    case False
    then obtain q where q: "pool_step p q" using pool_progress[OF less.prems assms(2)] by blast
    then obtain r where "pool_step\<^sup>*\<^sup>* q r" "at_rest r"
      using less.hyps[OF pool_step_less[OF less.prems q] pool_step_inv[OF less.prems assms(2) q]] by blast
    then show ?thesis using q by (meson converse_rtranclp_into_rtranclp)
  qed auto
qed

lemma dispatch_ends:
  assumes "in_dispatch n rows f ss gen p" "int n * rows \<le> INT32_MAX"
  shows "\<exists>q. pool_step\<^sup>*\<^sup>* p q \<and> pool_main q = Idle"
proof -
  have "pool_inv n rows p" using assms(1) by (simp add: in_dispatch_def)
  then obtain q where q: "pool_step\<^sup>*\<^sup>* p q" "at_rest q" using pool_comes_to_rest assms(2) by blast
  then have "in_dispatch n rows f ss gen q" using in_dispatch_run[OF _ assms] by blast
  then show ?thesis using q by (auto simp: in_dispatch_def at_rest_def)
qed

text \<open>An initialisation that fails before it creates a thread has destroyed every object it created.\<close>

lemma dispatch_calls:
  assumes "in_dispatch n rows f ss gen r" "n \<le> length ss" "pool_main r = Idle"
  shows "mset (pool_calls r) = mset (map (\<lambda>i. \<lparr>call_job = f, call_slot = ss ! i, call_start = int i * rows div int n,
      call_end = (int i + 1) * rows div int n, call_generation = gen\<rparr>) [0..<n])"
proof -
  have "worker_count r = n" "pool_rows r = rows" using assms(1,3) by (auto simp: in_dispatch_def pool_inv_def)
  then have call: "the_call r i = \<lparr>call_job = f, call_slot = ss ! i, call_start = int i * rows div int n,
      call_end = (int i + 1) * rows div int n, call_generation = gen\<rparr>" if "i < n" for i
    using that assms(1) by (simp add: the_call_def in_dispatch_def)
  have "mset (pool_calls r) = image_mset (the_call r) (mset_set {i. i < n})" using assms(1,3) by (simp add: in_dispatch_def)
  also have "\<dots> = image_mset (\<lambda>i. \<lparr>call_job = f, call_slot = ss ! i, call_start = int i * rows div int n,
      call_end = (int i + 1) * rows div int n, call_generation = gen\<rparr>) (mset_set {i. i < n})"
    by (rule image_mset_cong) (simp add: call)
  finally show ?thesis by (simp add: mset_set_upto_eq_mset_upto flip: lessThan_def atLeast0LessThan)
qed

lemma pool_step_active: "pool_step p q \<Longrightarrow> pool_active p \<Longrightarrow> pool_active q"
  by (auto elim!: pool_stepE worker_stepE main_stepE barrier_stepE)

lemma pool_run_active: "pool_step\<^sup>*\<^sup>* p q \<Longrightarrow> pool_active p \<Longrightarrow> pool_active q"
  by (induction rule: rtranclp_induct) (auto intro: pool_step_active)

lemma pool_run_reachable: "pool_step\<^sup>*\<^sup>* p q \<Longrightarrow> pool_reachable n rows p \<Longrightarrow> pool_reachable n rows q"
  by (induction rule: rtranclp_induct) (auto intro: pool_reachable.steps)

lemma pool_init_failure_clean:
  "cart_worker_pool_init works pool wc rows = (Some (- 1), pool', objs) \<Longrightarrow> objs = []"
  by (simp add: cart_worker_pool_init_def Let_def split: if_splits)

section \<open>Properties\<close>

text \<open>C7. A dispatch runs every band exactly once.  From any reachable idle state of the pool and under
  every interleaving of the threads, when \<open>cart_worker_pool_dispatch\<close> has returned, the job has been
  called exactly once for every worker, with the slot and the generation of this dispatch and the rows of
  the worker's band, and for nothing else.\<close>

theorem dispatch_runs_every_band_once:
  assumes "pool_reachable n rows p" "int n * rows \<le> INT32_MAX" "pool_main p = Idle"
    and "cart_worker_pool_dispatch (Ptr p) (Some f) (Ptr ss) gen = Some (None, Ptr q)"
    and "pool_step\<^sup>*\<^sup>* q r" "pool_main r = Idle"
  shows "mset (pool_calls r) = mset (map (\<lambda>i. \<lparr>call_job = f, call_slot = ss ! i, call_start = int i * rows div int n,
      call_end = (int i + 1) * rows div int n, call_generation = gen\<rparr>) [0..<n])"
proof -
  have b: "in_dispatch n rows f ss gen q" "n \<le> length ss"
    using dispatch_begins[OF pool_reachable_inv[OF assms(1,2)] assms(3,4)] by auto
  show ?thesis by (rule dispatch_calls[OF in_dispatch_run[OF assms(5) b(1) assms(2)] b(2) assms(6)])
qed

text \<open>C14. A dispatch returns.  While it has not, some thread can move, every step of any thread lowers a
  measure, and so a state in which the main thread is idle again is always reached: there is no deadlock
  and no endless run.\<close>

theorem dispatch_returns:
  assumes "pool_reachable n rows p" "int n * rows \<le> INT32_MAX" "pool_main p = Idle"
    and "cart_worker_pool_dispatch (Ptr p) (Some f) (Ptr ss) gen = Some (None, Ptr q)" "pool_step\<^sup>*\<^sup>* q r"
  shows "(pool_main r = Idle \<or> (\<exists>s. pool_step r s)) \<and> (\<forall>s. pool_step r s \<longrightarrow> pool_measure s < pool_measure r)
    \<and> (\<exists>s. pool_step\<^sup>*\<^sup>* r s \<and> pool_main s = Idle)"
proof -
  have "in_dispatch n rows f ss gen q" using dispatch_begins[OF pool_reachable_inv[OF assms(1,2)] assms(3,4)] by auto
  from in_dispatch_run[OF assms(5) this assms(2)] have r: "in_dispatch n rows f ss gen r" .
  then have inv: "pool_inv n rows r" by (simp add: in_dispatch_def)
  have "pool_main r = Idle \<or> \<not> at_rest r" using r by (auto simp: in_dispatch_def at_rest_def)
  then show ?thesis using pool_progress[OF inv assms(2)] pool_step_less[OF inv] dispatch_ends[OF r assms(2)] by blast
qed

text \<open>The bands cover the image.  For any number of workers and rows whose product fits in an
  \<open>int\<close> every row belongs to the band of exactly one worker.\<close>

theorem every_row_in_one_band:
  assumes "0 < n" "0 < rows" "int n * rows \<le> INT32_MAX" "0 \<le> r" "r < rows"
  shows "\<exists>!i. i < n \<and> (\<exists>s e. worker_band rows (int n) i = Some (s, e) \<and> s \<le> r \<and> r < e)"
proof -
  have "(i < n \<and> (\<exists>s e. worker_band rows (int n) i = Some (s, e) \<and> s \<le> r \<and> r < e))
      \<longleftrightarrow> (i < n \<and> int i * rows div int n \<le> r \<and> r < (int i + 1) * rows div int n)" for i
    using worker_band_Some[OF assms(1-3), of i] by auto
  then show ?thesis using row_in_one_band[OF assms(1,2,4,5)] by simp
qed

text \<open>C37. Nothing is left running.  When shutdown has returned, or initialisation has failed, every
  worker that was created has returned and no thread of the pool can move.\<close>

theorem pool_ends_without_threads:
  assumes "pool_reachable n rows p" "int n * rows \<le> INT32_MAX" "pool_main p = Down \<or> pool_main p = InitFailed"
  shows "(\<forall>w \<in> set (pool_workers p). w \<in> {Exited, Unborn}) \<and> \<not> (\<exists>q. pool_step p q)"
proof -
  have inv: "pool_inv n rows p" using pool_reachable_inv[OF assms(1,2)] .
  then have ex: "\<forall>w \<in> set (pool_workers p). w \<in> {Exited, Unborn}" using assms(3) by (auto simp: pool_inv_def phase_inv_def workers_in_def)
  have "\<not> worker_step i p q" if "i < length (pool_workers p)" for i q
  proof
    assume "worker_step i p q"
    moreover have "pool_workers p ! i \<in> {Exited, Unborn}" using ex that by simp
    ultimately show False by cases auto
  qed
  moreover have "\<not> main_step p q" "\<not> barrier_step p q" for q
    using assms(3) by (auto elim: main_step.cases barrier_step.cases)
  ultimately show ?thesis using ex by (auto elim: pool_step.cases)
qed

section \<open>A pool of one worker\<close>

definition demo_created :: "('j, 's) cart_worker_pool" where
  "demo_created = zero_pool\<lparr>worker_count := 1, pool_rows := 180, pool_main := Creating 0, pool_workers := [Unborn]\<rparr>"

definition demo_idle :: "('j, 's) cart_worker_pool" where
  "demo_idle = demo_created\<lparr>pool_main := Idle, pool_active := True, pool_workers := [BeforeStart], startup_ready := True,
     startup_released := 1\<rparr>"

lemma demo_created_reachable: "pool_reachable 1 180 demo_created"
proof (rule started)
  show "cart_worker_pool_init (\<lambda>_. True) (Ptr demo_idle) (int 1) 180
      = (None, Ptr demo_created, [StartupMutex, StartupCond, StartBarrier, StopBarrier])"
    by (simp add: cart_worker_pool_init_def demo_created_def zero_pool_def)
qed

lemma demo_idle_reachable: "pool_reachable 1 180 demo_idle"
proof -
  let ?c = "demo_created\<lparr>pool_main := Creating 1, pool_workers := [Gate]\<rparr>"
  let ?r = "?c\<lparr>pool_main := Releasing, startup_ready := True\<rparr>"
  let ?g = "?r\<lparr>startup_released := 1, pool_workers := [BeforeStart]\<rparr>"
  have "main_step demo_created ?c" using create[of demo_created 0] by (simp add: demo_created_def zero_pool_def set_worker_def)
  note c = steps[OF demo_created_reachable main_moves[OF this]]
  have "main_step ?c ?r" using created[of ?c 1] by (simp add: demo_created_def zero_pool_def)
  note r = steps[OF c main_moves[OF this]]
  have "worker_step 0 ?r ?g" using gate_pass[of ?r 0] by (simp add: demo_created_def zero_pool_def set_worker_def)
  note g = steps[OF r worker_moves[OF _ this]]
  have "main_step ?g demo_idle" using released[of ?g] by (simp add: demo_created_def demo_idle_def zero_pool_def)
  note i = steps[OF g main_moves[OF this]]
  show ?thesis by (rule i) simp
qed

lemma demo_dispatch:
  "cart_worker_pool_dispatch (Ptr demo_idle) (Some ''draw'') (Ptr [7 :: nat]) 3 =
     Some (None, Ptr (demo_idle\<lparr>pool_job := Some ''draw'', pool_slots := [7], pool_generation := 3, pool_main := WantStart, pool_calls := []\<rparr>))"
  by (simp add: cart_worker_pool_dispatch_def demo_idle_def demo_created_def)

theorem dispatch_runs_every_band_once_witness:
  "\<exists>q r. cart_worker_pool_dispatch (Ptr demo_idle) (Some ''draw'') (Ptr [7 :: nat]) 3 = Some (None, Ptr q) \<and> pool_step\<^sup>*\<^sup>* q r
    \<and> pool_main r = Idle \<and> mset (pool_calls r) = {#\<lparr>call_job = ''draw'', call_slot = (7 :: nat), call_start = 0, call_end = 180, call_generation = 3\<rparr>#}"
proof -
  have idle: "pool_main demo_idle = Idle" by (simp add: demo_idle_def)
  have fit: "int 1 * 180 \<le> INT32_MAX" by simp
  obtain q where q: "cart_worker_pool_dispatch (Ptr demo_idle) (Some ''draw'') (Ptr [7 :: nat]) 3 = Some (None, Ptr q)"
    using demo_dispatch by blast
  obtain r where r: "pool_step\<^sup>*\<^sup>* q r" "pool_main r = Idle"
    using dispatch_ends[OF conjunct1[OF dispatch_begins[OF pool_reachable_inv[OF demo_idle_reachable fit] idle q]] fit] by blast
  show ?thesis using dispatch_runs_every_band_once[OF demo_idle_reachable fit idle q r] q r
    by (intro exI[of _ q] exI[of _ r]) simp
qed

theorem dispatch_returns_witness:
  "\<exists>q s. cart_worker_pool_dispatch (Ptr demo_idle) (Some ''draw'') (Ptr [7 :: nat]) 3 = Some (None, Ptr q)
    \<and> pool_step\<^sup>*\<^sup>* q s \<and> pool_main s = Idle"
proof -
  have idle: "pool_main demo_idle = Idle" by (simp add: demo_idle_def)
  obtain q where q: "cart_worker_pool_dispatch (Ptr demo_idle) (Some ''draw'') (Ptr [7 :: nat]) 3 = Some (None, Ptr q)"
    using demo_dispatch by blast
  show ?thesis using dispatch_returns[OF demo_idle_reachable _ idle q rtranclp.rtrancl_refl] q by auto
qed

theorem every_row_in_one_band_witness:
  "\<exists>!i. i < 3 \<and> (\<exists>s e. worker_band 180 (int 3) i = Some (s, e) \<and> s \<le> 100 \<and> 100 < e)"
  using every_row_in_one_band[of 3 180 100] by simp

theorem pool_ends_without_threads_witness:
  "\<exists>p :: (string, nat) cart_worker_pool. pool_reachable 1 180 p \<and> pool_main p = InitFailed \<and> \<not> (\<exists>q. pool_step p q)"
proof -
  let ?f = "(demo_created :: (string, nat) cart_worker_pool)\<lparr>pool_main := FailJoin 0 0, shutting_down := True, startup_ready := True\<rparr>"
  let ?e = "?f\<lparr>pool_main := InitFailed, worker_count := 0, pool_rows := 0\<rparr>"
  have "main_step demo_created ?f" using create_fails[of "demo_created :: (string, nat) cart_worker_pool" 0] by (simp add: demo_created_def)
  then have "pool_reachable 1 180 ?f" using demo_created_reachable main_moves steps by blast
  moreover have "main_step ?f ?e" using fail_return[of ?f 0 0] by simp
  ultimately have "pool_reachable 1 180 ?e" using main_moves steps by blast
  then show ?thesis using pool_ends_without_threads[of 1 180 ?e] by (intro exI[of _ ?e]) simp
qed

end
