(* ===== verification/Render_Frame.thy ===== *)
theory Render_Frame
  imports Legacy_Scenes Worker_Pool
begin

text \<open>
  The renderer of \<open>cart/src/pstv-demo-cart.c\<close>: the three pixel buffers, the canvas whose pixel pointer is
  turned from one buffer to another, the render contexts of the workers, and \<open>row_job\<close>, \<open>render_frame\<close>
  and \<open>render_scene_into\<close>.  The pool runs the jobs of a dispatch in an order that the program does not
  choose: \<open>run\<close> takes the pool from the published dispatch to a state in which it has returned, and the
  jobs are executed in the order in which the pool started them.  A job writes nothing but its band
  (\<open>Legacy_Scenes\<close>) and its own context, so that finer interleavings of the jobs give the same memory.

  The result of the theory is that a rendered buffer is a fixed function of scene and frame, whatever the
  number of workers, their interleaving and the old contents.
\<close>

section \<open>State\<close>

datatype pixel_buffer = Low | LowFrom | LowTo

record row_context =
  rc_bound :: bool      \<comment> \<open>\<open>canvas\<close> is \<open>&low_canvas\<close>, otherwise NULL\<close>
  rc_start :: int
  rc_end :: int
  rc_frame :: u64
  rc_phase :: cart_scene_phase

type_synonym render_pool = "(unit, nat ptr) cart_worker_pool"

record renderer =
  low :: "u32 list"
  low_from :: "u32 list"
  low_to :: "u32 list"
  canvas_target :: pixel_buffer     \<comment> \<open>\<open>low_canvas.pixels\<close>\<close>
  row_contexts :: "row_context list"
  row_slots :: "nat ptr list"       \<comment> \<open>NULL, or the index of a context\<close>
  row_scene :: "cart_scene ptr"
  rd_pool :: render_pool

fun buffer :: "pixel_buffer \<Rightarrow> renderer \<Rightarrow> u32 list" where
  "buffer Low rd = low rd"
| "buffer LowFrom rd = low_from rd"
| "buffer LowTo rd = low_to rd"

fun set_buffer :: "pixel_buffer \<Rightarrow> u32 list \<Rightarrow> renderer \<Rightarrow> renderer" where
  "set_buffer Low b rd = rd\<lparr>low := b\<rparr>"
| "set_buffer LowFrom b rd = rd\<lparr>low_from := b\<rparr>"
| "set_buffer LowTo b rd = rd\<lparr>low_to := b\<rparr>"

definition low_canvas :: "renderer \<Rightarrow> cart_canvas" where
  "low_canvas rd = \<lparr>pixels = Ptr (buffer (canvas_target rd) rd), width = 320, height = 180, stride = 320\<rparr>"

definition zero_context :: row_context where
  "zero_context = \<lparr>rc_bound = False, rc_start = 0, rc_end = 0, rc_frame = 0, rc_phase = CART_SCENE_RENDER_ROWS\<rparr>"

definition zero_renderer :: renderer where
  "zero_renderer = \<lparr>low = replicate 57600 0, low_from = replicate 57600 0, low_to = replicate 57600 0,
     canvas_target = Low, row_contexts = replicate 8 zero_context, row_slots = replicate 8 NULL,
     row_scene = NULL, rd_pool = zero_pool\<rparr>"

section \<open>Operations\<close>

text \<open>A call of a scene's render function on a context, which draws through the canvas pointer.\<close>

definition call_render :: "int list \<Rightarrow> cart_scene_render_fn \<Rightarrow> row_context \<Rightarrow> renderer \<Rightarrow> renderer option" where
  "call_render tb fn rc rd =
     (case cart_legacy_scene tb fn (Ptr \<lparr>ctx_canvas = (if rc_bound rc then Ptr (low_canvas rd) else NULL),
         row_start = rc_start rc, row_end = rc_end rc, ctx_frame = rc_frame rc, ctx_phase = rc_phase rc\<rparr>) of
        None \<Rightarrow> None
      | Some NULL \<Rightarrow> Some rd
      | Some (Ptr ctx) \<Rightarrow> (case ctx_canvas ctx of NULL \<Rightarrow> Some rd
          | Ptr c \<Rightarrow> Some (set_buffer (canvas_target rd) (deref (pixels c)) rd)))"

definition row_job :: "int list \<Rightarrow> nat ptr \<Rightarrow> int \<Rightarrow> int \<Rightarrow> u64 \<Rightarrow> renderer \<Rightarrow> renderer option" where
  "row_job tb slot rows_from rows_to frame rd = (case slot of NULL \<Rightarrow> None | Ptr i \<Rightarrow> do {
     context \<leftarrow> load (row_contexts rd) i;
     let context = context\<lparr>rc_start := rows_from, rc_end := rows_to, rc_frame := frame, rc_phase := CART_SCENE_RENDER_ROWS\<rparr>;
     let rd = rd\<lparr>row_contexts := (row_contexts rd)[i := context]\<rparr>;
     (case row_scene rd of NULL \<Rightarrow> None | Ptr scene \<Rightarrow> call_render tb (scene_render scene) context rd)
   })"

definition run_calls :: "int list \<Rightarrow> (unit, nat ptr) band_call list \<Rightarrow> renderer \<Rightarrow> renderer option" where
  "run_calls tb = mfold (\<lambda>call. row_job tb (call_slot call) (call_start call) (call_end call) (call_generation call))"

definition bind_contexts :: "renderer \<Rightarrow> renderer" where
  "bind_contexts rd =
     (let to_bind = (if worker_count (rd_pool rd) > 0 then worker_count (rd_pool rd) else 1)
      in rd\<lparr>row_contexts := map (\<lambda>c. c\<lparr>rc_bound := True\<rparr>) (take to_bind (row_contexts rd)) @ drop to_bind (row_contexts rd)\<rparr>)"

definition render_rows :: "int list \<Rightarrow> (render_pool \<Rightarrow> render_pool) \<Rightarrow> u64 \<Rightarrow> renderer \<Rightarrow> (bool \<times> renderer) option" where
  "render_rows tb run frame rd =
     (if worker_count (rd_pool rd) > 0 then
        (case cart_worker_pool_dispatch (Ptr (rd_pool rd)) (Some ()) (Ptr (row_slots rd)) frame of
           None \<Rightarrow> None
         | Some (Some rc, p) \<Rightarrow> Some (rc = 0, rd)
         | Some (None, p) \<Rightarrow> (let pool = run (deref p) in
             map_option (\<lambda>rd. (True, rd)) (run_calls tb (pool_calls pool) (rd\<lparr>rd_pool := pool\<rparr>))))
      else map_option (\<lambda>rd. (True, rd)) (row_job tb (Ptr 0) 0 LH frame rd))"

definition render_frame :: "int list \<Rightarrow> (render_pool \<Rightarrow> render_pool) \<Rightarrow> int \<Rightarrow> u64 \<Rightarrow> renderer \<Rightarrow> renderer option" where
  "render_frame tb run which frame rd = (case cart_scene_at (word_of_int which) of NULL \<Rightarrow> Some rd
     | Ptr selected \<Rightarrow> do {
         (go_on, rd) \<leftarrow> render_rows tb run frame (bind_contexts (rd\<lparr>row_scene := Ptr selected\<rparr>));
         (if \<not> go_on then Some rd
          else call_render tb (scene_render selected) \<lparr>rc_bound = True, rc_start = 0, rc_end = LH, rc_frame = frame,
                 rc_phase = CART_SCENE_RENDER_OVERLAY\<rparr> rd)
       })"

definition render_scene_into ::
  "int list \<Rightarrow> (render_pool \<Rightarrow> render_pool) \<Rightarrow> pixel_buffer \<Rightarrow> int \<Rightarrow> u64 \<Rightarrow> renderer \<Rightarrow> renderer option" where
  "render_scene_into tb run destination which frame rd = do {
     let saved = canvas_target rd;
     rd \<leftarrow> render_frame tb run which frame (rd\<lparr>canvas_target := destination\<rparr>);
     Some (rd\<lparr>canvas_target := saved\<rparr>)
   }"

section \<open>The reference image\<close>

text \<open>One thread, one pass over the rows of a cleared canvas, and the overlay.\<close>

definition scene_image :: "int list \<Rightarrow> cart_scene_render_fn \<Rightarrow> u64 \<Rightarrow> u32 list" where
  "scene_image tb fn frame =
     (case draw_all [scene_rows tb (scene_number fn) 0 LH (legacy_frame_phase frame),
                     overlay tb (scene_number fn) (legacy_frame_phase frame)] blank_stage of
        None \<Rightarrow> [] | Some c \<Rightarrow> deref (pixels c))"

section \<open>Schedulers\<close>

text \<open>What is assumed of the scheduling: a dispatch that was published runs to its return by steps of the
  threads.\<close>

locale scheduler =
  fixes run :: "render_pool \<Rightarrow> render_pool"
  assumes completes: "\<lbrakk>pool_reachable n rows p; int n * rows \<le> INT32_MAX; pool_main p = Idle;
      cart_worker_pool_dispatch (Ptr p) (Some ()) (Ptr ss) gen = Some (None, Ptr q)\<rbrakk>
    \<Longrightarrow> pool_step\<^sup>*\<^sup>* q (run q) \<and> pool_main (run q) = Idle"

text \<open>The state of a renderer whose pool has \<open>n\<close> workers, none in inline mode.\<close>

definition wf_renderer :: "nat \<Rightarrow> renderer \<Rightarrow> bool" where
  "wf_renderer n rd \<longleftrightarrow> length (low rd) = 57600 \<and> length (low_from rd) = 57600 \<and> length (low_to rd) = 57600
     \<and> length (row_contexts rd) = 8 \<and> n = worker_count (rd_pool rd)
     \<and> (0 < n \<longrightarrow> pool_reachable n LH (rd_pool rd) \<and> pool_main (rd_pool rd) = Idle \<and> pool_active (rd_pool rd)
          \<and> row_slots rd = map Ptr [0..<8])"

section \<open>Drawing through the canvas pointer\<close>

lemma buffer_set_buffer [simp]: "buffer a (set_buffer b v rd) = (if a = b then v else buffer a rd)"
  by (cases a; cases b) simp_all

lemma set_buffer_frame [simp]:
  "canvas_target (set_buffer b v rd) = canvas_target rd" "row_contexts (set_buffer b v rd) = row_contexts rd"
  "row_slots (set_buffer b v rd) = row_slots rd" "row_scene (set_buffer b v rd) = row_scene rd"
  "rd_pool (set_buffer b v rd) = rd_pool rd"
  by (cases b; simp)+

lemma buffer_frame [simp]:
  "buffer b (rd\<lparr>canvas_target := t\<rparr>) = buffer b rd" "buffer b (rd\<lparr>row_contexts := cs\<rparr>) = buffer b rd"
  "buffer b (rd\<lparr>row_scene := s\<rparr>) = buffer b rd" "buffer b (rd\<lparr>rd_pool := p\<rparr>) = buffer b rd"
  by (cases b; simp)+

lemma low_canvas_frame [simp]:
  "low_canvas (rd\<lparr>row_contexts := cs\<rparr>) = low_canvas rd" "low_canvas (rd\<lparr>row_scene := s\<rparr>) = low_canvas rd"
  "low_canvas (rd\<lparr>rd_pool := p\<rparr>) = low_canvas rd"
  by (simp_all add: low_canvas_def)

text \<open>What drawing the shape \<open>f\<close> does to the renderer.\<close>

definition drawn :: "shape \<Rightarrow> renderer \<Rightarrow> renderer \<Rightarrow> bool" where
  "drawn f rd rd' \<longleftrightarrow> painted f (low_canvas rd) (low_canvas rd') \<and> canvas_target rd' = canvas_target rd
     \<and> (\<forall>b. b \<noteq> canvas_target rd \<longrightarrow> buffer b rd' = buffer b rd) \<and> row_slots rd' = row_slots rd
     \<and> row_scene rd' = row_scene rd \<and> rd_pool rd' = rd_pool rd
     \<and> map rc_bound (row_contexts rd') = map rc_bound (row_contexts rd)"

lemma drawn_trans: "drawn f a b \<Longrightarrow> drawn g b c \<Longrightarrow> drawn (paint_over f g) a c"
  unfolding drawn_def by (auto intro: painted_trans)

lemma stage_low_canvas: "stage (low_canvas rd) \<longleftrightarrow> 57600 \<le> length (buffer (canvas_target rd) rd)"
  by (simp add: stage_def low_canvas_def wf_canvas_iff canvas_words_def)

lemma drawn_stage: "drawn f rd rd' \<Longrightarrow> stage (low_canvas rd) \<Longrightarrow> stage (low_canvas rd')"
  by (auto simp: drawn_def intro: painted_stage)

lemma painted_low_canvas:
  assumes "painted f (low_canvas rd) d"
  shows "low_canvas (set_buffer (canvas_target rd) (deref (pixels d)) rd) = d"
  using assms by (cases d) (auto simp: painted_def low_canvas_def)

lemma drawn_set_buffer:
  assumes "painted f (low_canvas rd) d"
  shows "drawn f rd (set_buffer (canvas_target rd) (deref (pixels d)) rd)"
  using assms painted_low_canvas[OF assms] by (simp add: drawn_def)

lemma call_render_rows:
  assumes "rc_bound rc" "rc_phase rc = CART_SCENE_RENDER_ROWS" "0 \<le> rc_start rc" "rc_end rc \<le> LH" "stage (low_canvas rd)"
  shows "\<exists>rd'. call_render tb fn rc rd = Some rd'
    \<and> drawn (band_shape (scene_colour tb (scene_number fn) (legacy_frame_phase (rc_frame rc))) (rc_start rc) (rc_end rc)) rd rd'"
proof -
  let ?ctx = "\<lparr>ctx_canvas = Ptr (low_canvas rd), row_start = rc_start rc, row_end = rc_end rc, ctx_frame = rc_frame rc,
    ctx_phase = CART_SCENE_RENDER_ROWS\<rparr>"
  obtain d where d: "cart_legacy_scene tb fn (Ptr ?ctx) = Some (Ptr (?ctx\<lparr>ctx_canvas := Ptr d\<rparr>))"
      "painted (band_shape (scene_colour tb (scene_number fn) (legacy_frame_phase (rc_frame rc))) (rc_start rc) (rc_end rc)) (low_canvas rd) d"
    using cart_legacy_scene_rows[of ?ctx "low_canvas rd" tb fn] assms by auto
  show ?thesis using drawn_set_buffer[OF d(2)] d(1) assms(1,2) by (simp add: call_render_def)
qed

lemma call_render_overlay:
  assumes "rc_bound rc" "rc_phase rc = CART_SCENE_RENDER_OVERLAY" "stage (low_canvas rd)"
    and "paints f (overlay tb (scene_number fn) (legacy_frame_phase (rc_frame rc)))"
  shows "\<exists>rd'. call_render tb fn rc rd = Some rd' \<and> drawn f rd rd'"
proof -
  let ?ctx = "\<lparr>ctx_canvas = Ptr (low_canvas rd), row_start = rc_start rc, row_end = rc_end rc, ctx_frame = rc_frame rc,
    ctx_phase = CART_SCENE_RENDER_OVERLAY\<rparr>"
  obtain d where d: "cart_legacy_scene tb fn (Ptr ?ctx) = Some (Ptr (?ctx\<lparr>ctx_canvas := Ptr d\<rparr>))" "painted f (low_canvas rd) d"
    using cart_legacy_scene_overlay[of ?ctx "low_canvas rd" f tb fn] assms by auto
  show ?thesis using drawn_set_buffer[OF d(2)] d(1) assms(1,2) by (simp add: call_render_def)
qed

section \<open>The jobs of a dispatch\<close>

lemma row_job_draws:
  assumes "i < length (row_contexts rd)" "rc_bound (row_contexts rd ! i)" "row_scene rd = Ptr s"
    and "0 \<le> from" "to \<le> LH" "stage (low_canvas rd)"
  shows "\<exists>rd'. row_job tb (Ptr i) from to frame rd = Some rd'
    \<and> drawn (band_shape (scene_colour tb (scene_number (scene_render s)) (legacy_frame_phase frame)) from to) rd rd'"
proof -
  let ?rc = "(row_contexts rd ! i)\<lparr>rc_start := from, rc_end := to, rc_frame := frame, rc_phase := CART_SCENE_RENDER_ROWS\<rparr>"
  let ?rd = "rd\<lparr>row_contexts := (row_contexts rd)[i := ?rc]\<rparr>"
  have "map rc_bound (row_contexts ?rd) = map rc_bound (row_contexts rd)"
    using assms(1,2) by (simp add: map_update list_update_same_conv)
  then have "drawn f ?rd rd' \<Longrightarrow> drawn f rd rd'" for f rd' by (simp add: drawn_def)
  moreover obtain rd' where "call_render tb (scene_render s) ?rc ?rd = Some rd'"
      "drawn (band_shape (scene_colour tb (scene_number (scene_render s)) (legacy_frame_phase frame)) from to) ?rd rd'"
    using call_render_rows[of ?rc ?rd tb "scene_render s"] assms by auto
  ultimately show ?thesis using assms(1,3) by (auto simp: row_job_def Let_def)
qed

definition cover_shape :: "(int \<Rightarrow> int \<Rightarrow> u32) \<Rightarrow> (unit, nat ptr) band_call list \<Rightarrow> shape" where
  "cover_shape colour calls = (\<lambda>x y. if \<exists>c \<in> set calls. call_start c \<le> y \<and> y < call_end c then Some (colour y x) else None)"

definition call_fits :: "renderer \<Rightarrow> u64 \<Rightarrow> (unit, nat ptr) band_call \<Rightarrow> bool" where
  "call_fits rd frame c \<longleftrightarrow> (\<exists>i < length (row_contexts rd). call_slot c = Ptr i \<and> rc_bound (row_contexts rd ! i))
     \<and> 0 \<le> call_start c \<and> call_end c \<le> LH \<and> call_generation c = frame"

lemma call_fits_drawn:
  assumes "drawn f rd rd'"
  shows "call_fits rd' frame c = call_fits rd frame c"
proof -
  have b: "map rc_bound (row_contexts rd') = map rc_bound (row_contexts rd)" using assms by (simp add: drawn_def)
  then have "length (row_contexts rd') = length (row_contexts rd)" by (rule map_eq_imp_length_eq)
  moreover have "rc_bound (row_contexts rd' ! i) = rc_bound (row_contexts rd ! i)" if "i < length (row_contexts rd)" for i
    using b that calculation by (metis nth_map)
  ultimately show ?thesis by (auto simp: call_fits_def)
qed

lemma run_calls_draws:
  assumes "\<forall>c \<in> set calls. call_fits rd frame c" "row_scene rd = Ptr s" "stage (low_canvas rd)"
  shows "\<exists>rd'. run_calls tb calls rd = Some rd'
    \<and> drawn (cover_shape (scene_colour tb (scene_number (scene_render s)) (legacy_frame_phase frame)) calls) rd rd'"
  using assms
proof (induction calls arbitrary: rd)
  case Nil
  have "drawn (cover_shape col []) rd rd" for col
    using painted_refl[of "low_canvas rd" "cover_shape col []"] by (simp add: drawn_def cover_shape_def low_canvas_def)
  then show ?case by (simp add: run_calls_def)
next
  case (Cons c calls)
  let ?col = "scene_colour tb (scene_number (scene_render s)) (legacy_frame_phase frame)"
  have fit: "call_fits rd frame c" using Cons.prems(1) by simp
  then obtain i where i: "i < length (row_contexts rd)" "call_slot c = Ptr i" "rc_bound (row_contexts rd ! i)"
      "0 \<le> call_start c" "call_end c \<le> LH" "call_generation c = frame" by (auto simp: call_fits_def)
  obtain rd1 where rd1: "row_job tb (Ptr i) (call_start c) (call_end c) frame rd = Some rd1"
      "drawn (band_shape ?col (call_start c) (call_end c)) rd rd1"
    using row_job_draws[OF i(1,3) Cons.prems(2) i(4,5) Cons.prems(3)] by blast
  obtain rd' where rd': "run_calls tb calls rd1 = Some rd'" "drawn (cover_shape ?col calls) rd1 rd'"
    using Cons.IH[of rd1] Cons.prems rd1(2) call_fits_drawn[OF rd1(2)] drawn_stage[OF rd1(2)] by (auto simp: drawn_def)
  have "paint_over (band_shape ?col (call_start c) (call_end c)) (cover_shape ?col calls) = cover_shape ?col (c # calls)"
    by (auto simp: paint_over_def band_shape_def cover_shape_def fun_eq_iff)
  then show ?case using drawn_trans[OF rd1(2) rd'(2)] rd1(1) rd'(1) i(2,6) by (auto simp: run_calls_def)
qed

section \<open>The whole image\<close>

definition full_shape :: "shape \<Rightarrow> bool" where
  "full_shape f \<longleftrightarrow> (\<forall>x y. 0 \<le> x \<and> x < LW \<and> 0 \<le> y \<and> y < LH \<longrightarrow> f x y \<noteq> None)"

text \<open>A shape that covers the whole canvas leaves nothing of the old contents.\<close>

lemma painted_full:
  assumes "painted f c d" "painted f c' d'" "full_shape f" "stage c" "stage c'"
    and "length (deref (pixels c)) = 57600" "length (deref (pixels c')) = 57600"
  shows "deref (pixels d) = deref (pixels d')"
proof (rule nth_equalityI)
  show "length (deref (pixels d)) = length (deref (pixels d'))"
    using painted_frame(4)[OF assms(1)] painted_frame(4)[OF assms(2)] assms(6,7) by simp
  fix k assume "k < length (deref (pixels d))"
  then have k: "k < 57600" using painted_frame(4)[OF assms(1)] assms(6) by simp
  have w: "word_at c k = (int (k mod 320), int (k div 320))" "word_at c' k = (int (k mod 320), int (k div 320))"
    using assms(4,5) by (simp_all add: word_at_def stage_def)
  have xy: "0 \<le> int (k mod 320) \<and> int (k mod 320) < LW \<and> 0 \<le> int (k div 320) \<and> int (k div 320) < LH"
    using k by (simp add: less_mult_imp_div_less)
  then obtain v where "f (int (k mod 320)) (int (k div 320)) = Some v" using assms(3) unfolding full_shape_def by blast
  then show "deref (pixels d) ! k = deref (pixels d') ! k"
    using assms(1,2) w k assms(6,7) xy in_stage[OF assms(4)] in_stage[OF assms(5)] by (auto simp: painted_def)
qed

lemma full_paint_over: "full_shape f \<Longrightarrow> full_shape (paint_over f g)"
  by (auto simp: full_shape_def paint_over_def split: option.split)

lemma blank_stage_length: "length (deref (pixels blank_stage)) = 57600"
  by (simp add: blank_stage_def)

lemma scene_image_painted:
  assumes "paints ov (overlay tb (scene_number fn) (legacy_frame_phase frame))"
  shows "\<exists>d. scene_image tb fn frame = deref (pixels d)
    \<and> painted (paint_over (band_shape (scene_colour tb (scene_number fn) (legacy_frame_phase frame)) 0 LH) ov) blank_stage d"
proof -
  let ?band = "band_shape (scene_colour tb (scene_number fn) (legacy_frame_phase frame)) 0 LH"
  obtain c where c: "scene_rows tb (scene_number fn) 0 LH (legacy_frame_phase frame) blank_stage = Some c" "painted ?band blank_stage c"
    using scan_rows_painted[OF blank_stage_ok, of 0 LH] by (auto simp: scene_rows_scan)
  have "wf_canvas c" using painted_stage[OF c(2) blank_stage_ok] by (simp add: stage_def)
  then obtain d where d: "overlay tb (scene_number fn) (legacy_frame_phase frame) c = Some d" "painted ov c d"
    using assms by (auto simp: paints_def)
  show ?thesis using painted_trans[OF c(2) d(2)] c(1) d(1) by (auto simp: scene_image_def draw_all_def)
qed

lemma scene_image_length: "sine_table tb \<Longrightarrow> length (scene_image tb fn frame) = 57600"
proof -
  assume "sine_table tb"
  then obtain ov where "paints ov (overlay tb (scene_number fn) (legacy_frame_phase frame))"
    by (rule overlay_shape)
  from scene_image_painted[OF this] show ?thesis using painted_frame(4) blank_stage_length by metis
qed

text \<open>Two phases on any canvas give the reference image.\<close>

lemma drawn_image:
  assumes "drawn (paint_over f ov) rd rd'" "paints ov (overlay tb (scene_number fn) (legacy_frame_phase frame))"
    and "\<And>x y. 0 \<le> y \<Longrightarrow> y < LH \<Longrightarrow> f x y = Some (scene_colour tb (scene_number fn) (legacy_frame_phase frame) y x)"
    and "length (buffer (canvas_target rd) rd) = 57600"
  shows "buffer (canvas_target rd) rd' = scene_image tb fn frame"
proof -
  let ?band = "band_shape (scene_colour tb (scene_number fn) (legacy_frame_phase frame)) 0 LH"
  obtain d where d: "scene_image tb fn frame = deref (pixels d)" "painted (paint_over ?band ov) blank_stage d"
    using scene_image_painted[OF assms(2)] by blast
  have st: "stage (low_canvas rd)" using assms(4) by (simp add: stage_low_canvas)
  have "painted (paint_over ?band ov) (low_canvas rd) (low_canvas rd')"
  proof (rule painted_cong)
    show "painted (paint_over f ov) (low_canvas rd) (low_canvas rd')" using assms(1) by (simp add: drawn_def)
    show "paint_over f ov x y = paint_over ?band ov x y" if "in_canvas (low_canvas rd) x y" for x y
      using that in_stage[OF st] assms(3) by (auto simp: paint_over_def band_shape_def split: option.split)
  qed
  moreover have "full_shape (paint_over ?band ov)"
    by (rule full_paint_over) (simp add: full_shape_def band_shape_def)
  moreover have "length (deref (pixels (low_canvas rd))) = 57600" using assms(4) by (simp add: low_canvas_def)
  ultimately have "deref (pixels (low_canvas rd')) = deref (pixels d)"
    using painted_full[OF _ d(2) _ st blank_stage_ok _ blank_stage_length] by blast
  then show ?thesis using assms(1) d(1) by (simp add: low_canvas_def drawn_def)
qed

section \<open>Rendering a frame\<close>

lemma bind_contexts_frame [simp]:
  "low_canvas (bind_contexts rd) = low_canvas rd" "canvas_target (bind_contexts rd) = canvas_target rd"
  "row_slots (bind_contexts rd) = row_slots rd" "row_scene (bind_contexts rd) = row_scene rd"
  "rd_pool (bind_contexts rd) = rd_pool rd" "buffer b (bind_contexts rd) = buffer b rd"
  by (simp_all add: bind_contexts_def Let_def)

lemma bind_contexts_bound:
  assumes "length (row_contexts rd) = 8"
  shows "length (row_contexts (bind_contexts rd)) = 8"
    and "i < max 1 (worker_count (rd_pool rd)) \<Longrightarrow> i < 8 \<Longrightarrow> rc_bound (row_contexts (bind_contexts rd) ! i)"
  using assms by (auto simp: bind_contexts_def Let_def nth_append)

lemma band_in_rows:
  assumes "i < n"
  shows "0 \<le> int i * LH div int n" "(int i + 1) * LH div int n \<le> LH"
proof -
  show "0 \<le> int i * LH div int n" using assms by (simp add: pos_imp_zdiv_nonneg_iff)
  have "(int i + 1) * LH \<le> LH * int n" using assms by simp
  then have "(int i + 1) * LH div int n \<le> LH * int n div int n" using assms by (intro zdiv_mono1) auto
  then show "(int i + 1) * LH div int n \<le> LH" using assms by simp
qed


text \<open>What rendering into the target buffer leaves behind.\<close>

definition rendered :: "u32 list \<Rightarrow> nat \<Rightarrow> renderer \<Rightarrow> renderer \<Rightarrow> bool" where
  "rendered img n rd rd' \<longleftrightarrow> wf_renderer n rd' \<and> buffer (canvas_target rd) rd' = img
     \<and> (\<forall>b. b \<noteq> canvas_target rd \<longrightarrow> buffer b rd' = buffer b rd) \<and> canvas_target rd' = canvas_target rd"

lemma wf_renderer_buffer: "wf_renderer n rd \<Longrightarrow> length (buffer b rd) = 57600"
  by (cases b) (simp_all add: wf_renderer_def)

lemma drawn_wf:
  assumes "drawn f rd rd'" "wf_renderer n rd"
  shows "wf_renderer n rd'"
proof -
  have "length (buffer b rd') = 57600" for b
  proof (cases "b = canvas_target rd")
    case True
    have "length (deref (pixels (low_canvas rd'))) = length (deref (pixels (low_canvas rd)))"
      using assms(1) painted_frame(4) by (auto simp: drawn_def)
    then show ?thesis using assms(1) True wf_renderer_buffer[OF assms(2)] by (simp add: low_canvas_def drawn_def)
  next
    case False
    then show ?thesis using assms(1) wf_renderer_buffer[OF assms(2)] by (simp add: drawn_def)
  qed
  from this[of Low] this[of LowFrom] this[of LowTo] show ?thesis
    using assms by (auto simp: wf_renderer_def drawn_def dest!: map_eq_imp_length_eq)
qed

lemma pool_size: "pool_reachable n rows p \<Longrightarrow> n \<le> 8"
proof (induction rule: pool_reachable.induct)
  case (started works p0 p objs)
  then show ?case by (simp add: cart_worker_pool_init_def Let_def split: if_splits)
qed

lemma cart_scene_at_int:
  assumes "0 \<le> i" "i < SCENES"
  shows "cart_scene_at (word_of_int i) = Ptr (builtin_scenes ! nat i)"
proof -
  have "unat (word_of_int i :: size_t) = nat i" using assms by (intro unat_of_int_nonneg) simp_all
  then show ?thesis using assms by (simp add: cart_scene_at_def cart_scene_count_def builtin_scenes_def word_le_nat_alt)
qed

context scheduler
begin

lemma dispatch_draws:
  assumes wf: "wf_renderer n rd" and n: "0 < n" and s: "row_scene rd = Ptr s"
    and bound: "\<And>i. i < n \<Longrightarrow> rc_bound (row_contexts rd ! i)"
  shows "\<exists>calls rd'. render_rows tb run frame rd = Some (True, rd')
    \<and> drawn (cover_shape (scene_colour tb (scene_number (scene_render s)) (legacy_frame_phase frame)) calls)
        (rd\<lparr>rd_pool := rd_pool rd'\<rparr>) rd'
    \<and> (\<forall>y. 0 \<le> y \<and> y < LH \<longrightarrow> (\<exists>c \<in> set calls. call_start c \<le> y \<and> y < call_end c))
    \<and> worker_count (rd_pool rd') = n \<and> pool_reachable n LH (rd_pool rd') \<and> pool_main (rd_pool rd') = Idle \<and> pool_active (rd_pool rd')"
proof -
  let ?p = "rd_pool rd"
  have p: "pool_reachable n LH ?p" "pool_main ?p = Idle" "pool_active ?p" "worker_count ?p = n" "row_slots rd = map Ptr [0..<8]"
    using wf n by (auto simp: wf_renderer_def)
  have n8: "n \<le> 8" using pool_size[OF p(1)] .
  then have fit: "int n * LH \<le> INT32_MAX" by simp
  define q where "q = ?p\<lparr>pool_job := Some (), pool_slots := take n (row_slots rd), pool_generation := frame,
    pool_main := WantStart, pool_calls := []\<rparr>"
  have disp: "cart_worker_pool_dispatch (Ptr ?p) (Some ()) (Ptr (row_slots rd)) frame = Some (None, Ptr q)"
    using p n n8 by (simp add: cart_worker_pool_dispatch_def q_def)
  have r: "pool_step\<^sup>*\<^sup>* q (run q)" "pool_main (run q) = Idle" using completes[OF p(1) fit p(2) disp] by simp_all
  have q: "pool_reachable n LH q" using pool_reachable.called[OF p(1) pool_call.dispatch[OF p(2) disp]] .
  have b: "in_dispatch n LH () (row_slots rd) frame q" "n \<le> length (row_slots rd)"
    using dispatch_begins[OF pool_reachable_inv[OF p(1) fit] p(2) disp] by auto
  define calls where "calls = pool_calls (run q)"
  have calls: "set calls = (\<lambda>i. \<lparr>call_job = (), call_slot = row_slots rd ! i, call_start = int i * LH div int n,
      call_end = (int i + 1) * LH div int n, call_generation = frame\<rparr>) ` {..<n}"
    using arg_cong[OF dispatch_calls[OF in_dispatch_run[OF r(1) b(1) fit] b(2) r(2)], of set_mset]
    by (simp add: calls_def atLeast0LessThan)
  let ?rd = "rd\<lparr>rd_pool := run q\<rparr>"
  have "call_fits ?rd frame c" if "c \<in> set calls" for c
    using that wf p(5) n8 bound band_in_rows by (auto simp: calls call_fits_def wf_renderer_def)
  moreover have "stage (low_canvas ?rd)" using wf_renderer_buffer[OF wf] by (simp add: stage_low_canvas)
  ultimately obtain rd' where rd': "run_calls tb calls ?rd = Some rd'"
      "drawn (cover_shape (scene_colour tb (scene_number (scene_render s)) (legacy_frame_phase frame)) calls) ?rd rd'"
    using run_calls_draws[of calls ?rd frame s tb] s by auto
  have pool: "rd_pool rd' = run q" using rd'(2) by (simp add: drawn_def)
  have cover: "\<exists>c \<in> set calls. call_start c \<le> y \<and> y < call_end c" if "0 \<le> y" "y < LH" for y
    using row_in_one_band[OF n, of LH y] that by (auto simp: calls)
  have "worker_count (run q) = n"
    using pool_reachable_inv[OF pool_run_reachable[OF r(1) q] fit] r(2) by (simp add: pool_inv_def)
  then have "worker_count (run q) = n" "pool_reachable n LH (run q)" "pool_active (run q)"
    using pool_run_reachable[OF r(1) q] pool_run_active[OF r(1)] p(3) by (simp_all add: q_def)
  moreover have "render_rows tb run frame rd = Some (True, rd')"
    using disp rd'(1) n p(4) by (simp add: render_rows_def Let_def calls_def)
  ultimately show ?thesis using rd'(2) cover r(2) pool by (intro exI[of _ calls] exI[of _ rd']) simp
qed

lemma rows_draw:
  assumes wf: "wf_renderer n rd" and s: "row_scene rd = Ptr s"
    and bound: "\<And>i. i < max 1 n \<Longrightarrow> i < 8 \<Longrightarrow> rc_bound (row_contexts rd ! i)"
  shows "\<exists>f rd'. render_rows tb run frame rd = Some (True, rd') \<and> drawn f (rd\<lparr>rd_pool := rd_pool rd'\<rparr>) rd' \<and> wf_renderer n rd'
    \<and> (\<forall>x y. 0 \<le> y \<and> y < LH \<longrightarrow> f x y = Some (scene_colour tb (scene_number (scene_render s)) (legacy_frame_phase frame) y x))"
proof (cases "n = 0")
  case True
  have len: "length (row_contexts rd) = 8" and pool: "worker_count (rd_pool rd) = 0" using wf True by (auto simp: wf_renderer_def)
  have st: "stage (low_canvas rd)" using wf_renderer_buffer[OF wf] by (simp add: stage_low_canvas)
  obtain rd' where rd': "row_job tb (Ptr 0) 0 LH frame rd = Some rd'"
      "drawn (band_shape (scene_colour tb (scene_number (scene_render s)) (legacy_frame_phase frame)) 0 LH) rd rd'"
    using row_job_draws[of 0 rd s 0 LH tb frame] len bound s st by auto
  have "wf_renderer n rd'" using drawn_wf[OF rd'(2) wf] .
  moreover have "rd_pool rd' = rd_pool rd" using rd'(2) by (simp add: drawn_def)
  ultimately show ?thesis using rd' pool
    by (intro exI[of _ "band_shape (scene_colour tb (scene_number (scene_render s)) (legacy_frame_phase frame)) 0 LH"] exI[of _ rd'])
      (simp add: render_rows_def band_shape_def)
next
  case False
  have "n \<le> 8" using wf False pool_size[of n LH "rd_pool rd"] by (auto simp: wf_renderer_def)
  then obtain calls rd' where rd': "render_rows tb run frame rd = Some (True, rd')"
      "drawn (cover_shape (scene_colour tb (scene_number (scene_render s)) (legacy_frame_phase frame)) calls) (rd\<lparr>rd_pool := rd_pool rd'\<rparr>) rd'"
      "\<And>y. 0 \<le> y \<Longrightarrow> y < LH \<Longrightarrow> \<exists>c \<in> set calls. call_start c \<le> y \<and> y < call_end c"
      "worker_count (rd_pool rd') = n" "pool_reachable n LH (rd_pool rd')" "pool_main (rd_pool rd') = Idle" "pool_active (rd_pool rd')"
    using dispatch_draws[OF wf _ s, of tb frame] bound False by auto
  have "wf_renderer n (rd\<lparr>rd_pool := rd_pool rd'\<rparr>)" using wf rd'(4-7) by (simp add: wf_renderer_def)
  from drawn_wf[OF rd'(2) this] rd'(1,2,3) show ?thesis
    by (intro exI[of _ "cover_shape (scene_colour tb (scene_number (scene_render s)) (legacy_frame_phase frame)) calls"] exI[of _ rd'])
      (simp add: cover_shape_def)
qed

lemma render_frame_image:
  assumes wf: "wf_renderer n rd" and tb: "sine_table tb" and which: "0 \<le> which" "which < SCENES"
  shows "\<exists>rd'. render_frame tb run which frame rd = Some rd'
    \<and> rendered (scene_image tb (scene_render (builtin_scenes ! nat which)) frame) n rd rd'"
proof -
  define s where "s = builtin_scenes ! nat which"
  define rd0 where "rd0 = bind_contexts (rd\<lparr>row_scene := Ptr s\<rparr>)"
  have at: "cart_scene_at (word_of_int which) = Ptr s" using which by (simp add: s_def cart_scene_at_int)
  have wf0: "wf_renderer n rd0" using wf bind_contexts_bound(1)[of "rd\<lparr>row_scene := Ptr s\<rparr>"]
    by (auto simp: rd0_def wf_renderer_def bind_contexts_def Let_def)
  have bound0: "rc_bound (row_contexts rd0 ! i)" if "i < max 1 n" "i < 8" for i
    using that bind_contexts_bound(2)[of "rd\<lparr>row_scene := Ptr s\<rparr>" i] wf by (auto simp: rd0_def wf_renderer_def)
  obtain f rd1 where rd1: "render_rows tb run frame rd0 = Some (True, rd1)" "drawn f (rd0\<lparr>rd_pool := rd_pool rd1\<rparr>) rd1" "wf_renderer n rd1"
      "\<And>x y. 0 \<le> y \<Longrightarrow> y < LH \<Longrightarrow> f x y = Some (scene_colour tb (scene_number (scene_render s)) (legacy_frame_phase frame) y x)"
    using rows_draw[OF wf0 _ bound0, of s tb frame] by (auto simp: rd0_def)
  obtain ov where ov: "paints ov (overlay tb (scene_number (scene_render s)) (legacy_frame_phase frame))"
    using tb by (rule overlay_shape)
  have st: "stage (low_canvas rd1)" using wf_renderer_buffer[OF rd1(3)] by (simp add: stage_low_canvas)
  obtain rd' where rd': "call_render tb (scene_render s) \<lparr>rc_bound = True, rc_start = 0, rc_end = LH, rc_frame = frame,
      rc_phase = CART_SCENE_RENDER_OVERLAY\<rparr> rd1 = Some rd'" "drawn ov rd1 rd'"
    using call_render_overlay[OF _ _ st, of "\<lparr>rc_bound = True, rc_start = 0, rc_end = LH, rc_frame = frame,
      rc_phase = CART_SCENE_RENDER_OVERLAY\<rparr>" ov tb "scene_render s"] ov by auto
  have all: "drawn (paint_over f ov) (rd0\<lparr>rd_pool := rd_pool rd1\<rparr>) rd'" using drawn_trans[OF rd1(2) rd'(2)] .
  have "buffer (canvas_target rd) rd' = scene_image tb (scene_render s) frame"
    using drawn_image[OF all ov rd1(4)] wf_renderer_buffer[OF wf] by (simp add: rd0_def)
  moreover have "buffer b rd' = buffer b rd" if "b \<noteq> canvas_target rd" for b
    using all that by (simp add: drawn_def rd0_def)
  moreover have "canvas_target rd' = canvas_target rd" using all by (simp add: drawn_def rd0_def)
  moreover have "render_frame tb run which frame rd = Some rd'"
    using at rd1(1) rd'(1) by (simp add: render_frame_def rd0_def[symmetric])
  ultimately show ?thesis using drawn_wf[OF rd'(2) rd1(3)] by (auto simp: rendered_def s_def)
qed

lemma render_scene_into_image:
  assumes wf: "wf_renderer n rd" and "sine_table tb" "0 \<le> which" "which < SCENES"
  shows "\<exists>rd'. render_scene_into tb run dest which frame rd = Some rd'
    \<and> wf_renderer n rd' \<and> buffer dest rd' = scene_image tb (scene_render (builtin_scenes ! nat which)) frame
    \<and> (\<forall>b. b \<noteq> dest \<longrightarrow> buffer b rd' = buffer b rd) \<and> canvas_target rd' = canvas_target rd"
proof -
  have "wf_renderer n (rd\<lparr>canvas_target := dest\<rparr>)" using wf by (auto simp: wf_renderer_def)
  from render_frame_image[OF this assms(2-4)] obtain rd' where
      rd': "render_frame tb run which frame (rd\<lparr>canvas_target := dest\<rparr>) = Some rd'"
        "rendered (scene_image tb (scene_render (builtin_scenes ! nat which)) frame) n (rd\<lparr>canvas_target := dest\<rparr>) rd'" by blast
  then show ?thesis by (auto simp: render_scene_into_def Let_def rendered_def wf_renderer_def)
qed

end


text \<open>Threads that run by any schedule complete a dispatch.\<close>

definition any_schedule :: "render_pool \<Rightarrow> render_pool" where
  "any_schedule q = (SOME r. pool_step\<^sup>*\<^sup>* q r \<and> pool_main r = Idle)"

interpretation any: scheduler any_schedule
proof
  fix n rows p ss gen q
  assume p: "pool_reachable n rows p" "int n * rows \<le> INT32_MAX" "pool_main p = Idle"
    and disp: "cart_worker_pool_dispatch (Ptr p) (Some ()) (Ptr ss) gen = Some (None, Ptr (q :: render_pool))"
  have "in_dispatch n rows () ss gen q" using dispatch_begins[OF pool_reachable_inv[OF p(1,2)] p(3) disp] by simp
  then have "\<exists>r. pool_step\<^sup>*\<^sup>* q r \<and> pool_main r = Idle" using p(2) by (rule dispatch_ends)
  then show "pool_step\<^sup>*\<^sup>* q (any_schedule q) \<and> pool_main (any_schedule q) = Idle"
    unfolding any_schedule_def by (rule someI_ex)
qed

lemma scene_image_opaque:
  assumes "sine_table tb" "v \<in> set (scene_image tb fn frame)"
  shows "opaque v"
proof -
  let ?col = "scene_colour tb (scene_number fn) (legacy_frame_phase frame)"
  obtain ov where ov: "opaque_shape ov" "paints ov (overlay tb (scene_number fn) (legacy_frame_phase frame))"
    using assms(1) by (rule overlay_shape)
  obtain d where d: "scene_image tb fn frame = deref (pixels d)" "painted (paint_over (band_shape ?col 0 LH) ov) blank_stage d"
    using scene_image_painted[OF ov(2)] by blast
  have op: "opaque_shape (paint_over (band_shape ?col 0 LH) ov)"
    by (rule opaque_paint_over[OF _ ov(1)]) (auto simp: opaque_shape_def band_shape_def opaque_scene_colour split: if_splits)
  have full: "full_shape (paint_over (band_shape ?col 0 LH) ov)"
    by (rule full_paint_over) (simp add: full_shape_def band_shape_def)
  obtain k where k: "k < 57600" "v = deref (pixels d) ! k"
    using assms(2) d(1) painted_frame(4)[OF d(2)] blank_stage_length by (auto simp: in_set_conv_nth)
  obtain x y where xy: "word_at blank_stage k = (x, y)" by fastforce
  have "in_canvas blank_stage x y" using xy k(1) in_stage[OF blank_stage_ok]
    by (auto simp: word_at_def blank_stage_def less_mult_imp_div_less)
  moreover then obtain u where "paint_over (band_shape ?col 0 LH) ov x y = Some u"
    using full in_stage[OF blank_stage_ok] unfolding full_shape_def by blast
  ultimately have "v = u" using d(2) k xy blank_stage_length by (auto simp: painted_def)
  then show ?thesis using op \<open>paint_over (band_shape ?col 0 LH) ov x y = Some u\<close> by (simp add: opaque_shape_def)
qed

text \<open>C3. Rendering is a function of scene and frame.  Whatever the number of workers (none in inline
  mode), however the threads are scheduled and whatever the buffers held, \<open>render_frame\<close> is memory safe
  and returns, the buffer that the canvas points to is the image that one thread draws on a cleared canvas,
  every pixel of it is opaque, and the other two buffers are unchanged.\<close>

theorem render_is_reference_image:
  assumes "scheduler run" "wf_renderer n rd" "sine_table tb" "0 \<le> which" "which < SCENES"
    and "img = scene_image tb (scene_render (builtin_scenes ! nat which)) frame"
  shows "\<exists>rd'. render_frame tb run which frame rd = Some rd' \<and> wf_renderer n rd'
    \<and> buffer (canvas_target rd) rd' = img \<and> length img = 57600 \<and> list_all opaque img
    \<and> (\<forall>b. b \<noteq> canvas_target rd \<longrightarrow> buffer b rd' = buffer b rd)"
  using scheduler.render_frame_image[OF assms(1-5), of frame] scene_image_length[OF assms(3)] scene_image_opaque[OF assms(3)]
  unfolding assms(6) by (auto simp: rendered_def list_all_iff)

text \<open>Rendering into another buffer.  \<open>render_scene_into\<close> turns the canvas to the destination,
  leaves the image of the scene there, touches no other buffer and turns the canvas back.\<close>

theorem render_into_restores_canvas:
  assumes "scheduler run" "wf_renderer n rd" "sine_table tb" "0 \<le> which" "which < SCENES"
  shows "\<exists>rd'. render_scene_into tb run dest which frame rd = Some rd' \<and> wf_renderer n rd'
    \<and> buffer dest rd' = scene_image tb (scene_render (builtin_scenes ! nat which)) frame
    \<and> (\<forall>b. b \<noteq> dest \<longrightarrow> buffer b rd' = buffer b rd) \<and> canvas_target rd' = canvas_target rd"
  by (rule scheduler.render_scene_into_image[OF assms])

definition demo_renderer :: renderer where
  "demo_renderer = zero_renderer\<lparr>rd_pool := demo_idle, row_slots := map Ptr [0..<8]\<rparr>"

lemma demo_renderer_wf: "wf_renderer 1 demo_renderer"
  using demo_idle_reachable by (simp add: wf_renderer_def demo_renderer_def zero_renderer_def demo_idle_def demo_created_def)

theorem render_is_reference_image_witness:
  "\<exists>rd'. render_frame (snd (cart_legacy_scenes_init sawtooth)) any_schedule 3 120 demo_renderer = Some rd'
    \<and> low rd' = scene_image (snd (cart_legacy_scenes_init sawtooth)) cart_legacy_scene_butterfly_riot 120"
proof -
  have tgt: "canvas_target demo_renderer = Low" by (simp add: demo_renderer_def zero_renderer_def)
  have scene: "scene_render (builtin_scenes ! nat 3) = cart_legacy_scene_butterfly_riot" by (simp add: builtin_scenes_def)
  show ?thesis
    using render_is_reference_image[OF any.scheduler_axioms demo_renderer_wf sawtooth_ok _ _ refl, of 3 120] tgt scene by auto
qed

theorem render_into_restores_canvas_witness:
  "\<exists>rd'. render_scene_into (snd (cart_legacy_scenes_init sawtooth)) any_schedule LowTo 1 0 demo_renderer = Some rd'
    \<and> canvas_target rd' = Low \<and> low rd' = replicate 57600 0"
proof -
  have "canvas_target demo_renderer = Low" "buffer Low demo_renderer = replicate 57600 0"
    by (simp_all add: demo_renderer_def zero_renderer_def)
  then show ?thesis
    using render_into_restores_canvas[OF any.scheduler_axioms demo_renderer_wf sawtooth_ok, of 1 LowTo 0] by fastforce
qed

end
