(* ===== verification/Runtime.thy ===== *)
theory Runtime
  imports Cart_Prelude
begin

text \<open>
  Scene selection and frame pacing, \<open>cart/src/runtime.c\<close> and
  \<open>cart/include/cart/runtime.h\<close>: the attract loop, manual holds, the photosensitivity rate
  limit and the frame deadline.  Times are 64-bit nanosecond counts.  The interface
  \<open>rate_limited\<close> states what a limiter of visible changes promises; its interpretation on
  the runtime's operations gives the bound on scene changes in any window of time.
\<close>

section \<open>State and operations\<close>

abbreviation CART_RUNTIME_MIN_CHANGE_NS :: u64 where "CART_RUNTIME_MIN_CHANGE_NS \<equiv> 500000000"

record cart_runtime =
  scene_count :: size_t
  scene_index :: size_t
  manual_scene_index :: size_t
  origin_ns :: u64
  frame_period_ns :: u64
  scene_period_ns :: u64
  manual_hold_until_ns :: u64
  min_change_ns :: u64
  last_change_ns :: u64
  had_change :: bool
  next_deadline_ns :: u64
  frame_no :: u64
  dropped_deadlines :: u64
  sleep_ns :: u64
  manual_hold_active :: bool

definition add_saturating :: "u64 \<Rightarrow> u64 \<Rightarrow> u64" where
  "add_saturating left right =
     (if left > UINT64_MAX - right then UINT64_MAX else left + right)"

definition cart_runtime_init ::
  "cart_runtime ptr \<Rightarrow> size_t \<Rightarrow> u64 \<Rightarrow> u64 \<Rightarrow> u64 \<Rightarrow> u64 \<Rightarrow> int \<times> cart_runtime ptr" where
  "cart_runtime_init runtime count origin frame_period scene_period min_change =
     (if runtime = NULL \<or> count = 0 \<or> frame_period = 0 \<or> scene_period = 0
         \<or> origin \<ge> UINT64_MAX - frame_period
      then (- 1, runtime)
      else (0, Ptr \<lparr>scene_count = count, scene_index = 0, manual_scene_index = 0,
        origin_ns = origin, frame_period_ns = frame_period, scene_period_ns = scene_period,
        manual_hold_until_ns = 0, min_change_ns = min_change, last_change_ns = 0,
        had_change = False, next_deadline_ns = origin + frame_period, frame_no = 0,
        dropped_deadlines = 0, sleep_ns = frame_period, manual_hold_active = False\<rparr>))"

definition change_allowed :: "cart_runtime \<Rightarrow> u64 \<Rightarrow> bool" where
  "change_allowed r now =
     (if min_change_ns r = 0 then True
      else if \<not> had_change r then True
      else if now < last_change_ns r then False
      else now - last_change_ns r \<ge> min_change_ns r)"

definition record_change :: "cart_runtime \<Rightarrow> u64 \<Rightarrow> cart_runtime" where
  "record_change r now = r\<lparr>last_change_ns := now, had_change := True\<rparr>"

text \<open>The two halves of \<open>cart_runtime_tick\<close>: choosing the scene, and pacing the frame.\<close>

definition automatic_scene :: "cart_runtime \<Rightarrow> u64 \<Rightarrow> size_t" where
  "automatic_scene r elapsed = ucast ((elapsed div scene_period_ns r) mod ucast (scene_count r))"

definition tick_scene :: "cart_runtime \<Rightarrow> u64 \<Rightarrow> cart_runtime" where
  "tick_scene r now =
     (let elapsed = now - origin_ns r;
          r = r\<lparr>frame_no := elapsed div frame_period_ns r\<rparr>;
          r = (if manual_hold_active r \<and> now \<ge> manual_hold_until_ns r
               then r\<lparr>manual_hold_active := False\<rparr> else r)
      in if manual_hold_active r then r\<lparr>scene_index := manual_scene_index r\<rparr>
         else let automatic = automatic_scene r elapsed in
           if automatic \<noteq> scene_index r then
             if change_allowed r now then (record_change r now)\<lparr>scene_index := automatic\<rparr> else r
           else r)"

definition tick_deadline :: "cart_runtime \<Rightarrow> u64 \<Rightarrow> int \<times> cart_runtime" where
  "tick_deadline r now =
     (if now < next_deadline_ns r then (0, r\<lparr>sleep_ns := next_deadline_ns r - now\<rparr>)
      else if now > UINT64_MAX - frame_period_ns r then (- 1, r)
      else let late = now - next_deadline_ns r in
        if late < frame_period_ns r then
          if next_deadline_ns r > UINT64_MAX - frame_period_ns r then (- 1, r)
          else let r = r\<lparr>next_deadline_ns := next_deadline_ns r + frame_period_ns r\<rparr>
               in (0, r\<lparr>sleep_ns := next_deadline_ns r - now\<rparr>)
        else let r = r\<lparr>dropped_deadlines := dropped_deadlines r + late div frame_period_ns r,
                       next_deadline_ns := now + frame_period_ns r\<rparr>
             in (0, r\<lparr>sleep_ns := next_deadline_ns r - now\<rparr>))"

definition cart_runtime_tick :: "cart_runtime ptr \<Rightarrow> u64 \<Rightarrow> int \<times> cart_runtime ptr" where
  "cart_runtime_tick runtime now = (case runtime of NULL \<Rightarrow> (- 1, NULL) | Ptr r \<Rightarrow>
     if scene_count r = 0 \<or> frame_period_ns r = 0 \<or> scene_period_ns r = 0 then (- 1, runtime)
     else let now = (if now < origin_ns r then origin_ns r else now)
          in map_prod id Ptr (tick_deadline (tick_scene r now) now))"

text \<open>The common tail of the two request operations, from the chosen scene on.\<close>

definition request_scene :: "cart_runtime \<Rightarrow> size_t \<Rightarrow> u64 \<Rightarrow> u64 \<Rightarrow> cart_runtime" where
  "request_scene r chosen now hold =
     (let r = r\<lparr>manual_scene_index := chosen\<rparr>;
          r = (if manual_scene_index r \<noteq> scene_index r then record_change r now else r);
          r = r\<lparr>scene_index := manual_scene_index r\<rparr>
      in if hold = 0 then r\<lparr>manual_hold_active := False\<rparr>
         else r\<lparr>manual_hold_until_ns := add_saturating now hold, manual_hold_active := True\<rparr>)"

definition cart_runtime_request_next :: "cart_runtime ptr \<Rightarrow> u64 \<Rightarrow> u64 \<Rightarrow> cart_runtime ptr" where
  "cart_runtime_request_next runtime now hold = (case runtime of NULL \<Rightarrow> NULL | Ptr r \<Rightarrow>
     if scene_count r = 0 then runtime
     else if \<not> change_allowed r now then runtime
     else Ptr (request_scene r ((scene_index r + 1) mod scene_count r) now hold))"

definition cart_runtime_request_previous :: "cart_runtime ptr \<Rightarrow> u64 \<Rightarrow> u64 \<Rightarrow> cart_runtime ptr" where
  "cart_runtime_request_previous runtime now hold = (case runtime of NULL \<Rightarrow> NULL | Ptr r \<Rightarrow>
     if scene_count r = 0 then runtime
     else if \<not> change_allowed r now then runtime
     else Ptr (request_scene r ((scene_index r + scene_count r - 1) mod scene_count r) now hold))"

section \<open>The runtime invariant\<close>

definition runtime_inv :: "cart_runtime \<Rightarrow> bool" where
  "runtime_inv r \<longleftrightarrow> scene_count r \<noteq> 0 \<and> frame_period_ns r \<noteq> 0 \<and> scene_period_ns r \<noteq> 0
     \<and> scene_index r < scene_count r
     \<and> (manual_hold_active r \<longrightarrow> manual_scene_index r = scene_index r)
     \<and> origin_ns r < next_deadline_ns r"

lemma unat_automatic_scene:
  assumes "scene_count r \<noteq> 0"
  shows "unat (automatic_scene r e) = unat e div unat (scene_period_ns r) mod unat (scene_count r)"
proof -
  have small: "unat (scene_count r) < 2 ^ 32" using unsigned_less[of "scene_count r"] by simp
  then have c: "unat (ucast (scene_count r) :: u64) = unat (scene_count r)"
    by (simp add: unat_ucast_no_wrap)
  let ?q = "(e div scene_period_ns r) mod ucast (scene_count r)"
  have q: "unat ?q = unat e div unat (scene_period_ns r) mod unat (scene_count r)"
    by (simp add: unat_mod unat_div c)
  also have "\<dots> < 2 ^ 32"
    using small assms by (meson less_trans mod_less_divisor unat_gt_0)
  finally have "unat (ucast ?q :: size_t) = unat ?q" by (simp add: unat_ucast_no_wrap)
  then show ?thesis by (simp only: automatic_scene_def q)
qed

lemma automatic_scene_less: "scene_count r \<noteq> 0 \<Longrightarrow> automatic_scene r e < scene_count r"
  by (simp add: word_less_nat_alt unat_automatic_scene unat_gt_0)

lemma cart_runtime_init_inv:
  assumes "cart_runtime_init (Ptr r0) count origin fp sp mc = (0, Ptr r)"
  shows "runtime_inv r"
proof -
  have args: "count \<noteq> 0" "fp \<noteq> 0" "sp \<noteq> 0" "origin < UINT64_MAX - fp"
    and r: "scene_count r = count" "frame_period_ns r = fp" "scene_period_ns r = sp" "scene_index r = 0"
      "\<not> manual_hold_active r" "origin_ns r = origin" "next_deadline_ns r = origin + fp"
    using assms by (auto simp: cart_runtime_init_def not_le split: if_splits)
  have "unat origin + unat fp < 2 ^ 64" using args(4) le_max_minus_iff[of origin fp] by (simp add: less_imp_le)
  then have "origin < origin + fp" using args(2) by (simp add: word_less_nat_alt unat_add_no_wrap unat_gt_0)
  then show ?thesis using args r by (simp add: runtime_inv_def word_neq_0_conv)
qed


section \<open>One step at a time\<close>

datatype runtime_event = Tick u64 | Next u64 u64 | Previous u64 u64

text \<open>The calls the main loop makes, as steps of a machine; \<open>Tick\<close> drops the return code, which
  \<open>tick_fails_iff\<close> describes.\<close>

fun runtime_step :: "runtime_event \<Rightarrow> cart_runtime \<Rightarrow> cart_runtime" where
  "runtime_step (Tick now) r = deref (snd (cart_runtime_tick (Ptr r) now))"
| "runtime_step (Next now hold) r = deref (cart_runtime_request_next (Ptr r) now hold)"
| "runtime_step (Previous now hold) r = deref (cart_runtime_request_previous (Ptr r) now hold)"

lemma change_allowed_update [simp]:
  "change_allowed (r\<lparr>frame_no := f\<rparr>) = change_allowed r"
  "change_allowed (r\<lparr>manual_hold_active := h\<rparr>) = change_allowed r"
  by (simp_all add: change_allowed_def fun_eq_iff)

lemma change_allowed_gap:
  assumes "change_allowed r now" "min_change_ns r \<noteq> 0" "had_change r"
  shows "unat (last_change_ns r) + unat (min_change_ns r) \<le> unat now"
proof -
  have "last_change_ns r \<le> now" "now - last_change_ns r \<ge> min_change_ns r"
    using assms by (auto simp: change_allowed_def not_less split: if_splits)
  then show ?thesis by (simp add: word_le_nat_alt unat_sub_no_wrap)
qed

text \<open>A step either leaves the selected scene and the record of the last change alone, or makes an
  allowed change and records it.\<close>

definition quiet :: "cart_runtime \<Rightarrow> cart_runtime \<Rightarrow> bool" where
  "quiet r r' \<longleftrightarrow> scene_index r' = scene_index r \<and> last_change_ns r' = last_change_ns r
     \<and> had_change r' = had_change r"

definition changes_at :: "u64 \<Rightarrow> cart_runtime \<Rightarrow> cart_runtime \<Rightarrow> bool" where
  "changes_at now r r' \<longleftrightarrow> change_allowed r now \<and> scene_index r' \<noteq> scene_index r
     \<and> last_change_ns r' = now \<and> had_change r'"

lemma tick_deadline_frame [frame_simps]:
  "scene_count (snd (tick_deadline r now)) = scene_count r"
  "scene_index (snd (tick_deadline r now)) = scene_index r"
  "manual_scene_index (snd (tick_deadline r now)) = manual_scene_index r"
  "origin_ns (snd (tick_deadline r now)) = origin_ns r"
  "frame_period_ns (snd (tick_deadline r now)) = frame_period_ns r"
  "scene_period_ns (snd (tick_deadline r now)) = scene_period_ns r"
  "manual_hold_until_ns (snd (tick_deadline r now)) = manual_hold_until_ns r"
  "min_change_ns (snd (tick_deadline r now)) = min_change_ns r"
  "last_change_ns (snd (tick_deadline r now)) = last_change_ns r"
  "had_change (snd (tick_deadline r now)) = had_change r"
  "frame_no (snd (tick_deadline r now)) = frame_no r"
  "manual_hold_active (snd (tick_deadline r now)) = manual_hold_active r"
  by (simp_all add: tick_deadline_def Let_def)

lemma tick_scene_frame [frame_simps]:
  "scene_count (tick_scene r now) = scene_count r"
  "manual_scene_index (tick_scene r now) = manual_scene_index r"
  "origin_ns (tick_scene r now) = origin_ns r"
  "frame_period_ns (tick_scene r now) = frame_period_ns r"
  "scene_period_ns (tick_scene r now) = scene_period_ns r"
  "min_change_ns (tick_scene r now) = min_change_ns r"
  "next_deadline_ns (tick_scene r now) = next_deadline_ns r"
  "dropped_deadlines (tick_scene r now) = dropped_deadlines r"
  "frame_no (tick_scene r now) = (now - origin_ns r) div frame_period_ns r"
  by (simp_all add: tick_scene_def Let_def record_change_def)

lemma request_scene_frame [frame_simps]:
  "scene_count (request_scene r c now hold) = scene_count r"
  "origin_ns (request_scene r c now hold) = origin_ns r"
  "frame_period_ns (request_scene r c now hold) = frame_period_ns r"
  "scene_period_ns (request_scene r c now hold) = scene_period_ns r"
  "min_change_ns (request_scene r c now hold) = min_change_ns r"
  "next_deadline_ns (request_scene r c now hold) = next_deadline_ns r"
  "scene_index (request_scene r c now hold) = c"
  "manual_scene_index (request_scene r c now hold) = c"
  by (simp_all add: request_scene_def Let_def record_change_def)

lemma tick_scene_effect:
  assumes "runtime_inv r"
  shows "quiet r (tick_scene r now) \<or> changes_at now r (tick_scene r now)"
  using assms
  by (auto simp: quiet_def changes_at_def runtime_inv_def tick_scene_def Let_def record_change_def
      change_allowed_def)

lemma tick_scene_held:
  "runtime_inv r \<Longrightarrow> manual_hold_active (tick_scene r now) \<Longrightarrow>
    manual_scene_index (tick_scene r now) = scene_index (tick_scene r now)"
  by (auto simp: tick_scene_def Let_def record_change_def split: if_splits)

lemma tick_scene_less:
  "runtime_inv r \<Longrightarrow> scene_index (tick_scene r now) < scene_count r"
  using automatic_scene_less[of "r\<lparr>frame_no := f, manual_hold_active := False\<rparr>" for f]
    automatic_scene_less[of "r\<lparr>frame_no := f\<rparr>" for f]
  by (auto simp: runtime_inv_def tick_scene_def Let_def record_change_def)

lemma request_scene_effect:
  "change_allowed r now \<Longrightarrow>
    quiet r (request_scene r c now hold) \<or> changes_at now r (request_scene r c now hold)"
  by (auto simp: quiet_def changes_at_def request_scene_def Let_def record_change_def)

lemma request_scene_inv:
  "runtime_inv r \<Longrightarrow> c < scene_count r \<Longrightarrow> runtime_inv (request_scene r c now hold)"
  by (auto simp: runtime_inv_def request_scene_def Let_def record_change_def)

lemma word_mod_less: "b \<noteq> 0 \<Longrightarrow> a mod b < (b :: 'a::len word)"
  by (simp add: word_less_nat_alt unat_mod unat_gt_0)

section \<open>Frame pacing\<close>

text \<open>The deadline computation without its dead branch: when the deadline is not in the future, the
  first overflow test already excludes the second.\<close>

lemma tick_deadline_unfold:
  "tick_deadline r now =
     (if now < next_deadline_ns r then (0, r\<lparr>sleep_ns := next_deadline_ns r - now\<rparr>)
      else if unat now + unat (frame_period_ns r) \<ge> 2 ^ 64 then (- 1, r)
      else if now - next_deadline_ns r < frame_period_ns r then
        (0, r\<lparr>next_deadline_ns := next_deadline_ns r + frame_period_ns r,
              sleep_ns := next_deadline_ns r + frame_period_ns r - now\<rparr>)
      else (0, r\<lparr>dropped_deadlines := dropped_deadlines r
                   + (now - next_deadline_ns r) div frame_period_ns r,
                 next_deadline_ns := now + frame_period_ns r,
                 sleep_ns := frame_period_ns r\<rparr>))"
proof -
  have now: "now > UINT64_MAX - frame_period_ns r \<longleftrightarrow> unat now + unat (frame_period_ns r) \<ge> 2 ^ 64"
    using le_max_minus_iff[of now "frame_period_ns r"] by (auto simp: not_le[symmetric])
  have "\<not> next_deadline_ns r > UINT64_MAX - frame_period_ns r"
    if "\<not> now < next_deadline_ns r" "\<not> unat now + unat (frame_period_ns r) \<ge> 2 ^ 64"
  proof -
    have "unat (next_deadline_ns r) + unat (frame_period_ns r) < 2 ^ 64"
      using that by (simp add: word_less_nat_alt)
    then show ?thesis using le_max_minus_iff[of "next_deadline_ns r" "frame_period_ns r"]
      by (simp add: not_less)
  qed
  then show ?thesis using now by (simp add: tick_deadline_def Let_def)
qed

lemma tick_deadline_next:
  assumes "frame_period_ns r \<noteq> 0"
  shows "next_deadline_ns r \<le> next_deadline_ns (snd (tick_deadline r now))"
proof (cases "now < next_deadline_ns r \<or> unat now + unat (frame_period_ns r) \<ge> 2 ^ 64")
  case True
  then show ?thesis by (auto simp: tick_deadline_unfold)
next
  case False
  then have "unat (next_deadline_ns r) \<le> unat now" "unat now + unat (frame_period_ns r) < 2 ^ 64"
    by (auto simp: word_less_nat_alt)
  then have "unat (next_deadline_ns r + frame_period_ns r) = unat (next_deadline_ns r) + unat (frame_period_ns r)"
    "unat (now + frame_period_ns r) = unat now + unat (frame_period_ns r)"
    by (simp_all add: unat_add_no_wrap)
  then show ?thesis using False by (simp add: tick_deadline_unfold word_le_nat_alt word_less_nat_alt)
qed

lemma tick_deadline_ok:
  assumes "fst (tick_deadline r now) = 0" "frame_period_ns r \<noteq> 0"
  defines "r' \<equiv> snd (tick_deadline r now)"
  shows "unat now < unat (next_deadline_ns r')"
    and "unat (sleep_ns r') = unat (next_deadline_ns r') - unat now"
    and "next_deadline_ns r \<le> now \<Longrightarrow> unat (sleep_ns r') \<le> unat (frame_period_ns r)"
proof -
  let ?D = "next_deadline_ns r" and ?P = "frame_period_ns r"
  have P: "0 < unat ?P" using assms(2) by (simp add: unat_gt_0)
  have all: "unat now < unat (next_deadline_ns r') \<and> unat (sleep_ns r') = unat (next_deadline_ns r') - unat now
    \<and> (?D \<le> now \<longrightarrow> unat (sleep_ns r') \<le> unat ?P)"
  proof (cases "now < ?D")
    case True
    then show ?thesis by (simp add: r'_def tick_deadline_unfold word_less_nat_alt unat_sub_no_wrap word_le_nat_alt)
  next
    case False
    then have fit: "unat now + unat ?P < 2 ^ 64" using assms(1)
      by (auto simp: tick_deadline_unfold split: if_splits)
    have le: "unat ?D \<le> unat now" using False by (simp add: word_less_nat_alt)
    have add: "unat (?D + ?P) = unat ?D + unat ?P" "unat (now + ?P) = unat now + unat ?P"
      using fit le by (simp_all add: unat_add_no_wrap)
    have late: "unat (now - ?D) = unat now - unat ?D" using le by (rule unat_sub_no_wrap)
    show ?thesis
    proof (cases "now - ?D < ?P")
      case True
      then have "unat now < unat ?D + unat ?P" using le by (simp add: word_less_nat_alt late)
      moreover have "unat (?D + ?P - now) = unat ?D + unat ?P - unat now"
        using \<open>unat now < _\<close> by (subst unat_sub_no_wrap) (simp_all add: add)
      ultimately show ?thesis using True False fit le by (auto simp: r'_def tick_deadline_unfold add)
    next
      case late: False
      then show ?thesis using False fit P by (simp add: r'_def tick_deadline_unfold add)
    qed
  qed
  then show "unat now < unat (next_deadline_ns r')"
    "unat (sleep_ns r') = unat (next_deadline_ns r') - unat now"
    "next_deadline_ns r \<le> now \<Longrightarrow> unat (sleep_ns r') \<le> unat (frame_period_ns r)" by auto
qed

section \<open>Every step keeps the invariant\<close>

lemma tick_runtime:
  assumes "runtime_inv r"
  shows "cart_runtime_tick (Ptr r) now = map_prod id Ptr
    (tick_deadline (tick_scene r (max (origin_ns r) now)) (max (origin_ns r) now))"
  using assms by (auto simp: cart_runtime_tick_def runtime_inv_def Let_def max_def)

lemma tick_keeps_inv:
  assumes "runtime_inv r"
  shows "runtime_inv (snd (tick_deadline (tick_scene r now) now))"
proof -
  have "next_deadline_ns r \<le> next_deadline_ns (snd (tick_deadline (tick_scene r now) now))"
    using tick_deadline_next[of "tick_scene r now" now] assms by (simp add: frame_simps runtime_inv_def)
  then show ?thesis using assms tick_scene_held[OF assms] tick_scene_less[OF assms]
    by (auto simp: runtime_inv_def frame_simps)
qed

lemma runtime_step_inv: "runtime_inv r \<Longrightarrow> runtime_inv (runtime_step e r)"
  by (cases e) (auto simp: tick_runtime tick_keeps_inv cart_runtime_request_next_def
      cart_runtime_request_previous_def runtime_inv_def[of r] intro!: request_scene_inv word_mod_less)

lemma runtime_step_min_change: "min_change_ns (runtime_step e r) = min_change_ns r"
  by (cases e) (auto simp: cart_runtime_tick_def Let_def frame_simps cart_runtime_request_next_def
      cart_runtime_request_previous_def)

lemma quiet_refl: "quiet r r"
  by (simp add: quiet_def)

lemma runtime_step_effect:
  assumes "runtime_inv r"
  shows "quiet r (runtime_step e r) \<or> (\<exists>now. changes_at now r (runtime_step e r))"
proof (cases e)
  case (Tick now)
  then show ?thesis
    using tick_scene_effect[OF assms, of "max (origin_ns r) now"]
    by (auto simp: tick_runtime[OF assms] quiet_def changes_at_def frame_simps)
next
  case (Next now hold)
  then show ?thesis using request_scene_effect quiet_refl
    by (simp add: cart_runtime_request_next_def) blast
next
  case (Previous now hold)
  then show ?thesis using request_scene_effect quiet_refl
    by (simp add: cart_runtime_request_previous_def) blast
qed


section \<open>Rate-limited changes\<close>

text \<open>
  The contract of a limiter of visible changes.  A machine shows a value; \<open>stamp\<close> is the time of
  its last change, if any.  A step that changes the value stamps it at least \<open>gap\<close> after the
  previous stamp, and a step that does not change it leaves the stamp alone.
\<close>

locale rate_limited =
  fixes step :: "'e \<Rightarrow> 's \<Rightarrow> 's" and shown :: "'s \<Rightarrow> 'v" and stamp :: "'s \<Rightarrow> nat option"
    and gap :: "'s \<Rightarrow> nat" and inv :: "'s \<Rightarrow> bool"
  assumes inv_step: "inv s \<Longrightarrow> inv (step e s)"
    and gap_step: "inv s \<Longrightarrow> gap (step e s) = gap s"
    and gap_pos: "inv s \<Longrightarrow> 0 < gap s"
    and stamp_changed: "inv s \<Longrightarrow> shown (step e s) \<noteq> shown s \<Longrightarrow>
      \<exists>t. stamp (step e s) = Some t \<and> (\<forall>t0. stamp s = Some t0 \<longrightarrow> t0 + gap s \<le> t)"
    and stamp_kept: "inv s \<Longrightarrow> shown (step e s) = shown s \<Longrightarrow> stamp (step e s) = stamp s"
begin

text \<open>The times at which a run changes the shown value.\<close>

fun change_times :: "'s \<Rightarrow> 'e list \<Rightarrow> nat list" where
  "change_times s [] = []"
| "change_times s (e # es) = (let s' = step e s in
     (if shown s' \<noteq> shown s then [the (stamp s')] else []) @ change_times s' es)"

text \<open>Every time of a list is at least \<open>g\<close> after the one before, and the first after \<open>lo\<close>.\<close>

fun spaced :: "nat \<Rightarrow> nat option \<Rightarrow> nat list \<Rightarrow> bool" where
  "spaced g lo [] = True"
| "spaced g lo (t # ts) = ((\<forall>t0. lo = Some t0 \<longrightarrow> t0 + g \<le> t) \<and> spaced g (Some t) ts)"

lemma change_times_spaced: "inv s \<Longrightarrow> spaced (gap s) (stamp s) (change_times s es)"
proof (induction es arbitrary: s)
  case Nil
  then show ?case by simp
next
  case (Cons e es)
  let ?s = "step e s"
  have IH: "spaced (gap s) (stamp ?s) (change_times ?s es)"
    using Cons.IH[OF inv_step[OF Cons.prems]] by (simp add: gap_step[OF Cons.prems])
  show ?case
  proof (cases "shown ?s = shown s")
    case True
    then show ?thesis using IH stamp_kept[OF Cons.prems True] by simp
  next
    case False
    then show ?thesis using IH stamp_changed[OF Cons.prems False] by (auto simp: Let_def)
  qed
qed

lemma spaced_after: "spaced g (Some lo) ts \<Longrightarrow> t \<in> set ts \<Longrightarrow> lo + g \<le> t"
  by (induction ts arbitrary: lo) force+

lemma spaced_window:
  assumes "spaced g lo ts"
  shows "length (filter (\<lambda>t. T \<le> t \<and> t < T + k * g) ts) \<le> k"
  using assms
proof (induction ts arbitrary: lo k T)
  case Nil
  then show ?case by simp
next
  case (Cons t ts)
  have rest: "spaced g (Some t) ts" using Cons.prems by simp
  show ?case
  proof (cases "T \<le> t \<and> t < T + k * g")
    case False
    then show ?thesis using Cons.IH[OF rest, of T k] by auto
  next
    case True
    then obtain j where k: "k = Suc j" by (cases k) auto
    have "T \<le> u \<and> T + g \<le> u" if "u \<in> set ts" for u
      using spaced_after[OF rest that] True by simp
    then have "filter (\<lambda>t. T \<le> t \<and> t < T + k * g) ts = filter (\<lambda>t. T + g \<le> t \<and> t < (T + g) + j * g) ts"
      by (intro filter_cong) (auto simp: k)
    then show ?thesis using Cons.IH[OF rest, of "T + g" j] True by (simp add: k)
  qed
qed

lemma changes_in_window:
  "inv s \<Longrightarrow> length (filter (\<lambda>t. T \<le> t \<and> t < T + k * gap s) (change_times s es)) \<le> k"
  by (rule spaced_window[OF change_times_spaced])

end

text \<open>The runtime with a non-zero cooldown is such a limiter.\<close>

definition change_stamp :: "cart_runtime \<Rightarrow> nat option" where
  "change_stamp r = (if had_change r then Some (unat (last_change_ns r)) else None)"

interpretation scene_limit: rate_limited runtime_step scene_index change_stamp
  "\<lambda>r. unat (min_change_ns r)" "\<lambda>r. runtime_inv r \<and> min_change_ns r \<noteq> 0"
proof unfold_locales
  fix r e assume inv: "runtime_inv r \<and> min_change_ns r \<noteq> 0"
  show "runtime_inv (runtime_step e r) \<and> min_change_ns (runtime_step e r) \<noteq> 0"
    using inv by (simp add: runtime_step_inv runtime_step_min_change)
  show "unat (min_change_ns (runtime_step e r)) = unat (min_change_ns r)"
    by (simp add: runtime_step_min_change)
  show "0 < unat (min_change_ns r)" using inv by (simp add: unat_gt_0)
  show "\<exists>t. change_stamp (runtime_step e r) = Some t \<and>
      (\<forall>t0. change_stamp r = Some t0 \<longrightarrow> t0 + unat (min_change_ns r) \<le> t)"
    if "scene_index (runtime_step e r) \<noteq> scene_index r"
    using runtime_step_effect[of r e] that inv change_allowed_gap
    by (auto simp: quiet_def changes_at_def change_stamp_def)
  show "change_stamp (runtime_step e r) = change_stamp r"
    if "scene_index (runtime_step e r) = scene_index r"
    using runtime_step_effect[of r e] that inv
    by (auto simp: quiet_def changes_at_def change_stamp_def)
qed


text \<open>Runs of the runtime, and the times at which a run changes the selected scene.\<close>

fun runtime_run :: "runtime_event list \<Rightarrow> cart_runtime \<Rightarrow> cart_runtime" where
  "runtime_run [] r = r"
| "runtime_run (e # es) r = runtime_run es (runtime_step e r)"

fun scene_change_times :: "cart_runtime \<Rightarrow> runtime_event list \<Rightarrow> nat list" where
  "scene_change_times r [] = []"
| "scene_change_times r (e # es) =
     (if scene_index (runtime_step e r) \<noteq> scene_index r
      then [unat (last_change_ns (runtime_step e r))] else [])
     @ scene_change_times (runtime_step e r) es"

lemma runtime_run_inv: "runtime_inv r \<Longrightarrow> runtime_inv (runtime_run es r)"
  by (induction es arbitrary: r) (simp_all add: runtime_step_inv)

lemma scene_change_times_limit:
  "runtime_inv r \<Longrightarrow> scene_change_times r es = scene_limit.change_times r es"
proof (induction es arbitrary: r)
  case Nil
  then show ?case by simp
next
  case (Cons e es)
  have "the (change_stamp (runtime_step e r)) = unat (last_change_ns (runtime_step e r))"
    if "scene_index (runtime_step e r) \<noteq> scene_index r"
    using runtime_step_effect[OF Cons.prems, of e] that
    by (auto simp: quiet_def changes_at_def change_stamp_def)
  then show ?case using Cons.IH[OF runtime_step_inv[OF Cons.prems]]
    by (simp add: Let_def)
qed

lemma runtime_init_fields:
  assumes "cart_runtime_init (Ptr r0) count origin fp sp mc = (0, Ptr r)"
  shows "min_change_ns r = mc" "scene_count r = count" "scene_index r = 0" "origin_ns r = origin"
    "frame_period_ns r = fp" "scene_period_ns r = sp" "\<not> had_change r" "\<not> manual_hold_active r"
  using assms by (auto simp: cart_runtime_init_def split: if_splits)

section \<open>Properties\<close>



text \<open>C34. Frame pacing.  A tick of a valid runtime fails exactly when the deadline has been reached
  and the next one would overflow; otherwise the next deadline is strictly in the future, the sleep
  is exactly the time that is left to it, and a late tick never sleeps longer than one frame.\<close>

theorem tick_paces_frames:
  assumes inv: "runtime_inv r" and t: "t = max (origin_ns r) now"
    and tick: "cart_runtime_tick (Ptr r) now = (rc, Ptr r')"
  shows "(rc = - 1 \<longleftrightarrow> next_deadline_ns r \<le> t \<and> 2 ^ 64 \<le> unat t + unat (frame_period_ns r))
    \<and> (rc \<noteq> - 1 \<longrightarrow> rc = 0 \<and> unat t < unat (next_deadline_ns r')
          \<and> unat t + unat (sleep_ns r') = unat (next_deadline_ns r')
          \<and> (next_deadline_ns r \<le> t \<longrightarrow> unat (sleep_ns r') \<le> unat (frame_period_ns r)))"
proof -
  let ?s = "tick_scene r t"
  have fp: "frame_period_ns ?s = frame_period_ns r" "next_deadline_ns ?s = next_deadline_ns r"
      "frame_period_ns ?s \<noteq> 0"
    using inv by (simp_all add: frame_simps runtime_inv_def)
  have rc: "rc = fst (tick_deadline ?s t)" and r': "r' = snd (tick_deadline ?s t)"
    using tick by (simp_all add: tick_runtime[OF inv] t map_prod_def split_beta)
  have "rc = - 1 \<longleftrightarrow> next_deadline_ns r \<le> t \<and> 2 ^ 64 \<le> unat t + unat (frame_period_ns r)"
    by (auto simp: rc tick_deadline_unfold fp)
  moreover have "rc = 0 \<and> unat t < unat (next_deadline_ns r')
      \<and> unat t + unat (sleep_ns r') = unat (next_deadline_ns r')
      \<and> (next_deadline_ns r \<le> t \<longrightarrow> unat (sleep_ns r') \<le> unat (frame_period_ns r))"
    if "rc \<noteq> - 1"
  proof -
    have "rc = 0" using that by (auto simp: rc tick_deadline_unfold split: if_splits)
    then show ?thesis using tick_deadline_ok[of ?s t] fp by (auto simp: rc r')
  qed
  ultimately show ?thesis by blast
qed

text \<open>The attract loop.  A tick with no manual hold in force selects scene
  \<open>\<lfloor>elapsed / scene_period\<rfloor> mod scene_count\<close> if a change is allowed now, and otherwise keeps the
  scene.\<close>

theorem tick_attract_scene:
  assumes "runtime_inv r" and "\<not> (manual_hold_active r \<and> max (origin_ns r) now < manual_hold_until_ns r)"
    and "cart_runtime_tick (Ptr r) now = (rc, Ptr r')"
  shows "unat (scene_index r') =
    (if change_allowed r (max (origin_ns r) now)
     then (unat (max (origin_ns r) now) - unat (origin_ns r)) div unat (scene_period_ns r) mod unat (scene_count r)
     else unat (scene_index r))"
proof -
  let ?t = "max (origin_ns r) now"
  have no_hold: "manual_hold_active r \<Longrightarrow> manual_hold_until_ns r \<le> ?t"
    using assms(2) linorder_not_less by blast
  have "scene_index r' = scene_index (tick_scene r ?t)"
    using assms(3) by (auto simp: tick_runtime[OF assms(1)] map_prod_def split_beta frame_simps)
  also have "\<dots> = (if change_allowed r ?t then automatic_scene r (?t - origin_ns r) else scene_index r)"
    using no_hold by (auto simp: tick_scene_def Let_def record_change_def automatic_scene_def)
  finally have "scene_index r' = (if change_allowed r ?t then automatic_scene r (?t - origin_ns r) else scene_index r)" .
  moreover have "origin_ns r \<le> ?t" by simp
  then have "unat (?t - origin_ns r) = unat ?t - unat (origin_ns r)"
    by (simp only: word_le_nat_alt unat_sub_no_wrap)
  ultimately show ?thesis using assms(1) by (simp add: unat_automatic_scene runtime_inv_def)
qed

lemma unat_add_saturating: "unat (add_saturating a b) = min (2 ^ 64 - 1) (unat a + unat b)"
proof (cases "unat a + unat b < 2 ^ 64")
  case True
  then have "\<not> a > UINT64_MAX - b" using le_max_minus_iff[of a b] by (simp add: not_less)
  then show ?thesis using True by (simp add: add_saturating_def unat_add_no_wrap)
next
  case False
  then have "a > UINT64_MAX - b" using le_max_minus_iff[of a b] by (simp add: not_le)
  then show ?thesis using False
    by (simp add: add_saturating_def unsigned_minus_1_eq_mask mask_eq_exp_minus_1)
qed

lemma unat_next_index:
  "i < c \<Longrightarrow> unat ((i + 1) mod c) = (if unat i + 1 = unat c then 0 else unat i + 1)"
  for i c :: size_t
proof -
  assume lt: "i < c"
  then have "unat i < unat c" by (simp add: word_less_nat_alt)
  moreover have "unat c < 2 ^ 32" using unsigned_less[of c] by simp
  ultimately have "unat (i + 1) = unat i + 1" by (simp add: unat_add_no_wrap)
  then show ?thesis using \<open>unat i < unat c\<close> by (simp add: unat_mod)
qed

lemma unat_previous_index:
  fixes i c :: size_t
  assumes "i < c" "unat c \<le> 2 ^ 31"
  shows "unat ((i + c - 1) mod c) = (if unat i = 0 then unat c - 1 else unat i - 1)"
proof -
  have lt: "unat i < unat c" using assms(1) by (simp add: word_less_nat_alt)
  have "unat (i + c) = unat i + unat c" using lt assms(2) by (simp add: unat_add_no_wrap)
  then have "unat (i + c - 1) = unat i + unat c - 1"
    using lt by (subst unat_sub_no_wrap) simp_all
  then have "unat ((i + c - 1) mod c) = (unat i + unat c - 1) mod unat c" by (simp add: unat_mod)
  also have "\<dots> = (if unat i = 0 then unat c - 1 else unat i - 1)"
  proof (cases "unat i = 0")
    case False
    then have "(unat i + unat c - 1) mod unat c = ((unat i - 1) + unat c) mod unat c" by simp
    also have "\<dots> = unat i - 1" using lt by (subst mod_add_self2) simp
    finally show ?thesis using False by simp
  qed (use lt in simp)
  finally show ?thesis .
qed

text \<open>While a hold is in force a tick keeps the scene and the hold.\<close>

lemma tick_under_hold:
  assumes "runtime_inv r" "manual_hold_active r" "max (origin_ns r) now < manual_hold_until_ns r"
  shows "scene_index (runtime_step (Tick now) r) = scene_index r"
    "manual_hold_active (runtime_step (Tick now) r)"
    "manual_hold_until_ns (runtime_step (Tick now) r) = manual_hold_until_ns r"
    "origin_ns (runtime_step (Tick now) r) = origin_ns r"
proof -
  let ?t = "max (origin_ns r) now"
  have t: "tick_scene r ?t = r\<lparr>frame_no := (?t - origin_ns r) div frame_period_ns r, scene_index := manual_scene_index r\<rparr>"
    using assms(2,3) by (simp add: tick_scene_def Let_def del: max_less_iff_conj)
  show "scene_index (runtime_step (Tick now) r) = scene_index r"
    "manual_hold_active (runtime_step (Tick now) r)"
    "manual_hold_until_ns (runtime_step (Tick now) r) = manual_hold_until_ns r"
    "origin_ns (runtime_step (Tick now) r) = origin_ns r"
    using assms by (simp_all add: tick_runtime frame_simps t runtime_inv_def)
qed

lemma ticks_under_hold:
  assumes "runtime_inv r" "manual_hold_active r"
    "\<forall>u \<in> set ts. max (origin_ns r) u < manual_hold_until_ns r"
  shows "scene_index (runtime_run (map Tick ts) r) = scene_index r"
  using assms
proof (induction ts arbitrary: r)
  case Nil
  then show ?case by simp
next
  case (Cons u us)
  then have u: "max (origin_ns r) u < manual_hold_until_ns r" by simp
  note step = tick_under_hold[OF Cons.prems(1,2) u]
  have "scene_index (runtime_run (map Tick us) (runtime_step (Tick u) r)) = scene_index (runtime_step (Tick u) r)"
    using Cons.prems step by (intro Cons.IH runtime_step_inv) (simp_all del: runtime_step.simps)
  then show ?case using step(1) by (simp del: runtime_step.simps)
qed

text \<open>Manual hold.  An accepted \<open>next\<close> request moves to the following scene, wrapping at
  the end, and every later tick before the hold expires keeps that scene, whatever the attract loop
  would choose; the expiry saturates instead of wrapping around.\<close>

theorem request_next_holds:
  assumes "runtime_inv r" and "change_allowed r now" and "hold \<noteq> 0"
    and "cart_runtime_request_next (Ptr r) now hold = Ptr s"
    and "list_all (\<lambda>u. unat (max (origin_ns r) u) < min (2 ^ 64 - 1) (unat now + unat hold)) ts"
  shows "unat (scene_index s) = (if unat (scene_index r) + 1 = unat (scene_count r) then 0 else unat (scene_index r) + 1)
    \<and> scene_index (runtime_run (map Tick ts) s) = scene_index s"
proof -
  have s: "s = request_scene r ((scene_index r + 1) mod scene_count r) now hold"
    using assms by (auto simp: cart_runtime_request_next_def runtime_inv_def)
  have inv: "runtime_inv s" using assms(1) unfolding s
    by (intro request_scene_inv) (auto simp: runtime_inv_def intro: word_mod_less)
  have hold: "manual_hold_active s" "manual_hold_until_ns s = add_saturating now hold" "origin_ns s = origin_ns r"
    using assms(3) by (simp_all add: s request_scene_def Let_def record_change_def)
  have "\<forall>u \<in> set ts. max (origin_ns s) u < manual_hold_until_ns s"
    using assms(5) unfolding list_all_iff hold(2,3) word_less_nat_alt unat_add_saturating .
  then have "scene_index (runtime_run (map Tick ts) s) = scene_index s"
    by (rule ticks_under_hold[OF inv hold(1)])
  moreover have "scene_index r < scene_count r" using assms(1) by (simp add: runtime_inv_def)
  ultimately show ?thesis by (simp add: s frame_simps unat_next_index)
qed

text \<open>\<open>previous\<close> undoes \<open>next\<close>: two accepted requests in this order come back to the
  scene they started from, for every scene count for which the index arithmetic does not wrap.\<close>

theorem request_previous_after_next:
  assumes "runtime_inv r" and "unat (scene_count r) \<le> 2 ^ 31"
    and "change_allowed r now" and "cart_runtime_request_next (Ptr r) now hold = Ptr s"
    and "change_allowed s now'" and "cart_runtime_request_previous (Ptr s) now' hold' = Ptr u"
  shows "scene_index u = scene_index r"
proof -
  have r: "scene_index r < scene_count r" "scene_count r \<noteq> 0" using assms(1) by (auto simp: runtime_inv_def)
  have s: "s = request_scene r ((scene_index r + 1) mod scene_count r) now hold"
    using assms r by (auto simp: cart_runtime_request_next_def)
  have u: "scene_index u = (scene_index s + scene_count s - 1) mod scene_count s"
    using assms r by (auto simp: cart_runtime_request_previous_def s frame_simps)
  have "unat (scene_index s) = (if unat (scene_index r) + 1 = unat (scene_count r) then 0 else unat (scene_index r) + 1)"
    "scene_count s = scene_count r" "scene_index s < scene_count s"
    using r by (simp_all add: s frame_simps unat_next_index word_mod_less)
  then have "unat (scene_index u) = unat (scene_index r)"
    using assms(2) r unat_previous_index[of "scene_index s" "scene_count s"]
    by (auto simp: u word_less_nat_alt split: if_splits)
  then show ?thesis by (simp add: word_unat_eq_iff)
qed


section \<open>A concrete runtime\<close>

text \<open>The runtime that the demo cart starts with when its clock reads zero: six scenes, 30 frames
  per second, eight seconds per scene, the 500 ms cooldown.\<close>

definition demo_runtime :: cart_runtime where
  "demo_runtime = \<lparr>scene_count = 6, scene_index = 0, manual_scene_index = 0, origin_ns = 0,
     frame_period_ns = 33333333, scene_period_ns = 8000000000, manual_hold_until_ns = 0,
     min_change_ns = 500000000, last_change_ns = 0, had_change = False,
     next_deadline_ns = 33333333, frame_no = 0, dropped_deadlines = 0, sleep_ns = 33333333,
     manual_hold_active = False\<rparr>"

lemma demo_runtime_init:
  "cart_runtime_init (Ptr demo_runtime) 6 0 33333333 8000000000 500000000 = (0, Ptr demo_runtime)"
  by (simp add: cart_runtime_init_def demo_runtime_def word_le_nat_alt unat_max_minus)

lemmas demo_runtime_inv = cart_runtime_init_inv[OF demo_runtime_init]



theorem tick_paces_frames_witness:
  "cart_runtime_tick (Ptr demo_runtime) 100000000 =
     (0, Ptr (demo_runtime\<lparr>frame_no := 3, dropped_deadlines := 2, next_deadline_ns := 133333333\<rparr>))
   \<and> unat (100000000 :: u64) < unat (133333333 :: u64)"
proof -
  have tick: "cart_runtime_tick (Ptr demo_runtime) 100000000 =
     (0, Ptr (demo_runtime\<lparr>frame_no := 3, dropped_deadlines := 2, next_deadline_ns := 133333333\<rparr>))"
    by code_simp
  have "(100000000 :: u64) = max (origin_ns demo_runtime) 100000000" by (simp add: demo_runtime_def)
  from tick_paces_frames[OF demo_runtime_inv this tick] tick show ?thesis by simp
qed

theorem tick_attract_scene_witness:
  "cart_runtime_tick (Ptr demo_runtime) 17000000000 =
     (0, Ptr (demo_runtime\<lparr>scene_index := 2, frame_no := 510, last_change_ns := 17000000000,
        had_change := True, dropped_deadlines := 509, next_deadline_ns := 17033333333\<rparr>))
   \<and> unat (2 :: size_t) = 17000000000 div 8000000000 mod 6"
proof -
  have tick: "cart_runtime_tick (Ptr demo_runtime) 17000000000 =
     (0, Ptr (demo_runtime\<lparr>scene_index := 2, frame_no := 510, last_change_ns := 17000000000,
        had_change := True, dropped_deadlines := 509, next_deadline_ns := 17033333333\<rparr>))"
    by code_simp
  have "\<not> (manual_hold_active demo_runtime \<and> max (origin_ns demo_runtime) 17000000000 < manual_hold_until_ns demo_runtime)"
    by (simp add: demo_runtime_def)
  from tick_attract_scene[OF demo_runtime_inv this tick] tick show ?thesis
    by (simp add: demo_runtime_def change_allowed_def)
qed

theorem request_next_holds_witness:
  "scene_index (runtime_run (map Tick [9000000000, 20000000000])
     (request_scene demo_runtime 1 7 3600000000000)) = 1"
proof -
  have req: "cart_runtime_request_next (Ptr demo_runtime) 7 3600000000000 = Ptr (request_scene demo_runtime 1 7 3600000000000)"
    by (simp add: cart_runtime_request_next_def demo_runtime_def change_allowed_def)
  have "change_allowed demo_runtime 7" by (simp add: demo_runtime_def change_allowed_def)
  from request_next_holds[OF demo_runtime_inv this _ req, of "[9000000000, 20000000000]"]
  have "scene_index (runtime_run (map Tick [9000000000, 20000000000]) (request_scene demo_runtime 1 7 3600000000000))
      = scene_index (request_scene demo_runtime 1 7 3600000000000)"
    by (simp add: demo_runtime_def)
  then show ?thesis by (simp add: frame_simps)
qed

theorem request_previous_after_next_witness:
  "cart_runtime_request_previous (Ptr (request_scene demo_runtime 1 7 0)) 500000007 0 =
     Ptr (request_scene (request_scene demo_runtime 1 7 0) 0 500000007 0)
   \<and> scene_index (request_scene (request_scene demo_runtime 1 7 0) 0 500000007 0) = scene_index demo_runtime"
proof -
  have n: "cart_runtime_request_next (Ptr demo_runtime) 7 0 = Ptr (request_scene demo_runtime 1 7 0)"
    by (simp add: cart_runtime_request_next_def demo_runtime_def change_allowed_def)
  have p: "cart_runtime_request_previous (Ptr (request_scene demo_runtime 1 7 0)) 500000007 0 =
     Ptr (request_scene (request_scene demo_runtime 1 7 0) 0 500000007 0)"
    by code_simp
  have "change_allowed demo_runtime 7" "change_allowed (request_scene demo_runtime 1 7 0) 500000007"
    by code_simp+
  then show ?thesis
    using request_previous_after_next[OF demo_runtime_inv _ _ n _ p] p by (simp add: demo_runtime_def)
qed

end
