(* ===== verification/Transition.thy ===== *)
theory Transition
  imports Canvas
begin

text \<open>
  The crossfade between two scenes, \<open>cart/src/transition.c\<close> and
  \<open>cart/include/cart/transition.h\<close>: the fade's state machine, the fixed-point smoothstep
  weight and the pixel blend.  The lemmas show that the weight is exact at both ends, monotone and
  bounded in every step, that no intermediate value of the 64-bit computation wraps around, that a
  fade ends after exactly fifteen frames, and how far a colour channel can move between two
  adjacent frames of a fade.
\<close>

section \<open>State\<close>

abbreviation CART_TRANSITION_FRAMES :: u64 where "CART_TRANSITION_FRAMES \<equiv> 15"
abbreviation CART_TRANSITION_WEIGHT_MAX :: u32 where "CART_TRANSITION_WEIGHT_MAX \<equiv> 256"
abbreviation FIXED_ONE :: u64 where "FIXED_ONE \<equiv> 1024"

record cart_transition =
  from_scene :: size_t
  to_scene :: size_t
  elapsed_frames :: u64
  active :: bool
  sources_ready :: bool

definition cart_transition_begin :: "cart_transition ptr \<Rightarrow> size_t \<Rightarrow> size_t \<Rightarrow> cart_transition ptr" where
  "cart_transition_begin tr from to = (case tr of NULL \<Rightarrow> NULL | Ptr t \<Rightarrow>
     Ptr (t\<lparr>from_scene := from, to_scene := to, elapsed_frames := 0, active := (from \<noteq> to),
            sources_ready := False\<rparr>))"

definition cart_transition_active :: "cart_transition ptr \<Rightarrow> bool" where
  "cart_transition_active tr = (case tr of NULL \<Rightarrow> False | Ptr t \<Rightarrow> active t)"

definition cart_transition_advance :: "cart_transition ptr \<Rightarrow> cart_transition ptr" where
  "cart_transition_advance tr = (case tr of NULL \<Rightarrow> NULL | Ptr t \<Rightarrow>
     if \<not> active t then Ptr t
     else let t = t\<lparr>elapsed_frames := elapsed_frames t + 1\<rparr> in
       if elapsed_frames t \<ge> CART_TRANSITION_FRAMES then Ptr (t\<lparr>active := False\<rparr>) else Ptr t)"

definition cart_transition_sources_need_render :: "cart_transition ptr \<Rightarrow> bool" where
  "cart_transition_sources_need_render tr =
     (case tr of NULL \<Rightarrow> False | Ptr t \<Rightarrow> active t \<and> \<not> sources_ready t)"

definition cart_transition_mark_sources_rendered :: "cart_transition ptr \<Rightarrow> cart_transition ptr" where
  "cart_transition_mark_sources_rendered tr =
     (case tr of NULL \<Rightarrow> NULL | Ptr t \<Rightarrow> if active t then Ptr (t\<lparr>sources_ready := True\<rparr>) else Ptr t)"

section \<open>Weight and blend\<close>

definition cart_transition_weight :: "u64 \<Rightarrow> u32" where
  "cart_transition_weight step =
     (if step = 0 then 0
      else if step \<ge> CART_TRANSITION_FRAMES then CART_TRANSITION_WEIGHT_MAX
      else let t = step * FIXED_ONE div CART_TRANSITION_FRAMES;
               eased = (3 * t * t * FIXED_ONE - 2 * t * t * t) div (FIXED_ONE * FIXED_ONE);
               eased = (eased * 256 + FIXED_ONE div 2) div FIXED_ONE;
               eased = (if eased > 256 then 256 else eased)
           in ucast eased)"

text \<open>The loop \<open>destination[index] = cart_mix(from[index], to[index], amount)\<close>.  The three
  buffers are distinct objects.\<close>

fun blend_loop :: "nat list \<Rightarrow> u32 list \<Rightarrow> u32 list \<Rightarrow> u32 \<Rightarrow> u32 list \<Rightarrow> u32 list option" where
  "blend_loop [] from to amount dst = Some dst"
| "blend_loop (i # is) from to amount dst = do {
     f \<leftarrow> load from i;
     t \<leftarrow> load to i;
     dst \<leftarrow> store dst i (cart_mix f t amount);
     blend_loop is from to amount dst }"

definition cart_transition_blend ::
  "cart_transition ptr \<Rightarrow> u32 list ptr \<Rightarrow> u32 list ptr \<Rightarrow> u32 list ptr \<Rightarrow> size_t \<Rightarrow> u64 \<Rightarrow> u32 list ptr option" where
  "cart_transition_blend tr destination from to count step =
     (case (destination, from, to) of
        (Ptr d, Ptr f, Ptr t) \<Rightarrow>
          let amount = cart_transition_weight step in
          map_option Ptr
            (if amount = 0 then memcpy_at d 0 f (unat count)
             else if amount \<ge> CART_TRANSITION_WEIGHT_MAX then memcpy_at d 0 t (unat count)
             else blend_loop [0..<unat count] f t amount d)
      | _ \<Rightarrow> Some destination)"

section \<open>The weight table\<close>

text \<open>The sixteen values the weight takes, and the same curve over the natural numbers, where
  nothing wraps around.\<close>

definition weight_table :: "u32 list" where
  "weight_table = [0, 3, 12, 26, 45, 66, 90, 115, 141, 166, 189, 211, 229, 243, 253, 256]"

definition smoothstep_weight :: "nat \<Rightarrow> nat" where
  "smoothstep_weight step =
     (let t = step * 1024 div 15; eased = (3 * t ^ 2 * 1024 - 2 * t ^ 3) div 1024 ^ 2
      in (eased * 256 + 512) div 1024)"

lemma weight_table_upto:
  "\<forall>n \<in> set [0..<15]. cart_transition_weight (of_nat n) = weight_table ! n"
  by (simp add: cart_transition_weight_def weight_table_def upt_rec word_le_nat_alt)

lemma smoothstep_upto:
  "\<forall>n \<in> set [0..<16]. unat (weight_table ! n) = smoothstep_weight n"
  by (simp add: smoothstep_weight_def weight_table_def upt_rec Let_def)

lemma weight_eq_table: "cart_transition_weight step = weight_table ! min 15 (unat step)"
proof (cases "unat step < 15")
  case True
  then have "cart_transition_weight (of_nat (unat step)) = weight_table ! unat step"
    by (intro bspec[OF weight_table_upto]) simp
  then show ?thesis using True by simp
next
  case False
  then have "\<not> step = 0" "step \<ge> 15" by (auto simp: word_le_nat_alt)
  then have "cart_transition_weight step = 256" by (simp add: cart_transition_weight_def)
  then show ?thesis using False by (simp add: weight_table_def)
qed

lemma weight_le_256: "cart_transition_weight step \<le> 256"
proof -
  have "\<forall>w \<in> set weight_table. w \<le> 256" by (simp add: weight_table_def)
  moreover have "min 15 (unat step) < length weight_table" by (simp add: weight_table_def)
  ultimately show ?thesis unfolding weight_eq_table using nth_mem by blast
qed

lemma weight_mono: "a \<le> b \<Longrightarrow> cart_transition_weight a \<le> cart_transition_weight b"
proof -
  assume "a \<le> b"
  then have "min 15 (unat a) \<le> min 15 (unat b)" by (simp add: word_le_nat_alt min_le_iff_disj)
  moreover have "sorted weight_table" by (simp add: weight_table_def)
  moreover have "min 15 (unat b) < length weight_table" by (simp add: weight_table_def)
  ultimately show ?thesis unfolding weight_eq_table by (simp add: sorted_nth_mono)
qed

lemma weight_table_step:
  "\<forall>n \<in> set [0..<15]. uint (weight_table ! Suc n) - uint (weight_table ! n) \<le> 26"
  by (simp add: weight_table_def upt_rec)

lemma weight_step:
  assumes "step < 15"
  shows "uint (cart_transition_weight (step + 1)) - uint (cart_transition_weight step) \<le> 26"
proof -
  have lt: "unat step < 15" using assms by (simp add: word_less_nat_alt)
  then have "unat (step + 1) = Suc (unat step)" by (simp add: unat_add_no_wrap)
  then show ?thesis using lt bspec[OF weight_table_step, of "unat step"] by (simp add: weight_eq_table)
qed

section \<open>The fade's life cycle\<close>

lemma cart_transition_advance_active:
  assumes "active t" "elapsed_frames t < 15"
  shows "cart_transition_advance (Ptr t) =
    Ptr (t\<lparr>elapsed_frames := elapsed_frames t + 1, active := (elapsed_frames t + 1 < 15)\<rparr>)"
  using assms by (auto simp: cart_transition_advance_def Let_def not_le)

text \<open>\<open>n\<close> frames of a fade.\<close>

definition fade_frames :: "nat \<Rightarrow> cart_transition \<Rightarrow> cart_transition ptr" where
  "fade_frames n t = (cart_transition_advance ^^ n) (Ptr t)"

lemma fade_frames_running:
  assumes "active t" "elapsed_frames t = 0" "n \<le> 15"
  shows "fade_frames n t = Ptr (t\<lparr>elapsed_frames := of_nat n, active := (n < 15)\<rparr>)"
  using assms(3)
proof (induction n)
  case 0
  then show ?case using assms by (simp add: fade_frames_def)
next
  case (Suc n)
  let ?t = "t\<lparr>elapsed_frames := of_nat n, active := True\<rparr>"
  have lt: "(of_nat n :: u64) < 15" and suc: "((of_nat n :: u64) + 1 < 15) = (Suc n < 15)"
    using Suc.prems by (auto simp: word_less_nat_alt unat_of_nat unat_add_no_wrap take_bit_nat_eq_self)
  have "fade_frames (Suc n) t = cart_transition_advance (Ptr ?t)"
    using Suc by (simp add: fade_frames_def)
  also have "\<dots> = Ptr (t\<lparr>elapsed_frames := of_nat (Suc n), active := (Suc n < 15)\<rparr>)"
    using cart_transition_advance_active[of ?t] lt suc by (simp add: add.commute)
  finally show ?case .
qed

section \<open>Blending\<close>

lemma blend_loop_spec:
  assumes "distinct is" "\<forall>i \<in> set is. i < length f \<and> i < length t \<and> i < length d"
  shows "\<exists>e. blend_loop is f t a d = Some e \<and> length e = length d
    \<and> (\<forall>i < length d. e ! i = (if i \<in> set is then cart_mix (f ! i) (t ! i) a else d ! i))"
  using assms
proof (induction "is" arbitrary: d)
  case Nil
  then show ?case by simp
next
  case (Cons j js)
  let ?d = "d[j := cart_mix (f ! j) (t ! j) a]"
  obtain e where "blend_loop js f t a ?d = Some e" "length e = length d"
      "\<forall>i < length d. e ! i = (if i \<in> set js then cart_mix (f ! i) (t ! i) a else ?d ! i)"
    using Cons.IH[of ?d] Cons.prems by auto
  then show ?case using Cons.prems by (auto simp: nth_list_update)
qed

text \<open>What one pixel of the destination becomes.\<close>

definition fade_pixel :: "u64 \<Rightarrow> u32 \<Rightarrow> u32 \<Rightarrow> u32" where
  "fade_pixel step f t = (let a = cart_transition_weight step in
     if a = 0 then f else if a \<ge> 256 then t else cart_mix f t a)"

lemma cart_transition_blend_pixels:
  assumes "unat count \<le> length f" "unat count \<le> length t" "unat count \<le> length d"
  shows "\<exists>e. cart_transition_blend tr (Ptr d) (Ptr f) (Ptr t) count step = Some (Ptr e)
    \<and> length e = length d
    \<and> (\<forall>i < length d. e ! i = (if i < unat count then fade_pixel step (f ! i) (t ! i) else d ! i))"
proof -
  let ?a = "cart_transition_weight step"
  have copy: "memcpy_at d 0 s (unat count) = Some (take (unat count) s @ drop (unat count) d)"
    if "unat count \<le> length s" for s using that assms(3) by (simp add: memcpy_at_def)
  consider "?a = 0" | "?a \<noteq> 0" "?a \<ge> 256" | "?a \<noteq> 0" "\<not> ?a \<ge> 256" by blast
  then show ?thesis
  proof cases
    case 1
    then show ?thesis using copy[OF assms(1)] assms
      by (auto simp: cart_transition_blend_def Let_def fade_pixel_def nth_append)
  next
    case 2
    then show ?thesis using copy[OF assms(2)] assms
      by (auto simp: cart_transition_blend_def Let_def fade_pixel_def nth_append)
  next
    case 3
    obtain e where "blend_loop [0..<unat count] f t ?a d = Some e" "length e = length d"
        "\<forall>i < length d. e ! i = (if i \<in> set [0..<unat count] then cart_mix (f ! i) (t ! i) ?a else d ! i)"
      using blend_loop_spec[of "[0..<unat count]" f t d ?a] assms by auto
    then show ?thesis using 3
      by (auto simp: cart_transition_blend_def Let_def fade_pixel_def)
  qed
qed

context channel_blend
begin

text \<open>The channel of a pixel that is mixed with the weight of a fade step, with the weights 0 and
  256 copied instead of mixed.\<close>

definition faded :: "u64 \<Rightarrow> 'c \<Rightarrow> 'c \<Rightarrow> 'c" where
  "faded step f t = (let a = cart_transition_weight step in
     if a = 0 then f else if a \<ge> 256 then t else mix f t a)"

lemma chan_faded: "chan (faded step f t) = chan (mix f t (cart_transition_weight step))"
proof -
  have "cart_transition_weight step = 256" if "cart_transition_weight step \<ge> 256"
    using that weight_le_256[of step] by simp
  then show ?thesis by (auto simp: faded_def Let_def blend_ends)
qed

lemma faded_step:
  assumes "step < 15"
  shows "\<bar>chan (faded (step + 1) f t) - chan (faded step f t)\<bar> \<le> 26"
proof -
  have le: "step \<le> step + 1"
    using assms by (simp add: word_le_nat_alt word_less_nat_alt unat_add_no_wrap)
  have "\<bar>chan (faded (step + 1) f t) - chan (faded step f t)\<bar>
      \<le> 255 * (uint (cart_transition_weight (step + 1)) - uint (cart_transition_weight step)) div 256 + 1"
    unfolding chan_faded using weight_mono[OF le] weight_le_256 by (rule blend_step)
  also have "\<dots> \<le> 6630 div 256 + 1"
    using weight_step[OF assms] by (intro add_right_mono zdiv_mono1) simp_all
  finally show ?thesis by simp
qed

lemma faded_between:
  "min (chan f) (chan t) \<le> chan (faded step f t) \<and> chan (faded step f t) \<le> max (chan f) (chan t)"
  unfolding chan_faded by (rule blend_between[OF weight_le_256])

end

lemma fade_pixel_faded: "fade_pixel = red_mix.faded" "fade_pixel = green_mix.faded" "fade_pixel = blue_mix.faded"
  by (simp_all add: fun_eq_iff fade_pixel_def red_mix.faded_def green_mix.faded_def blue_mix.faded_def)


section \<open>Properties\<close>

text \<open>The blend weight.  It is 0 at the start and 256 from frame fifteen on, monotone, never
  above 256, rises by at most 26 from one frame to the next, and on the frames of a fade it equals the
  smoothstep curve over the natural numbers: no intermediate value of the 64-bit computation wraps
  around.\<close>

theorem weight_is_smoothstep:
  "cart_transition_weight 0 = 0 \<and> (15 \<le> s \<longrightarrow> cart_transition_weight s = 256)
   \<and> cart_transition_weight s \<le> 256
   \<and> (s \<le> u \<longrightarrow> cart_transition_weight s \<le> cart_transition_weight u)
   \<and> (s < 15 \<longrightarrow> uint (cart_transition_weight (s + 1)) - uint (cart_transition_weight s) \<le> 26)
   \<and> unat (cart_transition_weight s) = smoothstep_weight (min 15 (unat s))"
proof -
  have "cart_transition_weight s = 256" if "15 \<le> s"
    using that by (simp add: weight_eq_table word_le_nat_alt weight_table_def)
  moreover have "unat (cart_transition_weight s) = smoothstep_weight (min 15 (unat s))"
    using bspec[OF smoothstep_upto, of "min 15 (unat s)"] by (simp add: weight_eq_table)
  moreover have "cart_transition_weight 0 = 0" by (simp add: cart_transition_weight_def)
  ultimately show ?thesis using weight_le_256 weight_mono weight_step by blast
qed

text \<open>C19. A fade between two different scenes is active for exactly fifteen frames: after \<open>n\<close>
  calls of \<open>cart_transition_advance\<close> it is active if and only if \<open>n < 15\<close>, its frame counter is
  \<open>n\<close> up to fifteen and stays there, and its endpoints never change.  A fade to the same scene
  never becomes active.\<close>

theorem fade_lasts_fifteen_frames:
  "cart_transition_begin (Ptr t) from to = Ptr b \<Longrightarrow>
   \<exists>e. (cart_transition_advance ^^ n) (Ptr b) = Ptr e
     \<and> (cart_transition_active (Ptr e) \<longleftrightarrow> from \<noteq> to \<and> n < 15)
     \<and> (from \<noteq> to \<longrightarrow> elapsed_frames e = of_nat (min n 15))
     \<and> from_scene e = from \<and> to_scene e = to"
proof -
  assume "cart_transition_begin (Ptr t) from to = Ptr b"
  then have b: "active b = (from \<noteq> to)" "elapsed_frames b = 0" "from_scene b = from" "to_scene b = to"
    by (auto simp: cart_transition_begin_def)
  have inert: "(cart_transition_advance ^^ m) (Ptr e) = Ptr e" if "\<not> active e" for m e
    using that by (induction m) (simp_all add: cart_transition_advance_def)
  show ?thesis
  proof (cases "from = to")
    case True
    then show ?thesis using inert[of b n] b by (simp add: cart_transition_active_def)
  next
    case False
    then have run: "fade_frames m b = Ptr (b\<lparr>elapsed_frames := of_nat m, active := (m < 15)\<rparr>)" if "m \<le> 15" for m
      using fade_frames_running[of b m] b that by simp
    show ?thesis
    proof (cases "n \<le> 15")
      case True
      then show ?thesis using run[OF True] b False
        by (auto simp: fade_frames_def cart_transition_active_def min_absorb1)
    next
      case over: False
      then obtain k where n: "n = k + 15" by (metis add.commute le_Suc_ex nat_le_linear)
      let ?e = "b\<lparr>elapsed_frames := of_nat 15, active := False\<rparr>"
      have "(cart_transition_advance ^^ n) (Ptr b) = (cart_transition_advance ^^ k) (Ptr ?e)"
        using run[of 15] by (simp add: n funpow_add fade_frames_def)
      also have "\<dots> = Ptr ?e" by (rule inert) simp
      finally show ?thesis using b False over by (auto simp: cart_transition_active_def)
    qed
  qed
qed


theorem weight_is_smoothstep_witness: "cart_transition_weight 7 \<le> cart_transition_weight 8 \<and> cart_transition_weight 7 = 115"
proof
  show "cart_transition_weight 7 \<le> cart_transition_weight 8"
    using weight_is_smoothstep[of 7 8] by (simp add: word_le_nat_alt)
  show "cart_transition_weight 7 = 115" by code_simp
qed

theorem fade_lasts_fifteen_frames_witness:
  "\<exists>e. (cart_transition_advance ^^ 14) (cart_transition_begin
      (Ptr \<lparr>from_scene = 0, to_scene = 0, elapsed_frames = 0, active = False, sources_ready = False\<rparr>) 2 3) = Ptr e
    \<and> cart_transition_active (Ptr e)"
proof -
  let ?t = "\<lparr>from_scene = 0, to_scene = 0, elapsed_frames = 0, active = False, sources_ready = False\<rparr>"
  have "cart_transition_begin (Ptr ?t) 2 3 = Ptr (?t\<lparr>from_scene := 2, to_scene := 3, active := True\<rparr>)"
    by (simp add: cart_transition_begin_def)
  from fade_lasts_fifteen_frames[OF this, of 14] show ?thesis
    unfolding \<open>cart_transition_begin (Ptr ?t) 2 3 = _\<close> by auto
qed


end
