(* ===== verification/Presentation.thy ===== *)
theory Presentation
  imports Cart_Prelude
begin

text \<open>
  Presentation, \<open>cart/src/presentation.c\<close> and \<open>cart/include/cart/presentation.h\<close>: the
  320x180 logical frame is expanded four times in both directions into the 1280x720 linear
  framebuffer, through one row of scratch space.
\<close>

definition LOGICAL_WIDTH :: nat where "LOGICAL_WIDTH = 320"
definition LOGICAL_HEIGHT :: nat where "LOGICAL_HEIGHT = 180"
definition SCALE :: nat where "SCALE = 4"
definition FRAMEBUFFER_WIDTH :: nat where "FRAMEBUFFER_WIDTH = LOGICAL_WIDTH * SCALE"
definition FRAMEBUFFER_HEIGHT :: nat where "FRAMEBUFFER_HEIGHT = LOGICAL_HEIGHT * SCALE"

text \<open>Expanding row \<open>y\<close> of the logical frame into the scratch row.\<close>

definition expand_row :: "u32 list \<Rightarrow> nat \<Rightarrow> u32 list \<Rightarrow> u32 list option" where
  "expand_row logical y row =
     mfold (\<lambda>x. mfold (\<lambda>k r. case load logical (y * LOGICAL_WIDTH + x) of None \<Rightarrow> None
                       | Some v \<Rightarrow> store r (x * SCALE + k) v) [0..<SCALE])
       [0..<LOGICAL_WIDTH] row"

definition copy_rows :: "nat \<Rightarrow> u32 list \<Rightarrow> u32 list \<Rightarrow> u32 list option" where
  "copy_rows y row framebuffer =
     mfold (\<lambda>k fb. memcpy_at fb ((y * SCALE + k) * FRAMEBUFFER_WIDTH) row FRAMEBUFFER_WIDTH)
       [0..<SCALE] framebuffer"

definition upscale_line :: "u32 list \<Rightarrow> nat \<Rightarrow> u32 list \<times> u32 list \<Rightarrow> (u32 list \<times> u32 list) option" where
  "upscale_line logical y st = (case st of (framebuffer, row) \<Rightarrow>
     (case expand_row logical y row of None \<Rightarrow> None | Some row' \<Rightarrow>
       map_option (\<lambda>fb. (fb, row')) (copy_rows y row' framebuffer)))"

text \<open>The result is the framebuffer and the scratch row; a NULL argument changes nothing.\<close>

definition cart_presentation_upscale ::
  "u32 list ptr \<Rightarrow> u32 list ptr \<Rightarrow> u32 list ptr \<Rightarrow> (u32 list ptr \<times> u32 list ptr) option" where
  "cart_presentation_upscale framebuffer logical row = (case (framebuffer, logical, row) of
     (Ptr fb, Ptr lg, Ptr rw) \<Rightarrow>
       map_option (\<lambda>(f, r). (Ptr f, Ptr r)) (mfold (upscale_line lg) [0..<LOGICAL_HEIGHT] (fb, rw))
   | _ \<Rightarrow> Some (framebuffer, row))"

section \<open>One line\<close>

lemma SCALE_pos: "0 < SCALE" by (simp add: SCALE_def)

lemma grid_index_inj:
  fixes k l s :: nat
  assumes "k < s" "l < s" "x * s + k = y * s + l"
  shows "x = y \<and> k = l"
proof -
  have "(x * s + k) div s = x" "(y * s + l) div s = y" using assms(1,2) by simp_all
  then show ?thesis using assms(3) by simp
qed

lemma grid_index_less:
  fixes x k w s :: nat
  assumes "x < w" "k < s"
  shows "x * s + k < w * s"
proof -
  have "x * s + k < Suc x * s" using assms(2) by simp
  also have "\<dots> \<le> w * s" using assms(1) by (intro mult_le_mono1) simp
  finally show ?thesis .
qed

lemma expand_row_spec:
  assumes "y < LOGICAL_HEIGHT" "LOGICAL_WIDTH * LOGICAL_HEIGHT \<le> length logical"
    "FRAMEBUFFER_WIDTH \<le> length row"
  shows "\<exists>r. expand_row logical y row = Some r \<and> length r = length row
    \<and> (\<forall>X < FRAMEBUFFER_WIDTH. r ! X = logical ! (y * LOGICAL_WIDTH + X div SCALE))"
proof -
  let ?ps = "List.product [0..<LOGICAL_WIDTH] [0..<SCALE]"
  let ?val = "\<lambda>p. logical ! (y * LOGICAL_WIDTH + fst p)" and ?ix = "\<lambda>p. fst p * SCALE + snd p"
  have ld: "load logical (y * LOGICAL_WIDTH + x) = Some (logical ! (y * LOGICAL_WIDTH + x))" if "x < LOGICAL_WIDTH" for x
    using grid_index_less[OF assms(1) that] assms(2) by (simp add: mult.commute)
  have eq: "expand_row logical y row = paint (\<lambda>_. True) ?ix ?val ?ps row"
    unfolding expand_row_def paint_def mfold_product
    by (rule mfold_cong) (auto simp: ld)
  have bound: "?ix p < length row" if "p \<in> set ?ps" for p
    using grid_index_less[of "fst p" LOGICAL_WIDTH "snd p" SCALE] that assms(3)
    by (auto simp: FRAMEBUFFER_WIDTH_def)
  have same: "?val p = ?val q" if "p \<in> set ?ps" "q \<in> set ?ps" "?ix p = ?ix q" for p q
    using grid_index_inj[of "snd p" SCALE "snd q" "fst p" "fst q"] that by auto
  obtain r where r: "expand_row logical y row = Some r" "length r = length row"
      "\<forall>p \<in> set ?ps. r ! ?ix p = ?val p"
    using paint_spec[of ?ps "\<lambda>_. True" ?ix row ?val, OF bound same] unfolding eq by blast
  have "r ! X = logical ! (y * LOGICAL_WIDTH + X div SCALE)" if "X < FRAMEBUFFER_WIDTH" for X
  proof -
    have "(X div SCALE, X mod SCALE) \<in> set ?ps"
      using that SCALE_pos by (auto simp: FRAMEBUFFER_WIDTH_def less_mult_imp_div_less)
    then have "r ! (X div SCALE * SCALE + X mod SCALE) = logical ! (y * LOGICAL_WIDTH + X div SCALE)"
      using r(3) by fastforce
    then show ?thesis by simp
  qed
  then show ?thesis using r by blast
qed

lemma copy_rows_upto:
  assumes "y * SCALE + n \<le> FRAMEBUFFER_HEIGHT" "FRAMEBUFFER_WIDTH \<le> length row"
    "FRAMEBUFFER_WIDTH * FRAMEBUFFER_HEIGHT \<le> length fb"
  shows "\<exists>f. mfold (\<lambda>k fb. memcpy_at fb ((y * SCALE + k) * FRAMEBUFFER_WIDTH) row FRAMEBUFFER_WIDTH) [0..<n] fb = Some f
    \<and> length f = length fb
    \<and> (\<forall>i. f ! i = (if (y * SCALE) * FRAMEBUFFER_WIDTH \<le> i \<and> i < (y * SCALE + n) * FRAMEBUFFER_WIDTH
          then row ! (i mod FRAMEBUFFER_WIDTH) else fb ! i))"
  using assms(1)
proof (induction n)
  case 0
  then show ?case by auto
next
  case (Suc n)
  let ?W = FRAMEBUFFER_WIDTH and ?R = "y * SCALE + n"
  obtain f where f: "mfold (\<lambda>k fb. memcpy_at fb ((y * SCALE + k) * ?W) row ?W) [0..<n] fb = Some f"
      "length f = length fb"
      "\<And>i. f ! i = (if (y * SCALE) * ?W \<le> i \<and> i < ?R * ?W then row ! (i mod ?W) else fb ! i)"
    using Suc by auto
  have "Suc ?R * ?W \<le> FRAMEBUFFER_HEIGHT * ?W" using Suc.prems by (intro mult_le_mono1) simp
  then have fits: "?R * ?W + ?W \<le> length f" using assms(3) f(2) by (simp add: mult.commute)
  obtain g where g: "memcpy_at f (?R * ?W) row ?W = Some g" "length g = length f"
      "\<And>i. g ! i = (if ?R * ?W \<le> i \<and> i < ?R * ?W + ?W then row ! (i - ?R * ?W) else f ! i)"
    using memcpy_at_Some[OF fits assms(2)] by blast
  have mod: "i mod ?W = i - ?R * ?W" if lo: "?R * ?W \<le> i" and hi: "i < ?R * ?W + ?W" for i
  proof -
    obtain j where i: "i = ?R * ?W + j" using le_Suc_ex[OF lo] by blast
    then show ?thesis using hi by simp
  qed
  have "g ! i = (if (y * SCALE) * ?W \<le> i \<and> i < (y * SCALE + Suc n) * ?W then row ! (i mod ?W) else fb ! i)" for i
  proof (cases "?R * ?W \<le> i \<and> i < ?R * ?W + ?W")
    case True
    then show ?thesis using mod by (auto simp: g(3) algebra_simps)
  next
    case False
    then show ?thesis by (auto simp: g(3) f(3) algebra_simps)
  qed
  then show ?case using f(1,2) g(1,2) by (simp add: mfold_append)
qed

section \<open>The whole frame\<close>

lemma upscale_upto:
  assumes "n \<le> LOGICAL_HEIGHT" "LOGICAL_WIDTH * LOGICAL_HEIGHT \<le> length logical"
    "FRAMEBUFFER_WIDTH \<le> length row" "FRAMEBUFFER_WIDTH * FRAMEBUFFER_HEIGHT \<le> length fb"
  shows "\<exists>f r. mfold (upscale_line logical) [0..<n] (fb, row) = Some (f, r)
    \<and> length f = length fb \<and> length r = length row
    \<and> (\<forall>i. f ! i = (if i < n * SCALE * FRAMEBUFFER_WIDTH
          then logical ! (i div FRAMEBUFFER_WIDTH div SCALE * LOGICAL_WIDTH + i mod FRAMEBUFFER_WIDTH div SCALE)
          else fb ! i))"
  using assms(1)
proof (induction n)
  case 0
  then show ?case by simp
next
  case (Suc n)
  let ?W = FRAMEBUFFER_WIDTH
  have W: "0 < ?W" by (simp add: FRAMEBUFFER_WIDTH_def LOGICAL_WIDTH_def SCALE_def)
  obtain f r where fr: "mfold (upscale_line logical) [0..<n] (fb, row) = Some (f, r)"
      "length f = length fb" "length r = length row"
      "\<And>i. f ! i = (if i < n * SCALE * ?W then logical ! (i div ?W div SCALE * LOGICAL_WIDTH + i mod ?W div SCALE) else fb ! i)"
    using Suc by auto
  obtain r' where r': "expand_row logical n r = Some r'" "length r' = length row"
      "\<And>X. X < ?W \<Longrightarrow> r' ! X = logical ! (n * LOGICAL_WIDTH + X div SCALE)"
    using expand_row_spec[of n logical r] Suc.prems assms(2,3) fr(3) by auto
  have "n * SCALE + SCALE \<le> FRAMEBUFFER_HEIGHT"
    using mult_le_mono1[OF Suc.prems, of SCALE] by (simp add: FRAMEBUFFER_HEIGHT_def)
  then obtain g where g: "copy_rows n r' f = Some g" "length g = length f"
      "\<And>i. g ! i = (if n * SCALE * ?W \<le> i \<and> i < (n * SCALE + SCALE) * ?W then r' ! (i mod ?W) else f ! i)"
    using copy_rows_upto[of n SCALE r' f] assms(3,4) fr(2) r'(2) unfolding copy_rows_def by auto
  have "g ! i = (if i < Suc n * SCALE * ?W
      then logical ! (i div ?W div SCALE * LOGICAL_WIDTH + i mod ?W div SCALE) else fb ! i)" for i
  proof (cases "n * SCALE * ?W \<le> i \<and> i < (n * SCALE + SCALE) * ?W")
    case True
    then have "n * SCALE \<le> i div ?W" "i div ?W < n * SCALE + SCALE"
      using W by (auto simp: less_eq_div_iff_mult_less_eq div_less_iff_less_mult)
    then have "i div ?W div SCALE = n"
      by (intro div_nat_eqI) (simp_all add: algebra_simps)
    then show ?thesis using True r'(3)[of "i mod ?W"] W by (auto simp: g(3) algebra_simps)
  next
    case False
    then show ?thesis by (auto simp: g(3) fr(4) algebra_simps)
  qed
  moreover have "upscale_line logical n (f, r) = Some (g, r')"
    by (simp add: upscale_line_def r'(1) g(1))
  then have "mfold (upscale_line logical) [0..<Suc n] (fb, row) = Some (g, r')"
    using fr(1) by (simp add: mfold_append)
  ultimately show ?case using fr(2) r'(2) g(2) by (intro exI[of _ g] exI[of _ r']) simp
qed

lemma upscale_spec:
  assumes "320 * 180 \<le> length logical" and "1280 \<le> length row" and "1280 * 720 \<le> length fb"
  shows "\<exists>f r. cart_presentation_upscale (Ptr fb) (Ptr logical) (Ptr row) = Some (Ptr f, Ptr r)
    \<and> length f = length fb \<and> length r = length row
    \<and> (\<forall>X Y. X < 1280 \<longrightarrow> Y < 720 \<longrightarrow> f ! (Y * 1280 + X) = logical ! (Y div 4 * 320 + X div 4))
    \<and> (\<forall>i \<ge> 1280 * 720. f ! i = fb ! i)"
proof -
  note dims = LOGICAL_WIDTH_def LOGICAL_HEIGHT_def SCALE_def FRAMEBUFFER_WIDTH_def FRAMEBUFFER_HEIGHT_def
  have sizes: "LOGICAL_WIDTH * LOGICAL_HEIGHT \<le> length logical" "FRAMEBUFFER_WIDTH \<le> length row"
      "FRAMEBUFFER_WIDTH * FRAMEBUFFER_HEIGHT \<le> length fb"
    using assms by (simp_all add: dims)
  obtain f r where fr: "mfold (upscale_line logical) [0..<LOGICAL_HEIGHT] (fb, row) = Some (f, r)"
      "length f = length fb" "length r = length row"
      and nth: "\<And>i. f ! i = (if i < LOGICAL_HEIGHT * SCALE * FRAMEBUFFER_WIDTH
          then logical ! (i div FRAMEBUFFER_WIDTH div SCALE * LOGICAL_WIDTH + i mod FRAMEBUFFER_WIDTH div SCALE)
          else fb ! i)"
    using upscale_upto[OF order.refl sizes] by blast
  have "f ! (Y * 1280 + X) = logical ! (Y div 4 * 320 + X div 4)" if "X < 1280" "Y < 720" for X Y
  proof -
    have "(Y * 1280 + X) div 1280 = Y" "(Y * 1280 + X) mod 1280 = X" using that by simp_all
    then show ?thesis using that nth[of "Y * 1280 + X"] by (simp add: dims)
  qed
  moreover have "f ! i = fb ! i" if "i \<ge> 1280 * 720" for i using that nth[of i] by (simp add: dims)
  ultimately show ?thesis using fr by (simp add: cart_presentation_upscale_def)
qed

text \<open>Presentation.  With buffers of the sizes the header names, the upscale is memory safe and
  framebuffer pixel \<open>(X, Y)\<close> shows logical pixel \<open>(X div 4, Y div 4)\<close>, for every pixel of the
  1280x720 frame; nothing behind the frame is written.\<close>

theorem upscale_replicates:
  assumes "320 * 180 \<le> length logical" and "1280 \<le> length row" and "1280 * 720 \<le> length fb"
  shows "\<exists>f r. cart_presentation_upscale (Ptr fb) (Ptr logical) (Ptr row) = Some (Ptr f, Ptr r)
    \<and> length f = length fb
    \<and> (\<forall>X Y. X < 1280 \<longrightarrow> Y < 720 \<longrightarrow> f ! (Y * 1280 + X) = logical ! (Y div 4 * 320 + X div 4))
    \<and> (\<forall>i \<ge> 1280 * 720. f ! i = fb ! i)"
  using upscale_spec[OF assms] by blast

theorem upscale_replicates_witness:
  "\<exists>f r. cart_presentation_upscale (Ptr (replicate (1280 * 720) 0)) (Ptr (replicate (320 * 180) 7)) (Ptr (replicate 1280 0))
      = Some (Ptr f, Ptr r) \<and> f ! (719 * 1280 + 1279) = replicate (320 * 180) 7 ! (179 * 320 + 319)"
proof -
  have "320 * 180 \<le> length (replicate (320 * 180) (7 :: u32))" "1280 \<le> length (replicate 1280 (0 :: u32))"
    "1280 * 720 \<le> length (replicate (1280 * 720) (0 :: u32))" by (simp_all only: length_replicate)
  from upscale_replicates[OF this] obtain f r where
    "cart_presentation_upscale (Ptr (replicate (1280 * 720) 0)) (Ptr (replicate (320 * 180) 7)) (Ptr (replicate 1280 0)) = Some (Ptr f, Ptr r)"
    and "\<forall>X Y. X < 1280 \<longrightarrow> Y < 720 \<longrightarrow> f ! (Y * 1280 + X) = replicate (320 * 180) 7 ! (Y div 4 * 320 + X div 4)"
    by blast
  moreover from this(2)[rule_format, of 1279 719]
  have "f ! (719 * 1280 + 1279) = replicate (320 * 180) 7 ! (719 div 4 * 320 + 1279 div 4)" by simp
  moreover have "(719 :: nat) div 4 = 179" "(1279 :: nat) div 4 = 319" by simp_all
  ultimately show ?thesis by metis
qed

end
