(* ===== verification/Input_Decode.thy ===== *)
theory Input_Decode
  imports Cart_Prelude
begin

text \<open>
  The pure part of the input stack: the key map of \<open>cart/src/input_actions.c\<close> and the axis
  normaliser of \<open>cart/src/input_normalize.c\<close>.
\<close>

section \<open>Actions\<close>

datatype cart_input_action =
    CART_INPUT_NONE
  | CART_INPUT_NEXT
  | CART_INPUT_PREVIOUS
  | CART_INPUT_SELECT
  | CART_INPUT_BACK
  | CART_INPUT_MENU
  | CART_INPUT_QUIT

text \<open>The numeric values are part of the ABI, and the action queue compares actions by value.\<close>

primrec action_code :: "cart_input_action \<Rightarrow> nat" where
  "action_code CART_INPUT_NONE = 0"
| "action_code CART_INPUT_NEXT = 1"
| "action_code CART_INPUT_PREVIOUS = 2"
| "action_code CART_INPUT_SELECT = 3"
| "action_code CART_INPUT_BACK = 4"
| "action_code CART_INPUT_MENU = 5"
| "action_code CART_INPUT_QUIT = 6"

lemma action_code_inj: "action_code a = action_code b \<longleftrightarrow> a = b"
  by (cases a; cases b) simp_all

instantiation cart_input_action :: linorder
begin

definition less_eq_cart_input_action :: "cart_input_action \<Rightarrow> cart_input_action \<Rightarrow> bool" where
  "a \<le> b \<longleftrightarrow> action_code a \<le> action_code b"

definition less_cart_input_action :: "cart_input_action \<Rightarrow> cart_input_action \<Rightarrow> bool" where
  "a < b \<longleftrightarrow> action_code a < action_code b"

instance
  by standard (auto simp: less_eq_cart_input_action_def less_cart_input_action_def action_code_inj)

end

definition KEY_ACTION_TABLE :: "(u16 \<times> cart_input_action) list" where
  "KEY_ACTION_TABLE = [
     (1, CART_INPUT_QUIT), (16, CART_INPUT_QUIT),
     (304, CART_INPUT_SELECT), (305, CART_INPUT_BACK),
     (307, CART_INPUT_NEXT), (308, CART_INPUT_PREVIOUS),
     (310, CART_INPUT_PREVIOUS), (311, CART_INPUT_NEXT),
     (314, CART_INPUT_MENU), (315, CART_INPUT_MENU), (316, CART_INPUT_QUIT),
     (546, CART_INPUT_PREVIOUS), (547, CART_INPUT_NEXT)]"

fun scan_actions :: "(u16 \<times> cart_input_action) list \<Rightarrow> u16 \<Rightarrow> cart_input_action" where
  "scan_actions [] code = CART_INPUT_NONE"
| "scan_actions ((c, a) # rows) code = (if c = code then a else scan_actions rows code)"

definition cart_input_map_key :: "u16 \<Rightarrow> cart_input_action" where
  "cart_input_map_key code = scan_actions KEY_ACTION_TABLE code"

definition cart_input_key_emits_action :: "u16 \<Rightarrow> bool" where
  "cart_input_key_emits_action v \<longleftrightarrow> v = 1"

lemma scan_actions_map_of:
  "scan_actions rows code = (case map_of rows code of None \<Rightarrow> CART_INPUT_NONE | Some a \<Rightarrow> a)"
  by (induction rows code rule: scan_actions.induct) auto

section \<open>Axis normalisation\<close>

record cart_input_axis_range =
  rmin :: int
  rmax :: int
  deadzone_pct :: int

abbreviation CART_INPUT_AXIS_INVALID :: int where "CART_INPUT_AXIS_INVALID \<equiv> INT32_MIN"

text \<open>All fields are \<open>int32_t\<close>.  The products and the hinge points are computed in 64 bits; only
  \<open>span = range->max - range->min\<close> is a 32-bit subtraction.  \<open>None\<close> is its overflow, which is
  undefined in C.  C's \<open>/\<close> truncates towards zero.\<close>

definition cart_input_axis_normalize :: "int \<Rightarrow> cart_input_axis_range ptr \<Rightarrow> int option" where
  "cart_input_axis_normalize raw rg = (case rg of NULL \<Rightarrow> Some CART_INPUT_AXIS_INVALID | Ptr r \<Rightarrow>
     if rmax r \<le> rmin r \<or> deadzone_pct r < 0 \<or> deadzone_pct r > 50 then Some CART_INPUT_AXIS_INVALID
     else let clamped = raw;
              clamped = (if clamped < rmin r then rmin r else clamped);
              clamped = (if clamped > rmax r then rmax r else clamped);
              span = rmax r - rmin r
          in if \<not> in_int32 span then None
             else let half = (span * deadzone_pct r) sdiv 200;
                      low = rmin r + span sdiv 2 - half;
                      high = low + 2 * half
                  in if clamped \<ge> low \<and> clamped \<le> high then Some 0
                     else if clamped < low then Some (((clamped - low) * 100) sdiv (low - rmin r))
                     else Some (((clamped - high) * 100) sdiv (rmax r - high)))"

definition range_ok :: "cart_input_axis_range \<Rightarrow> bool" where
  "range_ok r \<longleftrightarrow> rmin r < rmax r \<and> 0 \<le> deadzone_pct r \<and> deadzone_pct r \<le> 50"

text \<open>The hinge points, for a span that fits.\<close>

definition axis_half :: "cart_input_axis_range \<Rightarrow> int" where
  "axis_half r = (rmax r - rmin r) * deadzone_pct r div 200"

definition axis_low :: "cart_input_axis_range \<Rightarrow> int" where
  "axis_low r = rmin r + (rmax r - rmin r) div 2 - axis_half r"

definition axis_high :: "cart_input_axis_range \<Rightarrow> int" where
  "axis_high r = axis_low r + 2 * axis_half r"

lemma axis_hinges:
  assumes "range_ok r"
  shows "0 \<le> axis_half r" "4 * axis_half r \<le> rmax r - rmin r"
    "rmin r \<le> axis_low r" "axis_low r \<le> axis_high r" "axis_high r \<le> rmax r"
proof -
  define s x where "s = rmax r - rmin r" and "x = s * deadzone_pct r"
  have s: "0 < s" and d: "0 \<le> deadzone_pct r" "deadzone_pct r \<le> 50"
    using assms by (auto simp: range_ok_def s_def)
  have "x \<le> s * 50" unfolding x_def using s d by (intro mult_left_mono) simp_all
  moreover have "0 \<le> x" using s d by (simp add: x_def)
  moreover have "axis_half r = x div 200" by (simp add: axis_half_def x_def s_def)
  ultimately have "0 \<le> axis_half r" "4 * axis_half r \<le> s" by linarith+
  then show h: "0 \<le> axis_half r" "4 * axis_half r \<le> rmax r - rmin r" by (simp_all add: s_def)
  show "rmin r \<le> axis_low r" "axis_low r \<le> axis_high r" "axis_high r \<le> rmax r"
    using h s unfolding axis_high_def axis_low_def s_def by linarith+
qed

lemma normalize_unfold:
  assumes "range_ok r" "rmax r - rmin r \<le> INT32_MAX"
  shows "cart_input_axis_normalize raw (Ptr r) = Some
    (let v = max (rmin r) (min (rmax r) raw) in
     if axis_low r \<le> v \<and> v \<le> axis_high r then 0
     else if v < axis_low r then - ((axis_low r - v) * 100 div (axis_low r - rmin r))
     else (v - axis_high r) * 100 div (rmax r - axis_high r))"
proof -
  let ?s = "rmax r - rmin r" and ?v = "max (rmin r) (min (rmax r) raw)"
  have s: "0 < ?s" "in_int32 ?s" using assms by (auto simp: range_ok_def in_int32_def)
  have half: "(?s * deadzone_pct r) sdiv 200 = axis_half r" "?s sdiv 2 = ?s div 2"
    using s assms(1) by (simp_all add: axis_half_def sdiv_nonneg range_ok_def)
  have clamp: "(let c = raw; c = (if c < rmin r then rmin r else c) in if c > rmax r then rmax r else c) = ?v"
    using assms(1) by (auto simp: range_ok_def)
  have neg: "((?v - axis_low r) * 100) sdiv (axis_low r - rmin r) = - ((axis_low r - ?v) * 100 div (axis_low r - rmin r))"
    if "?v < axis_low r"
    using that by (subst sdiv_neg) (auto simp: algebra_simps)
  have pos: "((?v - axis_high r) * 100) sdiv (rmax r - axis_high r) = (?v - axis_high r) * 100 div (rmax r - axis_high r)"
    if "\<not> ?v \<le> axis_high r"
    using that s(1) by (subst sdiv_nonneg) auto
  have guard: "(rmax r \<le> rmin r \<or> deadzone_pct r < 0 \<or> deadzone_pct r > 50) = False"
    "(\<not> in_int32 ?s) = False"
    using assms(1) s(2) by (auto simp: range_ok_def)
  have "cart_input_axis_normalize raw (Ptr r) =
    (if axis_low r \<le> ?v \<and> ?v \<le> axis_high r then Some 0
     else if ?v < axis_low r then Some (((?v - axis_low r) * 100) sdiv (axis_low r - rmin r))
     else Some (((?v - axis_high r) * 100) sdiv (rmax r - axis_high r)))"
    unfolding cart_input_axis_normalize_def ptr.case guard if_False half clamp[unfolded Let_def] Let_def
      axis_low_def[symmetric] axis_high_def[symmetric] ..
  also have "\<dots> = Some (if axis_low r \<le> ?v \<and> ?v \<le> axis_high r then 0
     else if ?v < axis_low r then - ((axis_low r - ?v) * 100 div (axis_low r - rmin r))
     else (?v - axis_high r) * 100 div (rmax r - axis_high r))"
  proof -
    have some_if: "(if P then Some 0 else if Q then Some a else Some b) = Some (if P then 0 else if Q then a' else b')"
      if "Q \<Longrightarrow> a = a'" "\<not> P \<Longrightarrow> \<not> Q \<Longrightarrow> b = b'" for P Q and a a' b b' :: int
      using that by auto
    show ?thesis by (rule some_if, erule neg, rule pos) linarith
  qed
  finally show ?thesis unfolding Let_def .
qed

lemma ratio_percent:
  fixes a b :: int
  assumes "0 \<le> a" "a \<le> b" "0 < b"
  shows "0 \<le> a * 100 div b" "a * 100 div b \<le> 100" "a = b \<Longrightarrow> a * 100 div b = 100"
proof -
  have "a * 100 div b \<le> b * 100 div b" using assms by (intro zdiv_mono1) simp_all
  then show "a * 100 div b \<le> 100" using assms(3) by simp
  show "0 \<le> a * 100 div b" using assms by (simp add: pos_imp_zdiv_nonneg_iff)
  show "a * 100 div b = 100" if "a = b" using that assms(3) by simp
qed

text \<open>The reference curve: 0 between the hinges, one straight rounded segment on either side.\<close>

definition axis_curve :: "cart_input_axis_range \<Rightarrow> int \<Rightarrow> int" where
  "axis_curve r v =
     (if axis_low r \<le> v \<and> v \<le> axis_high r then 0
      else if v < axis_low r then - ((axis_low r - v) * 100 div (axis_low r - rmin r))
      else (v - axis_high r) * 100 div (rmax r - axis_high r))"

definition axis_clamp :: "cart_input_axis_range \<Rightarrow> int \<Rightarrow> int" where
  "axis_clamp r raw = max (rmin r) (min (rmax r) raw)"

lemma normalize_curve:
  assumes "range_ok r" "rmax r - rmin r \<le> INT32_MAX"
  shows "cart_input_axis_normalize raw (Ptr r) = Some (axis_curve r (axis_clamp r raw))"
  using normalize_unfold[OF assms] by (simp only: Let_def axis_curve_def axis_clamp_def)

lemma axis_clamp_facts:
  assumes "range_ok r"
  shows "rmin r \<le> axis_clamp r raw" "axis_clamp r raw \<le> rmax r"
    "raw \<le> raw' \<Longrightarrow> axis_clamp r raw \<le> axis_clamp r raw'"
    "raw \<le> rmin r \<Longrightarrow> axis_clamp r raw = rmin r" "rmax r \<le> raw \<Longrightarrow> axis_clamp r raw = rmax r"
    "axis_low r \<le> raw \<Longrightarrow> axis_low r \<le> axis_clamp r raw"
    "raw \<le> axis_high r \<Longrightarrow> axis_clamp r raw \<le> axis_high r"
  using assms axis_hinges[OF assms] by (auto simp: axis_clamp_def range_ok_def)

lemma axis_curve_below:
  assumes "v < axis_low r" "rmin r \<le> v"
  shows "axis_curve r v = - ((axis_low r - v) * 100 div (axis_low r - rmin r))"
    "- 100 \<le> axis_curve r v" "axis_curve r v \<le> 0" "v = rmin r \<Longrightarrow> axis_curve r v = - 100"
  using assms ratio_percent[of "axis_low r - v" "axis_low r - rmin r"] by (auto simp: axis_curve_def)

lemma axis_curve_above:
  assumes "range_ok r" "axis_high r < v" "v \<le> rmax r"
  shows "axis_curve r v = (v - axis_high r) * 100 div (rmax r - axis_high r)"
    "0 \<le> axis_curve r v" "axis_curve r v \<le> 100" "v = rmax r \<Longrightarrow> axis_curve r v = 100"
  using assms axis_hinges(4)[OF assms(1)] ratio_percent[of "v - axis_high r" "rmax r - axis_high r"]
  by (auto simp: axis_curve_def)

lemma axis_curve_dead: "axis_low r \<le> v \<Longrightarrow> v \<le> axis_high r \<Longrightarrow> axis_curve r v = 0"
  by (simp add: axis_curve_def)

lemma axis_curve_mono:
  assumes "range_ok r" "rmin r \<le> v" "v \<le> w" "w \<le> rmax r"
  shows "axis_curve r v \<le> axis_curve r w"
proof -
  consider (below) "w < axis_low r" | (above) "axis_high r < v" | (left) "v < axis_low r" "axis_low r \<le> w"
    | (dead) "axis_low r \<le> v" "v \<le> axis_high r" by linarith
  then show ?thesis
  proof cases
    case below
    then have "(axis_low r - w) * 100 div (axis_low r - rmin r) \<le> (axis_low r - v) * 100 div (axis_low r - rmin r)"
      using assms by (intro zdiv_mono1) simp_all
    then show ?thesis using below assms by (simp add: axis_curve_below(1))
  next
    case above
    then have "(v - axis_high r) * 100 div (rmax r - axis_high r) \<le> (w - axis_high r) * 100 div (rmax r - axis_high r)"
      using assms by (intro zdiv_mono1) simp_all
    then show ?thesis using above assms by (simp add: axis_curve_above(1))
  next
    case left
    have "0 \<le> axis_curve r w"
      using left(2) assms axis_curve_above(2)[of r w] by (cases "w \<le> axis_high r") (simp_all add: axis_curve_dead)
    then show ?thesis using axis_curve_below(3)[OF left(1) assms(2)] by linarith
  next
    case dead
    have "0 \<le> axis_curve r w"
      using dead assms axis_curve_above(2)[of r w] by (cases "w \<le> axis_high r") (simp_all add: axis_curve_dead)
    then show ?thesis using dead by (simp add: axis_curve_dead)
  qed
qed

section \<open>Properties\<close>

text \<open>Axis normalisation.  For a range whose span fits in 32 bits the normaliser is defined for
  every raw value and returns a percentage in -100..100; it is 0 on the dead zone, negative only below
  it and positive only above it, full throw at either end (and beyond) is exactly -100 and 100 unless
  the dead zone reaches the end, and a larger raw value never gives a smaller percentage.\<close>

theorem normalize_percent:
  assumes "range_ok r" and "rmax r - rmin r \<le> INT32_MAX"
  shows "\<exists>p. cart_input_axis_normalize raw (Ptr r) = Some p \<and> - 100 \<le> p \<and> p \<le> 100
    \<and> (axis_low r \<le> raw \<and> raw \<le> axis_high r \<longrightarrow> p = 0)
    \<and> (p < 0 \<longrightarrow> raw < axis_low r) \<and> (0 < p \<longrightarrow> axis_high r < raw)
    \<and> (raw \<le> rmin r \<and> rmin r < axis_low r \<longrightarrow> p = - 100)
    \<and> (rmax r \<le> raw \<and> axis_high r < rmax r \<longrightarrow> p = 100)
    \<and> (\<forall>raw' q. raw \<le> raw' \<and> cart_input_axis_normalize raw' (Ptr r) = Some q \<longrightarrow> p \<le> q)"
proof -
  let ?v = "axis_clamp r raw" and ?p = "axis_curve r (axis_clamp r raw)"
  note h = axis_hinges[OF assms(1)] and c = axis_clamp_facts[OF assms(1)] and eq = normalize_curve[OF assms]
  have mono: "\<forall>raw' q. raw \<le> raw' \<and> cart_input_axis_normalize raw' (Ptr r) = Some q \<longrightarrow> ?p \<le> q"
    using axis_curve_mono[OF assms(1) c(1) c(3) c(2)] eq by auto
  have "(- 100 \<le> ?p \<and> ?p \<le> 100) \<and> (?p < 0 \<longrightarrow> ?v < axis_low r) \<and> (0 < ?p \<longrightarrow> axis_high r < ?v)"
  proof -
    consider "?v < axis_low r" | "axis_high r < ?v" | "axis_low r \<le> ?v \<and> ?v \<le> axis_high r" by linarith
    then show ?thesis
      using axis_curve_below(2,3)[OF _ c(1), of raw] axis_curve_above(2,3)[OF assms(1) _ c(2), of raw]
      by cases (simp_all add: axis_curve_dead)
  qed
  then have bnd: "- 100 \<le> ?p" "?p \<le> 100" and low: "?p < 0 \<longrightarrow> raw < axis_low r" "0 < ?p \<longrightarrow> axis_high r < raw"
    using c(6,7)[of raw] by linarith+
  have ends: "raw \<le> rmin r \<and> rmin r < axis_low r \<longrightarrow> ?p = - 100" "rmax r \<le> raw \<and> axis_high r < rmax r \<longrightarrow> ?p = 100"
    using c(4,5)[of raw] axis_curve_below(4)[of "rmin r"] axis_curve_above(4)[OF assms(1), of "rmax r"] by auto
  have dead: "axis_low r \<le> raw \<and> raw \<le> axis_high r \<longrightarrow> ?p = 0"
    using c(6,7)[of raw] by (simp add: axis_curve_dead)
  show ?thesis using eq bnd dead low ends mono by blast
qed

text \<open>The key map.  A code has the action of its row in the table, and the rows are unambiguous;
  every code without a row gives no action, and only a press (the 16-bit value 1) emits one.\<close>

theorem map_key_table:
  "(\<forall>(c, a) \<in> set KEY_ACTION_TABLE. cart_input_map_key c = a \<and> a \<noteq> CART_INPUT_NONE)
   \<and> (cart_input_map_key code = CART_INPUT_NONE \<longleftrightarrow> code \<notin> fst ` set KEY_ACTION_TABLE)
   \<and> (cart_input_key_emits_action v \<longleftrightarrow> unat v = 1)"
proof -
  have dist: "distinct (map fst KEY_ACTION_TABLE)" by code_simp
  have some: "\<forall>(c, a) \<in> set KEY_ACTION_TABLE. a \<noteq> CART_INPUT_NONE" by (simp add: KEY_ACTION_TABLE_def)
  have rows: "cart_input_map_key c = a" if "(c, a) \<in> set KEY_ACTION_TABLE" for c a
    using map_of_is_SomeI[OF dist that] by (simp add: cart_input_map_key_def scan_actions_map_of)
  have "cart_input_map_key code = CART_INPUT_NONE \<longleftrightarrow> code \<notin> fst ` set KEY_ACTION_TABLE"
  proof
    assume none: "cart_input_map_key code = CART_INPUT_NONE"
    show "code \<notin> fst ` set KEY_ACTION_TABLE"
    proof
      assume "code \<in> fst ` set KEY_ACTION_TABLE"
      then obtain a where "(code, a) \<in> set KEY_ACTION_TABLE" by auto
      then show False using rows none some by fastforce
    qed
  next
    assume "code \<notin> fst ` set KEY_ACTION_TABLE"
    then have "map_of KEY_ACTION_TABLE code = None" by (simp add: map_of_eq_None_iff)
    then show "cart_input_map_key code = CART_INPUT_NONE"
      by (simp add: cart_input_map_key_def scan_actions_map_of)
  qed
  moreover have "cart_input_key_emits_action v \<longleftrightarrow> unat v = 1"
    by (auto simp: cart_input_key_emits_action_def word_unat_eq_iff)
  ultimately show ?thesis using rows some by fastforce
qed

theorem normalize_percent_witness:
  "cart_input_axis_normalize 250 (Ptr \<lparr>rmin = 0, rmax = 255, deadzone_pct = 15\<rparr>) = Some 95
   \<and> (\<exists>p. cart_input_axis_normalize 250 (Ptr \<lparr>rmin = 0, rmax = 255, deadzone_pct = 15\<rparr>) = Some p \<and> p \<le> 100)"
proof
  show "cart_input_axis_normalize 250 (Ptr \<lparr>rmin = 0, rmax = 255, deadzone_pct = 15\<rparr>) = Some 95"
    by code_simp
  show "\<exists>p. cart_input_axis_normalize 250 (Ptr \<lparr>rmin = 0, rmax = 255, deadzone_pct = 15\<rparr>) = Some p \<and> p \<le> 100"
    using normalize_percent[of "\<lparr>rmin = 0, rmax = 255, deadzone_pct = 15\<rparr>" 250]
    by (auto simp: range_ok_def in_int32_def)
qed

theorem map_key_table_witness: "cart_input_map_key 311 = CART_INPUT_NEXT"
proof -
  have "(311, CART_INPUT_NEXT) \<in> set KEY_ACTION_TABLE" by (simp add: KEY_ACTION_TABLE_def)
  then show ?thesis using map_key_table by fastforce
qed

text \<open>The span subtraction is the one computation of the normaliser that is not widened: for the
  widest 32-bit range it overflows.\<close>

lemma normalize_span_overflow:
  "cart_input_axis_normalize 0 (Ptr \<lparr>rmin = INT32_MIN, rmax = INT32_MAX, deadzone_pct = 15\<rparr>) = None"
  by code_simp

end
