(* ===== verification/Input_Device.thy ===== *)
theory Input_Device
  imports C_Library Input_Decode "HOL-Library.Multiset"
begin

text \<open>
  The device side of \<open>cart/src/input_evdev.c\<close>: the operations table through which every system
  call goes, the default table over the kernel, probing of an open event node and the ordering of the
  candidates.  The state \<open>'w\<close> of the outside world is threaded through every operation of the table.
  A result \<open>None\<close> is undefined behaviour: a NULL operation, an access outside a buffer, a signed
  overflow or a read of an uninitialised buffer.
\<close>

section \<open>Data of input.h\<close>

abbreviation CART_INPUT_MAX_SOURCES :: nat where "CART_INPUT_MAX_SOURCES \<equiv> 4"
abbreviation CART_INPUT_NODE_MAX :: nat where "CART_INPUT_NODE_MAX \<equiv> 32"
abbreviation CART_INPUT_NAME_MAX :: nat where "CART_INPUT_NAME_MAX \<equiv> 128"
abbreviation CART_INPUT_AXIS_COUNT :: nat where "CART_INPUT_AXIS_COUNT \<equiv> 8"
abbreviation CART_INPUT_DEFAULT_DEADZONE_PCT :: int where "CART_INPUT_DEFAULT_DEADZONE_PCT \<equiv> 15"
abbreviation CANDIDATE_CAP :: nat where "CANDIDATE_CAP \<equiv> 16"

datatype cart_input_state = CART_INPUT_ABSENT | CART_INPUT_CONNECTED | CART_INPUT_DESYNC

text \<open>\<open>axis_valid\<close> is a byte per axis that is only ever 0 or 1.  The strings are C strings without
  their terminator.\<close>

record cart_input_source =
  src_fd :: int
  src_rank :: int
  src_state :: cart_input_state
  src_generation :: u32
  src_node :: string
  src_name :: string
  src_held_keys :: u64
  src_axis :: "cart_input_axis_range list"
  src_axis_valid :: "bool list"
  src_last_raw :: "int list"

record cart_input_candidate =
  cand_fd :: int
  cand_rank :: int
  cand_number :: nat
  cand_node :: string
  cand_prepared :: cart_input_source

text \<open>What a \<open>read\<close> gives: the bytes it stored (none at end of file), or -1 with an \<open>errno\<close>.
  On Linux \<open>EWOULDBLOCK\<close> is \<open>EAGAIN\<close>.\<close>

datatype errno = EINTR | EAGAIN | ENOENT | ENODEV | EIO | EOTHER nat

datatype read_result = Got "u8 list" | Failed errno

record input_absinfo =
  abs_value :: int
  abs_minimum :: int
  abs_maximum :: int
  abs_fuzz :: int
  abs_flat :: int
  abs_resolution :: int

text \<open>The operations table.  An operation that fills a caller's buffer returns the bytes it left there;
  \<open>ioctl_abs\<close> returns \<open>None\<close> for a non-zero status.\<close>

record 'w cart_input_ops =
  op_open :: "(string \<Rightarrow> u32 \<Rightarrow> 'w \<Rightarrow> int \<times> 'w) ptr"
  op_close :: "(int \<Rightarrow> 'w \<Rightarrow> int \<times> 'w) ptr"
  op_read :: "(int \<Rightarrow> nat \<Rightarrow> 'w \<Rightarrow> read_result \<times> 'w) ptr"
  op_ioctl_name :: "(int \<Rightarrow> nat \<Rightarrow> 'w \<Rightarrow> (int \<times> string) \<times> 'w) ptr"
  op_ioctl_key_state :: "(int \<Rightarrow> nat \<Rightarrow> 'w \<Rightarrow> (int \<times> u8 list) \<times> 'w) ptr"
  op_ioctl_bit :: "(int \<Rightarrow> nat \<Rightarrow> nat \<Rightarrow> 'w \<Rightarrow> (int \<times> u8 list) \<times> 'w) ptr"
  op_ioctl_abs :: "(int \<Rightarrow> nat \<Rightarrow> 'w \<Rightarrow> input_absinfo option \<times> 'w) ptr"

text \<open>Calling through a function pointer.\<close>

definition invoke :: "'f ptr \<Rightarrow> 'f option" where
  "invoke p = (case p of NULL \<Rightarrow> None | Ptr f \<Rightarrow> Some f)"

lemma invoke_Ptr [simp]: "invoke (Ptr f) = Some f"
  by (simp add: invoke_def)

lemma invoke_NULL [simp]: "invoke NULL = None"
  by (simp add: invoke_def)

section \<open>The default operations\<close>

text \<open>The kernel's system calls are parameters.  An \<open>ioctl\<close> returns its status and the bytes it
  copied out; the evdev requests copy at most the size that the request number carries.\<close>

record 'w kernel =
  k_open :: "string \<Rightarrow> u32 \<Rightarrow> 'w \<Rightarrow> int \<times> 'w"
  k_close :: "int \<Rightarrow> 'w \<Rightarrow> int \<times> 'w"
  k_read :: "int \<Rightarrow> nat \<Rightarrow> 'w \<Rightarrow> read_result \<times> 'w"
  k_ioctl :: "int \<Rightarrow> u32 \<Rightarrow> 'w \<Rightarrow> (int \<times> u8 list) \<times> 'w"

abbreviation BIT_BYTES_KEY :: nat where "BIT_BYTES_KEY \<equiv> 96"
abbreviation BIT_BYTES_ABS :: nat where "BIT_BYTES_ABS \<equiv> 8"
abbreviation STATE_BYTES_KEY :: nat where "STATE_BYTES_KEY \<equiv> 96"

definition evreq :: "nat \<Rightarrow> nat \<Rightarrow> u32" where
  "evreq nr bytes = push_bit 30 2 OR push_bit 16 (of_nat bytes AND 0x3FFF) OR push_bit 8 69 OR of_nat nr"

definition default_open :: "'w kernel \<Rightarrow> string \<Rightarrow> u32 \<Rightarrow> 'w \<Rightarrow> int \<times> 'w" where
  "default_open k path flags w = k_open k path flags w"

definition default_close :: "'w kernel \<Rightarrow> int \<Rightarrow> 'w \<Rightarrow> int \<times> 'w" where
  "default_close k fd w = k_close k fd w"

definition default_read :: "'w kernel \<Rightarrow> int \<Rightarrow> nat \<Rightarrow> 'w \<Rightarrow> read_result \<times> 'w" where
  "default_read k fd cnt w = k_read k fd cnt w"

text \<open>A buffer of \<open>n\<close> bytes that was cleared before the kernel wrote \<open>bs\<close> at its start.\<close>

definition filled :: "nat \<Rightarrow> u8 list \<Rightarrow> u8 list" where
  "filled n bs = take n bs @ replicate (n - length bs) 0"

lemma length_filled [simp]: "length (filled n bs) = n"
  by (simp add: filled_def)

text \<open>\<open>EVIOCGNAME(len)\<close> is request 0x06 and \<open>EVIOCGABS(axis)\<close> is request 0x40 + axis on the 24
  bytes of \<open>struct input_absinfo\<close>.  The only caller passes a buffer that is not NULL.\<close>

definition default_ioctl_name :: "'w kernel \<Rightarrow> int \<Rightarrow> nat \<Rightarrow> 'w \<Rightarrow> (int \<times> string) \<times> 'w" where
  "default_ioctl_name k fd out_size w =
     (if out_size = 0 then ((- 1, ''''), w)
      else let ((written, bytes), w') = k_ioctl k fd (evreq 0x06 (out_size - 1)) w
           in if written < 0 then ((- 1, ''''), w')
              else let written = (if written \<ge> int out_size then int out_size - 1 else written);
                       out = c_str (take (nat written) (map (\<lambda>b. char_of (unat b)) bytes))
                   in ((if out = '''' then 0 else written, out), w'))"

definition default_ioctl_key_state :: "'w kernel \<Rightarrow> int \<Rightarrow> nat \<Rightarrow> 'w \<Rightarrow> (int \<times> u8 list) \<times> 'w" where
  "default_ioctl_key_state k fd bytes w =
     (let ((rc, bs), w') = k_ioctl k fd (evreq 0x18 bytes) w; buffer = filled bytes bs
      in if rc < 0 then ((- 1, buffer), w') else ((int bytes, buffer), w'))"

definition default_ioctl_bit :: "'w kernel \<Rightarrow> int \<Rightarrow> nat \<Rightarrow> nat \<Rightarrow> 'w \<Rightarrow> (int \<times> u8 list) \<times> 'w" where
  "default_ioctl_bit k fd type bytes w =
     (let ((rc, bs), w') = k_ioctl k fd (evreq (0x20 + type) bytes) w; buffer = filled bytes bs
      in if rc < 0 then ((- 1, buffer), w') else ((0, buffer), w'))"

text \<open>A little-endian 32-bit signed integer at a byte offset.\<close>

definition le_u16 :: "u8 list \<Rightarrow> nat \<Rightarrow> u16" where
  "le_u16 bs i = ucast (bs ! i) OR push_bit 8 (ucast (bs ! (i + 1)))"

definition le_s32 :: "u8 list \<Rightarrow> nat \<Rightarrow> int" where
  "le_s32 bs i = sint (ucast (bs ! i) OR push_bit 8 (ucast (bs ! (i + 1)))
     OR push_bit 16 (ucast (bs ! (i + 2))) OR push_bit 24 (ucast (bs ! (i + 3))) :: u32)"

definition default_ioctl_abs :: "'w kernel \<Rightarrow> int \<Rightarrow> nat \<Rightarrow> 'w \<Rightarrow> input_absinfo option \<times> 'w" where
  "default_ioctl_abs k fd axis w =
     (let ((rc, bs), w') = k_ioctl k fd (evreq (0x40 + axis) 24) w; info = filled 24 bs
      in if rc < 0 then (None, w')
         else (Some \<lparr>abs_value = le_s32 info 0, abs_minimum = le_s32 info 4, abs_maximum = le_s32 info 8,
                 abs_fuzz = le_s32 info 12, abs_flat = le_s32 info 16, abs_resolution = le_s32 info 20\<rparr>, w'))"

definition cart_input_default_ops :: "'w kernel \<Rightarrow> 'w cart_input_ops" where
  "cart_input_default_ops k =
     \<lparr>op_open = Ptr (default_open k), op_close = Ptr (default_close k), op_read = Ptr (default_read k),
      op_ioctl_name = Ptr (default_ioctl_name k), op_ioctl_key_state = Ptr (default_ioctl_key_state k),
      op_ioctl_bit = Ptr (default_ioctl_bit k), op_ioctl_abs = Ptr (default_ioctl_abs k)\<rparr>"

section \<open>Helpers\<close>

definition bit_test :: "u8 list \<Rightarrow> nat \<Rightarrow> bool option" where
  "bit_test buffer n = do { b \<leftarrow> load buffer (n div 8); Some (bit b (n mod 8)) }"

lemma bit_test_Some [simp]: "n < 8 * length buffer \<Longrightarrow> bit_test buffer n = Some (bit (buffer ! (n div 8)) (n mod 8))"
  by (simp add: bit_test_def less_mult_imp_div_less mult.commute)

definition path_of :: "nat \<Rightarrow> string \<Rightarrow> string \<Rightarrow> string" where
  "path_of out_size base leaf = fit out_size (base @ ''/'' @ leaf)"

text \<open>The contents of a file are what \<open>fopen\<close> and \<open>fread\<close> give; \<open>None\<close> when it cannot be opened, and
  then the caller's buffer keeps what it held.\<close>

definition trim_line :: "string \<Rightarrow> string" where
  "trim_line s = rev (dropWhile (\<lambda>c. c = CHR 0x0A \<or> c = CHR 0x0D) (rev s))"

definition read_trimmed_line :: "(string \<Rightarrow> string option) \<Rightarrow> string \<Rightarrow> nat \<Rightarrow> string option" where
  "read_trimmed_line files path out_size =
     (case files path of None \<Rightarrow> None
      | Some contents \<Rightarrow> if out_size = 0 then None else Some (c_str (trim_line (take (out_size - 1) contents))))"

definition event_node_number :: "string \<Rightarrow> nat option" where
  "event_node_number s =
     (let digits = drop 5 s in
      if take 5 s \<noteq> ''event'' \<or> digits = '''' then None
      else if \<not> list_all isdigit digits then None
      else let number = digits_value digits in
           if number \<ge> 2 ^ 32 \<or> int number > INT32_MAX then None else Some number)"

definition AXIS_CODES :: "nat list" where
  "AXIS_CODES = [0, 1, 3, 4, 2, 5, 16, 17]"

fun find_slot :: "nat \<Rightarrow> nat list \<Rightarrow> nat \<Rightarrow> nat option" where
  "find_slot code [] slot = None"
| "find_slot code (c # cs) slot = (if c = code then Some slot else find_slot code cs (slot + 1))"

definition axis_slot :: "nat \<Rightarrow> nat option" where
  "axis_slot code = find_slot code AXIS_CODES 0"

section \<open>Probing an open node\<close>

definition gamepad_buttons :: "nat list" where
  "gamepad_buttons = [304, 305, 306, 307, 308, 310, 311, 314, 315, 316]"

definition gamepad_sticks :: "nat list" where
  "gamepad_sticks = [0, 1, 3, 4]"

definition count_bits :: "u8 list \<Rightarrow> nat list \<Rightarrow> nat option" where
  "count_bits bits codes = mfold (\<lambda>c n. do { b \<leftarrow> bit_test bits c; Some (n + of_bool b) }) codes 0"

definition probe_is_gamepad :: "'w cart_input_ops \<Rightarrow> int \<Rightarrow> 'w \<Rightarrow> (bool \<times> 'w) option" where
  "probe_is_gamepad ops fd w = do {
     ioctl_bit \<leftarrow> invoke (op_ioctl_bit ops);
     let ((rc, key_bits), w) = ioctl_bit fd 1 BIT_BYTES_KEY w in
     if rc \<noteq> 0 then Some (False, w)
     else let ((rc, abs_bits), w) = ioctl_bit fd 3 BIT_BYTES_ABS w in
     if rc \<noteq> 0 then Some (False, w)
     else do {
       hits \<leftarrow> count_bits key_bits gamepad_buttons;
       stick_axes \<leftarrow> count_bits abs_bits gamepad_sticks;
       Some (hits \<ge> 4 \<and> stick_axes \<ge> 2, w)
     }
   }"

definition probe_is_action_keyboard :: "'w cart_input_ops \<Rightarrow> int \<Rightarrow> 'w \<Rightarrow> (bool \<times> 'w) option" where
  "probe_is_action_keyboard ops fd w = do {
     ioctl_bit \<leftarrow> invoke (op_ioctl_bit ops);
     let ((rc, key_bits), w) = ioctl_bit fd 1 BIT_BYTES_KEY w in
     if rc \<noteq> 0 then Some (False, w)
     else do {
       esc \<leftarrow> bit_test key_bits 1;
       if esc then Some (True, w)
       else do { q \<leftarrow> bit_test key_bits 16; Some (q, w) }
     }
   }"

text \<open>\<open>span\<close> and \<open>flat * 200\<close> are 32-bit signed computations.\<close>

definition suggested_deadzone :: "input_absinfo \<Rightarrow> int option" where
  "suggested_deadzone info =
     (let span = abs_maximum info - abs_minimum info; pct = CART_INPUT_DEFAULT_DEADZONE_PCT in
      if \<not> in_int32 span then None
      else if span > 0 \<and> abs_flat info > 0 then
        if \<not> in_int32 (abs_flat info * 200) then None
        else let suggested = (abs_flat info * 200) sdiv span in
             Some (if suggested > pct \<and> suggested \<le> 50 then suggested else pct)
      else Some pct)"

definition snapshot_slot ::
  "'w cart_input_ops \<Rightarrow> int \<Rightarrow> u8 list \<Rightarrow> nat \<Rightarrow> cart_input_source \<times> 'w \<Rightarrow> (cart_input_source \<times> 'w) option" where
  "snapshot_slot ops fd abs_bits slot s = (case s of (src, w) \<Rightarrow> do {
     present \<leftarrow> bit_test abs_bits (AXIS_CODES ! slot);
     if \<not> present then Some (src\<lparr>src_axis_valid := (src_axis_valid src)[slot := False]\<rparr>, w)
     else do {
       ioctl_abs \<leftarrow> invoke (op_ioctl_abs ops);
       let (answer, w) = ioctl_abs fd (AXIS_CODES ! slot) w in
       (case answer of None \<Rightarrow> Some (src\<lparr>src_axis_valid := (src_axis_valid src)[slot := False]\<rparr>, w)
        | Some info \<Rightarrow> do {
            pct \<leftarrow> suggested_deadzone info;
            Some (src\<lparr>src_axis := (src_axis src)[slot := \<lparr>rmin = abs_minimum info, rmax = abs_maximum info,
                       deadzone_pct = pct\<rparr>],
                     src_axis_valid := (src_axis_valid src)[slot := True],
                     src_last_raw := (src_last_raw src)[slot := abs_value info]\<rparr>, w)
          })
     }
   })"

definition probe_snapshot_axes ::
  "cart_input_source \<Rightarrow> 'w cart_input_ops \<Rightarrow> int \<Rightarrow> 'w \<Rightarrow> (cart_input_source \<times> 'w) option" where
  "probe_snapshot_axes source ops fd w = do {
     let source = source\<lparr>src_held_keys := 0, src_last_raw := replicate CART_INPUT_AXIS_COUNT 0\<rparr>;
     ioctl_bit \<leftarrow> invoke (op_ioctl_bit ops);
     let ((rc, abs_bits), w) = ioctl_bit fd 3 BIT_BYTES_ABS w in
     if rc \<noteq> 0 then Some (source\<lparr>src_axis_valid := replicate CART_INPUT_AXIS_COUNT False\<rparr>, w)
     else mfold (snapshot_slot ops fd abs_bits) [0..<CART_INPUT_AXIS_COUNT] (source, w)
   }"

text \<open>The rank is 0 for a node that is not admitted.\<close>

definition classify_source ::
  "cart_input_source \<Rightarrow> 'w cart_input_ops \<Rightarrow> int \<Rightarrow> int \<Rightarrow> 'w \<Rightarrow> (int \<times> cart_input_source \<times> 'w) option" where
  "classify_source scratch ops fd sysfs_rank w = do {
     ioctl_name \<leftarrow> invoke (op_ioctl_name ops);
     let ((got, name), w) = ioctl_name fd CART_INPUT_NAME_MAX w in
     if got \<le> 0 then Some (0, scratch, w)
     else do {
       let scratch = scratch\<lparr>src_name := fit CART_INPUT_NAME_MAX name\<rparr>;
       (gamepad, w) \<leftarrow> probe_is_gamepad ops fd w;
       (probed, w) \<leftarrow> (if gamepad then Some (2, w)
                         else do { (kb, w) \<leftarrow> probe_is_action_keyboard ops fd w; Some (if kb then 1 else 0, w) });
       if probed = (0 :: int) then Some (0, scratch, w)
       else do {
         (scratch, w) \<leftarrow> probe_snapshot_axes scratch ops fd w;
         Some (if sysfs_rank > probed then sysfs_rank else probed, scratch, w)
       }
     }
   }"

section \<open>Ordering of the candidates\<close>

text \<open>The insertion of \<open>candidates[j]\<close> into the prefix before it: the loop shifts an element up while it
  should come after \<open>key\<close>.\<close>

definition goes_after :: "cart_input_candidate \<Rightarrow> cart_input_candidate \<Rightarrow> bool" where
  "goes_after c key \<longleftrightarrow> cand_rank c < cand_rank key
     \<or> (cand_rank c = cand_rank key \<and> cand_number c > cand_number key)"

fun plan_shift :: "cart_input_candidate list \<Rightarrow> cart_input_candidate \<Rightarrow> nat \<Rightarrow> cart_input_candidate list" where
  "plan_shift cs key 0 = cs[0 := key]"
| "plan_shift cs key (Suc j) =
     (if goes_after (cs ! j) key then plan_shift (cs[Suc j := cs ! j]) key j else cs[Suc j := key])"

definition plan_order :: "cart_input_candidate list \<Rightarrow> nat \<Rightarrow> cart_input_candidate list" where
  "plan_order cs cnt = fold (\<lambda>i cs. plan_shift cs (cs ! i) i) [1..<cnt] cs"

definition cart_input_plan :: "cart_input_candidate list \<Rightarrow> nat \<Rightarrow> int \<times> cart_input_candidate list" where
  "cart_input_plan cs cnt = (int (if cnt > CANDIDATE_CAP then CANDIDATE_CAP else cnt), plan_order cs cnt)"

section \<open>The contract of an operations table\<close>

text \<open>What the probing code relies on: every operation is there, and an operation that reports success
  has filled the whole buffer.\<close>

locale input_ops =
  fixes ops :: "'w cart_input_ops"
  assumes all_set: "op_open ops \<noteq> NULL" "op_close ops \<noteq> NULL" "op_read ops \<noteq> NULL"
      "op_ioctl_name ops \<noteq> NULL" "op_ioctl_key_state ops \<noteq> NULL" "op_ioctl_bit ops \<noteq> NULL"
      "op_ioctl_abs ops \<noteq> NULL"
    and bits_full: "op_ioctl_bit ops = Ptr f \<Longrightarrow> f fd ty n w = ((0, bits), w') \<Longrightarrow> length bits = n"
    and keys_full: "op_ioctl_key_state ops = Ptr g \<Longrightarrow> g fd n w = ((got, keys), w') \<Longrightarrow> 0 \<le> got \<Longrightarrow> length keys = n"
begin

lemma ops_functions:
  obtains f_open f_close f_read f_name f_keys f_bit f_abs where
    "op_open ops = Ptr f_open" "op_close ops = Ptr f_close" "op_read ops = Ptr f_read"
    "op_ioctl_name ops = Ptr f_name" "op_ioctl_key_state ops = Ptr f_keys" "op_ioctl_bit ops = Ptr f_bit"
    "op_ioctl_abs ops = Ptr f_abs"
  using all_set by (metis ptr.exhaust)

end

interpretation default: input_ops "cart_input_default_ops k" for k
  by unfold_locales
    (auto simp: cart_input_default_ops_def default_ioctl_bit_def default_ioctl_key_state_def Let_def
      split: prod.splits if_splits)

text \<open>Calibration data for which no computation of the driver overflows.\<close>

definition calibrated :: "input_absinfo \<Rightarrow> bool" where
  "calibrated info \<longleftrightarrow> in_int32 (abs_maximum info - abs_minimum info) \<and> in_int32 (abs_flat info * 200)"

definition calibrated_ops :: "'w cart_input_ops \<Rightarrow> bool" where
  "calibrated_ops ops \<longleftrightarrow>
     (\<forall>f fd code w info w'. op_ioctl_abs ops = Ptr f \<longrightarrow> f fd code w = (Some info, w') \<longrightarrow> calibrated info)"

definition wf_source :: "cart_input_source \<Rightarrow> bool" where
  "wf_source s \<longleftrightarrow> length (src_axis s) = CART_INPUT_AXIS_COUNT \<and> length (src_axis_valid s) = CART_INPUT_AXIS_COUNT
     \<and> length (src_last_raw s) = CART_INPUT_AXIS_COUNT
     \<and> (\<forall>slot < CART_INPUT_AXIS_COUNT. src_axis_valid s ! slot \<longrightarrow>
          in_int32 (rmax (src_axis s ! slot) - rmin (src_axis s ! slot))
          \<and> 15 \<le> deadzone_pct (src_axis s ! slot) \<and> deadzone_pct (src_axis s ! slot) \<le> 50)"

definition same_identity :: "cart_input_source \<Rightarrow> cart_input_source \<Rightarrow> bool" where
  "same_identity s t \<longleftrightarrow> src_fd t = src_fd s \<and> src_rank t = src_rank s \<and> src_state t = src_state s
     \<and> src_generation t = src_generation s \<and> src_node t = src_node s"

lemma suggested_deadzone_range:
  assumes "calibrated info"
  shows "\<exists>p. suggested_deadzone info = Some p \<and> 15 \<le> p \<and> p \<le> 50"
  using assms by (auto simp: suggested_deadzone_def calibrated_def Let_def)

lemma AXIS_CODES_bound: "slot < CART_INPUT_AXIS_COUNT \<Longrightarrow> AXIS_CODES ! slot < 64"
  by (simp add: AXIS_CODES_def nth_Cons' split: if_splits)

lemma count_bits_total:
  assumes "\<And>c. c \<in> set codes \<Longrightarrow> c < 8 * length bits"
  shows "count_bits bits codes = Some (length (filter (\<lambda>c. bit (bits ! (c div 8)) (c mod 8)) codes))"
proof -
  have "mfold (\<lambda>c n. do { b \<leftarrow> bit_test bits c; Some (n + of_bool b) }) codes m
      = Some (m + length (filter (\<lambda>c. bit (bits ! (c div 8)) (c mod 8)) codes))" for m
    using assms by (induction codes arbitrary: m) auto
  then show ?thesis by (simp add: count_bits_def)
qed

context input_ops
begin

lemma probe_is_gamepad_total: "\<exists>b w'. probe_is_gamepad ops fd w = Some (b, w')"
proof -
  obtain f where f: "op_ioctl_bit ops = Ptr f" using all_set by (metis ptr.exhaust)
  obtain rc1 k w1 where 1: "f fd 1 BIT_BYTES_KEY w = ((rc1, k), w1)" by (metis prod.exhaust)
  obtain rc2 a w2 where 2: "f fd 3 BIT_BYTES_ABS w1 = ((rc2, a), w2)" by (metis prod.exhaust)
  have "\<exists>n. count_bits k gamepad_buttons = Some n" if "rc1 = 0"
    using bits_full[OF f, of fd 1 BIT_BYTES_KEY w k w1] 1 that
    by (subst count_bits_total) (auto simp: gamepad_buttons_def)
  moreover have "\<exists>n. count_bits a gamepad_sticks = Some n" if "rc2 = 0"
    using bits_full[OF f, of fd 3 BIT_BYTES_ABS w1 a w2] 2 that
    by (subst count_bits_total) (auto simp: gamepad_sticks_def)
  ultimately show ?thesis by (cases "rc1 = 0"; cases "rc2 = 0") (auto simp: probe_is_gamepad_def f 1 2 simp del: One_nat_def)
qed

lemma probe_is_action_keyboard_total: "\<exists>b w'. probe_is_action_keyboard ops fd w = Some (b, w')"
proof -
  obtain f where f: "op_ioctl_bit ops = Ptr f" using all_set by (metis ptr.exhaust)
  obtain rc k w1 where 1: "f fd 1 BIT_BYTES_KEY w = ((rc, k), w1)" by (metis prod.exhaust)
  show ?thesis
    using bits_full[OF f, of fd 1 BIT_BYTES_KEY w k w1] 1 by (auto simp: probe_is_action_keyboard_def f simp del: One_nat_def)
qed

lemma snapshot_slot_wf:
  assumes "calibrated_ops ops" "slot < CART_INPUT_AXIS_COUNT" "length bits = BIT_BYTES_ABS" "wf_source s"
  shows "\<exists>t w'. snapshot_slot ops fd bits slot (s, w) = Some (t, w') \<and> wf_source t \<and> same_identity s t"
proof -
  obtain f where f: "op_ioctl_abs ops = Ptr f" using all_set by (metis ptr.exhaust)
  obtain answer w1 where 1: "f fd (AXIS_CODES ! slot) w = (answer, w1)" by (metis prod.exhaust)
  have bit: "bit_test bits (AXIS_CODES ! slot) = Some (bit (bits ! (AXIS_CODES ! slot div 8)) (AXIS_CODES ! slot mod 8))"
    using assms(3) AXIS_CODES_bound[OF assms(2)] by simp
  have off: "wf_source (s\<lparr>src_axis_valid := (src_axis_valid s)[slot := False]\<rparr>)"
    using assms(2,4) by (auto simp: wf_source_def nth_list_update split: if_splits)
  show ?thesis
  proof (cases "bit (bits ! (AXIS_CODES ! slot div 8)) (AXIS_CODES ! slot mod 8) \<and> answer \<noteq> None")
    case True
    then obtain info where info: "answer = Some info" by auto
    have cal: "calibrated info" using assms(1) f 1 info unfolding calibrated_ops_def by blast
    then obtain p where p: "suggested_deadzone info = Some p" "15 \<le> p" "p \<le> 50"
      using suggested_deadzone_range by blast
    show ?thesis using True assms(2,4) p cal
      by (auto simp: snapshot_slot_def bit f 1 info wf_source_def same_identity_def nth_list_update calibrated_def)
  next
    case False
    then show ?thesis using off by (auto simp: snapshot_slot_def bit f 1 same_identity_def)
  qed
qed

lemma probe_snapshot_axes_wf:
  assumes "calibrated_ops ops" "wf_source s"
  shows "\<exists>t w'. probe_snapshot_axes s ops fd w = Some (t, w') \<and> wf_source t \<and> same_identity s t"
proof -
  let ?s = "s\<lparr>src_held_keys := 0, src_last_raw := replicate CART_INPUT_AXIS_COUNT 0\<rparr>"
  obtain f where f: "op_ioctl_bit ops = Ptr f" using all_set by (metis ptr.exhaust)
  obtain rc bits w1 where 1: "f fd 3 BIT_BYTES_ABS w = ((rc, bits), w1)" by (metis prod.exhaust)
  have s: "wf_source ?s" "same_identity s ?s" using assms(2) by (simp_all add: wf_source_def same_identity_def)
  show ?thesis
  proof (cases "rc = 0")
    case False
    then have "probe_snapshot_axes s ops fd w = Some (?s\<lparr>src_axis_valid := replicate CART_INPUT_AXIS_COUNT False\<rparr>, w1)"
      using 1 by (simp add: probe_snapshot_axes_def f)
    then show ?thesis using s by (auto simp: wf_source_def same_identity_def)
  next
    case True
    then have "length bits = BIT_BYTES_ABS" using bits_full[OF f] 1 by blast
    then have "\<exists>t. mfold (snapshot_slot ops fd bits) [0..<CART_INPUT_AXIS_COUNT] (?s, w1) = Some t
        \<and> (\<lambda>(u, _). wf_source u \<and> same_identity s u) t"
      using s by (intro mfold_invariant)
        (use snapshot_slot_wf[OF assms(1)] in \<open>fastforce simp: same_identity_def\<close>)+
    then show ?thesis using True 1 by (auto simp: probe_snapshot_axes_def f)
  qed
qed

lemma classify_source_wf:
  assumes "calibrated_ops ops" "wf_source s"
  shows "\<exists>r t w'. classify_source s ops fd sr w = Some (r, t, w') \<and> wf_source t \<and> same_identity s t"
proof -
  obtain f where f: "op_ioctl_name ops = Ptr f" using all_set by (metis ptr.exhaust)
  obtain got nm w1 where 1: "f fd CART_INPUT_NAME_MAX w = ((got, nm), w1)" by (metis prod.exhaust)
  let ?s = "s\<lparr>src_name := fit CART_INPUT_NAME_MAX nm\<rparr>"
  have s: "wf_source ?s" "\<And>t. same_identity ?s t = same_identity s t" "same_identity s ?s" "same_identity s s"
    using assms(2) by (simp_all add: wf_source_def same_identity_def)
  obtain g w2 where 2: "probe_is_gamepad ops fd w1 = Some (g, w2)" using probe_is_gamepad_total by blast
  obtain kb w3 where 3: "probe_is_action_keyboard ops fd w2 = Some (kb, w3)"
    using probe_is_action_keyboard_total by blast
  let ?w = "if g then w2 else w3"
  obtain t w4 where "probe_snapshot_axes ?s ops fd ?w = Some (t, w4)" "wf_source t" "same_identity ?s t"
    using probe_snapshot_axes_wf[OF assms(1) s(1)] by blast
  then show ?thesis using s assms(2)
    by (cases "got \<le> 0"; cases g; cases kb) (simp_all add: classify_source_def f 1 2 3)
qed

end

section \<open>The ordering is a stable sort\<close>

definition comes_first :: "cart_input_candidate \<Rightarrow> cart_input_candidate \<Rightarrow> bool" where
  "comes_first a b \<longleftrightarrow> cand_rank b < cand_rank a \<or> (cand_rank a = cand_rank b \<and> cand_number a \<le> cand_number b)"

lemma comes_first_trans: "comes_first a b \<Longrightarrow> comes_first b c \<Longrightarrow> comes_first a c"
  by (auto simp: comes_first_def)

lemma goes_after_iff: "goes_after a b \<longleftrightarrow> \<not> comes_first a b"
  by (auto simp: comes_first_def goes_after_def)

lemma comes_first_linear: "\<not> comes_first a b \<Longrightarrow> comes_first b a"
  by (auto simp: comes_first_def)

lemma plan_shift_splits:
  assumes "sorted_wrt comes_first xs"
  shows "plan_shift (xs @ h # zs) key (length xs)
    = filter (\<lambda>c. comes_first c key) xs @ key # filter (\<lambda>c. \<not> comes_first c key) xs @ zs"
  using assms
proof (induction xs arbitrary: h zs rule: rev_induct)
  case Nil
  then show ?case by simp
next
  case (snoc y xs)
  then have xs: "sorted_wrt comes_first xs" "\<forall>x \<in> set xs. comes_first x y" by (auto simp: sorted_wrt_append)
  show ?case
  proof (cases "goes_after y key")
    case True
    then have "\<not> comes_first y key" by (simp add: goes_after_iff)
    then show ?thesis using True snoc.IH[OF xs(1), of y "y # zs"] by (simp add: list_update_append nth_append)
  next
    case False
    then have "\<forall>x \<in> set xs. comes_first x key" using xs(2) comes_first_trans by (auto simp: goes_after_iff)
    then have "filter (\<lambda>c. comes_first c key) xs = xs" "filter (\<lambda>c. \<not> comes_first c key) xs = []"
      by (auto simp: filter_empty_conv)
    then show ?thesis using False by (simp add: list_update_append nth_append goes_after_iff)
  qed
qed

definition same_place :: "cart_input_candidate \<Rightarrow> cart_input_candidate \<Rightarrow> bool" where
  "same_place a b \<longleftrightarrow> cand_rank a = cand_rank b \<and> cand_number a = cand_number b"

lemma same_place_comes_first: "same_place k c \<Longrightarrow> comes_first c x \<longleftrightarrow> comes_first k x"
  by (simp add: same_place_def comes_first_def)

lemma insert_stable:
  "filter (same_place k) (filter (\<lambda>c. comes_first c x) xs @ x # filter (\<lambda>c. \<not> comes_first c x) xs)
   = filter (same_place k) xs @ filter (same_place k) [x]"
proof -
  have "filter (same_place k) (filter (\<lambda>c. comes_first c x) xs) = (if comes_first k x then filter (same_place k) xs else [])"
    "filter (same_place k) (filter (\<lambda>c. \<not> comes_first c x) xs) = (if comes_first k x then [] else filter (same_place k) xs)"
    by (induction xs) (auto simp: same_place_comes_first)
  moreover have "same_place k x \<Longrightarrow> comes_first k x" by (simp add: same_place_def comes_first_def)
  ultimately show ?thesis by (simp del: filter_filter)
qed

lemma insert_sorted:
  assumes "sorted_wrt comes_first xs"
  shows "sorted_wrt comes_first (filter (\<lambda>c. comes_first c x) xs @ x # filter (\<lambda>c. \<not> comes_first c x) xs)"
  using assms by (auto simp: sorted_wrt_append sorted_wrt_filter intro: comes_first_trans comes_first_linear)

lemma plan_order_prefix:
  assumes "n \<le> length cs"
  shows "\<exists>ps. plan_order cs n = ps @ drop n cs \<and> length ps = n \<and> mset ps = mset (take n cs)
    \<and> sorted_wrt comes_first ps \<and> (\<forall>k. filter (same_place k) ps = filter (same_place k) (take n cs))"
  using assms
proof (induction n)
  case 0
  then show ?case by (auto simp: plan_order_def)
next
  case (Suc n)
  then obtain ps where ps: "plan_order cs n = ps @ drop n cs" "length ps = n" "mset ps = mset (take n cs)"
      "sorted_wrt comes_first ps" "\<forall>k. filter (same_place k) ps = filter (same_place k) (take n cs)" by auto
  define x where "x = cs ! n"
  have tk: "take (Suc n) cs = take n cs @ [x]" and dr: "drop n cs = x # drop (Suc n) cs"
    using Suc.prems by (simp_all add: x_def take_Suc_conv_app_nth Cons_nth_drop_Suc)
  let ?qs = "filter (\<lambda>c. comes_first c x) ps @ x # filter (\<lambda>c. \<not> comes_first c x) ps"
  have "plan_order cs (Suc n) = plan_shift (plan_order cs n) (plan_order cs n ! n) n"
  proof (cases n)
    case 0
    then show ?thesis using Suc.prems by (cases cs) (simp_all add: plan_order_def)
  qed (simp add: plan_order_def)
  also have "\<dots> = plan_shift (ps @ x # drop (Suc n) cs) x (length ps)" using ps(1,2) dr by (simp add: nth_append)
  also have "\<dots> = ?qs @ drop (Suc n) cs" using plan_shift_splits[OF ps(4)] by simp
  finally have eq: "plan_order cs (Suc n) = ?qs @ drop (Suc n) cs" .
  have ms: "mset ?qs = mset (take (Suc n) cs)"
  proof -
    have "mset ?qs = filter_mset (\<lambda>c. comes_first c x) (mset ps) + filter_mset (\<lambda>c. \<not> comes_first c x) (mset ps) + {#x#}"
      by simp
    also have "\<dots> = mset ps + {#x#}" by (simp only: multiset_partition[symmetric])
    finally show ?thesis using ps(3) tk by simp
  qed
  have len: "length ?qs = Suc n" using mset_eq_length[OF ms] Suc.prems by simp
  have st: "\<forall>k. filter (same_place k) ?qs = filter (same_place k) (take (Suc n) cs)"
    unfolding insert_stable unfolding tk filter_append using ps(5) by simp
  show ?case using eq ms len insert_sorted[OF ps(4)] st by blast
qed

section \<open>Properties\<close>

text \<open>C38. Candidate ordering.  The in-place insertion sort of the candidates is a stable sort: the
  result is a permutation of the candidates, ordered by falling rank and then by rising node number,
  and candidates that agree in both keep the order in which the directory listed them.\<close>

theorem plan_is_stable_sort:
  assumes "cart_input_plan cs (length cs) = (n, ps)"
  shows "mset ps = mset cs \<and> sorted_wrt comes_first ps
    \<and> (\<forall>k. filter (same_place k) ps = filter (same_place k) cs) \<and> n = int (min CANDIDATE_CAP (length cs))"
  using plan_order_prefix[of "length cs" cs] assms by (auto simp: cart_input_plan_def)

text \<open>What may be opened.  Every node name that discovery accepts is \<open>event\<close> followed by decimal
  digits whose value fits in an \<open>int\<close>, every such name is accepted, and the name that the kernel prints
  for a number is read back as that number.\<close>

theorem event_node_number_iff:
  "(event_node_number s = Some n \<longleftrightarrow>
      (\<exists>d. s = ''event'' @ d \<and> d \<noteq> '''' \<and> list_all isdigit d \<and> digits_value d = n \<and> int n \<le> INT32_MAX))
   \<and> (int m \<le> INT32_MAX \<longrightarrow> event_node_number (''event'' @ show_nat m) = Some m)"
proof -
  have "event_node_number s = Some n \<longleftrightarrow>
      (\<exists>d. s = ''event'' @ d \<and> d \<noteq> '''' \<and> list_all isdigit d \<and> digits_value d = n \<and> int n \<le> INT32_MAX)"
  proof
    assume ok: "event_node_number s = Some n"
    then have "take 5 s = ''event''" by (auto simp: event_node_number_def Let_def split: if_splits)
    then have "s = ''event'' @ drop 5 s" by (metis append_take_drop_id)
    then show "\<exists>d. s = ''event'' @ d \<and> d \<noteq> '''' \<and> list_all isdigit d \<and> digits_value d = n \<and> int n \<le> INT32_MAX"
      using ok by (intro exI[of _ "drop 5 s"]) (auto simp: event_node_number_def Let_def simp del: append_Cons split: if_splits)
  qed (auto simp: event_node_number_def Let_def)
  then show ?thesis using show_nat_digits[of m] by (auto simp: event_node_number_def Let_def)
qed

definition demo_candidate :: "int \<Rightarrow> nat \<Rightarrow> cart_input_candidate" where
  "demo_candidate r n = \<lparr>cand_fd = int n, cand_rank = r, cand_number = n, cand_node = ''event'' @ show_nat n,
     cand_prepared = \<lparr>src_fd = - 1, src_rank = 0, src_state = CART_INPUT_ABSENT, src_generation = 0,
       src_node = '''', src_name = '''', src_held_keys = 0, src_axis = [], src_axis_valid = [], src_last_raw = []\<rparr>\<rparr>"

theorem plan_is_stable_sort_witness:
  "sorted_wrt comes_first (snd (cart_input_plan [demo_candidate 1 3, demo_candidate 4 7, demo_candidate 1 2] 3))
   \<and> map cand_number (snd (cart_input_plan [demo_candidate 1 3, demo_candidate 4 7, demo_candidate 1 2] 3)) = [7, 2, 3]"
proof
  let ?cs = "[demo_candidate 1 3, demo_candidate 4 7, demo_candidate 1 2]"
  have 3: "length ?cs = 3" by simp
  show "sorted_wrt comes_first (snd (cart_input_plan ?cs 3))"
    using plan_is_stable_sort[of ?cs "fst (cart_input_plan ?cs 3)" "snd (cart_input_plan ?cs 3)"] unfolding 3 by simp
  show "map cand_number (snd (cart_input_plan ?cs 3)) = [7, 2, 3]" by code_simp
qed

theorem event_node_number_iff_witness: "event_node_number ''event12'' = Some 12"
proof -
  have "show_nat 12 = ''12''" by code_simp
  moreover have "int 12 \<le> INT32_MAX \<longrightarrow> event_node_number (''event'' @ show_nat 12) = Some 12"
    using event_node_number_iff by blast
  ultimately show ?thesis by simp
qed

end
