(* ===== verification/Input_Discovery.thy ===== *)
theory Input_Discovery
  imports Input_Device
begin

text \<open>
  Discovery and lifecycle of the input layer (\<open>cart/src/input_evdev.c\<close>): the state
  \<open>struct cart_input\<close>, the scan of the event nodes, the claiming of the slots, \<open>init\<close>, \<open>rescan\<close>
  and \<open>shutdown\<close>, with the theorem that no descriptor is lost or closed twice.  The directory listing
  and the files of sysfs are a parameter that stands still during one pass.
\<close>

section \<open>State\<close>

text \<open>The counter and the lengths stay far below the range of their types (\<open>wf_input\<close>), so they are
  natural numbers.\<close>

record 'w cart_input =
  in_ops :: "'w cart_input_ops ptr"
  sources :: "cart_input_source list"
  pending_count :: nat
  pending_item :: "u8 list"
  partial_buf :: "u8 list list"
  partial_len :: "nat list"

record sysfs =
  list_dir :: "string \<Rightarrow> errno + string list"
  file_contents :: "string \<Rightarrow> string option"

definition VITA_BUTTONS_NAME :: string where "VITA_BUTTONS_NAME = ''PlayStation Vita Buttons (Syscon)''"
definition VITA_BUTTONS_PHYS :: string where "VITA_BUTTONS_PHYS = ''vita_syscon_buttons''"

definition zero_source :: cart_input_source where
  "zero_source = \<lparr>src_fd = 0, src_rank = 0, src_state = CART_INPUT_ABSENT, src_generation = 0, src_node = '''',
     src_name = '''', src_held_keys = 0,
     src_axis = replicate CART_INPUT_AXIS_COUNT \<lparr>rmin = 0, rmax = 0, deadzone_pct = 0\<rparr>,
     src_axis_valid = replicate CART_INPUT_AXIS_COUNT False, src_last_raw = replicate CART_INPUT_AXIS_COUNT 0\<rparr>"

definition reset_source :: cart_input_source where
  "reset_source = zero_source\<lparr>src_fd := - 1, src_state := CART_INPUT_ABSENT\<rparr>"

section \<open>One pass of discovery\<close>

definition slot_empty :: "'w cart_input \<Rightarrow> nat \<Rightarrow> bool" where
  "slot_empty inp i \<longleftrightarrow> src_fd (sources inp ! i) < 0"

fun scan_slots :: "'w cart_input \<Rightarrow> nat list \<Rightarrow> nat option" where
  "scan_slots inp [] = None"
| "scan_slots inp (i # is) = (if slot_empty inp i then Some i else scan_slots inp is)"

definition first_free_slot :: "'w cart_input \<Rightarrow> nat option" where
  "first_free_slot inp = scan_slots inp [0..<CART_INPUT_MAX_SOURCES]"

text \<open>The rank that the metadata files give.  \<open>name_line\<close> is not initialised, so comparing it after
  a failed read is undefined; \<open>phys_line\<close> is.\<close>

definition sysfs_rank_of :: "sysfs \<Rightarrow> string \<Rightarrow> int option" where
  "sysfs_rank_of env sys_dir =
     (let phys_line = (case read_trimmed_line (file_contents env) (path_of 768 sys_dir ''device/phys'') 128 of
          None \<Rightarrow> '''' | Some s \<Rightarrow> s);
          rank = (if phys_line = VITA_BUTTONS_PHYS then 4 else 0);
          name_line = read_trimmed_line (file_contents env) (path_of 768 sys_dir ''device/name'') CART_INPUT_NAME_MAX
      in if rank = 0 then
           (case name_line of None \<Rightarrow> None | Some s \<Rightarrow> Some (if s = VITA_BUTTONS_NAME then 3 else 0))
         else Some rank)"

definition OPEN_FLAGS :: u32 where "OPEN_FLAGS = 0x80800"

definition examine_entry ::
  "sysfs \<Rightarrow> 'w cart_input_ops \<Rightarrow> string \<Rightarrow> string \<Rightarrow> string
     \<Rightarrow> cart_input_candidate list \<times> 'w \<Rightarrow> (cart_input_candidate list \<times> 'w) option" where
  "examine_entry env ops sys_class_input dev_input d_name s = (case s of (candidates, w) \<Rightarrow>
     (case event_node_number d_name of None \<Rightarrow> Some (candidates, w)
      | Some number \<Rightarrow>
        if length d_name \<ge> CART_INPUT_NODE_MAX then Some (candidates, w)
        else do {
          sysfs_rank \<leftarrow> sysfs_rank_of env (path_of 512 sys_class_input d_name);
          open_op \<leftarrow> invoke (op_open ops);
          let (pre_opened, w) = open_op (path_of 640 dev_input d_name) OPEN_FLAGS w in
          if pre_opened < 0 then Some (candidates, w)
          else do {
            let scratch = zero_source\<lparr>src_fd := - 1, src_node := d_name\<rparr>;
            (classified, scratch, w) \<leftarrow> classify_source scratch ops pre_opened sysfs_rank w;
            if classified = 0 then do {
              close_op \<leftarrow> invoke (op_close ops);
              let (_, w) = close_op pre_opened w in Some (candidates, w)
            }
            else Some (candidates @ [\<lparr>cand_fd = pre_opened,
                   cand_rank = (if sysfs_rank > classified then sysfs_rank else classified),
                   cand_number = number, cand_node = d_name, cand_prepared = scratch\<rparr>], w)
          }
        }))"

fun scan_entries ::
  "sysfs \<Rightarrow> 'w cart_input_ops \<Rightarrow> string \<Rightarrow> string \<Rightarrow> string list
     \<Rightarrow> cart_input_candidate list \<times> 'w \<Rightarrow> (cart_input_candidate list \<times> 'w) option" where
  "scan_entries env ops sys dev [] s = Some s"
| "scan_entries env ops sys dev (e # es) s =
     (if length (fst s) < CANDIDATE_CAP then do {
        s \<leftarrow> examine_entry env ops sys dev e s;
        scan_entries env ops sys dev es s
      } else Some s)"

definition claim_candidate ::
  "'w cart_input_ops \<Rightarrow> cart_input_candidate \<Rightarrow> 'w cart_input \<times> 'w \<times> nat
     \<Rightarrow> (cart_input_candidate \<times> 'w cart_input \<times> 'w \<times> nat) option" where
  "claim_candidate ops c s = (case s of (inp, w, claimed) \<Rightarrow>
     (case first_free_slot inp of
        None \<Rightarrow> do {
          close_op \<leftarrow> invoke (op_close ops);
          let (_, w) = close_op (cand_fd c) w in
          Some (c\<lparr>cand_fd := - 1\<rparr>, inp, w, claimed)
        }
      | Some slot \<Rightarrow>
          let target = (cand_prepared c)\<lparr>src_fd := cand_fd c, src_state := CART_INPUT_CONNECTED,
                         src_generation := src_generation (cand_prepared c) + 1\<rparr>
          in Some (c\<lparr>cand_fd := - 1\<rparr>, inp\<lparr>sources := (sources inp)[slot := target]\<rparr>, w, claimed + 1)))"

fun claim_candidates ::
  "'w cart_input_ops \<Rightarrow> cart_input_candidate list \<Rightarrow> 'w cart_input \<times> 'w \<times> nat
     \<Rightarrow> (cart_input_candidate list \<times> 'w cart_input \<times> 'w \<times> nat) option" where
  "claim_candidates ops [] s = Some ([], s)"
| "claim_candidates ops (c # cs) s = do {
     (c, s) \<leftarrow> claim_candidate ops c s;
     (cs, s) \<leftarrow> claim_candidates ops cs s;
     Some (c # cs, s)
   }"

text \<open>The last loop of the pass closes candidates that still own a descriptor.\<close>

fun release_candidates ::
  "'w cart_input_ops \<Rightarrow> 'w cart_input \<Rightarrow> cart_input_candidate list \<Rightarrow> 'w \<Rightarrow> 'w option" where
  "release_candidates ops inp [] w = Some w"
| "release_candidates ops inp (c # cs) w =
     (if cand_fd c < 0 then release_candidates ops inp cs w
      else if list_ex (\<lambda>s. src_fd s = cand_fd c) (sources inp) then release_candidates ops inp cs w
      else do {
        close_op \<leftarrow> invoke (op_close ops);
        let (_, w) = close_op (cand_fd c) w in release_candidates ops inp cs w
      })"

definition discover_pass ::
  "sysfs \<Rightarrow> 'w cart_input \<Rightarrow> 'w cart_input_ops \<Rightarrow> string \<Rightarrow> string \<Rightarrow> 'w \<Rightarrow> (int \<times> 'w cart_input \<times> 'w) option" where
  "discover_pass env inp ops sys_class_input dev_input w =
     (case list_dir env sys_class_input of
        Inl e \<Rightarrow> Some (if e = ENOENT then 0 else - 1, inp, w)
      | Inr entries \<Rightarrow> do {
          (candidates, w) \<leftarrow> scan_entries env ops sys_class_input dev_input entries ([], w);
          let (_, candidates) = cart_input_plan candidates (length candidates);
          (candidates, inp, w, claimed) \<leftarrow> claim_candidates ops candidates (inp, w, 0);
          w \<leftarrow> release_candidates ops inp candidates w;
          Some (int claimed, inp, w)
        })"

section \<open>Lifecycle\<close>

definition zero_input :: "'w cart_input_ops ptr \<Rightarrow> 'w cart_input" where
  "zero_input ops = \<lparr>in_ops = ops, sources = replicate CART_INPUT_MAX_SOURCES reset_source, pending_count = 0,
     pending_item = replicate (2 * CART_INPUT_MAX_SOURCES) 0,
     partial_buf = replicate CART_INPUT_MAX_SOURCES (replicate 256 0),
     partial_len = replicate CART_INPUT_MAX_SOURCES 0\<rparr>"

definition cart_input_init_ex ::
  "sysfs \<Rightarrow> 'w cart_input ptr \<Rightarrow> 'w cart_input_ops ptr \<Rightarrow> string ptr \<Rightarrow> string ptr \<Rightarrow> 'w
     \<Rightarrow> (int \<times> 'w cart_input ptr \<times> 'w) option" where
  "cart_input_init_ex env input ops sys_class_input dev_input w =
     (if input = NULL \<or> ops = NULL \<or> sys_class_input = NULL \<or> dev_input = NULL
         \<or> op_open (deref ops) = NULL \<or> op_close (deref ops) = NULL \<or> op_read (deref ops) = NULL
         \<or> op_ioctl_name (deref ops) = NULL \<or> op_ioctl_key_state (deref ops) = NULL
         \<or> op_ioctl_bit (deref ops) = NULL \<or> op_ioctl_abs (deref ops) = NULL
      then Some (- 1, input, w)
      else do {
        (rc, inp, w) \<leftarrow> discover_pass env (zero_input ops) (deref ops) (deref sys_class_input) (deref dev_input) w;
        Some (rc, Ptr inp, w)
      })"

definition cart_input_init ::
  "'w kernel \<Rightarrow> sysfs \<Rightarrow> 'w cart_input ptr \<Rightarrow> string ptr \<Rightarrow> string ptr \<Rightarrow> 'w
     \<Rightarrow> (int \<times> 'w cart_input ptr \<times> 'w) option" where
  "cart_input_init k env input sys_class_input dev_input w =
     (if input = NULL then Some (- 1, input, w)
      else cart_input_init_ex env input (Ptr (cart_input_default_ops k)) sys_class_input dev_input w)"

definition cart_input_rescan ::
  "'w kernel \<Rightarrow> sysfs \<Rightarrow> 'w cart_input ptr \<Rightarrow> string ptr \<Rightarrow> string ptr \<Rightarrow> 'w
     \<Rightarrow> (int \<times> 'w cart_input ptr \<times> 'w) option" where
  "cart_input_rescan k env input sys_class_input dev_input w =
     (if input = NULL \<or> sys_class_input = NULL \<or> dev_input = NULL then Some (- 1, input, w)
      else do {
        let inp = deref input;
        let inp = (if in_ops inp = NULL then inp\<lparr>in_ops := Ptr (cart_input_default_ops k)\<rparr> else inp);
        (rc, inp, w) \<leftarrow> discover_pass env inp (deref (in_ops inp)) (deref sys_class_input) (deref dev_input) w;
        Some (rc, Ptr inp, w)
      })"

definition shutdown_slot :: "nat \<Rightarrow> 'w cart_input \<times> 'w \<Rightarrow> ('w cart_input \<times> 'w) option" where
  "shutdown_slot i s = (case s of (inp, w) \<Rightarrow> do {
     source \<leftarrow> load (sources inp) i;
     w \<leftarrow> (if src_fd source \<ge> 0 then
              (case in_ops inp of NULL \<Rightarrow> None
               | Ptr ops \<Rightarrow> do { close_op \<leftarrow> invoke (op_close ops); Some (snd (close_op (src_fd source) w)) })
            else Some w);
     Some (inp\<lparr>sources := (sources inp)[i := reset_source]\<rparr>, w)
   })"

definition cart_input_shutdown :: "'w cart_input ptr \<Rightarrow> 'w \<Rightarrow> ('w cart_input ptr \<times> 'w) option" where
  "cart_input_shutdown input w = (case input of NULL \<Rightarrow> Some (NULL, w) | Ptr inp \<Rightarrow> do {
     (inp, w) \<leftarrow> mfold shutdown_slot [0..<CART_INPUT_MAX_SOURCES] (inp, w);
     Some (Ptr (inp\<lparr>pending_count := 0, partial_len := replicate CART_INPUT_MAX_SOURCES 0\<rparr>), w)
   })"

section \<open>Observing the outside world\<close>

text \<open>An observation of the world that queries (\<open>ioctl\<close>) leave alone.\<close>

definition queries_keep :: "('w \<Rightarrow> 'a) \<Rightarrow> 'w cart_input_ops \<Rightarrow> bool" where
  "queries_keep \<phi> ops \<longleftrightarrow>
     (\<forall>f fd n w. op_ioctl_name ops = Ptr f \<longrightarrow> \<phi> (snd (f fd n w)) = \<phi> w)
     \<and> (\<forall>f fd n w. op_ioctl_key_state ops = Ptr f \<longrightarrow> \<phi> (snd (f fd n w)) = \<phi> w)
     \<and> (\<forall>f fd ty n w. op_ioctl_bit ops = Ptr f \<longrightarrow> \<phi> (snd (f fd ty n w)) = \<phi> w)
     \<and> (\<forall>f fd code w. op_ioctl_abs ops = Ptr f \<longrightarrow> \<phi> (snd (f fd code w)) = \<phi> w)"

lemma queries_keepD:
  assumes "queries_keep \<phi> ops"
  shows "op_ioctl_name ops = Ptr f1 \<Longrightarrow> f1 fd n w = (r1, w') \<Longrightarrow> \<phi> w' = \<phi> w"
    "op_ioctl_key_state ops = Ptr f2 \<Longrightarrow> f2 fd n w = (r2, w') \<Longrightarrow> \<phi> w' = \<phi> w"
    "op_ioctl_bit ops = Ptr f3 \<Longrightarrow> f3 fd ty n w = (r3, w') \<Longrightarrow> \<phi> w' = \<phi> w"
    "op_ioctl_abs ops = Ptr f4 \<Longrightarrow> f4 fd n w = (r4, w') \<Longrightarrow> \<phi> w' = \<phi> w"
  using assms unfolding queries_keep_def by (metis snd_conv)+

lemma probe_is_gamepad_keeps:
  assumes "queries_keep \<phi> ops" "probe_is_gamepad ops fd w = Some (b, w')"
  shows "\<phi> w' = \<phi> w"
  using assms(2) queries_keepD(3)[OF assms(1)]
  by (auto simp: probe_is_gamepad_def bind_eq_Some_conv invoke_def Let_def split: ptr.splits prod.splits if_splits)

lemma probe_is_action_keyboard_keeps:
  assumes "queries_keep \<phi> ops" "probe_is_action_keyboard ops fd w = Some (b, w')"
  shows "\<phi> w' = \<phi> w"
  using assms(2) queries_keepD(3)[OF assms(1)]
  by (auto simp: probe_is_action_keyboard_def bind_eq_Some_conv invoke_def Let_def
      split: ptr.splits prod.splits if_splits)

lemma snapshot_slot_keeps:
  assumes "queries_keep \<phi> ops" "snapshot_slot ops fd bits slot (s, w) = Some (t, w')"
  shows "\<phi> w' = \<phi> w"
  using assms(2) queries_keepD(4)[OF assms(1)]
  by (auto simp: snapshot_slot_def bind_eq_Some_conv invoke_def Let_def
      split: ptr.splits prod.splits if_splits option.splits)

lemma snapshot_slots_keep:
  assumes "queries_keep \<phi> ops" "mfold (snapshot_slot ops fd bits) slots (s, w) = Some (t, w')"
  shows "\<phi> w' = \<phi> w"
  using assms(2)
proof (induction slots arbitrary: s w)
  case (Cons slot slots)
  then obtain s1 w1 where "snapshot_slot ops fd bits slot (s, w) = Some (s1, w1)"
      "mfold (snapshot_slot ops fd bits) slots (s1, w1) = Some (t, w')"
    by (auto split: option.splits)
  then show ?case using Cons.IH snapshot_slot_keeps[OF assms(1)] by metis
qed simp

lemma probe_snapshot_axes_keeps:
  assumes "queries_keep \<phi> ops" "probe_snapshot_axes s ops fd w = Some (t, w')"
  shows "\<phi> w' = \<phi> w"
proof -
  obtain f where f: "op_ioctl_bit ops = Ptr f"
    using assms(2) by (auto simp: probe_snapshot_axes_def bind_eq_Some_conv invoke_def split: ptr.splits)
  obtain rc bits w1 where 1: "f fd 3 BIT_BYTES_ABS w = ((rc, bits), w1)" by (metis prod.exhaust)
  have "\<phi> w1 = \<phi> w" using queries_keepD(3)[OF assms(1) f 1] .
  then show ?thesis using assms(2) 1 snapshot_slots_keep[OF assms(1)]
    by (auto simp: probe_snapshot_axes_def f Let_def split: if_splits)
qed

lemma classify_source_keeps:
  assumes "queries_keep \<phi> ops" "classify_source s ops fd sr w = Some (r, t, w')"
  shows "\<phi> w' = \<phi> w"
proof -
  obtain f where f: "op_ioctl_name ops = Ptr f"
    using assms(2) by (auto simp: classify_source_def bind_eq_Some_conv invoke_def split: ptr.splits)
  obtain got nm w1 where 1: "f fd CART_INPUT_NAME_MAX w = ((got, nm), w1)" by (metis prod.exhaust)
  have "\<phi> w1 = \<phi> w" using queries_keepD(1)[OF assms(1) f 1] .
  then show ?thesis using assms(2) 1
    by (auto simp: classify_source_def f Let_def bind_eq_Some_conv split: if_splits
        dest!: probe_is_gamepad_keeps[OF assms(1)] probe_is_action_keyboard_keeps[OF assms(1)]
          probe_snapshot_axes_keeps[OF assms(1)])
qed

section \<open>Descriptors\<close>

text \<open>The descriptors that are open, as the operations change them: \<open>open\<close> returns a negative number or
  a descriptor that was not open, \<open>close\<close> gives one back, nothing else changes the set.\<close>

definition fd_ledger :: "('w \<Rightarrow> int set) \<Rightarrow> 'w cart_input_ops \<Rightarrow> bool" where
  "fd_ledger opened ops \<longleftrightarrow> queries_keep opened ops
     \<and> (\<forall>f path flags w fd w'. op_open ops = Ptr f \<longrightarrow> f path flags w = (fd, w') \<longrightarrow>
          (if fd < 0 then opened w' = opened w else fd \<notin> opened w \<and> opened w' = insert fd (opened w)))
     \<and> (\<forall>f fd w. op_close ops = Ptr f \<longrightarrow> opened (snd (f fd w)) = opened w - {fd})
     \<and> (\<forall>f fd n w. op_read ops = Ptr f \<longrightarrow> opened (snd (f fd n w)) = opened w)"

lemma fd_ledgerD:
  assumes "fd_ledger opened ops"
  shows "queries_keep opened ops"
    "op_open ops = Ptr f1 \<Longrightarrow> f1 path flags w = (fd, w') \<Longrightarrow> fd < 0 \<Longrightarrow> opened w' = opened w"
    "op_open ops = Ptr f1 \<Longrightarrow> f1 path flags w = (fd, w') \<Longrightarrow> \<not> fd < 0 \<Longrightarrow> fd \<notin> opened w \<and> opened w' = insert fd (opened w)"
    "op_close ops = Ptr f2 \<Longrightarrow> opened (snd (f2 fd w)) = opened w - {fd}"
    "op_read ops = Ptr f3 \<Longrightarrow> f3 fd n w = (r, w') \<Longrightarrow> opened w' = opened w"
  using assms unfolding fd_ledger_def by (metis snd_conv)+

definition owned :: "cart_input_source list \<Rightarrow> int set" where
  "owned ss = {src_fd s | s. s \<in> set ss \<and> 0 \<le> src_fd s}"

definition slots_distinct :: "cart_input_source list \<Rightarrow> bool" where
  "slots_distinct ss \<longleftrightarrow> (\<forall>i < length ss. \<forall>j < length ss.
     0 \<le> src_fd (ss ! i) \<and> src_fd (ss ! i) = src_fd (ss ! j) \<longrightarrow> i = j)"

lemma owned_nth: "owned ss = {src_fd (ss ! i) | i. i < length ss \<and> 0 \<le> src_fd (ss ! i)}"
  by (auto simp: owned_def in_set_conv_nth)

lemma nth_update_in: "k < length xs \<Longrightarrow> xs[i := x] ! k = (if i = k then x else xs ! k)"
  by (cases "i = k") auto

lemma ownedI: "k < length ss \<Longrightarrow> x = src_fd (ss ! k) \<Longrightarrow> 0 \<le> x \<Longrightarrow> x \<in> owned ss"
  unfolding owned_nth by blast

lemma ownedE:
  assumes "x \<in> owned ss"
  obtains k where "k < length ss" "x = src_fd (ss ! k)" "0 \<le> x"
  using assms unfolding owned_nth by blast

lemma owned_claim:
  assumes "i < length ss" "src_fd (ss ! i) < 0" "0 \<le> src_fd t"
  shows "owned (ss[i := t]) = insert (src_fd t) (owned ss)"
proof -
  have "x \<in> owned (ss[i := t]) \<longleftrightarrow> x = src_fd t \<or> x \<in> owned ss" for x
  proof
    assume "x \<in> owned (ss[i := t])"
    then show "x = src_fd t \<or> x \<in> owned ss" unfolding owned_nth by (auto simp: nth_update_in split: if_splits)
  next
    assume x: "x = src_fd t \<or> x \<in> owned ss"
    show "x \<in> owned (ss[i := t])"
    proof (cases "x = src_fd t")
      case True
      then show ?thesis using assms by (intro ownedI[of i]) simp_all
    next
      case False
      with x obtain k where "k < length ss" "x = src_fd (ss ! k)" "0 \<le> x" by (auto elim: ownedE)
      then show ?thesis using assms(2) by (intro ownedI[of k]) (auto simp: nth_update_in)
    qed
  qed
  then show ?thesis by blast
qed

lemma slots_distinct_claim:
  assumes "slots_distinct ss" "src_fd t \<notin> owned ss"
  shows "slots_distinct (ss[i := t])"
  unfolding slots_distinct_def length_list_update
proof (intro allI impI)
  fix a b
  assume ab: "a < length ss" "b < length ss"
    "0 \<le> src_fd (ss[i := t] ! a) \<and> src_fd (ss[i := t] ! a) = src_fd (ss[i := t] ! b)"
  have "src_fd t \<noteq> src_fd (ss ! k)" if "k < length ss" "0 \<le> src_fd t" for k
    using assms(2) that unfolding owned_nth by auto
  then show "a = b" using ab assms(1) unfolding slots_distinct_def
    by (auto simp: nth_update_in split: if_splits) metis+
qed

lemma slots_distinct_drop:
  assumes "slots_distinct ss" "src_fd t < 0"
  shows "slots_distinct (ss[i := t])"
  unfolding slots_distinct_def length_list_update
proof (intro allI impI)
  fix a b
  assume "a < length ss" "b < length ss"
    "0 \<le> src_fd (ss[i := t] ! a) \<and> src_fd (ss[i := t] ! a) = src_fd (ss[i := t] ! b)"
  then show "a = b" using assms unfolding slots_distinct_def by (auto simp: nth_update_in split: if_splits)
qed

lemma owned_drop:
  assumes "i < length ss" "slots_distinct ss" "src_fd t < 0"
  shows "owned (ss[i := t]) = owned ss - {src_fd (ss ! i)}"
proof -
  have "x \<in> owned (ss[i := t]) \<longleftrightarrow> x \<in> owned ss \<and> x \<noteq> src_fd (ss ! i)" for x
  proof
    assume "x \<in> owned (ss[i := t])"
    then obtain k where "k < length ss" "x = src_fd (ss ! k)" "0 \<le> x" "k \<noteq> i"
      using assms(3) unfolding owned_nth by (auto simp: nth_update_in split: if_splits)
    then show "x \<in> owned ss \<and> x \<noteq> src_fd (ss ! i)"
      using assms(1,2) unfolding owned_nth slots_distinct_def by auto
  next
    assume x: "x \<in> owned ss \<and> x \<noteq> src_fd (ss ! i)"
    then obtain k where "k < length ss" "x = src_fd (ss ! k)" "0 \<le> x" unfolding owned_nth by auto
    moreover have "k \<noteq> i" using x calculation by auto
    ultimately show "x \<in> owned (ss[i := t])" by (intro ownedI[of k]) (auto simp: nth_update_in)
  qed
  then show ?thesis by blast
qed

section \<open>Well-formed input state\<close>

text \<open>The queue holds at most eight actions, each a value of the enumeration other than
  \<open>CART_INPUT_NONE\<close>.\<close>

definition queue_ok :: "'w cart_input \<Rightarrow> bool" where
  "queue_ok inp \<longleftrightarrow> pending_count inp \<le> 2 * CART_INPUT_MAX_SOURCES
     \<and> length (pending_item inp) = 2 * CART_INPUT_MAX_SOURCES
     \<and> (\<forall>b \<in> set (take (pending_count inp) (pending_item inp)). 0 < unat b \<and> unat b < 7)"

definition wf_input :: "'w cart_input \<Rightarrow> bool" where
  "wf_input inp \<longleftrightarrow> length (sources inp) = CART_INPUT_MAX_SOURCES
     \<and> (\<forall>s \<in> set (sources inp). wf_source s \<and> (src_fd s < 0 \<longleftrightarrow> src_state s = CART_INPUT_ABSENT))
     \<and> slots_distinct (sources inp)
     \<and> queue_ok inp
     \<and> length (partial_buf inp) = CART_INPUT_MAX_SOURCES \<and> (\<forall>b \<in> set (partial_buf inp). length b = 256)
     \<and> length (partial_len inp) = CART_INPUT_MAX_SOURCES
     \<and> (\<forall>i < CART_INPUT_MAX_SOURCES. partial_len inp ! i < 16
          \<and> (src_fd (sources inp ! i) < 0 \<longrightarrow> partial_len inp ! i = 0))"

text \<open>The process holds the descriptors \<open>base\<close> and exactly those of the connected sources.\<close>

definition accounts :: "('w \<Rightarrow> int set) \<Rightarrow> int set \<Rightarrow> 'w cart_input \<Rightarrow> 'w \<Rightarrow> bool" where
  "accounts opened base inp w \<longleftrightarrow>
     opened w = base \<union> owned (sources inp) \<and> base \<inter> owned (sources inp) = {}"

lemma wf_zero_source: "wf_source zero_source"
  by (simp add: wf_source_def zero_source_def)

lemma wf_reset_source: "wf_source reset_source" "src_fd reset_source < 0" "src_state reset_source = CART_INPUT_ABSENT"
  by (simp_all add: reset_source_def wf_source_def zero_source_def)

lemma owned_zero_input [simp]: "owned (sources (zero_input ops)) = {}"
  by (auto simp: owned_def zero_input_def reset_source_def)

lemma wf_zero_input: "wf_input (zero_input ops)"
proof -
  have "slots_distinct (replicate n reset_source)" for n
    using wf_reset_source(2) by (auto simp: slots_distinct_def)
  then show ?thesis using wf_reset_source by (auto simp: wf_input_def queue_ok_def zero_input_def)
qed

lemma first_free_slot_Some:
  assumes "first_free_slot inp = Some i"
  shows "i < CART_INPUT_MAX_SOURCES" "src_fd (sources inp ! i) < 0"
proof -
  have "i \<in> set is \<and> slot_empty inp i" if "scan_slots inp is = Some i" for "is"
    using that by (induction "is") (auto split: if_splits)
  then have "i \<in> set [0..<CART_INPUT_MAX_SOURCES] \<and> slot_empty inp i"
    using assms unfolding first_free_slot_def by blast
  then show "i < CART_INPUT_MAX_SOURCES" "src_fd (sources inp ! i) < 0" by (auto simp: slot_empty_def)
qed

section \<open>The scan\<close>

text \<open>Every event node of the listing has a readable name file, as sysfs has.\<close>

definition names_readable :: "sysfs \<Rightarrow> string \<Rightarrow> bool" where
  "names_readable env sys \<longleftrightarrow> (\<forall>es. list_dir env sys = Inr es \<longrightarrow>
     (\<forall>e \<in> set es. file_contents env (path_of 768 (path_of 512 sys e) ''device/name'') \<noteq> None))"

definition scan_inv :: "('w \<Rightarrow> int set) \<Rightarrow> int set \<Rightarrow> cart_input_candidate list \<times> 'w \<Rightarrow> bool" where
  "scan_inv opened base s \<longleftrightarrow> (case s of (cs, w) \<Rightarrow>
     opened w = base \<union> cand_fd ` set cs \<and> base \<inter> cand_fd ` set cs = {} \<and> distinct (map cand_fd cs)
     \<and> (\<forall>c \<in> set cs. 0 \<le> cand_fd c \<and> wf_source (cand_prepared c)))"

lemma sysfs_rank_of_total:
  assumes "file_contents env (path_of 768 dir ''device/name'') \<noteq> None"
  shows "\<exists>r. sysfs_rank_of env dir = Some r"
  using assms by (auto simp: sysfs_rank_of_def read_trimmed_line_def Let_def split: option.splits)

context input_ops
begin

lemma examine_entry_scans:
  assumes "calibrated_ops ops" "fd_ledger opened ops"
    and "file_contents env (path_of 768 (path_of 512 sys e) ''device/name'') \<noteq> None"
    and "scan_inv opened base s"
  shows "\<exists>t. examine_entry env ops sys dev e s = Some t \<and> scan_inv opened base t"
proof -
  obtain cs w where s: "s = (cs, w)" by (cases s)
  have inv: "opened w = base \<union> cand_fd ` set cs" "base \<inter> cand_fd ` set cs = {}" "distinct (map cand_fd cs)"
      "\<forall>c \<in> set cs. 0 \<le> cand_fd c \<and> wf_source (cand_prepared c)"
    using assms(4) by (auto simp: scan_inv_def s)
  obtain r where r: "sysfs_rank_of env (path_of 512 sys e) = Some r" using sysfs_rank_of_total[OF assms(3)] by blast
  obtain f_open where fo: "op_open ops = Ptr f_open" using all_set by (metis ptr.exhaust)
  obtain f_close where fc: "op_close ops = Ptr f_close" using all_set by (metis ptr.exhaust)
  obtain fd w1 where 1: "f_open (path_of 640 dev e) OPEN_FLAGS w = (fd, w1)" by (metis prod.exhaust)
  let ?s = "zero_source\<lparr>src_fd := - 1, src_node := e\<rparr>"
  have wf: "wf_source ?s" using wf_zero_source by (simp add: wf_source_def)
  obtain rank t w2 where 2: "classify_source ?s ops fd r w1 = Some (rank, t, w2)" "wf_source t"
    using classify_source_wf[OF assms(1) wf] by blast
  have w2: "opened w2 = opened w1" using classify_source_keeps[OF fd_ledgerD(1)[OF assms(2)] 2(1)] .
  show ?thesis
  proof (cases "event_node_number e = None \<or> length e \<ge> CART_INPUT_NODE_MAX")
    case True
    then show ?thesis using assms(4) by (auto simp: examine_entry_def s split: option.splits)
  next
    case node: False
    then obtain n where n: "event_node_number e = Some n" "\<not> length e \<ge> CART_INPUT_NODE_MAX" by auto
    show ?thesis
    proof (cases "fd < 0")
      case True
      then show ?thesis using inv fd_ledgerD(2)[OF assms(2) fo 1 True] n
        by (simp add: examine_entry_def s r fo 1 scan_inv_def)
    next
      case fd: False
      have new: "fd \<notin> opened w" "opened w1 = insert fd (opened w)" using fd_ledgerD(3)[OF assms(2) fo 1 fd] by auto
      show ?thesis
      proof (cases "rank = 0")
        case True
        have "opened (snd (f_close fd w2)) = opened w" using fd_ledgerD(4)[OF assms(2) fc] w2 new by auto
        then show ?thesis using True inv n fd 2
          by (auto simp: examine_entry_def s r fo fc 1 scan_inv_def split: prod.splits)
      next
        case False
        have "fd \<notin> base" "fd \<notin> cand_fd ` set cs" using new(1) inv(1) by auto
        then show ?thesis using False inv n fd 2 new w2
          by (auto simp: examine_entry_def s r fo 1 scan_inv_def)
      qed
    qed
  qed
qed

lemma scan_entries_scans:
  assumes "calibrated_ops ops" "fd_ledger opened ops"
    and "\<forall>e \<in> set es. file_contents env (path_of 768 (path_of 512 sys e) ''device/name'') \<noteq> None"
    and "scan_inv opened base s"
  shows "\<exists>t. scan_entries env ops sys dev es s = Some t \<and> scan_inv opened base t"
  using assms(3,4)
proof (induction es arbitrary: s)
  case (Cons e es)
  obtain t where t: "examine_entry env ops sys dev e s = Some t" "scan_inv opened base t"
    using examine_entry_scans[OF assms(1,2) bspec[OF Cons.prems(1)] Cons.prems(2), of e dev] by auto
  then show ?case using Cons.IH[OF _ t(2)] Cons.prems by (cases "length (fst s) < CANDIDATE_CAP") simp_all
qed simp

end

section \<open>Claiming the slots\<close>

text \<open>What discovery leaves alone: the connected sources, the queue and the partial reads.\<close>

definition keeps_connected :: "'w cart_input \<Rightarrow> 'w cart_input \<Rightarrow> bool" where
  "keeps_connected inp out \<longleftrightarrow> in_ops out = in_ops inp \<and> pending_count out = pending_count inp
     \<and> pending_item out = pending_item inp \<and> partial_buf out = partial_buf inp \<and> partial_len out = partial_len inp
     \<and> (\<forall>i < CART_INPUT_MAX_SOURCES. 0 \<le> src_fd (sources inp ! i) \<longrightarrow> sources out ! i = sources inp ! i)"

lemma keeps_connected_refl: "keeps_connected inp inp"
  by (simp add: keeps_connected_def)

lemma keeps_connected_trans: "keeps_connected a b \<Longrightarrow> keeps_connected b c \<Longrightarrow> keeps_connected a c"
  by (simp add: keeps_connected_def)

definition claim_inv :: "('w \<Rightarrow> int set) \<Rightarrow> int set \<Rightarrow> cart_input_candidate list \<Rightarrow> 'w cart_input \<Rightarrow> 'w \<Rightarrow> bool" where
  "claim_inv opened base cs inp w \<longleftrightarrow> wf_input inp
     \<and> scan_inv opened (base \<union> owned (sources inp)) (cs, w) \<and> base \<inter> owned (sources inp) = {}"

lemma finite_owned [simp]: "finite (owned ss)"
  by (simp add: owned_def)

lemma wf_input_claim:
  assumes "wf_input inp" "i < CART_INPUT_MAX_SOURCES" "wf_source t" "0 \<le> src_fd t"
    "src_state t = CART_INPUT_CONNECTED" "src_fd t \<notin> owned (sources inp)" 
  shows "wf_input (inp\<lparr>sources := (sources inp)[i := t]\<rparr>)"
  using assms slots_distinct_claim[of "sources inp" t i]
  by (auto simp: wf_input_def queue_ok_def nth_list_update dest!: set_update_subset_insert[THEN subsetD])

context input_ops
begin

lemma claim_candidate_step:
  assumes led: "fd_ledger opened ops" and inv: "claim_inv opened base (c # cs) inp w"
  shows "\<exists>c' inp' w' n'. claim_candidate ops c (inp, w, n) = Some (c', inp', w', n') \<and> cand_fd c' < 0
    \<and> claim_inv opened base cs inp' w' \<and> keeps_connected inp inp'
    \<and> card (owned (sources inp')) + n = card (owned (sources inp)) + n'"
proof (cases "first_free_slot inp")
  case None
  obtain f where f: "op_close ops = Ptr f" using all_set by (metis ptr.exhaust)
  have "opened (snd (f (cand_fd c) w)) = opened w - {cand_fd c}" using fd_ledgerD(4)[OF led f] .
  moreover have "cand_fd c \<notin> base \<union> owned (sources inp)" "cand_fd c \<notin> cand_fd ` set cs"
    using inv by (auto simp: claim_inv_def scan_inv_def)
  ultimately have "claim_inv opened base cs inp (snd (f (cand_fd c) w))"
    using inv by (auto simp: claim_inv_def scan_inv_def)
  then show ?thesis
    by (auto simp: claim_candidate_def None f keeps_connected_refl split: prod.splits)
next
  case (Some i)
  note i = first_free_slot_Some[OF Some]
  let ?t = "(cand_prepared c)\<lparr>src_fd := cand_fd c, src_state := CART_INPUT_CONNECTED,
     src_generation := src_generation (cand_prepared c) + 1\<rparr>"
  let ?inp = "inp\<lparr>sources := (sources inp)[i := ?t]\<rparr>"
  have len: "length (sources inp) = CART_INPUT_MAX_SOURCES" using inv by (simp add: claim_inv_def wf_input_def)
  have c: "0 \<le> cand_fd c" "wf_source ?t" "cand_fd c \<notin> base" "cand_fd c \<notin> owned (sources inp)"
      "cand_fd c \<notin> cand_fd ` set cs"
    using inv by (auto simp: claim_inv_def scan_inv_def wf_source_def)
  have own: "owned (sources ?inp) = insert (cand_fd c) (owned (sources inp))"
    using owned_claim[of i "sources inp" ?t] i c(1) len by simp
  have wf: "wf_input ?inp"
    using wf_input_claim[of inp i ?t] inv i(1) c by (simp add: claim_inv_def)
  have "claim_inv opened base cs ?inp w"
    using wf own inv c unfolding claim_inv_def scan_inv_def by auto
  moreover have "keeps_connected inp ?inp" using i(2) len by (auto simp: keeps_connected_def nth_update_in)
  moreover have "card (owned (sources ?inp)) = card (owned (sources inp)) + 1" using own c(4) by simp
  ultimately show ?thesis by (auto simp: claim_candidate_def Some)
qed

lemma claim_candidates_inv:
  assumes led: "fd_ledger opened ops" and inv: "claim_inv opened base cs inp w"
  shows "\<exists>cs' inp' w' n'. claim_candidates ops cs (inp, w, n) = Some (cs', inp', w', n')
    \<and> (\<forall>c \<in> set cs'. cand_fd c < 0) \<and> claim_inv opened base [] inp' w' \<and> keeps_connected inp inp'
    \<and> card (owned (sources inp')) + n = card (owned (sources inp)) + n'"
  using inv
proof (induction cs arbitrary: inp w n)
  case Nil
  then show ?case using keeps_connected_refl by auto
next
  case (Cons c cs)
  obtain c' inp1 w1 n1 where 1: "claim_candidate ops c (inp, w, n) = Some (c', inp1, w1, n1)" "cand_fd c' < 0"
      "claim_inv opened base cs inp1 w1" "keeps_connected inp inp1"
      "card (owned (sources inp1)) + n = card (owned (sources inp)) + n1"
    using claim_candidate_step[OF led Cons.prems] by blast
  obtain cs' inp2 w2 n2 where 2: "claim_candidates ops cs (inp1, w1, n1) = Some (cs', inp2, w2, n2)"
      "\<forall>c \<in> set cs'. cand_fd c < 0" "claim_inv opened base [] inp2 w2" "keeps_connected inp1 inp2"
      "card (owned (sources inp2)) + n1 = card (owned (sources inp1)) + n2"
    using Cons.IH[OF 1(3)] by blast
  have "claim_candidates ops (c # cs) (inp, w, n) = Some (c' # cs', inp2, w2, n2)" using 1(1) 2(1) by simp
  moreover have "card (owned (sources inp2)) + n = card (owned (sources inp)) + n2" using 1(5) 2(5) by linarith
  ultimately show ?case using 1(2,4) 2(2,3,4) keeps_connected_trans by fastforce
qed

end

lemma release_nothing: "\<forall>c \<in> set cs. cand_fd c < 0 \<Longrightarrow> release_candidates ops inp cs w = Some w"
  by (induction cs) auto

lemma scan_inv_plan: "scan_inv opened base (snd (cart_input_plan cs (length cs)), w) = scan_inv opened base (cs, w)"
proof -
  have "mset (snd (cart_input_plan cs (length cs))) = mset cs"
    using plan_order_prefix[of "length cs" cs] by (auto simp: cart_input_plan_def)
  then have "set (snd (cart_input_plan cs (length cs))) = set cs"
    "distinct (map cand_fd (snd (cart_input_plan cs (length cs)))) = distinct (map cand_fd cs)"
    by (metis mset_eq_setD, metis mset_map mset_eq_imp_distinct_iff)
  then show ?thesis by (simp add: scan_inv_def)
qed

context input_ops
begin

lemma discover_pass_accounts:
  assumes "calibrated_ops ops" and led: "fd_ledger opened ops" and "names_readable env sys"
    and "wf_input inp" "accounts opened base inp w"
  shows "\<exists>rc inp' w'. discover_pass env inp ops sys dev w = Some (rc, inp', w') \<and> wf_input inp'
    \<and> accounts opened base inp' w' \<and> keeps_connected inp inp'
    \<and> (rc \<noteq> - 1 \<longrightarrow> int (card (owned (sources inp'))) = int (card (owned (sources inp))) + rc)"
proof (cases "list_dir env sys")
  case (Inl e)
  then show ?thesis using assms(4,5) keeps_connected_refl by (auto simp: discover_pass_def)
next
  case (Inr es)
  have "scan_inv opened (base \<union> owned (sources inp)) ([], w)" using assms(5) by (simp add: scan_inv_def accounts_def)
  moreover have "\<forall>e \<in> set es. file_contents env (path_of 768 (path_of 512 sys e) ''device/name'') \<noteq> None"
    using assms(3) Inr unfolding names_readable_def by blast
  ultimately obtain cs w1 where 1: "scan_entries env ops sys dev es ([], w) = Some (cs, w1)"
      "scan_inv opened (base \<union> owned (sources inp)) (cs, w1)"
    using scan_entries_scans[OF assms(1) led] by (metis prod.exhaust)
  obtain m ps where ps: "cart_input_plan cs (length cs) = (m, ps)" by (cases "cart_input_plan cs (length cs)")
  have "claim_inv opened base ps inp w1"
    using 1(2) scan_inv_plan[of opened _ cs w1] ps assms(4,5) by (simp add: claim_inv_def accounts_def)
  then obtain cs' inp' w' n where 2: "claim_candidates ops ps (inp, w1, 0) = Some (cs', inp', w', n)"
      "\<forall>c \<in> set cs'. cand_fd c < 0" "claim_inv opened base [] inp' w'" "keeps_connected inp inp'"
      "card (owned (sources inp')) + 0 = card (owned (sources inp)) + n"
    using claim_candidates_inv[OF led, of base ps inp w1 0] by blast
  have "discover_pass env inp ops sys dev w = Some (int n, inp', w')"
    by (simp add: discover_pass_def Inr 1(1) ps 2(1) release_nothing[OF 2(2)])
  moreover have "wf_input inp'" "accounts opened base inp' w'"
    using 2(3) by (auto simp: claim_inv_def scan_inv_def accounts_def)
  ultimately show ?thesis using 2(4,5) by auto
qed

end

section \<open>Shutdown\<close>

context input_ops
begin

lemma shutdown_slot_step:
  assumes led: "fd_ledger opened ops" and "in_ops inp = Ptr ops" "i < length (sources inp)"
    and "slots_distinct (sources inp)" "accounts opened base inp w"
  shows "\<exists>w'. shutdown_slot i (inp, w) = Some (inp\<lparr>sources := (sources inp)[i := reset_source]\<rparr>, w')
    \<and> slots_distinct ((sources inp)[i := reset_source])
    \<and> accounts opened base (inp\<lparr>sources := (sources inp)[i := reset_source]\<rparr>) w'"
proof -
  obtain f where f: "op_close ops = Ptr f" using all_set by (metis ptr.exhaust)
  let ?fd = "src_fd (sources inp ! i)"
  have own: "owned ((sources inp)[i := reset_source]) = owned (sources inp) - {?fd}"
    using owned_drop[OF assms(3,4) wf_reset_source(2)] .
  have "?fd \<notin> base" if "0 \<le> ?fd" using that assms(3,5) ownedI[OF assms(3) refl] by (auto simp: accounts_def)
  then have "accounts opened base (inp\<lparr>sources := (sources inp)[i := reset_source]\<rparr>) (if 0 \<le> ?fd then snd (f ?fd w) else w)"
    using assms(5) own fd_ledgerD(4)[OF led f, of ?fd w]
    by (auto simp: accounts_def owned_def)
  then show ?thesis
    using slots_distinct_drop[OF assms(4) wf_reset_source(2)] assms(2,3) f by (auto simp: shutdown_slot_def)
qed

lemma shutdown_slots:
  assumes led: "fd_ledger opened ops" and "in_ops inp = Ptr ops" "slots_distinct (sources inp)"
    "accounts opened base inp w" "n \<le> length (sources inp)"
  shows "\<exists>w' ss. mfold shutdown_slot [0..<n] (inp, w) = Some (inp\<lparr>sources := ss\<rparr>, w')
    \<and> ss = replicate n reset_source @ drop n (sources inp)
    \<and> slots_distinct ss \<and> accounts opened base (inp\<lparr>sources := ss\<rparr>) w'"
  using assms(5)
proof (induction n)
  case 0
  then show ?case using assms(3,4) by auto
next
  case (Suc n)
  obtain w1 ss where 1: "mfold shutdown_slot [0..<n] (inp, w) = Some (inp\<lparr>sources := ss\<rparr>, w1)"
      "ss = replicate n reset_source @ drop n (sources inp)" "slots_distinct ss"
      "accounts opened base (inp\<lparr>sources := ss\<rparr>) w1"
    using Suc by auto
  have len: "n < length ss" using Suc.prems 1(2) by simp
  have upd: "ss[n := reset_source] = replicate (Suc n) reset_source @ drop (Suc n) (sources inp)"
    using Suc.prems unfolding 1(2)
    by (subst Cons_nth_drop_Suc[symmetric]) (simp_all add: list_update_append replicate_append_same)
  obtain w2 where 2: "shutdown_slot n (inp\<lparr>sources := ss\<rparr>, w1) = Some (inp\<lparr>sources := ss[n := reset_source]\<rparr>, w2)"
      "slots_distinct (ss[n := reset_source])" "accounts opened base (inp\<lparr>sources := ss[n := reset_source]\<rparr>) w2"
    using shutdown_slot_step[OF led, of "inp\<lparr>sources := ss\<rparr>" n base w1] 1(3,4) assms(2) len by auto
  have "mfold shutdown_slot [0..<Suc n] (inp, w) = Some (inp\<lparr>sources := ss[n := reset_source]\<rparr>, w2)"
    by (simp add: mfold_append 1(1) 2(1))
  then show ?case using 2(2,3) upd by blast
qed

lemma cart_input_shutdown_closes:
  assumes led: "fd_ledger opened ops" and "in_ops inp = Ptr ops" "wf_input inp" "accounts opened base inp w"
  shows "\<exists>out w'. cart_input_shutdown (Ptr inp) w = Some (Ptr out, w') \<and> opened w' = base \<and> wf_input out
    \<and> owned (sources out) = {} \<and> pending_count out = 0 \<and> in_ops out = Ptr ops"
proof -
  have wf: "slots_distinct (sources inp)" "length (sources inp) = CART_INPUT_MAX_SOURCES"
    using assms(3) by (simp_all add: wf_input_def)
  let ?ss = "replicate CART_INPUT_MAX_SOURCES reset_source"
  let ?out = "inp\<lparr>sources := ?ss, pending_count := 0, partial_len := replicate CART_INPUT_MAX_SOURCES 0\<rparr>"
  obtain w' where w': "mfold shutdown_slot [0..<CART_INPUT_MAX_SOURCES] (inp, w) = Some (inp\<lparr>sources := ?ss\<rparr>, w')"
      "accounts opened base (inp\<lparr>sources := ?ss\<rparr>) w'" "slots_distinct ?ss"
    using shutdown_slots[OF led assms(2) wf(1) assms(4), of CART_INPUT_MAX_SOURCES] wf(2) by auto
  have own: "owned ?ss = {}" using wf_reset_source(2) by (auto simp: owned_def)
  have "cart_input_shutdown (Ptr inp) w = Some (Ptr ?out, w')"
    unfolding cart_input_shutdown_def ptr.case w'(1) by simp
  moreover have "wf_input ?out"
    using assms(3) w'(3) wf_reset_source by (auto simp: wf_input_def queue_ok_def)
  moreover have "opened w' = base" using w'(2) own by (simp add: accounts_def)
  ultimately show ?thesis using own assms(2) by auto
qed

end

lemma cart_input_init_ex_accounts:
  assumes "input_ops ops" "calibrated_ops ops" "fd_ledger opened ops" "names_readable env sys"
  shows "\<exists>rc inp w'. cart_input_init_ex env (Ptr i) (Ptr ops) (Ptr sys) (Ptr dev) w = Some (rc, Ptr inp, w')
    \<and> wf_input inp \<and> accounts opened (opened w) inp w' \<and> in_ops inp = Ptr ops \<and> pending_count inp = 0
    \<and> (rc \<noteq> - 1 \<longrightarrow> int (card (owned (sources inp))) = rc)"
proof -
  have set: "op_open ops \<noteq> NULL" "op_close ops \<noteq> NULL" "op_read ops \<noteq> NULL"
      "op_ioctl_name ops \<noteq> NULL" "op_ioctl_key_state ops \<noteq> NULL" "op_ioctl_bit ops \<noteq> NULL"
      "op_ioctl_abs ops \<noteq> NULL"
    using input_ops.all_set[OF assms(1)] by auto
  have "accounts opened (opened w) (zero_input (Ptr ops)) w" by (simp add: accounts_def)
  from input_ops.discover_pass_accounts[OF assms wf_zero_input this, of dev]
  obtain rc inp w' where d: "discover_pass env (zero_input (Ptr ops)) ops sys dev w = Some (rc, inp, w')"
      "wf_input inp" "accounts opened (opened w) inp w'" "keeps_connected (zero_input (Ptr ops)) inp"
      "rc \<noteq> - 1 \<longrightarrow> int (card (owned (sources inp))) = rc"
    by auto
  have "in_ops inp = Ptr ops" "pending_count inp = 0"
    using d(4) by (simp_all add: keeps_connected_def zero_input_def)
  then show ?thesis using d by (simp add: cart_input_init_ex_def set)
qed

lemma cart_input_rescan_accounts:
  assumes "input_ops ops" "calibrated_ops ops" "fd_ledger opened ops" "names_readable env sys"
    and "in_ops inp = Ptr ops" "wf_input inp" "accounts opened base inp w"
  shows "\<exists>rc out w'. cart_input_rescan k env (Ptr inp) (Ptr sys) (Ptr dev) w = Some (rc, Ptr out, w')
    \<and> wf_input out \<and> accounts opened base out w' \<and> keeps_connected inp out
    \<and> (rc \<noteq> - 1 \<longrightarrow> int (card (owned (sources out))) = int (card (owned (sources inp))) + rc)"
  using input_ops.discover_pass_accounts[OF assms(1-4,6,7), of dev] assms(5)
  by (auto simp: cart_input_rescan_def)

end
