(* ===== verification/Input_Poll.thy ===== *)
theory Input_Poll
  imports Input_Discovery
begin

text \<open>
  The poll side of \<open>cart/src/input_evdev.c\<close>, definitions and single events: the queue of pending actions, the evdev event state
  machine with its desynchronised state, the read loop that reassembles events from byte chunks, and
  the frame that merges the sources.  \<open>None\<close> is undefined behaviour, or a read loop that never ends.
\<close>

section \<open>Pending actions\<close>

definition enqueue_action :: "cart_input_action \<Rightarrow> 'w cart_input \<Rightarrow> 'w cart_input" where
  "enqueue_action action inp =
     (if action \<le> CART_INPUT_NONE \<or> action > CART_INPUT_QUIT then inp
      else if pending_count inp < length (pending_item inp)
      then inp\<lparr>pending_item := (pending_item inp)[pending_count inp := of_nat (action_code action)],
               pending_count := pending_count inp + 1\<rparr>
      else inp)"

text \<open>The conversion from the stored byte back to the enumeration.\<close>

definition ACTIONS :: "cart_input_action list" where
  "ACTIONS = [CART_INPUT_NONE, CART_INPUT_NEXT, CART_INPUT_PREVIOUS, CART_INPUT_SELECT, CART_INPUT_BACK,
     CART_INPUT_MENU, CART_INPUT_QUIT]"

definition take_action :: "'w cart_input \<Rightarrow> (cart_input_action \<times> 'w cart_input) option" where
  "take_action inp =
     (if pending_count inp > 0 then do {
        item \<leftarrow> load (pending_item inp) 0;
        action \<leftarrow> load ACTIONS (unat item);
        Some (action, inp\<lparr>pending_item := take (pending_count inp - 1) (drop 1 (pending_item inp))
                             @ drop (pending_count inp - 1) (pending_item inp),
                          pending_count := pending_count inp - 1\<rparr>)
      } else Some (CART_INPUT_NONE, inp))"

section \<open>Events\<close>

definition set_source :: "nat \<Rightarrow> cart_input_source \<Rightarrow> 'w cart_input \<Rightarrow> 'w cart_input" where
  "set_source i s inp = inp\<lparr>sources := (sources inp)[i := s]\<rparr>"

definition handle_disconnect :: "nat \<Rightarrow> 'w cart_input \<Rightarrow> 'w \<Rightarrow> ('w cart_input \<times> 'w) option" where
  "handle_disconnect i inp w = do {
     source \<leftarrow> load (sources inp) i;
     w \<leftarrow> (if src_fd source \<ge> 0 then do {
              ops \<leftarrow> invoke (in_ops inp);
              close_op \<leftarrow> invoke (op_close ops);
              Some (snd (close_op (src_fd source) w))
            } else Some w);
     Some ((set_source i (source\<lparr>src_fd := - 1, src_state := CART_INPUT_ABSENT,
              src_generation := src_generation source + 1,
              src_last_raw := replicate CART_INPUT_AXIS_COUNT 0, src_held_keys := 0\<rparr>) inp)
            \<lparr>partial_len := (partial_len inp)[i := 0]\<rparr>, w)
   }"

text \<open>The value of a key event is a 32-bit integer, the parameter of \<open>cart_input_key_emits_action\<close> has
  16 bits.\<close>

definition process_key_event :: "nat \<Rightarrow> u16 \<Rightarrow> int \<Rightarrow> 'w cart_input \<Rightarrow> 'w cart_input option" where
  "process_key_event i code value inp = do {
     source \<leftarrow> load (sources inp) i;
     let source = (if unat code < 64 then
        (if value \<noteq> 0 then source\<lparr>src_held_keys := src_held_keys source OR push_bit (unat code) 1\<rparr>
         else source\<lparr>src_held_keys := src_held_keys source AND NOT (push_bit (unat code) 1)\<rparr>)
        else source);
     let inp = set_source i source inp;
     Some (if cart_input_key_emits_action (of_int value) then enqueue_action (cart_input_map_key code) inp else inp)
   }"

definition merge_keys :: "u8 list \<Rightarrow> u64 option" where
  "merge_keys state = mfold (\<lambda>code merged. do { b \<leftarrow> bit_test state code; Some (merged OR push_bit code (of_bool b)) })
     [0..<64] 0"

definition resync_slot ::
  "'w cart_input_ops \<Rightarrow> int \<Rightarrow> nat \<Rightarrow> cart_input_source \<times> 'w \<Rightarrow> (cart_input_source \<times> 'w) option" where
  "resync_slot ops fd slot s = (case s of (source, w) \<Rightarrow> do {
     valid \<leftarrow> load (src_axis_valid source) slot;
     if \<not> valid then Some (source, w)
     else do {
       ioctl_abs \<leftarrow> invoke (op_ioctl_abs ops);
       let (answer, w) = ioctl_abs fd (AXIS_CODES ! slot) w in
       Some (case answer of None \<Rightarrow> (source, w)
             | Some info \<Rightarrow> (source\<lparr>src_last_raw := (src_last_raw source)[slot := abs_value info]\<rparr>, w))
     }
   })"

definition resync_after_desync :: "nat \<Rightarrow> 'w cart_input \<Rightarrow> 'w \<Rightarrow> ('w cart_input \<times> 'w) option" where
  "resync_after_desync i inp w = do {
     source \<leftarrow> load (sources inp) i;
     ops \<leftarrow> invoke (in_ops inp);
     key_state \<leftarrow> invoke (op_ioctl_key_state ops);
     let ((got, state), w) = key_state (src_fd source) STATE_BYTES_KEY w in do {
       source \<leftarrow> (if got \<ge> 0 then do { merged \<leftarrow> merge_keys state; Some (source\<lparr>src_held_keys := merged\<rparr>) }
                    else Some source);
       (source, w) \<leftarrow> mfold (resync_slot ops (src_fd source)) [0..<CART_INPUT_AXIS_COUNT] (source, w);
       Some (set_source i source inp, w)
     }
   }"

record input_event =
  ev_type :: u16
  ev_code :: u16
  ev_value :: int

text \<open>\<open>struct input_event\<close> of the 32-bit ABI: two 32-bit time words, then type, code and value.\<close>

definition decode_event :: "u8 list \<Rightarrow> input_event" where
  "decode_event bs = \<lparr>ev_type = le_u16 bs 8, ev_code = le_u16 bs 10, ev_value = le_s32 bs 12\<rparr>"

definition consume_event :: "nat \<Rightarrow> input_event \<Rightarrow> 'w cart_input \<Rightarrow> 'w \<Rightarrow> ('w cart_input \<times> 'w) option" where
  "consume_event i event inp w = do {
     source \<leftarrow> load (sources inp) i;
     if ev_type event = 0 then
       if ev_code event = 3 \<and> src_state source = CART_INPUT_CONNECTED
       then Some (set_source i (source\<lparr>src_state := CART_INPUT_DESYNC\<rparr>) inp, w)
       else if ev_code event = 0 \<and> src_state source = CART_INPUT_DESYNC
       then do {
         (inp, w) \<leftarrow> resync_after_desync i inp w;
         source \<leftarrow> load (sources inp) i;
         Some (set_source i (source\<lparr>src_state := CART_INPUT_CONNECTED\<rparr>) inp, w)
       }
       else Some (inp, w)
     else if ev_type event = 1 then
       if src_state source = CART_INPUT_CONNECTED
       then do { inp \<leftarrow> process_key_event i (ev_code event) (ev_value event) inp; Some (inp, w) }
       else Some (inp, w)
     else if ev_type event = 3 then
       (case axis_slot (unat (ev_code event)) of
          None \<Rightarrow> Some (inp, w)
        | Some slot \<Rightarrow>
            if src_state source = CART_INPUT_CONNECTED
            then Some (set_source i (source\<lparr>src_last_raw := (src_last_raw source)[slot := ev_value event]\<rparr>) inp, w)
            else Some (inp, w))
     else Some (inp, w)
   }"

section \<open>The read loop\<close>

abbreviation EVENT_BYTES :: nat where "EVENT_BYTES \<equiv> 16"

partial_function (option) drain_events :: "nat \<Rightarrow> 'w cart_input \<Rightarrow> 'w \<Rightarrow> ('w cart_input \<times> 'w) option" where
  "drain_events i inp w = do {
     buffer \<leftarrow> load (partial_buf inp) i;
     len \<leftarrow> load (partial_len inp) i;
     if len \<ge> EVENT_BYTES then
       if length buffer < len then None
       else do {
         let event = decode_event (take EVENT_BYTES buffer);
         let buffer = take (len - EVENT_BYTES) (drop EVENT_BYTES buffer) @ drop (len - EVENT_BYTES) buffer;
         (inp, w) \<leftarrow> consume_event i event
            (inp\<lparr>partial_buf := (partial_buf inp)[i := buffer], partial_len := (partial_len inp)[i := len - EVENT_BYTES]\<rparr>) w;
         drain_events i inp w
       }
     else Some (inp, w)
   }"

partial_function (option) pump_source :: "nat \<Rightarrow> 'w cart_input \<Rightarrow> 'w \<Rightarrow> ('w cart_input \<times> 'w) option" where
  "pump_source i inp w = do {
     (inp, w) \<leftarrow> drain_events i inp w;
     source \<leftarrow> load (sources inp) i;
     buffer \<leftarrow> load (partial_buf inp) i;
     len \<leftarrow> load (partial_len inp) i;
     ops \<leftarrow> invoke (in_ops inp);
     read_op \<leftarrow> invoke (op_read ops);
     case read_op (src_fd source) (256 - len) w of (got, w) \<Rightarrow>
       (case got of
          Got bytes \<Rightarrow>
            if bytes \<noteq> [] then do {
              buffer \<leftarrow> memcpy_at buffer len bytes (length bytes);
              pump_source i (inp\<lparr>partial_buf := (partial_buf inp)[i := buffer],
                                partial_len := (partial_len inp)[i := len + length bytes]\<rparr>) w
            }
            else handle_disconnect i inp w
        | Failed e \<Rightarrow>
            if e = EINTR then pump_source i inp w
            else if e = EAGAIN then Some (inp, w)
            else handle_disconnect i inp w)
   }"

section \<open>The merged frame\<close>

record cart_input_frame =
  fr_axis :: "int list"
  fr_axis_present :: "bool list"
  fr_axis_owner :: "nat list"
  fr_held_keys :: u64
  fr_connected_mask :: u32
  fr_generation_total :: u32

definition frame_slot ::
  "nat \<Rightarrow> cart_input_source \<Rightarrow> nat \<Rightarrow> cart_input_frame \<Rightarrow> cart_input_frame option" where
  "frame_slot i source slot frame = do {
     valid \<leftarrow> load (src_axis_valid source) slot;
     if \<not> valid then Some frame
     else do {
       normalized \<leftarrow> cart_input_axis_normalize (src_last_raw source ! slot) (Ptr (src_axis source ! slot));
       if normalized = CART_INPUT_AXIS_INVALID then Some frame
       else if fr_axis_present frame ! slot then Some frame
       else Some (frame\<lparr>fr_axis := (fr_axis frame)[slot := signed_take_bit 15 normalized],
                        fr_axis_present := (fr_axis_present frame)[slot := True],
                        fr_axis_owner := (fr_axis_owner frame)[slot := i]\<rparr>)
     }
   }"

definition frame_source :: "'w cart_input \<Rightarrow> nat \<Rightarrow> cart_input_frame \<Rightarrow> cart_input_frame option" where
  "frame_source inp i frame = do {
     source \<leftarrow> load (sources inp) i;
     if src_state source = CART_INPUT_ABSENT then Some frame
     else mfold (frame_slot i source) [0..<CART_INPUT_AXIS_COUNT]
       (frame\<lparr>fr_connected_mask := fr_connected_mask frame OR push_bit i 1,
              fr_generation_total := fr_generation_total frame + src_generation source,
              fr_held_keys := fr_held_keys frame OR src_held_keys source\<rparr>)
   }"

definition empty_frame :: cart_input_frame where
  "empty_frame = \<lparr>fr_axis = replicate CART_INPUT_AXIS_COUNT 0, fr_axis_present = replicate CART_INPUT_AXIS_COUNT False,
     fr_axis_owner = replicate CART_INPUT_AXIS_COUNT CART_INPUT_MAX_SOURCES, fr_held_keys = 0,
     fr_connected_mask = 0, fr_generation_total = 0\<rparr>"

definition build_frame :: "'w cart_input \<Rightarrow> cart_input_frame option" where
  "build_frame inp = mfold (frame_source inp) [0..<CART_INPUT_MAX_SOURCES] empty_frame"

section \<open>Poll\<close>

definition poll_source :: "nat \<Rightarrow> 'w cart_input \<times> 'w \<Rightarrow> ('w cart_input \<times> 'w) option" where
  "poll_source i s = (case s of (inp, w) \<Rightarrow> do {
     source \<leftarrow> load (sources inp) i;
     if src_fd source < 0 then Some (inp, w)
     else if src_state source = CART_INPUT_DESYNC then Some (inp, w)
     else pump_source i inp w
   })"

definition cart_input_poll ::
  "'w cart_input ptr \<Rightarrow> cart_input_action ptr \<Rightarrow> cart_input_frame ptr \<Rightarrow> 'w
     \<Rightarrow> (int \<times> 'w cart_input ptr \<times> cart_input_action ptr \<times> cart_input_frame ptr \<times> 'w) option" where
  "cart_input_poll input action frame w =
     (if input = NULL \<or> action = NULL then Some (- 1, input, action, frame, w)
      else do {
        (inp, w) \<leftarrow> mfold poll_source [0..<CART_INPUT_MAX_SOURCES] (deref input, w);
        (act, inp) \<leftarrow> take_action inp;
        frame \<leftarrow> (case frame of NULL \<Rightarrow> Some NULL | Ptr _ \<Rightarrow> do { f \<leftarrow> build_frame inp; Some (Ptr f) });
        Some (0, Ptr inp, Ptr act, frame, w)
      })"

section \<open>A bounded queue\<close>

text \<open>The contract of a queue of at most \<open>cap\<close> elements that drops what does not fit.  Values that are
  not \<open>valid\<close> are ignored, and an empty queue answers with \<open>nothing\<close>.\<close>

locale bounded_fifo =
  fixes ok :: "'s \<Rightarrow> bool" and contents :: "'s \<Rightarrow> 'a list" and push :: "'a \<Rightarrow> 's \<Rightarrow> 's"
    and pop :: "'s \<Rightarrow> ('a \<times> 's) option" and valid :: "'a \<Rightarrow> bool" and nothing :: 'a and cap :: nat
  assumes contents_cap: "ok s \<Longrightarrow> length (contents s) \<le> cap"
    and push_ok: "ok s \<Longrightarrow> ok (push a s)"
    and push_contents: "ok s \<Longrightarrow> contents (push a s) = take cap (contents s @ (if valid a then [a] else []))"
    and pop_empty: "ok s \<Longrightarrow> contents s = [] \<Longrightarrow> pop s = Some (nothing, s)"
    and pop_first: "ok s \<Longrightarrow> contents s = a # as \<Longrightarrow> \<exists>t. pop s = Some (a, t) \<and> ok t \<and> contents t = as"
begin

lemma fold_push_ok: "ok s \<Longrightarrow> ok (fold push as s)"
  by (induction as arbitrary: s) (simp_all add: push_ok)

lemma fold_push_contents:
  "ok s \<Longrightarrow> contents (fold push as s) = take cap (contents s @ filter valid as)"
proof (induction as arbitrary: s)
  case Nil
  then show ?case using contents_cap by simp
next
  case (Cons a as)
  have twice: "take cap (take cap xs @ ys) = take cap (xs @ ys)" for xs ys :: "'a list"
    by (auto simp: take_append min_def)
  have "contents (fold push (a # as) s) = take cap (contents (push a s) @ filter valid as)"
    using Cons.IH[OF push_ok[OF Cons.prems]] by simp
  also have "\<dots> = take cap ((contents s @ (if valid a then [a] else [])) @ filter valid as)"
    unfolding push_contents[OF Cons.prems] twice ..
  also have "\<dots> = take cap (contents s @ filter valid (a # as))" by (simp del: take_append)
  finally show ?case .
qed

fun pops :: "nat \<Rightarrow> 's \<Rightarrow> 'a list" where
  "pops 0 s = []"
| "pops (Suc n) s = (case pop s of None \<Rightarrow> [] | Some (a, t) \<Rightarrow> a # pops n t)"

lemma pops_contents: "ok s \<Longrightarrow> pops n s = take n (contents s @ replicate n nothing)"
proof (induction n arbitrary: s)
  case (Suc n)
  show ?case
  proof (cases "contents s")
    case Nil
    then show ?thesis using Suc pop_empty by simp
  next
    case (Cons a as)
    then obtain t where t: "pop s = Some (a, t)" "ok t" "contents t = as" using pop_first Suc.prems by blast
    then have "pops (Suc n) s = a # take n (as @ replicate n nothing)" using Suc.IH by simp
    also have "\<dots> = take (Suc n) (contents s @ replicate (Suc n) nothing)"
      using Cons by (simp add: replicate_append_same[symmetric] flip: append_assoc)
    finally show ?thesis .
  qed
qed simp

end

definition pending_actions :: "'w cart_input \<Rightarrow> cart_input_action list" where
  "pending_actions inp = map (\<lambda>b. ACTIONS ! unat b) (take (pending_count inp) (pending_item inp))"

lemma action_code_facts:
  "action_code a < 7" "ACTIONS ! action_code a = a" "unat (of_nat (action_code a) :: u8) = action_code a"
  "a \<noteq> CART_INPUT_NONE \<Longrightarrow> 0 < action_code a" "\<not> a > CART_INPUT_QUIT" "a \<le> CART_INPUT_NONE \<longleftrightarrow> a = CART_INPUT_NONE"
  by (cases a; simp add: ACTIONS_def less_eq_cart_input_action_def less_cart_input_action_def)+

lemma enqueue_action_unfold:
  "enqueue_action a inp = (if a = CART_INPUT_NONE \<or> \<not> pending_count inp < length (pending_item inp) then inp
     else inp\<lparr>pending_item := (pending_item inp)[pending_count inp := of_nat (action_code a)],
              pending_count := pending_count inp + 1\<rparr>)"
  by (auto simp: enqueue_action_def action_code_facts)

lemma enqueue_action_frame [frame_simps]:
  "in_ops (enqueue_action a inp) = in_ops inp" "sources (enqueue_action a inp) = sources inp"
  "partial_buf (enqueue_action a inp) = partial_buf inp" "partial_len (enqueue_action a inp) = partial_len inp"
  by (simp_all add: enqueue_action_def)

interpretation pending: bounded_fifo queue_ok pending_actions enqueue_action take_action
  "\<lambda>a. a \<noteq> CART_INPUT_NONE" CART_INPUT_NONE "2 * CART_INPUT_MAX_SOURCES"
proof
  fix s :: "'w cart_input" and a as
  assume ok: "queue_ok s"
  show "length (pending_actions s) \<le> 2 * CART_INPUT_MAX_SOURCES"
    using ok by (simp add: pending_actions_def queue_ok_def)
  show "queue_ok (enqueue_action a s)"
    using ok by (auto simp: enqueue_action_unfold queue_ok_def take_Suc_conv_app_nth action_code_facts)
  show "pending_actions (enqueue_action a s)
      = take (2 * CART_INPUT_MAX_SOURCES) (pending_actions s @ (if a \<noteq> CART_INPUT_NONE then [a] else []))"
    using ok by (auto simp: enqueue_action_unfold pending_actions_def queue_ok_def take_Suc_conv_app_nth action_code_facts)
  show "take_action s = Some (CART_INPUT_NONE, s)" if "pending_actions s = []"
    using that ok by (auto simp: pending_actions_def take_action_def queue_ok_def)
  show "\<exists>t. take_action s = Some (a, t) \<and> queue_ok t \<and> pending_actions t = as" if q: "pending_actions s = a # as"
  proof -
    obtain n where n: "pending_count s = Suc n" "n < length (pending_item s)"
      using q ok by (cases "pending_count s") (auto simp: pending_actions_def queue_ok_def)
    obtain b bs where item: "pending_item s = b # bs" using n(2) by (cases "pending_item s") auto
    have b: "0 < unat b" "unat b < 7" "\<forall>x \<in> set (take n bs). 0 < unat x \<and> unat x < 7" "n \<le> length bs"
      using ok n item by (auto simp: queue_ok_def)
    let ?t = "s\<lparr>pending_item := take n bs @ drop n (b # bs), pending_count := n\<rparr>"
    have "take_action s = Some (ACTIONS ! unat b, ?t)"
      using b(2) by (simp add: take_action_def n(1) item load_def ACTIONS_def)
    moreover have "queue_ok ?t" using ok b(3,4) n item by (auto simp: queue_ok_def)
    moreover have "pending_actions ?t = as" "ACTIONS ! unat b = a"
      using q b(4) n item by (auto simp: pending_actions_def)
    ultimately show ?thesis by blast
  qed
qed

section \<open>What one event may change\<close>

text \<open>The part of \<open>wf_input\<close> that holds while a source is being pumped.\<close>

definition wf_core :: "'w cart_input \<Rightarrow> bool" where
  "wf_core inp \<longleftrightarrow> length (sources inp) = CART_INPUT_MAX_SOURCES
     \<and> (\<forall>s \<in> set (sources inp). wf_source s \<and> (src_fd s < 0 \<longleftrightarrow> src_state s = CART_INPUT_ABSENT))
     \<and> slots_distinct (sources inp) \<and> queue_ok inp
     \<and> length (partial_buf inp) = CART_INPUT_MAX_SOURCES \<and> (\<forall>b \<in> set (partial_buf inp). length b = 256)
     \<and> length (partial_len inp) = CART_INPUT_MAX_SOURCES"

definition wf_lens :: "'w cart_input \<Rightarrow> bool" where
  "wf_lens inp \<longleftrightarrow> (\<forall>i < CART_INPUT_MAX_SOURCES. partial_len inp ! i < EVENT_BYTES
     \<and> (src_fd (sources inp ! i) < 0 \<longrightarrow> partial_len inp ! i = 0))"

lemma wf_input_split: "wf_input inp \<longleftrightarrow> wf_core inp \<and> wf_lens inp"
  by (auto simp: wf_input_def wf_core_def wf_lens_def)

definition updates_only :: "nat \<Rightarrow> 'w cart_input \<Rightarrow> 'w cart_input \<Rightarrow> bool" where
  "updates_only i inp out \<longleftrightarrow> in_ops out = in_ops inp \<and> partial_buf out = partial_buf inp
     \<and> partial_len out = partial_len inp \<and> length (sources out) = length (sources inp)
     \<and> (\<forall>j. j \<noteq> i \<longrightarrow> sources out ! j = sources inp ! j) \<and> src_fd (sources out ! i) = src_fd (sources inp ! i)"

lemma updates_only_refl: "updates_only i inp inp"
  by (simp add: updates_only_def)

lemma updates_only_trans: "updates_only i a b \<Longrightarrow> updates_only i b c \<Longrightarrow> updates_only i a c"
  by (simp add: updates_only_def)

lemma slots_distinct_same_fd:
  assumes "slots_distinct ss" "src_fd s = src_fd (ss ! i)"
  shows "slots_distinct (ss[i := s])"
  unfolding slots_distinct_def length_list_update
proof (intro allI impI)
  fix a b
  assume ab: "a < length ss" "b < length ss"
    "0 \<le> src_fd (ss[i := s] ! a) \<and> src_fd (ss[i := s] ! a) = src_fd (ss[i := s] ! b)"
  have "src_fd (ss[i := s] ! k) = src_fd (ss ! k)" if "k < length ss" for k
    using that assms(2) by (auto simp: nth_update_in)
  then show "a = b" using ab assms(1) unfolding slots_distinct_def by auto
qed

lemma set_source_wf:
  assumes "wf_core inp" "i < CART_INPUT_MAX_SOURCES" "wf_source s" "src_fd s = src_fd (sources inp ! i)"
    and "src_state s = CART_INPUT_ABSENT \<longleftrightarrow> src_state (sources inp ! i) = CART_INPUT_ABSENT"
  shows "wf_core (set_source i s inp)" "updates_only i inp (set_source i s inp)"
proof -
  have old: "src_fd (sources inp ! i) < 0 \<longleftrightarrow> src_state (sources inp ! i) = CART_INPUT_ABSENT"
    using assms(1,2) by (auto simp: wf_core_def)
  show "wf_core (set_source i s inp)"
    using assms old slots_distinct_same_fd[of "sources inp" s i]
    by (auto simp: wf_core_def set_source_def queue_ok_def dest!: set_update_subset_insert[THEN subsetD])
  show "updates_only i inp (set_source i s inp)"
    using assms(1,2,4) by (simp add: updates_only_def set_source_def wf_core_def)
qed

lemma find_slot_bound: "find_slot code cs k = Some slot \<Longrightarrow> k \<le> slot \<and> slot < k + length cs"
  by (induction code cs k rule: find_slot.induct) (auto split: if_splits)

lemma axis_slot_bound: "axis_slot code = Some slot \<Longrightarrow> slot < CART_INPUT_AXIS_COUNT"
  unfolding axis_slot_def by (drule find_slot_bound) (simp add: AXIS_CODES_def)

lemma merge_keys_total:
  assumes "length state = STATE_BYTES_KEY"
  shows "\<exists>m. merge_keys state = Some m"
proof -
  have "\<exists>t. mfold (\<lambda>code merged. do { b \<leftarrow> bit_test state code; Some (merged OR push_bit code (of_bool b)) })
      [0..<64] (0 :: u64) = Some t \<and> True"
    by (rule mfold_invariant) (use assms in simp_all)
  then show ?thesis by (simp add: merge_keys_def)
qed

lemma wf_source_raw: "wf_source s \<Longrightarrow> wf_source (s\<lparr>src_last_raw := (src_last_raw s)[slot := v]\<rparr>)"
  by (simp add: wf_source_def)

lemma wf_source_keys: "wf_source s \<Longrightarrow> wf_source (s\<lparr>src_held_keys := k\<rparr>)"
  by (simp add: wf_source_def)

lemma wf_source_state: "wf_source s \<Longrightarrow> wf_source (s\<lparr>src_state := st\<rparr>)"
  by (simp add: wf_source_def)

context input_ops
begin

lemma resync_slots_total:
  assumes "wf_source s" "queries_keep \<phi> ops" "\<forall>slot \<in> set slots. slot < CART_INPUT_AXIS_COUNT"
  shows "\<exists>t w'. mfold (resync_slot ops fd) slots (s, w) = Some (t, w') \<and> wf_source t \<and> same_identity s t
    \<and> src_held_keys t = src_held_keys s \<and> \<phi> w' = \<phi> w"
  using assms(1,3)
proof (induction slots arbitrary: s w)
  case Nil
  then show ?case by (simp add: same_identity_def)
next
  case (Cons slot slots)
  obtain f where f: "op_ioctl_abs ops = Ptr f" using all_set by (metis ptr.exhaust)
  obtain a w1 where 1: "f fd (AXIS_CODES ! slot) w = (a, w1)" by (metis prod.exhaust)
  have slot: "slot < length (src_axis_valid s)" using Cons.prems by (simp add: wf_source_def)
  obtain s1 w2 where 2: "resync_slot ops fd slot (s, w) = Some (s1, w2)" "wf_source s1" "same_identity s s1"
      "src_held_keys s1 = src_held_keys s" "\<phi> w2 = \<phi> w"
    using Cons.prems(1) slot queries_keepD(4)[OF assms(2) f 1]
    by (cases "src_axis_valid s ! slot"; cases a)
      (auto simp: resync_slot_def f 1 same_identity_def wf_source_raw)
  obtain t w' where "mfold (resync_slot ops fd) slots (s1, w2) = Some (t, w')" "wf_source t" "same_identity s1 t"
      "src_held_keys t = src_held_keys s1" "\<phi> w' = \<phi> w2"
    using Cons.IH[of s1 w2] Cons.prems 2(2) by auto
  then show ?case using 2 by (auto simp: same_identity_def)
qed

lemma resync_total:
  assumes "wf_core inp" "i < CART_INPUT_MAX_SOURCES" "in_ops inp = Ptr ops" "queries_keep \<phi> ops"
  shows "\<exists>out w'. resync_after_desync i inp w = Some (out, w') \<and> wf_core out \<and> updates_only i inp out \<and> \<phi> w' = \<phi> w
    \<and> src_state (sources out ! i) = src_state (sources inp ! i)"
proof -
  let ?s = "sources inp ! i"
  have s: "i < length (sources inp)" "wf_source ?s" using assms(1,2) by (auto simp: wf_core_def)
  obtain f where f: "op_ioctl_key_state ops = Ptr f" using all_set by (metis ptr.exhaust)
  obtain got st w1 where 1: "f (src_fd ?s) STATE_BYTES_KEY w = ((got, st), w1)" by (metis prod.exhaust)
  obtain m where m: "0 \<le> got \<Longrightarrow> merge_keys st = Some m"
    using keys_full[OF f 1] merge_keys_total by (cases "0 \<le> got") auto
  let ?t = "if 0 \<le> got then ?s\<lparr>src_held_keys := m\<rparr> else ?s"
  have t: "wf_source ?t" "same_identity ?s ?t" using s(2) by (simp_all add: wf_source_keys same_identity_def)
  obtain u w2 where 2: "mfold (resync_slot ops (src_fd ?s)) [0..<CART_INPUT_AXIS_COUNT] (?t, w1) = Some (u, w2)"
      "wf_source u" "same_identity ?t u" "\<phi> w2 = \<phi> w1"
    using resync_slots_total[OF t(1) assms(4), of "[0..<CART_INPUT_AXIS_COUNT]" "src_fd ?s" w1] by auto
  have "resync_after_desync i inp w = Some (set_source i u inp, w2)"
    using s(1) 1 m 2(1) assms(3) f by (simp add: resync_after_desync_def del: upt.simps mfold.simps split: if_splits)
  moreover have "src_fd u = src_fd ?s" "src_state u = src_state ?s" using 2(3) t(2) by (simp_all add: same_identity_def)
  ultimately show ?thesis
    using set_source_wf[OF assms(1,2) 2(2)] 2(4) queries_keepD(2)[OF assms(4) f 1] s(1)
    by (auto simp: set_source_def)
qed

end

lemma process_key_event_total:
  assumes "wf_core inp" "i < CART_INPUT_MAX_SOURCES"
  shows "\<exists>out. process_key_event i code v inp = Some out \<and> wf_core out \<and> updates_only i inp out"
proof -
  let ?s = "sources inp ! i"
  have s: "i < length (sources inp)" "wf_source ?s" using assms by (auto simp: wf_core_def)
  let ?t = "if unat code < 64 then
        (if v \<noteq> 0 then ?s\<lparr>src_held_keys := src_held_keys ?s OR push_bit (unat code) 1\<rparr>
         else ?s\<lparr>src_held_keys := src_held_keys ?s AND NOT (push_bit (unat code) 1)\<rparr>)
        else ?s"
  have t: "wf_source ?t" "src_fd ?t = src_fd ?s" "src_state ?t = src_state ?s"
    using s(2) by (simp_all add: wf_source_keys)
  note set = set_source_wf[OF assms t(1,2)] 
  have "wf_core (enqueue_action a x)" if "wf_core x" for a and x :: "'a cart_input"
    using that pending.push_ok[of x a] by (simp add: wf_core_def frame_simps)
  moreover have "updates_only i inp (enqueue_action a x)" if "updates_only i inp x" for a x
    using that by (simp add: updates_only_def frame_simps)
  ultimately show ?thesis using set t(3) s(1) by (auto simp: process_key_event_def Let_def)
qed

context input_ops
begin

lemma consume_event_total:
  assumes wf: "wf_core inp" and i: "i < CART_INPUT_MAX_SOURCES" and ops: "in_ops inp = Ptr ops"
    and keep: "queries_keep \<phi> ops"
  shows "\<exists>out w'. consume_event i ev inp w = Some (out, w') \<and> wf_core out \<and> updates_only i inp out \<and> \<phi> w' = \<phi> w"
proof -
  let ?s = "sources inp ! i"
  have s: "i < length (sources inp)" "wf_source ?s" using wf i by (auto simp: wf_core_def)
  have idle: "consume_event i ev inp w = Some (inp, w)"
    if "\<not> (ev_type ev = 0 \<and> ev_code ev = 3 \<and> src_state ?s = CART_INPUT_CONNECTED)"
      "\<not> (ev_type ev = 0 \<and> ev_code ev = 0 \<and> src_state ?s = CART_INPUT_DESYNC)"
      "\<not> (ev_type ev = 1 \<and> src_state ?s = CART_INPUT_CONNECTED)"
      "\<not> (ev_type ev = 3 \<and> axis_slot (unat (ev_code ev)) \<noteq> None \<and> src_state ?s = CART_INPUT_CONNECTED)"
    using s(1) that by (auto simp: consume_event_def split: option.splits)
  consider (drop) "ev_type ev = 0" "ev_code ev = 3" "src_state ?s = CART_INPUT_CONNECTED"
    | (report) "ev_type ev = 0" "ev_code ev = 0" "src_state ?s = CART_INPUT_DESYNC"
    | (key) "ev_type ev = 1" "src_state ?s = CART_INPUT_CONNECTED"
    | (abs) slot where "ev_type ev = 3" "axis_slot (unat (ev_code ev)) = Some slot" "src_state ?s = CART_INPUT_CONNECTED"
    | (none) "consume_event i ev inp w = Some (inp, w)"
    using idle by blast
  then show ?thesis
  proof cases
    case drop
    then show ?thesis
      using s set_source_wf[OF wf i wf_source_state[OF s(2), of CART_INPUT_DESYNC]] by (simp add: consume_event_def)
  next
    case report
    obtain mid w1 where 1: "resync_after_desync i inp w = Some (mid, w1)" "wf_core mid" "updates_only i inp mid"
        "\<phi> w1 = \<phi> w" "src_state (sources mid ! i) = src_state ?s"
      using resync_total[OF wf i ops keep] by blast
    have m: "i < length (sources mid)" "wf_source (sources mid ! i)" using 1(2) i by (auto simp: wf_core_def)
    show ?thesis
      using report s 1 m set_source_wf[OF 1(2) i wf_source_state[OF m(2), of CART_INPUT_CONNECTED]]
      by (auto simp: consume_event_def intro: updates_only_trans)
  next
    case key
    then show ?thesis using s process_key_event_total[OF wf i, of "ev_code ev" "ev_value ev"]
      by (auto simp: consume_event_def)
  next
    case (abs slot)
    then show ?thesis
      using s set_source_wf[OF wf i wf_source_raw[OF s(2), of slot "ev_value ev"]] by (simp add: consume_event_def)
  next
    case none
    then show ?thesis using wf updates_only_refl by auto
  qed
qed

end

end
