(* ===== verification/Input_Read_Loop.thy ===== *)
theory Input_Read_Loop
  imports Input_Poll
begin

text \<open>
  The read loop \<open>pump_source\<close>: it hands exactly the whole events of the byte stream to
  \<open>consume_event\<close>, it returns for every device that runs dry, and it keeps the state well formed and
  the descriptors accounted for.
\<close>

section \<open>Events in a byte stream\<close>

fun split_events :: "u8 list \<Rightarrow> input_event list \<times> u8 list" where
  "split_events bs = (if length bs < EVENT_BYTES then ([], bs)
     else map_prod (Cons (decode_event (take EVENT_BYTES bs))) id (split_events (drop EVENT_BYTES bs)))"

declare split_events.simps [simp del]

definition consume_events :: "nat \<Rightarrow> input_event list \<Rightarrow> 'w cart_input \<times> 'w \<Rightarrow> ('w cart_input \<times> 'w) option" where
  "consume_events i = mfold (\<lambda>ev (inp, w). consume_event i ev inp w)"

definition with_partial :: "u8 list list \<Rightarrow> nat list \<Rightarrow> 'w cart_input \<Rightarrow> 'w cart_input" where
  "with_partial pb pl inp = inp\<lparr>partial_buf := pb, partial_len := pl\<rparr>"

lemma with_partial_simps [simp]:
  "in_ops (with_partial pb pl inp) = in_ops inp" "sources (with_partial pb pl inp) = sources inp"
  "pending_count (with_partial pb pl inp) = pending_count inp" "pending_item (with_partial pb pl inp) = pending_item inp"
  "partial_buf (with_partial pb pl inp) = pb" "partial_len (with_partial pb pl inp) = pl"
  "with_partial pb pl (with_partial pb' pl' inp) = with_partial pb pl inp"
  "with_partial (partial_buf inp) (partial_len inp) inp = inp"
  "set_source i s (with_partial pb pl inp) = with_partial pb pl (set_source i s inp)"
  "enqueue_action a (with_partial pb pl inp) = with_partial pb pl (enqueue_action a inp)"
  by (simp_all add: with_partial_def set_source_def enqueue_action_def)

lemma consume_event_with_partial:
  "consume_event i ev (with_partial pb pl inp) w =
     map_option (map_prod (with_partial pb pl) id) (consume_event i ev inp w)"
proof -
  have key: "process_key_event i c v (with_partial pb pl inp) = map_option (with_partial pb pl) (process_key_event i c v inp)" for c v
    by (simp add: process_key_event_def Let_def load_def)
  have res: "resync_after_desync i (with_partial pb pl inp) w
      = map_option (map_prod (with_partial pb pl) id) (resync_after_desync i inp w)"
    by (simp add: resync_after_desync_def Let_def load_def map_option_bind split: prod.splits option.splits Option.bind_splits)
  show ?thesis
    by (auto simp: consume_event_def key res load_def split: option.splits Option.bind_splits)
qed

lemma consume_events_with_partial:
  "consume_events i evs (with_partial pb pl inp, w) =
     map_option (map_prod (with_partial pb pl) id) (consume_events i evs (inp, w))"
proof (induction evs arbitrary: inp w)
  case (Cons ev evs)
  then show ?case
    by (cases "consume_event i ev inp w") (auto simp: consume_events_def consume_event_with_partial)
qed (simp add: consume_events_def)

lemma split_events_short: "length bs < EVENT_BYTES \<Longrightarrow> split_events bs = ([], bs)"
  by (simp add: split_events.simps)

lemma split_events_step:
  "EVENT_BYTES \<le> length bs \<Longrightarrow> split_events bs =
     (decode_event (take EVENT_BYTES bs) # fst (split_events (drop EVENT_BYTES bs)), snd (split_events (drop EVENT_BYTES bs)))"
  by (subst split_events.simps) (simp add: map_prod_def split_beta)

lemma split_events_rest: "length (snd (split_events bs)) < EVENT_BYTES" "length (snd (split_events bs)) \<le> length bs"
  by (induction bs rule: split_events.induct)
    (metis linorder_not_less snd_conv split_events_short split_events_step,
     metis (no_types, lifting) diff_le_self le_trans length_drop linorder_not_less order_refl snd_conv split_events_short split_events_step)

lemma split_events_append:
  "split_events (bs @ cs) = (fst (split_events bs) @ fst (split_events (snd (split_events bs) @ cs)),
      snd (split_events (snd (split_events bs) @ cs)))"
proof (induction bs rule: split_events.induct)
  case (1 bs)
  show ?case
  proof (cases "length bs < EVENT_BYTES")
    case True
    then show ?thesis by (simp add: split_events_short[OF True])
  next
    case False
    then show ?thesis using 1[OF False]
      by (simp add: split_events_step[of bs] split_events_step[of "bs @ cs"])
  qed
qed

lemma wf_core_partial:
  "wf_core inp \<Longrightarrow> length buf = 256 \<Longrightarrow> wf_core (with_partial ((partial_buf inp)[i := buf]) ((partial_len inp)[i := n]) inp)"
  by (auto simp: wf_core_def queue_ok_def dest!: set_update_subset_insert[THEN subsetD])

context input_ops
begin

lemma consume_events_total:
  assumes "wf_core inp" "i < CART_INPUT_MAX_SOURCES" "in_ops inp = Ptr ops" "queries_keep \<phi> ops"
  shows "\<exists>out w'. consume_events i evs (inp, w) = Some (out, w') \<and> wf_core out \<and> updates_only i inp out \<and> \<phi> w' = \<phi> w"
  using assms(1,3)
proof (induction evs arbitrary: inp w)
  case Nil
  then show ?case using updates_only_refl by (auto simp: consume_events_def)
next
  case (Cons ev evs)
  obtain mid w1 where 1: "consume_event i ev inp w = Some (mid, w1)" "wf_core mid" "updates_only i inp mid" "\<phi> w1 = \<phi> w"
    using consume_event_total[OF Cons.prems(1) assms(2) Cons.prems(2) assms(4)] by blast
  then have "in_ops mid = Ptr ops" using Cons.prems(2) by (simp add: updates_only_def)
  then obtain out w2 where "consume_events i evs (mid, w1) = Some (out, w2)" "wf_core out" "updates_only i mid out" "\<phi> w2 = \<phi> w1"
    using Cons.IH[OF 1(2)] by blast
  then show ?case using 1 updates_only_trans by (auto simp: consume_events_def)
qed

text \<open>The inner loop consumes the whole events of the buffer in order and moves the rest to its front.\<close>

lemma drain_events_spec:
  assumes "wf_core inp" "i < CART_INPUT_MAX_SOURCES" "in_ops inp = Ptr ops" "queries_keep \<phi> ops"
    and "partial_len inp ! i \<le> 256"
    and "split_events (take (partial_len inp ! i) (partial_buf inp ! i)) = (es, r)"
  shows "\<exists>mid w' buf. consume_events i es (inp, w) = Some (mid, w')
    \<and> drain_events i inp w = Some (with_partial ((partial_buf inp)[i := buf]) ((partial_len inp)[i := length r]) mid, w')
    \<and> length buf = 256 \<and> take (length r) buf = r"
  using assms(1,3,5,6)
proof (induction "partial_len inp ! i" arbitrary: inp w es rule: less_induct)
  case less
  let ?L = "partial_len inp ! i" and ?B = "partial_buf inp ! i"
  have in_range: "i < length (partial_buf inp)" "i < length (partial_len inp)" "length ?B = 256"
    using less.prems(1) assms(2) by (auto simp: wf_core_def)
  show ?case
  proof (cases "?L < EVENT_BYTES")
    case True
    then have "es = []" "r = take ?L ?B" using less.prems(3,4) in_range(3) by (auto simp: split_events_short)
    moreover have "drain_events i inp w = Some (inp, w)"
      using True in_range by (subst drain_events.simps) simp
    moreover have "with_partial ((partial_buf inp)[i := ?B]) ((partial_len inp)[i := ?L]) inp = inp" by simp
    ultimately show ?thesis using in_range less.prems(3)
      by (intro exI[of _ inp] exI[of _ w] exI[of _ ?B]) (simp add: consume_events_def)
  next
    case False
    let ?ev = "decode_event (take EVENT_BYTES ?B)"
    let ?B1 = "take (?L - EVENT_BYTES) (drop EVENT_BYTES ?B) @ drop (?L - EVENT_BYTES) ?B"
    let ?pb = "(partial_buf inp)[i := ?B1]" and ?pl = "(partial_len inp)[i := ?L - EVENT_BYTES]"
    have "split_events (take ?L ?B) = (?ev # fst (split_events (drop EVENT_BYTES (take ?L ?B))), snd (split_events (drop EVENT_BYTES (take ?L ?B))))"
      using split_events_step[of "take ?L ?B"] False in_range(3) less.prems(3) by (simp add: min_def)
    then obtain es1 where es1: "split_events (take (?L - EVENT_BYTES) (drop EVENT_BYTES ?B)) = (es1, r)" "es = ?ev # es1"
      using less.prems(4) by (simp add: drop_take prod_eq_iff)
    obtain mid w1 where 1: "consume_event i ?ev inp w = Some (mid, w1)" "wf_core mid" "updates_only i inp mid"
      using consume_event_total[OF less.prems(1) assms(2) less.prems(2) assms(4)] by blast
    let ?m = "with_partial ?pb ?pl mid"
    have step: "drain_events i inp w = drain_events i ?m w1"
      using False in_range less.prems(3) 1(1)
      by (subst drain_events.simps)
        (simp add: Let_def consume_event_with_partial flip: with_partial_def)
    have "length ?B1 = 256" using in_range(3) less.prems(3) False by simp
    then have m: "wf_core ?m" "in_ops ?m = Ptr ops" "partial_len ?m ! i = ?L - EVENT_BYTES" "partial_buf ?m ! i = ?B1"
      using wf_core_partial[OF 1(2), of ?B1 i] 1(3) less.prems(2) in_range by (simp_all add: updates_only_def)
    have pre: "take (?L - EVENT_BYTES) ?B1 = take (?L - EVENT_BYTES) (drop EVENT_BYTES ?B)"
      using in_range(3) less.prems(3) by simp
    have "partial_len ?m ! i < ?L" "partial_len ?m ! i \<le> 256" using m(3) False less.prems(3) by simp_all
    from less.hyps[OF this(1) m(1,2) this(2), of es1 w1] obtain mid2 w2 buf where
      2: "consume_events i es1 (?m, w1) = Some (mid2, w2)" "length buf = 256" "take (length r) buf = r"
      "drain_events i ?m w1 = Some (with_partial (?pb[i := buf]) (?pl[i := length r]) mid2, w2)"
      using m(3,4) pre es1(1) by auto
    from 2(1) obtain mid3 where 3: "consume_events i es1 (mid, w1) = Some (mid3, w2)" "mid2 = with_partial ?pb ?pl mid3"
      unfolding consume_events_with_partial by auto
    have "consume_events i es (inp, w) = Some (mid3, w2)" using 1(1) 3(1) by (simp add: es1(2) consume_events_def)
    then show ?thesis using 2(2,3,4) 3(2) step by auto
  qed
qed

end

lemma updates_only_owned: "updates_only i inp out \<Longrightarrow> owned (sources out) = owned (sources inp)"
proof -
  assume u: "updates_only i inp out"
  then have "\<forall>k. src_fd (sources out ! k) = src_fd (sources inp ! k)" "length (sources out) = length (sources inp)"
    unfolding updates_only_def by metis+
  then show ?thesis unfolding owned_nth by simp
qed

lemma updates_only_accounts: "updates_only i inp out \<Longrightarrow> opened v = opened w \<Longrightarrow> accounts opened base inp w \<Longrightarrow> accounts opened base out v"
  using updates_only_owned[of i inp out] by (simp add: accounts_def)

text \<open>One turn of the outer loop: the buffered events are consumed, then one \<open>read\<close> decides.\<close>

context input_ops
begin

lemma pump_source_turn:
  assumes "wf_core inp" "i < CART_INPUT_MAX_SOURCES" "in_ops inp = Ptr ops" "queries_keep \<phi> ops"
    and "partial_len inp ! i \<le> 256" "op_read ops = Ptr f"
    and "split_events (take (partial_len inp ! i) (partial_buf inp ! i)) = (es, r)"
  obtains mid w1 buf d where
    "consume_events i es (inp, w) = Some (mid, w1)" "wf_core mid" "updates_only i inp mid" "\<phi> w1 = \<phi> w"
    "length buf = 256" "take (length r) buf = r"
    "d = with_partial ((partial_buf inp)[i := buf]) ((partial_len inp)[i := length r]) mid" "wf_core d"
    "pump_source i inp w = (case f (src_fd (sources inp ! i)) (256 - length r) w1 of (got, w2) \<Rightarrow>
       (case got of
          Got bytes \<Rightarrow>
            if bytes = [] then handle_disconnect i d w2
            else if 256 < length r + length bytes then None
            else pump_source i (with_partial ((partial_buf inp)[i := r @ bytes @ drop (length r + length bytes) buf])
                                  ((partial_len inp)[i := length r + length bytes]) mid) w2
        | Failed e \<Rightarrow>
            if e = EINTR then pump_source i d w2
            else if e = EAGAIN then Some (d, w2)
            else handle_disconnect i d w2))"
proof -
  obtain mid w1 buf where 1: "consume_events i es (inp, w) = Some (mid, w1)" "length buf = 256" "take (length r) buf = r"
    "drain_events i inp w = Some (with_partial ((partial_buf inp)[i := buf]) ((partial_len inp)[i := length r]) mid, w1)"
    using drain_events_spec[OF assms(1-5,7)] by blast
  let ?d = "with_partial ((partial_buf inp)[i := buf]) ((partial_len inp)[i := length r]) mid"
  obtain mid' w1' where 2: "consume_events i es (inp, w) = Some (mid', w1')" "wf_core mid'" "updates_only i inp mid'" "\<phi> w1' = \<phi> w"
    using consume_events_total[OF assms(1-4)] by blast
  have mid: "wf_core mid" "updates_only i inp mid" "\<phi> w1 = \<phi> w" using 1(1) 2 by auto
  have d: "wf_core ?d" using wf_core_partial[OF mid(1) 1(2), of i "length r"] mid(2) by (simp add: updates_only_def)
  have in_range: "i < length (partial_buf inp)" "i < length (partial_len inp)" "i < length (sources mid)"
    using assms(1,2) mid(1) by (auto simp: wf_core_def)
  have d_facts: "in_ops ?d = Ptr ops" "sources ?d ! i = sources mid ! i" "src_fd (sources mid ! i) = src_fd (sources inp ! i)"
    using mid(2) assms(3) by (simp_all add: updates_only_def)
  have copy: "memcpy_at buf (length r) bytes (length bytes) =
      (if 256 < length r + length bytes then None else Some (r @ bytes @ drop (length r + length bytes) buf))" for bytes
    using 1(2,3) by (simp add: memcpy_at_def)
  have "pump_source i inp w = (case f (src_fd (sources inp ! i)) (256 - length r) w1 of (got, w2) \<Rightarrow>
       (case got of
          Got bytes \<Rightarrow>
            if bytes = [] then handle_disconnect i ?d w2
            else if 256 < length r + length bytes then None
            else pump_source i (with_partial ((partial_buf inp)[i := r @ bytes @ drop (length r + length bytes) buf])
                                  ((partial_len inp)[i := length r + length bytes]) mid) w2
        | Failed e \<Rightarrow>
            if e = EINTR then pump_source i ?d w2
            else if e = EAGAIN then Some (?d, w2)
            else handle_disconnect i ?d w2))"
    using in_range 1(2) d_facts assms(6)
    by (subst pump_source.simps)
      (simp add: 1(4) copy with_partial_def[symmetric] split: prod.splits read_result.splits)
  then show thesis using that[OF 1(1) mid 1(2,3) refl d] by blast
qed

end

section \<open>The read loop ends and keeps the state well formed\<close>

text \<open>A \<open>read\<close> never returns more than it was asked for, and data and interruptions run out: some
  measure of the world falls with every read that does not end the loop.\<close>

definition runs_dry :: "('w \<Rightarrow> nat) \<Rightarrow> 'w cart_input_ops \<Rightarrow> bool" where
  "runs_dry m ops \<longleftrightarrow> queries_keep m ops
     \<and> (\<forall>f fd n w. op_read ops = Ptr f \<longrightarrow>
          (case f fd n w of (r, w') \<Rightarrow>
             (case r of Got bs \<Rightarrow> length bs \<le> n \<and> (bs \<noteq> [] \<longrightarrow> m w' < m w) | Failed e \<Rightarrow> e = EINTR \<longrightarrow> m w' < m w)))"

lemma runs_dryD:
  assumes "runs_dry m ops" "op_read ops = Ptr f" "f fd n w = (r, w')"
  shows "case r of Got bs \<Rightarrow> length bs \<le> n \<and> (bs \<noteq> [] \<longrightarrow> m w' < m w) | Failed e \<Rightarrow> e = EINTR \<longrightarrow> m w' < m w"
proof -
  have "case f fd n w of (r, w') \<Rightarrow>
      (case r of Got bs \<Rightarrow> length bs \<le> n \<and> (bs \<noteq> [] \<longrightarrow> m w' < m w) | Failed e \<Rightarrow> e = EINTR \<longrightarrow> m w' < m w)"
    using assms(1,2) unfolding runs_dry_def by simp
  then show ?thesis by (simp add: assms(3))
qed

definition pumped :: "nat \<Rightarrow> 'w cart_input \<Rightarrow> 'w cart_input \<Rightarrow> bool" where
  "pumped i inp out \<longleftrightarrow> wf_core out \<and> in_ops out = in_ops inp
     \<and> partial_len out ! i < EVENT_BYTES \<and> (src_fd (sources out ! i) < 0 \<longrightarrow> partial_len out ! i = 0)
     \<and> (\<forall>j. j \<noteq> i \<longrightarrow> sources out ! j = sources inp ! j \<and> partial_len out ! j = partial_len inp ! j)"

lemma pumped_wf_input: "wf_input inp \<Longrightarrow> pumped i inp out \<Longrightarrow> wf_input out"
  unfolding wf_input_split wf_lens_def pumped_def by metis

definition resumed :: "'w cart_input_ops \<Rightarrow> nat \<Rightarrow> 'w cart_input \<Rightarrow> 'w \<Rightarrow> 'w cart_input \<Rightarrow> 'w \<Rightarrow> bool" where
  "resumed ops i inp w e v \<longleftrightarrow> wf_core e \<and> in_ops e = in_ops inp \<and> partial_len e ! i \<le> 256
     \<and> (\<forall>j. j \<noteq> i \<longrightarrow> sources e ! j = sources inp ! j \<and> partial_len e ! j = partial_len inp ! j)
     \<and> src_fd (sources e ! i) = src_fd (sources inp ! i) \<and> owned (sources e) = owned (sources inp)
     \<and> (\<forall>opened. fd_ledger opened ops \<longrightarrow> opened v = opened w)"

lemma resumed_accounts:
  assumes "resumed ops i inp w e v" "fd_ledger opened ops" "accounts opened base inp w"
  shows "accounts opened base e v"
proof -
  have "opened v = opened w" using assms(1,2) unfolding resumed_def by blast
  then show ?thesis using assms(1,3) by (simp add: resumed_def accounts_def)
qed

context input_ops
begin

lemma handle_disconnect_spec:
  assumes "wf_core inp" "i < CART_INPUT_MAX_SOURCES" "in_ops inp = Ptr ops"
  shows "\<exists>out w'. handle_disconnect i inp w = Some (out, w') \<and> wf_core out \<and> in_ops out = in_ops inp
    \<and> src_fd (sources out ! i) = - 1 \<and> src_state (sources out ! i) = CART_INPUT_ABSENT
    \<and> src_held_keys (sources out ! i) = 0 \<and> partial_len out ! i = 0
    \<and> src_generation (sources out ! i) = src_generation (sources inp ! i) + 1
    \<and> (\<forall>j. j \<noteq> i \<longrightarrow> sources out ! j = sources inp ! j \<and> partial_len out ! j = partial_len inp ! j)
    \<and> (\<forall>opened base. fd_ledger opened ops \<and> accounts opened base inp w \<longrightarrow> accounts opened base out w')"
proof -
  let ?s = "sources inp ! i"
  let ?t = "?s\<lparr>src_fd := - 1, src_state := CART_INPUT_ABSENT, src_generation := src_generation ?s + 1,
     src_last_raw := replicate CART_INPUT_AXIS_COUNT 0, src_held_keys := 0\<rparr>"
  have in_range: "i < length (sources inp)" "i < length (partial_len inp)" "wf_source ?s" "slots_distinct (sources inp)"
    using assms(1,2) by (auto simp: wf_core_def)
  obtain f where f: "op_close ops = Ptr f" using all_set by (metis ptr.exhaust)
  let ?out = "(set_source i ?t inp)\<lparr>partial_len := (partial_len inp)[i := 0]\<rparr>"
  let ?w = "if src_fd ?s \<ge> 0 then snd (f (src_fd ?s) w) else w"
  have "handle_disconnect i inp w = Some (?out, ?w)"
    using in_range assms(3) f by (simp add: handle_disconnect_def)
  moreover have "wf_core ?out"
    using assms(1) in_range slots_distinct_drop[OF in_range(4), of ?t i]
    by (auto simp: wf_core_def set_source_def queue_ok_def wf_source_def
        dest!: set_update_subset_insert[THEN subsetD])
  moreover have "accounts opened base ?out ?w" if "fd_ledger opened ops" "accounts opened base inp w" for opened base
  proof -
    have own: "owned (sources ?out) = owned (sources inp) - {src_fd ?s}"
      using owned_drop[OF in_range(1,4), of ?t] by (simp add: set_source_def)
    have "src_fd ?s \<notin> base" if "0 \<le> src_fd ?s"
      using that \<open>accounts opened base inp w\<close> ownedI[OF in_range(1) refl] by (auto simp: accounts_def)
    then show ?thesis using that own fd_ledgerD(4)[OF that(1) f, of "src_fd ?s" w]
      by (auto simp: accounts_def owned_def)
  qed
  ultimately show ?thesis using in_range by (auto simp: set_source_def)
qed

text \<open>One turn either ends the loop, in a state that differs from the first one only in the source it
  pumped, or goes on from such a state with a smaller measure.\<close>

lemma pump_source_outcome:
  assumes "runs_dry m ops" "wf_core inp" "i < CART_INPUT_MAX_SOURCES" "in_ops inp = Ptr ops" "partial_len inp ! i \<le> 256"
  obtains (stop) e v where "resumed ops i inp w e v" "partial_len e ! i < EVENT_BYTES" "pump_source i inp w = Some (e, v)"
  | (gone) e v where "resumed ops i inp w e v" "pump_source i inp w = handle_disconnect i e v"
  | (again) e v where "resumed ops i inp w e v" "m v < m w" "pump_source i inp w = pump_source i e v"
proof -
  obtain f where f: "op_read ops = Ptr f" using all_set by (metis ptr.exhaust)
  obtain es r where es: "split_events (take (partial_len inp ! i) (partial_buf inp ! i)) = (es, r)" by (metis prod.exhaust)
  have r: "length r < EVENT_BYTES" using split_events_rest(1)[of "take (partial_len inp ! i) (partial_buf inp ! i)"] es by simp
  define \<phi> where "\<phi> v = (m v, {(opened, opened v) | opened. fd_ledger opened ops})" for v
  have keep: "queries_keep \<phi> ops"
    using assms(1) fd_ledgerD(1) unfolding \<phi>_def runs_dry_def queries_keep_def by fastforce
  obtain mid w1 buf d where turn:
      "consume_events i es (inp, w) = Some (mid, w1)" "wf_core mid" "updates_only i inp mid" "\<phi> w1 = \<phi> w"
      "length buf = 256" "take (length r) buf = r"
      "d = with_partial ((partial_buf inp)[i := buf]) ((partial_len inp)[i := length r]) mid" "wf_core d"
      "pump_source i inp w = (case f (src_fd (sources inp ! i)) (256 - length r) w1 of (got, w2) \<Rightarrow>
         (case got of Got bytes \<Rightarrow> if bytes = [] then handle_disconnect i d w2
            else if 256 < length r + length bytes then None
            else pump_source i (with_partial ((partial_buf inp)[i := r @ bytes @ drop (length r + length bytes) buf])
                                  ((partial_len inp)[i := length r + length bytes]) mid) w2
          | Failed e \<Rightarrow> if e = EINTR then pump_source i d w2
            else if e = EAGAIN then Some (d, w2) else handle_disconnect i d w2))"
    by (rule pump_source_turn[OF assms(2-4) keep assms(5) f es])
  obtain got w2 where read: "f (src_fd (sources inp ! i)) (256 - length r) w1 = (got, w2)" by (metis prod.exhaust)
  have "m w1 = m w" using turn(4) by (simp add: \<phi>_def)
  have opened: "opened w2 = opened w" if "fd_ledger opened ops" for opened
    using turn(4) fd_ledgerD(5)[OF that f read] that unfolding \<phi>_def by blast
  have len: "length (partial_len inp) = CART_INPUT_MAX_SOURCES" using assms(2) by (simp add: wf_core_def)
  have next_state: "resumed ops i inp w (with_partial ((partial_buf inp)[i := b]) ((partial_len inp)[i := n]) mid) w2"
    if "length b = 256" "n \<le> 256" for b n
    using wf_core_partial[OF turn(2) that(1), of i n] turn(3) updates_only_owned[OF turn(3)] opened that(2) len assms(3)
    by (simp add: resumed_def updates_only_def)
  have d: "resumed ops i inp w d w2" "partial_len d ! i = length r"
    using next_state[OF turn(5), of "length r"] r len assms(3) by (simp_all add: turn(7))
  have dry: "case got of Got bs \<Rightarrow> length bs \<le> 256 - length r \<and> (bs \<noteq> [] \<longrightarrow> m w2 < m w1) | Failed e \<Rightarrow> e = EINTR \<longrightarrow> m w2 < m w1"
    using runs_dryD[OF assms(1) f read] .
  show thesis
  proof (cases got)
    case (Got bytes)
    show thesis
    proof (cases "bytes = []")
      case True
      then show thesis using gone[OF d(1)] turn(9) read Got by simp
    next
      case False
      have "length r + length bytes \<le> 256" "m w2 < m w" using dry Got False r \<open>m w1 = m w\<close> by auto
      then show thesis using again[OF next_state[of "r @ bytes @ drop (length r + length bytes) buf" "length r + length bytes"]]
          turn(5,9) read Got False by simp
    qed
  next
    case (Failed e)
    then show thesis
      using gone[OF d(1)] stop[OF d(1)] again[OF d(1)] turn(9) read dry r d(2) \<open>m w1 = m w\<close>
      by (cases "e = EINTR"; cases "e = EAGAIN") simp_all
  qed
qed

lemma pump_source_total:
  assumes "runs_dry m ops" "wf_core inp" "i < CART_INPUT_MAX_SOURCES" "in_ops inp = Ptr ops"
    and "partial_len inp ! i \<le> 256" "0 \<le> src_fd (sources inp ! i)"
  shows "\<exists>out w'. pump_source i inp w = Some (out, w') \<and> pumped i inp out
    \<and> (\<forall>opened base. fd_ledger opened ops \<and> accounts opened base inp w \<longrightarrow> accounts opened base out w')"
  using assms(2,4-6)
proof (induction "m w" arbitrary: inp w rule: less_induct)
  case less
  from assms(1) less.prems(1) assms(3) less.prems(2,3) show ?case
  proof (cases rule: pump_source_outcome[where w = w])
    case (stop e v)
    then show ?thesis using less.prems(4) by (auto simp: resumed_def pumped_def accounts_def)
  next
    case (gone e v)
    then have "wf_core e" "in_ops e = Ptr ops" using less.prems(2) by (simp_all add: resumed_def)
    from handle_disconnect_spec[OF this(1) assms(3) this(2), of v] obtain out w' where
      out: "handle_disconnect i e v = Some (out, w')" "pumped i e out"
        "\<forall>opened base. fd_ledger opened ops \<and> accounts opened base e v \<longrightarrow> accounts opened base out w'"
      unfolding pumped_def by auto
    have "pumped i inp out" using out(2) gone(1) by (simp add: resumed_def pumped_def)
    moreover have "accounts opened base e v" if "fd_ledger opened ops" "accounts opened base inp w" for opened base
      using resumed_accounts[OF gone(1)] that .
    ultimately show ?thesis using out gone(2) by auto
  next
    case (again e v)
    have "accounts opened base e v" if "fd_ledger opened ops" "accounts opened base inp w" for opened base
      using resumed_accounts[OF again(1)] that .
    moreover have "\<exists>out w'. pump_source i e v = Some (out, w') \<and> pumped i e out
        \<and> (\<forall>opened base. fd_ledger opened ops \<and> accounts opened base e v \<longrightarrow> accounts opened base out w')"
      using again less.prems by (intro less.hyps) (simp_all add: resumed_def)
    moreover have "pumped i inp out" if "pumped i e out" for out using that again(1) by (simp add: resumed_def pumped_def)
    ultimately show ?thesis unfolding again(3) by blast
  qed
qed

end

section \<open>A device as a byte stream\<close>

text \<open>The answers to the state queries neither depend on the world nor change it.\<close>

definition answers_fixed :: "'w cart_input_ops \<Rightarrow> bool" where
  "answers_fixed ops \<longleftrightarrow>
     (\<forall>f. op_ioctl_key_state ops = Ptr f \<longrightarrow> (\<exists>a. \<forall>fd n w. f fd n w = (a fd n, w)))
     \<and> (\<forall>f. op_ioctl_abs ops = Ptr f \<longrightarrow> (\<exists>a. \<forall>fd code w. f fd code w = (a fd code, w)))"

text \<open>A device that delivers the bytes \<open>stream w\<close> in pieces of any size, may interrupt a finite number
  of times, and would block when nothing is left.\<close>

definition delivers :: "('w \<Rightarrow> u8 list) \<Rightarrow> ('w \<Rightarrow> nat) \<Rightarrow> int \<Rightarrow> 'w cart_input_ops \<Rightarrow> bool" where
  "delivers stream interrupts fd ops \<longleftrightarrow>
     (\<forall>f n w. op_read ops = Ptr f \<longrightarrow> 0 < n \<longrightarrow>
        (case f fd n w of (r, w') \<Rightarrow>
          (case r of
             Got bs \<Rightarrow> bs \<noteq> [] \<and> length bs \<le> n \<and> stream w = bs @ stream w' \<and> interrupts w' = interrupts w
           | Failed e \<Rightarrow> e = EINTR \<and> stream w' = stream w \<and> interrupts w' < interrupts w
               \<or> e = EAGAIN \<and> stream w = [] \<and> stream w' = [])))"

lemma deliversD:
  assumes "delivers stream interrupts fd ops" "op_read ops = Ptr f" "0 < n" "f fd n w = (r, w')"
  shows "case r of
             Got bs \<Rightarrow> bs \<noteq> [] \<and> length bs \<le> n \<and> stream w = bs @ stream w' \<and> interrupts w' = interrupts w
           | Failed e \<Rightarrow> e = EINTR \<and> stream w' = stream w \<and> interrupts w' < interrupts w
               \<or> e = EAGAIN \<and> stream w = [] \<and> stream w' = []"
proof -
  have "case f fd n w of (r, w') \<Rightarrow>
          (case r of
             Got bs \<Rightarrow> bs \<noteq> [] \<and> length bs \<le> n \<and> stream w = bs @ stream w' \<and> interrupts w' = interrupts w
           | Failed e \<Rightarrow> e = EINTR \<and> stream w' = stream w \<and> interrupts w' < interrupts w
               \<or> e = EAGAIN \<and> stream w = [] \<and> stream w' = [])"
    using assms(1,2,3) unfolding delivers_def by simp
  then show ?thesis by (simp add: assms(4))
qed

lemma resync_slots_fixed:
  assumes "op_ioctl_abs ops = Ptr f" "\<And>fd code w. f fd code w = (a fd code, w)"
  shows "mfold (resync_slot ops fd) slots (s, v) = map_option (map_prod id (\<lambda>_. v)) (mfold (resync_slot ops fd) slots (s, w))"
proof (induction slots arbitrary: s)
  case (Cons slot slots)
  have "resync_slot ops fd slot (s, v) = map_option (map_prod id (\<lambda>_. v)) (resync_slot ops fd slot (s, w))"
    "\<And>t w'. resync_slot ops fd slot (s, w) = Some (t, w') \<Longrightarrow> w' = w"
    by (auto simp: resync_slot_def assms load_def split: option.splits if_splits)
  then show ?case using Cons by (cases "resync_slot ops fd slot (s, w)") auto
qed simp

lemma resync_fixed:
  assumes "answers_fixed ops" "in_ops inp = Ptr ops" "op_ioctl_key_state ops \<noteq> NULL" "op_ioctl_abs ops \<noteq> NULL"
  shows "resync_after_desync i inp v = map_option (map_prod id (\<lambda>_. v)) (resync_after_desync i inp w)"
proof -
  obtain f g where fg: "op_ioctl_key_state ops = Ptr f" "op_ioctl_abs ops = Ptr g" using assms(3,4) by (metis ptr.exhaust)
  obtain a b where a: "\<And>fd n w. f fd n w = (a fd n, w)" and b: "\<And>fd code w. g fd code w = (b fd code, w)"
    using assms(1) fg unfolding answers_fixed_def by metis
  obtain got st where k: "a (src_fd (sources inp ! i)) STATE_BYTES_KEY = (got, st)" by (metis prod.exhaust)
  show ?thesis
    using resync_slots_fixed[OF fg(2) b, of _ "[0..<CART_INPUT_AXIS_COUNT]" _ v w]
    by (auto simp: resync_after_desync_def assms(2) fg(1) a k load_def map_option_bind
        simp del: upt_Suc mfold.simps split: Option.bind_splits)
qed

lemma consume_event_fixed:
  assumes "answers_fixed ops" "in_ops inp = Ptr ops" "op_ioctl_key_state ops \<noteq> NULL" "op_ioctl_abs ops \<noteq> NULL"
  shows "consume_event i ev inp v = map_option (map_prod id (\<lambda>_. v)) (consume_event i ev inp w)"
  using resync_fixed[OF assms, of i v w]
  by (auto simp: consume_event_def load_def split: Option.bind_splits option.splits)

context input_ops
begin

lemma consume_events_fixed:
  assumes "answers_fixed ops" "wf_core inp" "i < CART_INPUT_MAX_SOURCES" "in_ops inp = Ptr ops"
  shows "\<exists>out. wf_core out \<and> updates_only i inp out \<and> (\<forall>v. consume_events i evs (inp, v) = Some (out, v))"
  using assms(2,4)
proof (induction evs arbitrary: inp)
  case Nil
  then show ?case using updates_only_refl by (auto simp: consume_events_def)
next
  case (Cons ev evs)
  have keep: "queries_keep (\<lambda>_. ()) ops" by (simp add: queries_keep_def)
  obtain mid w1 where 1: "consume_event i ev inp undefined = Some (mid, w1)" "wf_core mid" "updates_only i inp mid"
    using consume_event_total[OF Cons.prems(1) assms(3) Cons.prems(2) keep] by blast
  have "consume_event i ev inp v = Some (mid, v)" for v
    using consume_event_fixed[OF assms(1) Cons.prems(2) all_set(5,7), of i ev v undefined] 1(1) by simp
  moreover have "in_ops mid = Ptr ops" using 1(3) Cons.prems(2) by (simp add: updates_only_def)
  then obtain out where "wf_core out" "updates_only i mid out" "\<forall>v. consume_events i evs (mid, v) = Some (out, v)"
    using Cons.IH[OF 1(2)] by blast
  ultimately show ?case using 1(3) updates_only_trans by (intro exI[of _ out]) (auto simp: consume_events_def)
qed

text \<open>The read loop consumes the buffered bytes followed by the stream, however the device cuts it.\<close>

lemma pump_source_stream:
  assumes fixed: "answers_fixed ops" and dev: "delivers stream interrupts fd ops"
    and "wf_core inp" "i < CART_INPUT_MAX_SOURCES" "in_ops inp = Ptr ops"
    and "partial_len inp ! i \<le> 256" "src_fd (sources inp ! i) = fd"
    and "split_events (take (partial_len inp ! i) (partial_buf inp ! i) @ stream w) = (es, r)"
  shows "\<exists>out w' mid. pump_source i inp w = Some (out, w') \<and> stream w' = []
    \<and> consume_events i es (inp, w) = Some (mid, w)
    \<and> out = with_partial (partial_buf out) (partial_len out) mid
    \<and> take (partial_len out ! i) (partial_buf out ! i) = r"
  using assms(3,5-8)
proof (induction "length (stream w) + interrupts w" arbitrary: inp w es rule: less_induct)
  case less
  obtain f where f: "op_read ops = Ptr f" using all_set by (metis ptr.exhaust)
  obtain es1 r1 where es1: "split_events (take (partial_len inp ! i) (partial_buf inp ! i)) = (es1, r1)" by (metis prod.exhaust)
  have r1: "length r1 < EVENT_BYTES" using split_events_rest(1)[of "take (partial_len inp ! i) (partial_buf inp ! i)"] es1 by simp
  obtain es2 where es2: "split_events (r1 @ stream w) = (es2, r)" "es = es1 @ es2"
    using less.prems(5) split_events_append[of "take (partial_len inp ! i) (partial_buf inp ! i)" "stream w"] es1
    by (cases "split_events (r1 @ stream w)") simp
  have keep: "queries_keep (\<lambda>_. ()) ops" by (simp add: queries_keep_def)
  obtain mid w1 buf d where turn:
      "consume_events i es1 (inp, w) = Some (mid, w1)" "wf_core mid" "updates_only i inp mid"
      "length buf = 256" "take (length r1) buf = r1"
      "d = with_partial ((partial_buf inp)[i := buf]) ((partial_len inp)[i := length r1]) mid" "wf_core d"
      "pump_source i inp w = (case f (src_fd (sources inp ! i)) (256 - length r1) w1 of (got, w2) \<Rightarrow>
         (case got of Got bytes \<Rightarrow> if bytes = [] then handle_disconnect i d w2
            else if 256 < length r1 + length bytes then None
            else pump_source i (with_partial ((partial_buf inp)[i := r1 @ bytes @ drop (length r1 + length bytes) buf])
                                  ((partial_len inp)[i := length r1 + length bytes]) mid) w2
          | Failed e \<Rightarrow> if e = EINTR then pump_source i d w2
            else if e = EAGAIN then Some (d, w2) else handle_disconnect i d w2))"
    by (rule pump_source_turn[OF less.prems(1) assms(4) less.prems(2) keep less.prems(3) f es1])
  have ev1: "\<And>v. consume_events i es1 (inp, v) = Some (mid, v)" and w1: "w1 = w"
    using consume_events_fixed[OF fixed less.prems(1) assms(4) less.prems(2), of es1] turn(1) by auto
  have mid: "in_ops mid = Ptr ops" "src_fd (sources mid ! i) = fd" "partial_buf mid = partial_buf inp" "partial_len mid = partial_len inp"
    using turn(3) less.prems(2,4) by (auto simp: updates_only_def)
  have len: "length (partial_buf inp) = CART_INPUT_MAX_SOURCES" "length (partial_len inp) = CART_INPUT_MAX_SOURCES"
    using less.prems(1) by (simp_all add: wf_core_def)
  obtain got w2 where read: "f fd (256 - length r1) w = (got, w2)" by (metis prod.exhaust)
  have go_on: "\<exists>out w' mid'. pump_source i e w2 = Some (out, w') \<and> stream w' = []
      \<and> consume_events i es (inp, w) = Some (mid', w) \<and> out = with_partial (partial_buf out) (partial_len out) mid'
      \<and> take (partial_len out ! i) (partial_buf out ! i) = r"
    if e: "e = with_partial ((partial_buf inp)[i := b]) ((partial_len inp)[i := n]) mid" and b: "length b = 256" "n \<le> 256"
      and small: "length (stream w2) + interrupts w2 < length (stream w) + interrupts w"
      and rest: "take n b @ stream w2 = r1 @ stream w" for e b n
  proof -
    have "wf_core e" using wf_core_partial[OF turn(2) b(1), of i n] mid(3,4) by (simp add: e)
    then obtain out w' m where out: "pump_source i e w2 = Some (out, w')" "stream w' = []"
        "consume_events i es2 (e, w2) = Some (m, w2)" "out = with_partial (partial_buf out) (partial_len out) m"
        "take (partial_len out ! i) (partial_buf out ! i) = r"
      using less.hyps[OF small, of e es2] mid len assms(4) b(2) rest es2(1) by (auto simp: e)
    obtain m' where m': "\<And>v. consume_events i es2 (mid, v) = Some (m', v)"
      using consume_events_fixed[OF fixed turn(2) assms(4) mid(1), of es2] by blast
    then have "m = with_partial (partial_buf e) (partial_len e) m'"
      using out(3) consume_events_with_partial[of i es2 "(partial_buf inp)[i := b]" "(partial_len inp)[i := n]" mid w2] by (simp add: e)
    moreover have "consume_events i es (inp, w) = Some (m', w)"
      using ev1[of w] m'[of w] by (simp add: es2(2) consume_events_def mfold_append)
    ultimately show ?thesis using out by (intro exI[of _ out] exI[of _ w'] exI[of _ m']) (metis with_partial_simps(7))
  qed
  note law = deliversD[OF dev f _ read]
  show ?case
  proof (cases got)
    case (Got bytes)
    let ?b = "r1 @ bytes @ drop (length r1 + length bytes) buf"
    have g: "bytes \<noteq> []" "length r1 + length bytes \<le> 256" "stream w = bytes @ stream w2" "interrupts w2 = interrupts w"
      using law Got r1 by auto
    then have "pump_source i inp w = pump_source i (with_partial ((partial_buf inp)[i := ?b]) ((partial_len inp)[i := length r1 + length bytes]) mid) w2"
      using turn(8) read w1 less.prems(4) Got by simp
    moreover have "length ?b = 256" "take (length r1 + length bytes) ?b @ stream w2 = r1 @ stream w" using g turn(4) by simp_all
    ultimately show ?thesis using go_on[OF refl _ g(2)] g by simp
  next
    case (Failed e)
    then consider (intr) "e = EINTR" "stream w2 = stream w" "interrupts w2 < interrupts w"
      | (dry) "e = EAGAIN" "stream w = []" "stream w2 = []" using law r1 by auto
    then show ?thesis
    proof cases
      case intr
      then have "pump_source i inp w = pump_source i d w2" using turn(8) read w1 less.prems(4) Failed by simp
      then show ?thesis using go_on[OF turn(6,4)] intr r1 turn(5) by simp
    next
      case dry
      then have "pump_source i inp w = Some (d, w2)" using turn(8) read w1 less.prems(4) Failed by simp
      moreover have "es = es1" "r = r1" using es2 dry(2) r1 by (simp_all add: split_events_short)
      moreover have "d = with_partial (partial_buf d) (partial_len d) mid" "take (partial_len d ! i) (partial_buf d ! i) = r1"
        using turn(5) len assms(4) by (simp_all add: turn(6))
      ultimately show ?thesis using dry(3) ev1 by blast
    qed
  qed
qed

end

end
