(* ===== verification/Input_Frame.thy ===== *)
theory Input_Frame
  imports Input_Poll
begin

text \<open>
  \<open>build_frame\<close> against its reference: each axis goes to the first source that offers it.
\<close>

section \<open>The frame merges the sources\<close>

text \<open>What a source offers for an axis: its normalised value, if the axis is calibrated.\<close>

definition axis_offer :: "cart_input_source \<Rightarrow> nat \<Rightarrow> int option" where
  "axis_offer s slot =
     (if src_axis_valid s ! slot then
        (case cart_input_axis_normalize (src_last_raw s ! slot) (Ptr (src_axis s ! slot)) of
           Some p \<Rightarrow> if p = CART_INPUT_AXIS_INVALID then None else Some p | None \<Rightarrow> None)
      else None)"

lemma normalize_defined:
  assumes "in_int32 (rmax r - rmin r)"
  shows "\<exists>p. cart_input_axis_normalize raw (Ptr r) = Some p \<and> (p = CART_INPUT_AXIS_INVALID \<or> (- 100 \<le> p \<and> p \<le> 100))"
proof (cases "range_ok r")
  case True
  have "rmax r - rmin r \<le> INT32_MAX" using assms by (simp add: in_int32_def)
  from normalize_curve[OF True this] show ?thesis
    using axis_clamp_facts(1,2)[OF True, of raw] axis_curve_below(2,3)[of "axis_clamp r raw" r]
      axis_curve_above(2,3)[OF True, of "axis_clamp r raw"] axis_curve_dead[of r "axis_clamp r raw"]
    by (cases "axis_clamp r raw < axis_low r"; cases "axis_high r < axis_clamp r raw") auto
next
  case False
  then show ?thesis by (auto simp: cart_input_axis_normalize_def range_ok_def)
qed

lemma axis_offer_range: "wf_source s \<Longrightarrow> slot < CART_INPUT_AXIS_COUNT \<Longrightarrow> axis_offer s slot = Some p \<Longrightarrow> - 100 \<le> p \<and> p \<le> 100"
  using normalize_defined[of "src_axis s ! slot" "src_last_raw s ! slot"]
  by (auto simp: axis_offer_def wf_source_def split: if_splits option.splits)

lemma int16_percent: "- 100 \<le> p \<Longrightarrow> p \<le> 100 \<Longrightarrow> signed_take_bit 15 p = (p :: int)"
  by (simp add: signed_take_bit_int_eq_self)

lemma frame_slot_eq:
  assumes "wf_source s" "slot < CART_INPUT_AXIS_COUNT"
  shows "frame_slot i s slot f = Some (case axis_offer s slot of None \<Rightarrow> f
     | Some p \<Rightarrow> if fr_axis_present f ! slot then f
        else f\<lparr>fr_axis := (fr_axis f)[slot := p], fr_axis_present := (fr_axis_present f)[slot := True],
               fr_axis_owner := (fr_axis_owner f)[slot := i]\<rparr>)"
proof (cases "src_axis_valid s ! slot")
  case False
  then show ?thesis using assms by (simp add: frame_slot_def axis_offer_def wf_source_def)
next
  case True
  then have "in_int32 (rmax (src_axis s ! slot) - rmin (src_axis s ! slot))" using assms by (simp add: wf_source_def)
  from normalize_defined[OF this, of "src_last_raw s ! slot"] show ?thesis using True assms
    by (auto simp: frame_slot_def axis_offer_def wf_source_def int16_percent)
qed

definition wf_frame :: "cart_input_frame \<Rightarrow> bool" where
  "wf_frame f \<longleftrightarrow> length (fr_axis f) = CART_INPUT_AXIS_COUNT \<and> length (fr_axis_present f) = CART_INPUT_AXIS_COUNT
     \<and> length (fr_axis_owner f) = CART_INPUT_AXIS_COUNT"

definition frame_view :: "cart_input_frame \<Rightarrow> nat \<Rightarrow> (int \<times> nat) option" where
  "frame_view f slot = (if fr_axis_present f ! slot then Some (fr_axis f ! slot, fr_axis_owner f ! slot) else None)"

definition first_some :: "'a option \<Rightarrow> 'a option \<Rightarrow> 'a option" where
  "first_some a b = (case a of None \<Rightarrow> b | Some _ \<Rightarrow> a)"

lemma frame_slots_view:
  assumes "wf_source s" "k \<le> CART_INPUT_AXIS_COUNT" "wf_frame f"
  shows "\<exists>g. mfold (frame_slot i s) [0..<k] f = Some g \<and> wf_frame g
    \<and> fr_connected_mask g = fr_connected_mask f \<and> fr_held_keys g = fr_held_keys f
    \<and> fr_generation_total g = fr_generation_total f
    \<and> (\<forall>slot < CART_INPUT_AXIS_COUNT. frame_view g slot =
         (if slot < k then first_some (frame_view f slot) (map_option (\<lambda>p. (p, i)) (axis_offer s slot)) else frame_view f slot))"
  using assms(2)
proof (induction k)
  case 0
  then show ?case using assms(3) by simp
next
  case (Suc k)
  then obtain g where g: "mfold (frame_slot i s) [0..<k] f = Some g" "wf_frame g"
    "fr_connected_mask g = fr_connected_mask f" "fr_held_keys g = fr_held_keys f" "fr_generation_total g = fr_generation_total f"
    "\<forall>slot < CART_INPUT_AXIS_COUNT. frame_view g slot =
         (if slot < k then first_some (frame_view f slot) (map_option (\<lambda>p. (p, i)) (axis_offer s slot)) else frame_view f slot)"
    by auto
  obtain h where h: "frame_slot i s k g = Some h" "h = (case axis_offer s k of None \<Rightarrow> g
     | Some p \<Rightarrow> if fr_axis_present g ! k then g
        else g\<lparr>fr_axis := (fr_axis g)[k := p], fr_axis_present := (fr_axis_present g)[k := True],
               fr_axis_owner := (fr_axis_owner g)[k := i]\<rparr>)"
    using frame_slot_eq[OF assms(1), of k i g] Suc.prems by auto
  have step: "frame_view h slot = (if slot = k then first_some (frame_view g k) (map_option (\<lambda>p. (p, i)) (axis_offer s k))
      else frame_view g slot)" if "slot < CART_INPUT_AXIS_COUNT" for slot
    using g(2) that by (auto simp: h(2) frame_view_def first_some_def wf_frame_def nth_update_in split: option.splits)
  have "mfold (frame_slot i s) [0..<Suc k] f = Some h" using g(1) h(1) by (simp add: mfold_append)
  moreover have "wf_frame h" "fr_connected_mask h = fr_connected_mask g" "fr_held_keys h = fr_held_keys g"
    "fr_generation_total h = fr_generation_total g"
    using g(2) by (auto simp: h(2) wf_frame_def split: option.splits)
  moreover have "frame_view h slot =
      (if slot < Suc k then first_some (frame_view f slot) (map_option (\<lambda>p. (p, i)) (axis_offer s slot)) else frame_view f slot)"
    if "slot < CART_INPUT_AXIS_COUNT" for slot
    using step[OF that] g(6) that by (auto simp: less_Suc_eq)
  ultimately show ?case using g(3,4,5) by auto
qed

text \<open>The sources that are not absent, in slot order, with what they offer.\<close>

definition present :: "'w cart_input \<Rightarrow> nat \<Rightarrow> bool" where
  "present inp i \<longleftrightarrow> src_state (sources inp ! i) \<noteq> CART_INPUT_ABSENT"

fun best_offer :: "'w cart_input \<Rightarrow> nat \<Rightarrow> nat \<Rightarrow> (int \<times> nat) option" where
  "best_offer inp slot 0 = None"
| "best_offer inp slot (Suc n) = first_some (best_offer inp slot n)
     (if present inp n then map_option (\<lambda>p. (p, n)) (axis_offer (sources inp ! n) slot) else None)"

lemma best_offer_first:
  "best_offer inp slot n = Some (p, i) \<longleftrightarrow> i < n \<and> present inp i \<and> axis_offer (sources inp ! i) slot = Some p
     \<and> (\<forall>j < i. \<not> (present inp j \<and> axis_offer (sources inp ! j) slot \<noteq> None))"
proof (induction n)
  case (Suc n)
  have none: "best_offer inp slot n = None \<longleftrightarrow> (\<forall>j < n. \<not> (present inp j \<and> axis_offer (sources inp ! j) slot \<noteq> None))"
    by (induction n) (auto simp: first_some_def less_Suc_eq split: option.splits)
  show ?case
  proof (cases "best_offer inp slot n")
    case None
    then show ?thesis using none Suc by (auto simp: first_some_def less_Suc_eq split: if_splits)
  next
    case (Some x)
    then have "\<exists>j < n. present inp j \<and> axis_offer (sources inp ! j) slot \<noteq> None" using none by auto
    then show ?thesis using Some Suc by (cases x) (auto simp: first_some_def less_Suc_eq)
  qed
qed simp

lemma build_frame_view:
  assumes "wf_core inp" "n \<le> CART_INPUT_MAX_SOURCES"
  shows "\<exists>f. mfold (frame_source inp) [0..<n] empty_frame = Some f \<and> wf_frame f
    \<and> (\<forall>slot < CART_INPUT_AXIS_COUNT. frame_view f slot = best_offer inp slot n)
    \<and> (\<forall>i < 32. bit (fr_connected_mask f) i \<longleftrightarrow> i < n \<and> present inp i)
    \<and> (\<forall>c < 64. bit (fr_held_keys f) c \<longleftrightarrow> (\<exists>i < n. present inp i \<and> bit (src_held_keys (sources inp ! i)) c))"
  using assms(2)
proof (induction n)
  case 0
  then show ?case by (simp add: empty_frame_def wf_frame_def frame_view_def)
next
  case (Suc n)
  then obtain f where f: "mfold (frame_source inp) [0..<n] empty_frame = Some f" "wf_frame f"
    "\<forall>slot < CART_INPUT_AXIS_COUNT. frame_view f slot = best_offer inp slot n"
    "\<forall>i < 32. bit (fr_connected_mask f) i \<longleftrightarrow> i < n \<and> present inp i"
    "\<forall>c < 64. bit (fr_held_keys f) c \<longleftrightarrow> (\<exists>i < n. present inp i \<and> bit (src_held_keys (sources inp ! i)) c)" by auto
  have s: "n < length (sources inp)" "wf_source (sources inp ! n)" using assms(1) Suc.prems by (auto simp: wf_core_def)
  show ?case
  proof (cases "present inp n")
    case False
    then have "frame_source inp n f = Some f" using s by (simp add: frame_source_def present_def)
    then show ?thesis using f False by (auto simp: mfold_append first_some_def less_Suc_eq split: option.splits)
  next
    case True
    let ?f = "f\<lparr>fr_connected_mask := fr_connected_mask f OR push_bit n 1,
       fr_generation_total := fr_generation_total f + src_generation (sources inp ! n),
       fr_held_keys := fr_held_keys f OR src_held_keys (sources inp ! n)\<rparr>"
    have view: "wf_frame ?f" "\<And>slot. frame_view ?f slot = frame_view f slot" using f(2) by (simp_all add: wf_frame_def frame_view_def)
    obtain g where g: "mfold (frame_slot n (sources inp ! n)) [0..<CART_INPUT_AXIS_COUNT] ?f = Some g" "wf_frame g"
      "fr_connected_mask g = fr_connected_mask ?f" "fr_held_keys g = fr_held_keys ?f"
      "\<forall>slot < CART_INPUT_AXIS_COUNT. frame_view g slot =
         first_some (frame_view ?f slot) (map_option (\<lambda>p. (p, n)) (axis_offer (sources inp ! n) slot))"
      using frame_slots_view[OF s(2) _ view(1), of CART_INPUT_AXIS_COUNT n] by auto
    have "mfold (frame_source inp) [0..<Suc n] empty_frame = Some g"
    proof -
      have "frame_source inp n f = Some g" using g(1) s(1) True by (simp add: frame_source_def present_def del: upt_Suc upt_conv_Cons)
      then show ?thesis using f(1) by (simp add: mfold_append)
    qed
    moreover have "\<forall>slot < CART_INPUT_AXIS_COUNT. frame_view g slot = best_offer inp slot (Suc n)"
      using g(5) f(3) view(2) True by simp
    moreover have "\<forall>i < 32. bit (fr_connected_mask g) i \<longleftrightarrow> i < Suc n \<and> present inp i"
      using f(4) True Suc.prems by (auto simp: g(3) bit_or_iff bit_exp_iff less_Suc_eq)
    moreover have "\<forall>c < 64. bit (fr_held_keys g) c \<longleftrightarrow> (\<exists>i < Suc n. present inp i \<and> bit (src_held_keys (sources inp ! i)) c)"
      using f(5) True by (auto simp: g(4) bit_or_iff less_Suc_eq)
    ultimately show ?thesis using g(2) by blast
  qed
qed

end
