(* ===== verification/Input_Runs.thy ===== *)
theory Input_Runs
  imports Input_Read_Loop Input_Frame
begin

text \<open>
  Polls, rescans and whole runs of the input layer, the effect of key events, and the properties of the
  input layer with a scripted keyboard as their concrete instance.
\<close>

section \<open>Poll and whole runs\<close>

context input_ops
begin

lemma poll_source_total:
  assumes "runs_dry m ops" "wf_input inp" "in_ops inp = Ptr ops" "i < CART_INPUT_MAX_SOURCES"
  shows "\<exists>out w'. poll_source i (inp, w) = Some (out, w') \<and> wf_input out \<and> in_ops out = Ptr ops
    \<and> (\<forall>j. j \<noteq> i \<or> src_state (sources inp ! j) = CART_INPUT_DESYNC \<longrightarrow> sources out ! j = sources inp ! j)
    \<and> (\<forall>opened base. fd_ledger opened ops \<and> accounts opened base inp w \<longrightarrow> accounts opened base out w')"
proof (cases "src_fd (sources inp ! i) < 0 \<or> src_state (sources inp ! i) = CART_INPUT_DESYNC")
  case True
  then show ?thesis using assms by (auto simp: poll_source_def wf_input_def)
next
  case False
  have core: "wf_core inp" "partial_len inp ! i \<le> 256"
    using assms(2,4) unfolding wf_input_split wf_lens_def by (auto intro: less_imp_le order.trans)
  obtain out w' where out: "pump_source i inp w = Some (out, w')" "pumped i inp out"
      "\<forall>opened base. fd_ledger opened ops \<and> accounts opened base inp w \<longrightarrow> accounts opened base out w'"
    using pump_source_total[OF assms(1) core(1) assms(4,3) core(2)] False by force
  then have "poll_source i (inp, w) = Some (out, w')" using False core(1) assms(4) by (auto simp: poll_source_def wf_core_def)
  moreover have "wf_input out" using pumped_wf_input[OF assms(2) out(2)] .
  ultimately show ?thesis using out False assms(3) by (auto simp: pumped_def)
qed

lemma poll_sources_total:
  assumes "runs_dry m ops" "wf_input inp" "in_ops inp = Ptr ops" "\<forall>i \<in> set is. i < CART_INPUT_MAX_SOURCES"
  shows "\<exists>out w'. mfold poll_source is (inp, w) = Some (out, w') \<and> wf_input out \<and> in_ops out = Ptr ops
    \<and> (\<forall>j. src_state (sources inp ! j) = CART_INPUT_DESYNC \<longrightarrow> sources out ! j = sources inp ! j)
    \<and> (\<forall>opened base. fd_ledger opened ops \<and> accounts opened base inp w \<longrightarrow> accounts opened base out w')"
  using assms(2-4)
proof (induction "is" arbitrary: inp w)
  case (Cons i "is")
  obtain mid w1 where 1: "poll_source i (inp, w) = Some (mid, w1)" "wf_input mid" "in_ops mid = Ptr ops"
      "\<forall>j. j \<noteq> i \<or> src_state (sources inp ! j) = CART_INPUT_DESYNC \<longrightarrow> sources mid ! j = sources inp ! j"
      "\<forall>opened base. fd_ledger opened ops \<and> accounts opened base inp w \<longrightarrow> accounts opened base mid w1"
    using poll_source_total[OF assms(1) Cons.prems(1,2), of i w] Cons.prems(3) by force
  obtain out w' where 2: "mfold poll_source is (mid, w1) = Some (out, w')" "wf_input out" "in_ops out = Ptr ops"
      "\<forall>j. src_state (sources mid ! j) = CART_INPUT_DESYNC \<longrightarrow> sources out ! j = sources mid ! j"
      "\<forall>opened base. fd_ledger opened ops \<and> accounts opened base mid w1 \<longrightarrow> accounts opened base out w'"
    using Cons.IH[OF 1(2,3), of w1] Cons.prems(3) by auto
  then show ?case using 1 by auto
qed auto

lemma take_action_total:
  assumes "wf_input inp"
  shows "\<exists>a out. take_action inp = Some (a, out) \<and> wf_input out \<and> in_ops out = in_ops inp \<and> sources out = sources inp
    \<and> pending_actions inp = (if a = CART_INPUT_NONE then [] else a # pending_actions out)"
proof (cases "pending_actions inp")
  case Nil
  then show ?thesis using assms pending.pop_empty[of inp] by (auto simp: wf_input_def)
next
  case (Cons a as)
  then obtain out where out: "take_action inp = Some (a, out)" "queue_ok out" "pending_actions out = as"
    using assms pending.pop_first[of inp a as] by (auto simp: wf_input_def)
  have frame: "in_ops out = in_ops inp \<and> sources out = sources inp \<and> partial_buf out = partial_buf inp \<and> partial_len out = partial_len inp"
    using out(1) by (auto simp: take_action_def bind_eq_Some_conv split: if_splits)
  have "\<forall>b \<in> set (pending_actions inp). b \<noteq> CART_INPUT_NONE"
    using assms by (auto simp: wf_input_def pending_actions_def queue_ok_def ACTIONS_def nth_Cons' split: if_splits)
  then show ?thesis using out frame assms Cons by (auto simp: wf_input_def)
qed

lemma cart_input_poll_total:
  assumes "runs_dry m ops" "wf_input inp" "in_ops inp = Ptr ops"
  shows "\<exists>out w' a f. cart_input_poll (Ptr inp) (Ptr a0) (Ptr f0) w = Some (0, Ptr out, Ptr a, Ptr f, w')
    \<and> wf_input out \<and> in_ops out = Ptr ops \<and> build_frame out = Some f
    \<and> (\<forall>j. src_state (sources inp ! j) = CART_INPUT_DESYNC \<longrightarrow> sources out ! j = sources inp ! j)
    \<and> (\<forall>opened base. fd_ledger opened ops \<and> accounts opened base inp w \<longrightarrow> accounts opened base out w')"
proof -
  obtain mid w' where 1: "mfold poll_source [0..<CART_INPUT_MAX_SOURCES] (inp, w) = Some (mid, w')" "wf_input mid" "in_ops mid = Ptr ops"
      "\<forall>j. src_state (sources inp ! j) = CART_INPUT_DESYNC \<longrightarrow> sources mid ! j = sources inp ! j"
      "\<forall>opened base. fd_ledger opened ops \<and> accounts opened base inp w \<longrightarrow> accounts opened base mid w'"
    using poll_sources_total[OF assms, of "[0..<CART_INPUT_MAX_SOURCES]" w] by auto
  obtain a out where 2: "take_action mid = Some (a, out)" "wf_input out" "in_ops out = in_ops mid" "sources out = sources mid"
    using take_action_total[OF 1(2)] by auto
  obtain f where 3: "build_frame out = Some f"
    using build_frame_view[of out CART_INPUT_MAX_SOURCES] 2(2) unfolding wf_input_split build_frame_def by auto
  have "cart_input_poll (Ptr inp) (Ptr a0) (Ptr f0) w = Some (0, Ptr out, Ptr a, Ptr f, w')"
    unfolding cart_input_poll_def ptr.sel 1(1) by (simp add: 2(1) 3)
  moreover have "accounts opened base out w' = accounts opened base mid w'" for opened base
    by (simp add: accounts_def 2(4))
  ultimately show ?thesis using 1 2 3 by auto
qed

end

text \<open>What the main loop does with an initialised input: polls and rescans in any order.\<close>

datatype input_call = CallPoll | CallRescan sysfs

definition input_call_step ::
  "'w kernel \<Rightarrow> string \<Rightarrow> string \<Rightarrow> input_call \<Rightarrow> 'w cart_input \<times> 'w \<Rightarrow> ('w cart_input \<times> 'w) option" where
  "input_call_step k sys dev c s = (case s of (inp, w) \<Rightarrow> (case c of
     CallPoll \<Rightarrow> do { (rc, inp, a, f, w) \<leftarrow> cart_input_poll (Ptr inp) (Ptr CART_INPUT_NONE) (Ptr empty_frame) w; Some (deref inp, w) }
   | CallRescan env \<Rightarrow> do { (rc, inp, w) \<leftarrow> cart_input_rescan k env (Ptr inp) (Ptr sys) (Ptr dev) w; Some (deref inp, w) }))"

definition input_run ::
  "'w kernel \<Rightarrow> string \<Rightarrow> string \<Rightarrow> input_call list \<Rightarrow> 'w cart_input \<times> 'w \<Rightarrow> ('w cart_input \<times> 'w) option" where
  "input_run k sys dev = mfold (input_call_step k sys dev)"

definition call_ok :: "string \<Rightarrow> input_call \<Rightarrow> bool" where
  "call_ok sys c \<longleftrightarrow> (case c of CallPoll \<Rightarrow> True | CallRescan env \<Rightarrow> names_readable env sys)"

lemma input_call_step_total:
  assumes "input_ops ops" "calibrated_ops ops" "fd_ledger opened ops" "runs_dry m ops" "call_ok sys c"
    and "wf_input inp" "in_ops inp = Ptr ops" "accounts opened base inp w"
  shows "\<exists>out w'. input_call_step k sys dev c (inp, w) = Some (out, w') \<and> wf_input out \<and> in_ops out = Ptr ops
    \<and> accounts opened base out w'
    \<and> (\<forall>j < CART_INPUT_MAX_SOURCES. src_state (sources inp ! j) = CART_INPUT_DESYNC \<longrightarrow> sources out ! j = sources inp ! j)"
proof (cases c)
  case CallPoll
  then show ?thesis
    using input_ops.cart_input_poll_total[OF assms(1,4,6,7), of CART_INPUT_NONE empty_frame w] assms(3,8)
    by (auto simp: input_call_step_def)
next
  case (CallRescan env)
  have fd: "0 \<le> src_fd (sources inp ! j)"
    if "j < CART_INPUT_MAX_SOURCES" "src_state (sources inp ! j) = CART_INPUT_DESYNC" for j
  proof -
    have "sources inp ! j \<in> set (sources inp)" using assms(6) that(1) by (simp add: wf_input_def)
    then show ?thesis using assms(6) that(2) unfolding wf_input_def by (metis cart_input_state.distinct(3) not_le)
  qed
  obtain rc out w' where "cart_input_rescan k env (Ptr inp) (Ptr sys) (Ptr dev) w = Some (rc, Ptr out, w')"
      "wf_input out" "accounts opened base out w'" "keeps_connected inp out"
    using cart_input_rescan_accounts[OF assms(1-3) _ assms(7,6,8), of env sys k dev] assms(5) CallRescan
    by (auto simp: call_ok_def)
  then show ?thesis using fd assms(7) CallRescan by (auto simp: input_call_step_def keeps_connected_def)
qed

lemma input_run_total:
  assumes "input_ops ops" "calibrated_ops ops" "fd_ledger opened ops" "runs_dry m ops" "\<forall>c \<in> set calls. call_ok sys c"
    and "wf_input inp" "in_ops inp = Ptr ops" "accounts opened base inp w"
  shows "\<exists>out w'. input_run k sys dev calls (inp, w) = Some (out, w') \<and> wf_input out \<and> in_ops out = Ptr ops
    \<and> accounts opened base out w'
    \<and> (\<forall>j < CART_INPUT_MAX_SOURCES. src_state (sources inp ! j) = CART_INPUT_DESYNC \<longrightarrow> sources out ! j = sources inp ! j)"
  using assms(5-8)
proof (induction calls arbitrary: inp w)
  case Nil
  then show ?case by (simp add: input_run_def)
next
  case (Cons c calls)
  obtain mid w1 where 1: "input_call_step k sys dev c (inp, w) = Some (mid, w1)" "wf_input mid" "in_ops mid = Ptr ops"
      "accounts opened base mid w1"
      "\<forall>j < CART_INPUT_MAX_SOURCES. src_state (sources inp ! j) = CART_INPUT_DESYNC \<longrightarrow> sources mid ! j = sources inp ! j"
    using input_call_step_total[OF assms(1-4) _ Cons.prems(2-4), of sys c k dev] Cons.prems(1) by auto
  obtain out w' where "input_run k sys dev calls (mid, w1) = Some (out, w')" "wf_input out" "in_ops out = Ptr ops"
      "accounts opened base out w'"
      "\<forall>j < CART_INPUT_MAX_SOURCES. src_state (sources mid ! j) = CART_INPUT_DESYNC \<longrightarrow> sources out ! j = sources mid ! j"
    using Cons.IH[OF _ 1(2-4)] Cons.prems(1) by auto
  then show ?case using 1 by (auto simp: input_run_def)
qed

section \<open>Key events\<close>

definition key_event :: "u16 \<times> int \<Rightarrow> input_event" where
  "key_event kv = \<lparr>ev_type = 1, ev_code = fst kv, ev_value = snd kv\<rparr>"

text \<open>Reference semantics: the last event of a code decides whether it is held, and the presses queue
  the actions of their keys.\<close>

definition held_after :: "u64 \<Rightarrow> (u16 \<times> int) list \<Rightarrow> nat \<Rightarrow> bool" where
  "held_after old kvs c = (case map_of (rev (map (\<lambda>(k, v). (unat k, v)) kvs)) c of None \<Rightarrow> bit old c | Some v \<Rightarrow> v \<noteq> 0)"

definition presses :: "(u16 \<times> int) list \<Rightarrow> cart_input_action list" where
  "presses kvs = map (\<lambda>(k, v). cart_input_map_key k) (filter (\<lambda>(k, v). cart_input_key_emits_action (of_int v)) kvs)"

lemma held_after_snoc:
  "held_after old (kvs @ [(k, v)]) c = (if unat k = c then v \<noteq> 0 else held_after old kvs c)"
  by (simp add: held_after_def)

lemma held_bit:
  fixes h :: u64
  assumes "c < 64"
  shows "bit (if n < 64 then (if on then h OR push_bit n 1 else h AND NOT (push_bit n 1)) else h) c
    = (if n = c then on else bit h c)"
  using assms by (auto simp: bit_or_iff bit_and_iff bit_not_iff bit_exp_iff)

lemma process_key_event_eq:
  assumes "i < length (sources inp)"
  shows "process_key_event i k v inp = Some (
     fold enqueue_action (presses [(k, v)])
       (set_source i ((sources inp ! i)\<lparr>src_held_keys :=
          (if unat k < 64 then (if v \<noteq> 0 then src_held_keys (sources inp ! i) OR push_bit (unat k) 1
             else src_held_keys (sources inp ! i) AND NOT (push_bit (unat k) 1)) else src_held_keys (sources inp ! i))\<rparr>) inp))"
  using assms by (simp add: process_key_event_def presses_def Let_def)

lemma fold_enqueue_frame:
  "in_ops (fold enqueue_action as inp) = in_ops inp" "sources (fold enqueue_action as inp) = sources inp"
  by (induction as arbitrary: inp) (simp_all add: frame_simps)

lemma queue_set_source: "queue_ok (set_source i s inp) = queue_ok inp" "pending_actions (set_source i s inp) = pending_actions inp"
  by (simp_all add: queue_ok_def pending_actions_def set_source_def)

lemma consume_key_events:
  assumes "queue_ok inp" "i < length (sources inp)" "src_state (sources inp ! i) = CART_INPUT_CONNECTED"
  shows "\<exists>out. consume_events i (map key_event kvs) (inp, w) = Some (out, w) \<and> queue_ok out
    \<and> length (sources out) = length (sources inp) \<and> src_state (sources out ! i) = CART_INPUT_CONNECTED
    \<and> pending_actions out = take (2 * CART_INPUT_MAX_SOURCES) (pending_actions inp @ filter (\<lambda>a. a \<noteq> CART_INPUT_NONE) (presses kvs))
    \<and> (\<forall>c < 64. bit (src_held_keys (sources out ! i)) c = held_after (src_held_keys (sources inp ! i)) kvs c)"
proof (induction kvs rule: rev_induct)
  case Nil
  then show ?case using assms pending.contents_cap[of inp] by (simp add: consume_events_def presses_def held_after_def)
next
  case (snoc kv kvs)
  obtain k v where kv: "kv = (k, v)" by (cases kv)
  obtain mid where mid: "consume_events i (map key_event kvs) (inp, w) = Some (mid, w)" "queue_ok mid"
    "length (sources mid) = length (sources inp)" "src_state (sources mid ! i) = CART_INPUT_CONNECTED"
    "pending_actions mid = take (2 * CART_INPUT_MAX_SOURCES) (pending_actions inp @ filter (\<lambda>a. a \<noteq> CART_INPUT_NONE) (presses kvs))"
    "\<forall>c < 64. bit (src_held_keys (sources mid ! i)) c = held_after (src_held_keys (sources inp ! i)) kvs c"
    using snoc.IH by blast
  have i: "i < length (sources mid)" using assms(2) mid(3) by simp
  let ?h = "if unat k < 64 then (if v \<noteq> 0 then src_held_keys (sources mid ! i) OR push_bit (unat k) 1
             else src_held_keys (sources mid ! i) AND NOT (push_bit (unat k) 1)) else src_held_keys (sources mid ! i)"
  let ?m = "set_source i ((sources mid ! i)\<lparr>src_held_keys := ?h\<rparr>) mid"
  let ?out = "fold enqueue_action (presses [(k, v)]) ?m"
  have out: "consume_events i (map key_event (kvs @ [kv])) (inp, w) = Some (?out, w)"
    using mid(1,4) i process_key_event_eq[OF i, of k v]
    by (simp add: consume_events_def mfold_append consume_event_def key_event_def kv del: One_nat_def)
  have q: "queue_ok ?m" using mid(2) by (simp add: queue_set_source)
  have "pending_actions ?out = take (2 * CART_INPUT_MAX_SOURCES) (pending_actions mid @ filter (\<lambda>a. a \<noteq> CART_INPUT_NONE) (presses [(k, v)]))"
    using pending.fold_push_contents[OF q] by (simp only: queue_set_source)
  also have "\<dots> = take (2 * CART_INPUT_MAX_SOURCES) (pending_actions inp @ filter (\<lambda>a. a \<noteq> CART_INPUT_NONE) (presses (kvs @ [kv])))"
    by (simp add: mid(5) kv presses_def min_def)
  finally show ?case
    using out pending.fold_push_ok[OF q] mid(3,4,6) i
    by (intro exI[of _ ?out]) (simp add: fold_enqueue_frame set_source_def kv held_after_snoc held_bit del: bit_push_bit_iff)
qed

text \<open>What \<open>n\<close> polls take from the queue.\<close>

fun take_actions :: "nat \<Rightarrow> 'w cart_input \<Rightarrow> cart_input_action list" where
  "take_actions 0 inp = []"
| "take_actions (Suc n) inp = (case take_action inp of None \<Rightarrow> [] | Some (a, out) \<Rightarrow> a # take_actions n out)"

lemma take_actions_pops: "take_actions n inp = pending.pops n inp"
  by (induction n arbitrary: inp) (auto split: option.splits)

section \<open>Properties\<close>


text \<open>C9. The read loop reassembles the event stream.  If the device delivers some bytes in pieces of any
  size, with finitely many interruptions, and then would block, \<open>pump_source\<close> returns, has read every
  byte, has handed exactly the whole events of (what was buffered, followed by the bytes) to
  \<open>consume_event\<close> in order, and keeps the incomplete rest, shorter than an event, for the next
  poll.\<close>

theorem pump_reassembles_events:
  assumes "input_ops ops" "answers_fixed ops" "delivers stream interrupts (src_fd (sources inp ! i)) ops"
    and "wf_input inp" "in_ops inp = Ptr ops" "i < CART_INPUT_MAX_SOURCES"
    and "split_events (take (partial_len inp ! i) (partial_buf inp ! i) @ stream w) = (es, r)"
  shows "\<exists>out w' mid. pump_source i inp w = Some (out, w') \<and> stream w' = []
    \<and> consume_events i es (inp, w) = Some (mid, w)
    \<and> sources out = sources mid \<and> pending_actions out = pending_actions mid
    \<and> take (partial_len out ! i) (partial_buf out ! i) = r \<and> length r < EVENT_BYTES"
proof -
  have core: "wf_core inp" "partial_len inp ! i \<le> 256"
    using assms(4,6) unfolding wf_input_split wf_lens_def by (auto intro: less_imp_le order.trans)
  obtain out w' mid where out: "pump_source i inp w = Some (out, w')" "stream w' = []"
      "consume_events i es (inp, w) = Some (mid, w)" "out = with_partial (partial_buf out) (partial_len out) mid"
      "take (partial_len out ! i) (partial_buf out ! i) = r"
    using input_ops.pump_source_stream[OF assms(1,2,3) core(1) assms(6,5) core(2) refl assms(7)] by blast
  have "sources out = sources mid" "pending_actions out = pending_actions mid"
    by (subst out(4), simp add: pending_actions_def)+
  moreover have "length r < EVENT_BYTES" using split_events_rest(1) assms(7) by (metis snd_conv)
  ultimately show ?thesis using out by blast
qed

text \<open>Key events.  A run of key events on a connected source leaves each of the first 64 keys held
  exactly if its last event says so, and appends the actions of the pressed keys to the queue in order,
  dropping what does not fit in eight places.\<close>

theorem key_events_effect:
  assumes "wf_input inp" "i < CART_INPUT_MAX_SOURCES" "src_state (sources inp ! i) = CART_INPUT_CONNECTED"
  shows "\<exists>out. consume_events i (map key_event kvs) (inp, w) = Some (out, w)
    \<and> pending_actions out = take (2 * CART_INPUT_MAX_SOURCES)
        (pending_actions inp @ filter (\<lambda>a. a \<noteq> CART_INPUT_NONE) (presses kvs))
    \<and> (\<forall>c < 64. bit (src_held_keys (sources out ! i)) c = held_after (src_held_keys (sources inp ! i)) kvs c)"
  using consume_key_events[of inp i kvs w] assms by (auto simp: wf_input_def)

text \<open>C20. Actions come out in the order in which they went in.  After \<open>enqueue_action\<close> has been called
  with some actions, taking an action \<open>n\<close> times, as every poll does once, gives the queued ones followed by the
  new ones, oldest first, up to eight
  in all, and then nothing but \<open>CART_INPUT_NONE\<close>.\<close>

theorem actions_are_fifo:
  assumes "wf_input inp"
  shows "take_actions n (fold enqueue_action as inp) =
    take n (take (2 * CART_INPUT_MAX_SOURCES) (pending_actions inp @ filter (\<lambda>a. a \<noteq> CART_INPUT_NONE) as)
      @ replicate n CART_INPUT_NONE)"
proof -
  have "queue_ok inp" using assms by (simp add: wf_input_def)
  show ?thesis
    unfolding take_actions_pops pending.pops_contents[OF pending.fold_push_ok[OF \<open>queue_ok inp\<close>]]
      pending.fold_push_contents[OF \<open>queue_ok inp\<close>] ..
qed

text \<open>C18. The merged frame.  Building the frame of a well-formed input is defined; an axis is present
  exactly if some source that is not absent offers it, it then carries the value, in -100..100, of the
  source with the lowest slot number, which is recorded as its owner; the held keys are the union over
  the sources and the mask has a bit for each of them.\<close>

theorem build_frame_merges:
  assumes "wf_input inp"
  shows "\<exists>f. build_frame inp = Some f
    \<and> (\<forall>slot < CART_INPUT_AXIS_COUNT.
        (fr_axis_present f ! slot \<longleftrightarrow> (\<exists>i < CART_INPUT_MAX_SOURCES. present inp i \<and> axis_offer (sources inp ! i) slot \<noteq> None))
        \<and> (fr_axis_present f ! slot \<longrightarrow>
            fr_axis_owner f ! slot < CART_INPUT_MAX_SOURCES \<and> present inp (fr_axis_owner f ! slot)
            \<and> axis_offer (sources inp ! (fr_axis_owner f ! slot)) slot = Some (fr_axis f ! slot)
            \<and> (\<forall>j < fr_axis_owner f ! slot. \<not> (present inp j \<and> axis_offer (sources inp ! j) slot \<noteq> None))
            \<and> - 100 \<le> fr_axis f ! slot \<and> fr_axis f ! slot \<le> 100))
    \<and> (\<forall>i < 32. bit (fr_connected_mask f) i \<longleftrightarrow> i < CART_INPUT_MAX_SOURCES \<and> present inp i)
    \<and> (\<forall>c < 64. bit (fr_held_keys f) c \<longleftrightarrow>
        (\<exists>i < CART_INPUT_MAX_SOURCES. present inp i \<and> bit (src_held_keys (sources inp ! i)) c))"
proof -
  have core: "wf_core inp" using assms by (simp add: wf_input_split)
  obtain f where f: "build_frame inp = Some f"
      "\<forall>slot < CART_INPUT_AXIS_COUNT. frame_view f slot = best_offer inp slot CART_INPUT_MAX_SOURCES"
      "\<forall>i < 32. bit (fr_connected_mask f) i \<longleftrightarrow> i < CART_INPUT_MAX_SOURCES \<and> present inp i"
      "\<forall>c < 64. bit (fr_held_keys f) c \<longleftrightarrow>
        (\<exists>i < CART_INPUT_MAX_SOURCES. present inp i \<and> bit (src_held_keys (sources inp ! i)) c)"
    using build_frame_view[OF core order_refl] unfolding build_frame_def by blast
  have some: "(\<exists>x. best_offer inp slot n = Some x) \<longleftrightarrow> (\<exists>i < n. present inp i \<and> axis_offer (sources inp ! i) slot \<noteq> None)" for slot n
    by (induction n) (auto simp: first_some_def less_Suc_eq split: option.splits)
  have view: "fr_axis_present f ! slot \<longleftrightarrow> (\<exists>x. best_offer inp slot CART_INPUT_MAX_SOURCES = Some x)"
      "fr_axis_present f ! slot \<Longrightarrow> best_offer inp slot CART_INPUT_MAX_SOURCES = Some (fr_axis f ! slot, fr_axis_owner f ! slot)"
    if "slot < CART_INPUT_AXIS_COUNT" for slot
  proof -
    have "best_offer inp slot CART_INPUT_MAX_SOURCES
        = (if fr_axis_present f ! slot then Some (fr_axis f ! slot, fr_axis_owner f ! slot) else None)"
      using f(2) that by (simp add: frame_view_def)
    then show "fr_axis_present f ! slot \<longleftrightarrow> (\<exists>x. best_offer inp slot CART_INPUT_MAX_SOURCES = Some x)"
      "fr_axis_present f ! slot \<Longrightarrow> best_offer inp slot CART_INPUT_MAX_SOURCES = Some (fr_axis f ! slot, fr_axis_owner f ! slot)"
      by simp_all
  qed
  have wf: "wf_source (sources inp ! i)" if "i < CART_INPUT_MAX_SOURCES" for i
    using core that by (simp add: wf_core_def)
  have here: "fr_axis_present f ! slot \<longleftrightarrow> (\<exists>i < CART_INPUT_MAX_SOURCES. present inp i \<and> axis_offer (sources inp ! i) slot \<noteq> None)"
    if "slot < CART_INPUT_AXIS_COUNT" for slot
    unfolding view(1)[OF that] some ..
  have owner: "fr_axis_owner f ! slot < CART_INPUT_MAX_SOURCES \<and> present inp (fr_axis_owner f ! slot)
      \<and> axis_offer (sources inp ! (fr_axis_owner f ! slot)) slot = Some (fr_axis f ! slot)
      \<and> (\<forall>j < fr_axis_owner f ! slot. \<not> (present inp j \<and> axis_offer (sources inp ! j) slot \<noteq> None))"
    if "slot < CART_INPUT_AXIS_COUNT" "fr_axis_present f ! slot" for slot
    using view(2)[OF that] unfolding best_offer_first .
  have "- 100 \<le> fr_axis f ! slot \<and> fr_axis f ! slot \<le> 100"
    if "slot < CART_INPUT_AXIS_COUNT" "fr_axis_present f ! slot" for slot
    using axis_offer_range[OF wf that(1)] owner[OF that] by blast
  then show ?thesis using f(1,3,4) here owner by (intro exI[of _ f]) simp
qed

text \<open>C39. A source that has lost synchronisation stays so.  A source that is in the state
  \<open>CART_INPUT_DESYNC\<close> when a poll begins is not read by it, so the \<open>SYN_REPORT\<close> that would end the state
  never arrives: no sequence of polls and rescans changes the source.\<close>

theorem desync_is_permanent:
  assumes "input_ops ops" "calibrated_ops ops" "fd_ledger opened ops" "runs_dry m ops" "\<forall>c \<in> set calls. call_ok sys c"
    and "wf_input inp" "in_ops inp = Ptr ops" "accounts opened base inp w"
    and "j < CART_INPUT_MAX_SOURCES" "src_state (sources inp ! j) = CART_INPUT_DESYNC"
  shows "\<exists>out w'. input_run k sys dev calls (inp, w) = Some (out, w') \<and> sources out ! j = sources inp ! j"
  using input_run_total[OF assms(1-8), of k dev] assms(9,10) by blast

section \<open>A scripted keyboard\<close>

text \<open>A concrete operations table: one keyboard whose reads follow a script, over a world that records
  the open descriptors.\<close>

record script_world =
  sw_open :: "int list"
  sw_script :: "u8 list list"

definition script_open :: "string \<Rightarrow> u32 \<Rightarrow> script_world \<Rightarrow> int \<times> script_world" where
  "script_open path flags w = (let fd = foldr max (sw_open w) 2 + 1 in (fd, w\<lparr>sw_open := fd # sw_open w\<rparr>))"

definition script_close :: "int \<Rightarrow> script_world \<Rightarrow> int \<times> script_world" where
  "script_close fd w = (0, w\<lparr>sw_open := removeAll fd (sw_open w)\<rparr>)"

fun script_next :: "nat \<Rightarrow> u8 list list \<Rightarrow> (u8 list \<times> u8 list list) option" where
  "script_next n [] = None"
| "script_next n (c # cs) = (if c = [] then script_next n cs
     else if length c \<le> n then Some (c, cs) else Some (take n c, drop n c # cs))"

definition script_read :: "int \<Rightarrow> nat \<Rightarrow> script_world \<Rightarrow> read_result \<times> script_world" where
  "script_read fd n w = (case (if n = 0 then None else script_next n (sw_script w)) of
     None \<Rightarrow> (Failed EAGAIN, w) | Some (c, cs) \<Rightarrow> (Got c, w\<lparr>sw_script := cs\<rparr>))"

definition script_ops :: "script_world cart_input_ops" where
  "script_ops = \<lparr>op_open = Ptr script_open, op_close = Ptr script_close, op_read = Ptr script_read,
     op_ioctl_name = Ptr (\<lambda>fd n w. ((3, ''kbd''), w)),
     op_ioctl_key_state = Ptr (\<lambda>fd n w. ((int n, replicate n 0), w)),
     op_ioctl_bit = Ptr (\<lambda>fd ty n w. ((0, replicate n 2), w)),
     op_ioctl_abs = Ptr (\<lambda>fd code w. (None, w))\<rparr>"

definition script_kernel :: "script_world kernel" where
  "script_kernel = \<lparr>k_open = script_open, k_close = script_close, k_read = script_read,
     k_ioctl = (\<lambda>fd request w. ((- 1, []), w))\<rparr>"

lemma script_next_Some:
  assumes "script_next n cs = Some (c, ds)" "0 < n"
  shows "c \<noteq> [] \<and> length c \<le> n \<and> concat cs = c @ concat ds"
  using assms by (induction n cs rule: script_next.induct) (auto split: if_splits)

lemma script_next_None: "script_next n cs = None \<Longrightarrow> concat cs = []"
  by (induction n cs rule: script_next.induct) (auto split: if_splits)

lemma script_input_ops: "input_ops script_ops"
  by unfold_locales (auto simp: script_ops_def)

lemma script_calibrated: "calibrated_ops script_ops"
  by (simp add: calibrated_ops_def script_ops_def)

lemma script_keep: "queries_keep \<phi> script_ops"
  by (simp add: queries_keep_def script_ops_def)

lemma script_ledger_of:
  assumes "op_open ops = Ptr script_open" "op_close ops = Ptr script_close" "op_read ops = Ptr script_read"
    and "queries_keep (\<lambda>w. set (sw_open w)) ops"
  shows "fd_ledger (\<lambda>w. set (sw_open w)) ops"
proof -
  have bound: "\<forall>x \<in> set xs. x < foldr max xs (2 :: int) + 1" for xs
    by (induction xs) auto
  then have fresh: "foldr max xs (2 :: int) + 1 \<notin> set xs" for xs by blast
  have pos: "2 \<le> foldr max xs (2 :: int)" for xs by (induction xs) auto
  have opens: "(if fd < 0 then set (sw_open w') = set (sw_open w)
      else fd \<notin> set (sw_open w) \<and> set (sw_open w') = insert fd (set (sw_open w)))"
    if "script_open path flags w = (fd, w')" for path flags w fd w'
  proof -
    have "fd = foldr max (sw_open w) 2 + 1" "sw_open w' = fd # sw_open w" using that by (auto simp: script_open_def Let_def)
    then show ?thesis using fresh[of "sw_open w"] pos[of "sw_open w"] by simp
  qed
  have closes: "set (sw_open (snd (script_close fd w))) = set (sw_open w) - {fd}" for fd w
    by (simp add: script_close_def)
  have reads: "set (sw_open (snd (script_read fd n w))) = set (sw_open w)" for fd n w
    by (simp add: script_read_def split: option.splits prod.splits)
  show ?thesis unfolding fd_ledger_def assms(1-3) ptr.inject
    using opens closes reads assms(4) by (intro conjI allI impI) simp_all
qed

lemma script_ledger: "fd_ledger (\<lambda>w. set (sw_open w)) script_ops"
  by (rule script_ledger_of) (simp_all add: script_ops_def script_keep[unfolded script_ops_def])

lemma script_dry: "runs_dry (\<lambda>w. length (concat (sw_script w))) script_ops"
  unfolding runs_dry_def
  using script_keep[of "\<lambda>w. length (concat (sw_script w))"]
  by (auto simp: script_ops_def script_read_def split: option.splits prod.splits if_splits dest!: script_next_Some)

lemma script_fixed: "answers_fixed script_ops"
  by (auto simp: answers_fixed_def script_ops_def)

lemma script_delivers: "delivers (\<lambda>w. concat (sw_script w)) (\<lambda>_. 0) fd script_ops"
  unfolding delivers_def
  by (auto simp: script_ops_def script_read_def split: option.splits prod.splits
      dest!: script_next_Some dest: script_next_None)

definition script_sysfs :: sysfs where
  "script_sysfs = \<lparr>list_dir = (\<lambda>_. Inr [''event0'', ''mouse0'']), file_contents = (\<lambda>_. Some ''kbd'')\<rparr>"

lemma script_names: "names_readable script_sysfs sys"
  by (simp add: names_readable_def script_sysfs_def)

text \<open>The press and the release of R1, cut inside an event.\<close>

definition press_bytes :: "u8 list" where
  "press_bytes = [0,0,0,0, 0,0,0,0, 1,0, 0x37,1, 1,0,0,0]"

definition script_start :: script_world where
  "script_start = \<lparr>sw_open = [0, 1, 2], sw_script = [take 5 press_bytes, drop 5 press_bytes @ [0, 0]]\<rparr>"

definition connected_keyboard :: "script_world cart_input" where
  "connected_keyboard = (zero_input (Ptr script_ops))\<lparr>sources :=
     [reset_source\<lparr>src_fd := 3, src_state := CART_INPUT_CONNECTED\<rparr>, reset_source, reset_source, reset_source]\<rparr>"

lemma connected_keyboard_wf: "wf_input connected_keyboard"
proof -
  have "slots_distinct (sources connected_keyboard)"
    by (simp add: slots_distinct_def connected_keyboard_def reset_source_def nth_Cons' numeral_eq_Suc less_Suc_eq all_conj_distrib)
  moreover have "\<forall>s \<in> set (sources connected_keyboard). wf_source s \<and> (src_fd s < 0 \<longleftrightarrow> src_state s = CART_INPUT_ABSENT)"
    by (auto simp: connected_keyboard_def reset_source_def zero_source_def wf_source_def)
  ultimately show ?thesis by (auto simp: wf_input_def connected_keyboard_def zero_input_def queue_ok_def)
qed


theorem pump_reassembles_events_witness:
  "\<exists>out w'. pump_source 0 connected_keyboard script_start = Some (out, w') \<and> concat (sw_script w') = []
    \<and> take (partial_len out ! 0) (partial_buf out ! 0) = [0, 0]"
proof -
  have "split_events (take (partial_len connected_keyboard ! 0) (partial_buf connected_keyboard ! 0) @ concat (sw_script script_start))
      = ([key_event (0x137, 1)], [0, 0])" by code_simp
  from pump_reassembles_events[OF script_input_ops script_fixed script_delivers connected_keyboard_wf _ _ this]
  show ?thesis by (auto simp: connected_keyboard_def zero_input_def)
qed

theorem key_events_effect_witness:
  "\<exists>out. consume_events 0 (map key_event [(16, 1), (311, 1), (16, 0)]) (connected_keyboard, script_start) = Some (out, script_start)
    \<and> pending_actions out = [CART_INPUT_QUIT, CART_INPUT_NEXT] \<and> \<not> bit (src_held_keys (sources out ! 0)) 16"
proof -
  have q: "take (2 * CART_INPUT_MAX_SOURCES) (pending_actions connected_keyboard
      @ filter (\<lambda>a. a \<noteq> CART_INPUT_NONE) (presses [(16, 1), (311, 1), (16, 0)])) = [CART_INPUT_QUIT, CART_INPUT_NEXT]"
    by code_simp
  have h: "\<not> held_after (src_held_keys (sources connected_keyboard ! 0)) [(16, 1), (311, 1), (16, 0)] 16" by code_simp
  show ?thesis
    using key_events_effect[OF connected_keyboard_wf, of 0 "[(16, 1), (311, 1), (16, 0)]" script_start] h unfolding q
    by (auto simp: connected_keyboard_def reset_source_def)
qed

theorem actions_are_fifo_witness:
  "take_actions 3 (fold enqueue_action [CART_INPUT_MENU, CART_INPUT_NONE, CART_INPUT_BACK] connected_keyboard)
    = [CART_INPUT_MENU, CART_INPUT_BACK, CART_INPUT_NONE]"
proof -
  have "pending_actions connected_keyboard = []" by code_simp
  then show ?thesis unfolding actions_are_fifo[OF connected_keyboard_wf] by simp
qed

theorem build_frame_merges_witness:
  "\<exists>f. build_frame connected_keyboard = Some f \<and> bit (fr_connected_mask f) 0 \<and> \<not> bit (fr_connected_mask f) 1"
  using build_frame_merges[OF connected_keyboard_wf]
  by (auto simp: present_def connected_keyboard_def reset_source_def zero_source_def)

lemma owned_list: "owned ss = set (filter (\<lambda>fd. 0 \<le> fd) (map src_fd ss))"
  by (auto simp: owned_def)

lemma set_source_wf_input:
  assumes "wf_input inp" "i < CART_INPUT_MAX_SOURCES" "wf_source s" "src_fd s = src_fd (sources inp ! i)"
    and "src_state s = CART_INPUT_ABSENT \<longleftrightarrow> src_state (sources inp ! i) = CART_INPUT_ABSENT"
  shows "wf_input (set_source i s inp)"
proof -
  have "wf_core inp" "wf_lens inp" using assms(1) by (simp_all add: wf_input_split)
  from set_source_wf[OF this(1) assms(2-5)] \<open>wf_lens inp\<close> show ?thesis
    unfolding wf_input_split wf_lens_def updates_only_def by metis
qed

definition desynced_keyboard :: "script_world cart_input" where
  "desynced_keyboard = set_source 0 ((sources connected_keyboard ! 0)\<lparr>src_state := CART_INPUT_DESYNC\<rparr>) connected_keyboard"

theorem desync_is_permanent_witness:
  "\<exists>out w'. input_run script_kernel ''/sys'' ''/dev'' [CallPoll, CallPoll] (desynced_keyboard, script_start\<lparr>sw_open := [0, 1, 2, 3]\<rparr>) = Some (out, w')
    \<and> src_state (sources out ! 0) = CART_INPUT_DESYNC"
proof -
  have first: "wf_source (sources connected_keyboard ! 0)" "src_state (sources connected_keyboard ! 0) = CART_INPUT_CONNECTED"
    by (simp_all add: connected_keyboard_def reset_source_def zero_source_def wf_source_def)
  then have wf: "wf_input desynced_keyboard"
    unfolding desynced_keyboard_def by (intro set_source_wf_input connected_keyboard_wf) (simp_all add: wf_source_state)
  have acc: "accounts (\<lambda>w. set (sw_open w)) {0, 1, 2} desynced_keyboard (script_start\<lparr>sw_open := [0, 1, 2, 3]\<rparr>)"
    by (auto simp: accounts_def owned_list desynced_keyboard_def connected_keyboard_def set_source_def reset_source_def)
  have st: "in_ops desynced_keyboard = Ptr script_ops" "src_state (sources desynced_keyboard ! 0) = CART_INPUT_DESYNC"
    by (simp_all add: desynced_keyboard_def connected_keyboard_def zero_input_def set_source_def)
  show ?thesis
    using desync_is_permanent[OF script_input_ops script_calibrated script_ledger script_dry _ wf st(1) acc _ st(2),
        of "[CallPoll, CallPoll]" "''/sys''" script_kernel "''/dev''"] st(2)
    by (auto simp: call_ok_def)
qed

end
