(* ===== verification/Demo_Cart.thy ===== *)
theory Demo_Cart
  imports Render_Frame Runtime Transition Presentation Input_Runs
begin

text \<open>
  The demo cart's program, \<open>cart/src/pstv-demo-cart.c\<close>: argument parsing, the dump mode, the start-up,
  the frame loop and the shutdown.  The clock, the sleep, the framebuffer device and the signals are
  operations on the world, as in the input stack.  Signals are delivered while the loop sleeps.  The loop
  composes the runtime, the input engine, the renderer, the crossfade and the presentation; the results
  are that the displayed scene changes only at the end of a complete fade, that it catches up with the
  selected scene, and that a loop step is memory safe.
\<close>

section \<open>The operating system\<close>

record fb_info =
  fb_xres :: u32
  fb_yres :: u32
  fb_bpp :: u32
  fb_line_length :: u32

record 'w demo_os =
  os_clock :: "'w \<Rightarrow> (u64 \<times> u64) option \<times> 'w"            \<comment> \<open>\<open>clock_gettime\<close>: seconds and nanoseconds\<close>
  os_sleep :: "u64 \<times> u64 \<Rightarrow> 'w \<Rightarrow> int \<times> 'w"             \<comment> \<open>\<open>clock_nanosleep\<close>\<close>
  os_signals :: "'w \<Rightarrow> int list \<times> 'w"                     \<comment> \<open>the signals that arrive meanwhile\<close>
  os_fb_open :: "'w \<Rightarrow> int \<times> 'w"
  os_fb_query :: "int \<Rightarrow> 'w \<Rightarrow> fb_info option \<times> 'w"
  os_fb_map :: "int \<Rightarrow> 'w \<Rightarrow> u32 list option \<times> 'w"
  os_fb_unmap :: "'w \<Rightarrow> 'w"
  os_fb_close :: "int \<Rightarrow> 'w \<Rightarrow> 'w"

definition monotonic_now_ns :: "'w demo_os \<Rightarrow> 'w \<Rightarrow> u64 option \<times> 'w" where
  "monotonic_now_ns os w = (case os_clock os w of (None, w) \<Rightarrow> (None, w)
     | (Some (sec, nsec), w) \<Rightarrow> (Some (sec * 1000000000 + nsec), w))"

definition timespec_from_ns :: "u64 \<Rightarrow> u64 \<times> u64" where
  "timespec_from_ns value_ns = (value_ns div 1000000000, value_ns mod 1000000000)"

abbreviation SIGUSR1 :: int where "SIGUSR1 \<equiv> 10"
abbreviation EINTR_status :: int where "EINTR_status \<equiv> 4"
abbreviation RENDER_THREADS :: int where "RENDER_THREADS \<equiv> 4"
abbreviation second_ns :: u64 where "second_ns \<equiv> 1000000000"

section \<open>State\<close>

record frame_report =
  rep_frames :: u64
  rep_scene :: size_t
  rep_count :: u64
  rep_elapsed_ns :: u64
  rep_dropped :: u64

record 'w demo_cart =
  running :: bool
  next_scene_requested :: bool
  dc_render :: renderer
  transition :: cart_transition
  displayed_scene :: size_t
  display_row :: "u32 list"
  framebuffer :: "u32 list"
  runtime :: cart_runtime
  input :: "'w cart_input"
  report_start_ns :: u64
  report_frame :: u64
  rendered_frames :: u64
  report_log :: "frame_report list"

definition on_signal :: "int \<Rightarrow> 'w demo_cart \<Rightarrow> 'w demo_cart" where
  "on_signal sig st = (if sig = SIGUSR1 then st\<lparr>next_scene_requested := True\<rparr> else st\<lparr>running := False\<rparr>)"

section \<open>The frame loop\<close>

text \<open>\<open>SIGUSR1\<close> and the polled action.\<close>

definition handle_requests :: "u64 \<Rightarrow> 'w demo_cart \<Rightarrow> 'w \<Rightarrow> ('w demo_cart \<times> 'w) option" where
  "handle_requests now st w = do {
     let st = (if next_scene_requested st
               then st\<lparr>runtime := deref (cart_runtime_request_next (Ptr (runtime st)) now (3600 * second_ns)),
                       next_scene_requested := False\<rparr>
               else st);
     (rc, inp, polled, frame, w) \<leftarrow> cart_input_poll (Ptr (input st)) (Ptr CART_INPUT_NONE) (Ptr empty_frame) w;
     let st = st\<lparr>input := deref inp\<rparr>;
     (if rc \<noteq> 0 then do {
        (inp, w) \<leftarrow> cart_input_shutdown inp w;
        Some (st\<lparr>input := deref inp\<rparr>, w)
      }
      else Some (case deref polled of
          CART_INPUT_QUIT \<Rightarrow> st\<lparr>running := False\<rparr>
        | CART_INPUT_NEXT \<Rightarrow> st\<lparr>runtime := deref (cart_runtime_request_next (Ptr (runtime st)) now (8 * second_ns))\<rparr>
        | CART_INPUT_PREVIOUS \<Rightarrow> st\<lparr>runtime := deref (cart_runtime_request_previous (Ptr (runtime st)) now (8 * second_ns))\<rparr>
        | _ \<Rightarrow> st, w))
   }"

definition begin_fade ::
  "int list \<Rightarrow> (render_pool \<Rightarrow> render_pool) \<Rightarrow> 'w demo_cart \<Rightarrow> 'w demo_cart option" where
  "begin_fade tb run st =
     (if scene_index (runtime st) \<noteq> displayed_scene st \<and> \<not> cart_transition_active (Ptr (transition st)) then do {
        let tr = deref (cart_transition_begin (Ptr (transition st)) (displayed_scene st) (scene_index (runtime st)));
        (if cart_transition_sources_need_render (Ptr tr) then do {
           rd \<leftarrow> render_scene_into tb run LowFrom (sint (from_scene tr)) (frame_no (runtime st)) (dc_render st);
           rd \<leftarrow> render_scene_into tb run LowTo (sint (to_scene tr)) (frame_no (runtime st)) rd;
           Some (st\<lparr>dc_render := rd, transition := deref (cart_transition_mark_sources_rendered (Ptr tr))\<rparr>)
         }
         else Some (st\<lparr>transition := tr\<rparr>))
      }
      else Some st)"

definition draw_frame ::
  "int list \<Rightarrow> (render_pool \<Rightarrow> render_pool) \<Rightarrow> 'w demo_cart \<Rightarrow> 'w demo_cart option" where
  "draw_frame tb run st = do {
     st \<leftarrow> begin_fade tb run st;
     (if cart_transition_active (Ptr (transition st)) then do {
        let rd = dc_render st;
        b \<leftarrow> cart_transition_blend (Ptr (transition st)) (Ptr (low rd)) (Ptr (low_from rd)) (Ptr (low_to rd)) 57600
               (elapsed_frames (transition st));
        let tr = deref (cart_transition_advance (Ptr (transition st)));
        let st = st\<lparr>dc_render := rd\<lparr>low := deref b\<rparr>, transition := tr\<rparr>;
        Some (if \<not> cart_transition_active (Ptr tr) then st\<lparr>displayed_scene := to_scene tr\<rparr> else st)
      }
      else do {
        rd \<leftarrow> render_frame tb run (sint (displayed_scene st)) (frame_no (runtime st)) (dc_render st);
        Some (st\<lparr>dc_render := rd\<rparr>)
      })
   }"

definition present_frame :: "u64 \<Rightarrow> 'w demo_cart \<Rightarrow> 'w demo_cart option" where
  "present_frame now st = do {
     (fb, row) \<leftarrow> cart_presentation_upscale (Ptr (framebuffer st)) (Ptr (low (dc_render st))) (Ptr (display_row st));
     let st = st\<lparr>framebuffer := deref fb, display_row := deref row, rendered_frames := rendered_frames st + 1\<rparr>;
     Some (if rendered_frames st - report_frame st \<ge> 300 then
             let elapsed = now - report_start_ns st;
                 st = (if elapsed > 0 then st\<lparr>report_log := report_log st @ [\<lparr>rep_frames = rendered_frames st,
                         rep_scene = scene_index (runtime st), rep_count = rendered_frames st - report_frame st,
                         rep_elapsed_ns = elapsed, rep_dropped = dropped_deadlines (runtime st)\<rparr>]\<rparr> else st)
             in st\<lparr>report_start_ns := now, report_frame := rendered_frames st\<rparr>
           else st)
   }"

text \<open>The sleep at the end of an iteration; the first component says whether the loop goes on.\<close>

definition pace_frame :: "'w demo_os \<Rightarrow> 'w demo_cart \<Rightarrow> 'w \<Rightarrow> bool \<times> 'w demo_cart \<times> 'w" where
  "pace_frame os st w = (case monotonic_now_ns os w of (None, w) \<Rightarrow> (False, st, w)
     | (Some now, w) \<Rightarrow> (case cart_runtime_tick (Ptr (runtime st)) now of (rc, r) \<Rightarrow>
         let st = st\<lparr>runtime := deref r\<rparr> in
         if rc \<noteq> 0 then (False, st, w)
         else (case os_sleep os (timespec_from_ns (sleep_ns (runtime st))) w of (status, w) \<Rightarrow>
           case os_signals os w of (signals, w) \<Rightarrow>
             (status = 0 \<or> status = EINTR_status, fold on_signal signals st, w))))"

definition loop_step ::
  "int list \<Rightarrow> (render_pool \<Rightarrow> render_pool) \<Rightarrow> 'w demo_os \<Rightarrow> 'w demo_cart \<Rightarrow> 'w \<Rightarrow> (bool \<times> 'w demo_cart \<times> 'w) option" where
  "loop_step tb run os st w = (case monotonic_now_ns os w of (None, w) \<Rightarrow> Some (False, st, w)
     | (Some now, w) \<Rightarrow> (case cart_runtime_tick (Ptr (runtime st)) now of (rc, r) \<Rightarrow>
         let st = st\<lparr>runtime := deref r\<rparr> in
         if rc \<noteq> 0 then Some (False, st, w)
         else do {
           (st, w) \<leftarrow> handle_requests now st w;
           st \<leftarrow> draw_frame tb run st;
           st \<leftarrow> present_frame now st;
           Some (pace_frame os st w)
         }))"

partial_function (option) demo_loop ::
  "int list \<Rightarrow> (render_pool \<Rightarrow> render_pool) \<Rightarrow> 'w demo_os \<Rightarrow> 'w demo_cart \<Rightarrow> 'w \<Rightarrow> ('w demo_cart \<times> 'w) option" where
  "demo_loop tb run os st w =
     (if \<not> running st then Some (st, w)
      else do {
        (go_on, st, w) \<leftarrow> loop_step tb run os st w;
        (if go_on then demo_loop tb run os st w else Some (st, w))
      })"

section \<open>Start-up and shutdown\<close>

definition frame_period :: u64 where "frame_period = second_ns div 30"
definition attract_period :: u64 where "attract_period = 8 * second_ns"

definition fb_expected :: "fb_info \<Rightarrow> bool" where
  "fb_expected i \<longleftrightarrow> \<not> (fb_xres i \<noteq> 1280 \<or> fb_yres i \<noteq> 720 \<or> fb_bpp i \<noteq> 32 \<or> fb_line_length i \<noteq> 1280 * 4)"

definition zero_transition :: cart_transition where
  "zero_transition = \<lparr>from_scene = 0, to_scene = 0, elapsed_frames = 0, active = False, sources_ready = False\<rparr>"

text \<open>The error exits after the input engine has been set up release it and the framebuffer.\<close>

definition give_up :: "'w demo_os \<Rightarrow> int \<Rightarrow> 'w cart_input \<Rightarrow> 'w \<Rightarrow> ((int + 'w demo_cart \<times> int) \<times> 'w) option" where
  "give_up os fd inp w = do {
     (inp, w) \<leftarrow> cart_input_shutdown (Ptr inp) w;
     Some (Inl 1, os_fb_close os fd (os_fb_unmap os w))
   }"

text \<open>The pool and the runtime.  \<open>boot\<close> takes the pool through the creation of its threads.\<close>

definition start_session ::
  "(pool_object \<Rightarrow> bool) \<Rightarrow> (render_pool \<Rightarrow> render_pool) \<Rightarrow> 'w demo_os \<Rightarrow> cart_runtime \<Rightarrow> int \<Rightarrow> u32 list \<Rightarrow> 'w cart_input \<Rightarrow> u64
     \<Rightarrow> 'w \<Rightarrow> ((int + 'w demo_cart \<times> int) \<times> 'w) option" where
  "start_session works boot os rt0 fd fb inp now w =
     (let (code, pool, objs) = cart_worker_pool_init works (Ptr (zero_pool :: render_pool)) RENDER_THREADS LH;
          pool = (case code of None \<Rightarrow> boot (deref pool) | Some _ \<Rightarrow> deref pool)
      in if pool_main pool = InitFailed \<or> code = Some (- 1) then give_up os fd inp w
      else (case cart_runtime_init (Ptr rt0) cart_scene_count now frame_period attract_period CART_RUNTIME_MIN_CHANGE_NS of
        (rc, r) \<Rightarrow>
          if rc \<noteq> 0 then give_up os fd inp w
          else Some (Inr (\<lparr>running = True, next_scene_requested = False,
            dc_render = zero_renderer\<lparr>rd_pool := pool, row_slots := map Ptr [0..<8]\<rparr>,
            transition = zero_transition, displayed_scene = scene_index (deref r), display_row = replicate 1280 0,
            framebuffer = fb, runtime = deref r, input = inp, report_start_ns = now, report_frame = 0,
            rendered_frames = 0, report_log = []\<rparr>, fd), w)))"

text \<open>From the installation of the signal handlers to the loop.\<close>

definition demo_start ::
  "'w kernel \<Rightarrow> sysfs \<Rightarrow> (pool_object \<Rightarrow> bool) \<Rightarrow> (render_pool \<Rightarrow> render_pool) \<Rightarrow> 'w demo_os \<Rightarrow> 'w cart_input \<Rightarrow> cart_runtime
     \<Rightarrow> 'w \<Rightarrow> ((int + 'w demo_cart \<times> int) \<times> 'w) option" where
  "demo_start k env works boot os inp0 rt0 w =
     (case os_fb_open os w of (fd, w) \<Rightarrow>
        if fd < 0 then Some (Inl 1, w)
        else (case os_fb_query os fd w of (None, w) \<Rightarrow> Some (Inl 1, w)
        | (Some info, w) \<Rightarrow>
          if \<not> fb_expected info then Some (Inl 1, w)
          else (case os_fb_map os fd w of (None, w) \<Rightarrow> Some (Inl 1, w)
          | (Some fb, w) \<Rightarrow> do {
              (rc, inp, w) \<leftarrow> cart_input_init k env (Ptr inp0) (Ptr ''/sys/class/input'') (Ptr ''/dev/input'') w;
              (case monotonic_now_ns os w of (None, w) \<Rightarrow> give_up os fd (deref inp) w
               | (Some now, w) \<Rightarrow> start_session works boot os rt0 fd fb (deref inp) now w)
            })))"

definition demo_finish :: "'w demo_os \<Rightarrow> int \<Rightarrow> 'w demo_cart \<Rightarrow> 'w \<Rightarrow> ('w demo_cart \<times> 'w) option" where
  "demo_finish os fd st w = do {
     let st = st\<lparr>dc_render := (dc_render st)\<lparr>rd_pool := deref (cart_worker_pool_shutdown (Ptr (rd_pool (dc_render st))))\<rparr>\<rparr>;
     (inp, w) \<leftarrow> cart_input_shutdown (Ptr (input st)) w;
     Some (st\<lparr>input := deref inp\<rparr>, os_fb_close os fd (os_fb_unmap os w))
   }"

section \<open>Arguments and the dump mode\<close>

fun parse_args :: "string list \<Rightarrow> string option \<times> int \<times> int \<Rightarrow> (string option \<times> int \<times> int) option" where
  "parse_args (a # v # rest) (dump, dump_scene, dump_frame) =
     (if a = ''--dump'' then parse_args rest (Some v, dump_scene, dump_frame)
      else if a = ''--scene'' then do { n \<leftarrow> atoi v; parse_args rest (dump, n smod SCENES, dump_frame) }
      else if a = ''--frame'' then do { n \<leftarrow> atoi v; parse_args rest (dump, dump_scene, n) }
      else parse_args (v # rest) (dump, dump_scene, dump_frame))"
| "parse_args _ acc = Some acc"

definition put_ignoring :: "u8 list \<Rightarrow> out_stream \<Rightarrow> out_stream" where
  "put_ignoring bs f = (case emit f bs of None \<Rightarrow> f | Some g \<Rightarrow> g)"

text \<open>\<open>dump_ppm\<close> checks no write.\<close>

definition dump_ppm :: "out_stream option \<Rightarrow> u32 list \<Rightarrow> (int \<times> out_stream option) option" where
  "dump_ppm file lowbuf = (case file of None \<Rightarrow> Some (1, None)
     | Some f \<Rightarrow> map_option (\<lambda>g. (0, Some g))
         (mfold (\<lambda>(y, ky, x, kx) f. map_option (\<lambda>c. put_ignoring (rgb_bytes c) f) (load lowbuf (y * 320 + x)))
            [(y, ky, x, kx). y \<leftarrow> [0..<180], ky \<leftarrow> [0..<4], x \<leftarrow> [0..<320], kx \<leftarrow> [0..<4]]
            (put_ignoring (bytes_of (ppm_header 1280 720)) f)))"

definition dump_mode :: "int list \<Rightarrow> (render_pool \<Rightarrow> render_pool) \<Rightarrow> out_stream option \<Rightarrow> int \<Rightarrow> int \<Rightarrow> (int \<times> out_stream option) option" where
  "dump_mode tb run file dump_scene dump_frame =
     (case cart_worker_pool_init (\<lambda>_. True) (Ptr (zero_pool :: render_pool)) 0 LH of (code, pool, objs) \<Rightarrow>
        if code \<noteq> Some 0 then Some (1, None)
        else do {
          rd \<leftarrow> render_frame tb run dump_scene (word_of_int dump_frame) (zero_renderer\<lparr>rd_pool := deref pool\<rparr>);
          dump_ppm file (low rd)
        })"

section \<open>Invariant\<close>

definition scene_picture :: "int list \<Rightarrow> size_t \<Rightarrow> u64 \<Rightarrow> u32 list" where
  "scene_picture tb i frame = scene_image tb (scene_render (builtin_scenes ! unat i)) frame"

text \<open>Frame \<open>k\<close> of a fade between two pictures.\<close>

definition blended :: "u64 \<Rightarrow> u32 list \<Rightarrow> u32 list \<Rightarrow> u32 list" where
  "blended k a b = map2 (fade_pixel k) a b"

definition fade_ok :: "int list \<Rightarrow> 'w demo_cart \<Rightarrow> bool" where
  "fade_ok tb st \<longleftrightarrow> (active (transition st) \<longrightarrow>
     from_scene (transition st) = displayed_scene st \<and> to_scene (transition st) < 6 \<and> to_scene (transition st) \<noteq> displayed_scene st
     \<and> elapsed_frames (transition st) < 15
     \<and> (\<exists>frame. low_from (dc_render st) = scene_picture tb (displayed_scene st) frame
          \<and> low_to (dc_render st) = scene_picture tb (to_scene (transition st)) frame))"

definition display_inv :: "int list \<Rightarrow> nat \<Rightarrow> 'w demo_cart \<Rightarrow> bool" where
  "display_inv tb n st \<longleftrightarrow> wf_renderer n (dc_render st) \<and> canvas_target (dc_render st) = Low
     \<and> scene_index (runtime st) < 6 \<and> displayed_scene st < 6 \<and> fade_ok tb st"

definition demo_inv :: "int list \<Rightarrow> nat \<Rightarrow> 'w cart_input_ops \<Rightarrow> 'w demo_cart \<Rightarrow> bool" where
  "demo_inv tb n ops st \<longleftrightarrow> display_inv tb n st \<and> runtime_inv (runtime st) \<and> scene_count (runtime st) = 6
     \<and> wf_input (input st) \<and> in_ops (input st) = Ptr ops
     \<and> length (framebuffer st) = 1280 * 720 \<and> length (display_row st) = 1280"

section \<open>Drawing a frame\<close>

lemma small_scene:
  assumes "(i :: size_t) < 6"
  shows "0 \<le> sint i" "sint i < SCENES" "nat (sint i) = unat i"
proof -
  have u: "uint i < 6" using assms by (simp add: word_less_def)
  moreover have "0 \<le> uint i" by simp
  ultimately have "signed_take_bit 31 (uint i) = uint i" by (intro signed_take_bit_int_eq_self) (simp_all add: order_trans[of _ 0])
  then have "sint i = uint i" by (simp add: sint_uint)
  then show "0 \<le> sint i" "sint i < SCENES" "nat (sint i) = unat i" using u by simp_all
qed

lemma scene_picture_length: "sine_table tb \<Longrightarrow> length (scene_picture tb i f) = 57600"
  by (simp add: scene_picture_def scene_image_length)

text \<open>What \<open>begin_fade\<close> and \<open>draw_frame\<close> leave alone.\<close>

definition same_rest :: "'w demo_cart \<Rightarrow> 'w demo_cart \<Rightarrow> bool" where
  "same_rest st st' \<longleftrightarrow> runtime st' = runtime st \<and> input st' = input st \<and> running st' = running st
     \<and> framebuffer st' = framebuffer st \<and> display_row st' = display_row st
     \<and> rendered_frames st' = rendered_frames st \<and> report_frame st' = report_frame st"

lemma same_rest_simps:
  "same_rest st (st\<lparr>dc_render := rd, transition := tr\<rparr>)" "same_rest st (st\<lparr>dc_render := rd\<rparr>)" "same_rest st st"
  "same_rest st s \<Longrightarrow> same_rest st (s\<lparr>displayed_scene := d\<rparr>)"
  "same_rest st s \<Longrightarrow> same_rest st (s\<lparr>dc_render := rd, transition := tr\<rparr>)"
  by (simp_all add: same_rest_def)

context scheduler
begin

lemma begin_fade_new:
  assumes inv: "display_inv tb n st" and tb: "sine_table tb"
    and new: "scene_index (runtime st) \<noteq> displayed_scene st" "\<not> active (transition st)"
  shows "\<exists>rd tr. begin_fade tb run st = Some (st\<lparr>dc_render := rd, transition := tr\<rparr>)
    \<and> active tr \<and> elapsed_frames tr = 0 \<and> from_scene tr = displayed_scene st \<and> to_scene tr = scene_index (runtime st)
    \<and> wf_renderer n rd \<and> canvas_target rd = Low
    \<and> low_from rd = scene_picture tb (displayed_scene st) (frame_no (runtime st))
    \<and> low_to rd = scene_picture tb (scene_index (runtime st)) (frame_no (runtime st))"
proof -
  let ?a = "displayed_scene st" and ?b = "scene_index (runtime st)" and ?f = "frame_no (runtime st)"
  have ab: "?a < 6" "?b < 6" and rd: "wf_renderer n (dc_render st)" "canvas_target (dc_render st) = Low"
    using inv by (simp_all add: display_inv_def)
  obtain rd1 where rd1: "render_scene_into tb run LowFrom (sint ?a) ?f (dc_render st) = Some rd1" "wf_renderer n rd1"
      "low_from rd1 = scene_picture tb ?a ?f" "canvas_target rd1 = Low"
    using render_scene_into_image[OF rd(1) tb small_scene(1,2)[OF ab(1)], of LowFrom ?f] rd(2) small_scene(3)[OF ab(1)]
    by (auto simp: scene_picture_def)
  obtain rd2 where rd2: "render_scene_into tb run LowTo (sint ?b) ?f rd1 = Some rd2" "wf_renderer n rd2"
      "low_to rd2 = scene_picture tb ?b ?f" "canvas_target rd2 = Low" "\<forall>b. b \<noteq> LowTo \<longrightarrow> buffer b rd2 = buffer b rd1"
    using render_scene_into_image[OF rd1(2) tb small_scene(1,2)[OF ab(2)], of LowTo ?f] rd1(4) small_scene(3)[OF ab(2)]
    by (auto simp: scene_picture_def)
  have "low_from rd2 = low_from rd1" using rd2(5)[rule_format, of LowFrom] by simp
  then show ?thesis using rd1 rd2 new
    by (intro exI[of _ rd2] exI[of _ "(transition st)\<lparr>from_scene := ?a, to_scene := ?b, elapsed_frames := 0, active := True,
          sources_ready := True\<rparr>"]) (simp add: begin_fade_def cart_transition_active_def cart_transition_begin_def cart_transition_sources_need_render_def
        cart_transition_mark_sources_rendered_def Let_def)
qed

end

text \<open>The fade that the drawn frame belongs to: its step and its target.\<close>

definition fading :: "'w demo_cart \<Rightarrow> bool" where
  "fading st \<longleftrightarrow> active (transition st) \<or> scene_index (runtime st) \<noteq> displayed_scene st"

definition fade_step :: "'w demo_cart \<Rightarrow> u64" where
  "fade_step st = (if active (transition st) then elapsed_frames (transition st) else 0)"

definition fade_target :: "'w demo_cart \<Rightarrow> size_t" where
  "fade_target st = (if active (transition st) then to_scene (transition st) else scene_index (runtime st))"

text \<open>A drawn frame of a fade: the blend of the two pictures at the step; the fade moves on, and after its
  last step the target is displayed.\<close>

definition fade_frame :: "int list \<Rightarrow> 'w demo_cart \<Rightarrow> 'w demo_cart \<Rightarrow> bool" where
  "fade_frame tb st st' \<longleftrightarrow>
     low (dc_render st') = blended (fade_step st) (low_from (dc_render st')) (low_to (dc_render st'))
     \<and> (active (transition st) \<longrightarrow> low_from (dc_render st') = low_from (dc_render st) \<and> low_to (dc_render st') = low_to (dc_render st))
     \<and> (\<exists>frame. low_from (dc_render st') = scene_picture tb (displayed_scene st) frame
          \<and> low_to (dc_render st') = scene_picture tb (fade_target st) frame)
     \<and> (if fade_step st = 14 then \<not> active (transition st') \<and> displayed_scene st' = fade_target st
        else active (transition st') \<and> displayed_scene st' = displayed_scene st \<and> elapsed_frames (transition st') = fade_step st + 1
          \<and> to_scene (transition st') = fade_target st)"

definition steady_frame :: "int list \<Rightarrow> 'w demo_cart \<Rightarrow> 'w demo_cart \<Rightarrow> bool" where
  "steady_frame tb st st' \<longleftrightarrow> low (dc_render st') = scene_picture tb (displayed_scene st) (frame_no (runtime st))
     \<and> displayed_scene st' = displayed_scene st \<and> \<not> active (transition st')"

lemma blend_buffers:
  assumes "length a = 57600" "length b = 57600" "length d = 57600"
  shows "cart_transition_blend tr (Ptr d) (Ptr a) (Ptr b) 57600 k = Some (Ptr (blended k a b))"
proof -
  obtain e where e: "cart_transition_blend tr (Ptr d) (Ptr a) (Ptr b) 57600 k = Some (Ptr e)" "length e = length d"
      "\<forall>i < length d. e ! i = (if i < unat (57600 :: size_t) then fade_pixel k (a ! i) (b ! i) else d ! i)"
    using cart_transition_blend_pixels[of 57600 a b d tr k] assms by auto
  have "e = blended k a b" using e(2,3) assms by (intro nth_equalityI) (simp_all add: blended_def)
  then show ?thesis using e(1) by simp
qed

lemma draw_fade:
  assumes wf: "wf_renderer n (dc_render st)" "canvas_target (dc_render st) = Low"
    and tr: "active (transition st)" "elapsed_frames (transition st) < 15" "from_scene (transition st) = displayed_scene st"
      "to_scene (transition st) < 6" "to_scene (transition st) \<noteq> displayed_scene st" "displayed_scene st < 6" "scene_index (runtime st) < 6"
    and pics: "low_from (dc_render st) = scene_picture tb (displayed_scene st) frame"
      "low_to (dc_render st) = scene_picture tb (to_scene (transition st)) frame"
    and begun: "begin_fade tb run st0 = Some st"
  shows "\<exists>st'. draw_frame tb run st0 = Some st' \<and> display_inv tb n st' \<and> same_rest st st' \<and> fade_frame tb st st'"
proof -
  let ?rd = "dc_render st" and ?tr = "transition st"
  let ?rd' = "?rd\<lparr>low := blended (elapsed_frames ?tr) (low_from ?rd) (low_to ?rd)\<rparr>"
  let ?tr' = "?tr\<lparr>elapsed_frames := elapsed_frames ?tr + 1, active := (elapsed_frames ?tr + 1 < 15)\<rparr>"
  define st' where "st' = (if elapsed_frames ?tr + 1 < 15 then st\<lparr>dc_render := ?rd', transition := ?tr'\<rparr>
    else st\<lparr>dc_render := ?rd', transition := ?tr', displayed_scene := to_scene ?tr\<rparr>)"
  have len: "length (low ?rd) = 57600" "length (low_from ?rd) = 57600" "length (low_to ?rd) = 57600" using wf(1) by (simp_all add: wf_renderer_def)
  have draw: "draw_frame tb run st0 = Some st'"
    using begun blend_buffers[OF len(2,3,1)] tr(1) cart_transition_advance_active[OF tr(1,2)]
    by (simp add: draw_frame_def cart_transition_active_def Let_def st'_def)
  have last: "elapsed_frames ?tr + 1 < 15 \<longleftrightarrow> elapsed_frames ?tr \<noteq> 14"
    using tr(2) by (auto simp: word_less_nat_alt unat_add_no_wrap word_unat_eq_iff)
  have "wf_renderer n ?rd'" using wf(1) len by (auto simp: wf_renderer_def blended_def)
  then have "display_inv tb n st'" using wf(2) tr pics last
    by (auto simp: display_inv_def fade_ok_def st'_def)
  moreover have "fade_frame tb st st'" using tr pics last
    by (auto simp: fade_frame_def fade_step_def fade_target_def st'_def)
  moreover have "same_rest st st'" by (simp add: same_rest_def st'_def)
  ultimately show ?thesis using draw by blast
qed

context scheduler
begin

lemma draw_frame_spec:
  assumes inv: "display_inv tb n st" and tb: "sine_table tb"
  shows "\<exists>st'. draw_frame tb run st = Some st' \<and> display_inv tb n st' \<and> same_rest st st'
    \<and> (if fading st then fade_frame tb st st' else steady_frame tb st st')"
proof -
  have rd: "wf_renderer n (dc_render st)" "canvas_target (dc_render st) = Low" and six: "displayed_scene st < 6" "scene_index (runtime st) < 6"
    and ok: "fade_ok tb st" using inv by (simp_all add: display_inv_def)
  consider "active (transition st)" | "\<not> active (transition st)" "scene_index (runtime st) \<noteq> displayed_scene st"
    | "\<not> active (transition st)" "scene_index (runtime st) = displayed_scene st" by blast
  then show ?thesis
  proof cases
    case 1
    then have "begin_fade tb run st = Some st" by (simp add: begin_fade_def cart_transition_active_def)
    then show ?thesis using draw_fade[OF rd 1, of tb _ run st] ok 1 six by (auto simp: fade_ok_def fading_def)
  next
    case 2
    obtain rd1 tr where b: "begin_fade tb run st = Some (st\<lparr>dc_render := rd1, transition := tr\<rparr>)"
        "active tr" "elapsed_frames tr = 0" "from_scene tr = displayed_scene st" "to_scene tr = scene_index (runtime st)"
        "wf_renderer n rd1" "canvas_target rd1 = Low" "low_from rd1 = scene_picture tb (displayed_scene st) (frame_no (runtime st))"
        "low_to rd1 = scene_picture tb (scene_index (runtime st)) (frame_no (runtime st))"
      using begin_fade_new[OF inv tb 2(2,1)] by blast
    let ?s = "st\<lparr>dc_render := rd1, transition := tr\<rparr>"
    obtain st' where st': "draw_frame tb run st = Some st'" "display_inv tb n st'" "same_rest ?s st'" "fade_frame tb ?s st'"
      using draw_fade[of n ?s tb "frame_no (runtime st)" run st] b 2 six by auto
    have "fade_frame tb st st'" using st'(4) b(2,3,5,8,9) 2 by (simp add: fade_frame_def fade_step_def fade_target_def) blast
    moreover have "same_rest st st'" using st'(3) by (simp add: same_rest_def)
    ultimately show ?thesis using st'(1,2) 2 by (auto simp: fading_def)
  next
    case 3
    obtain rd1 where rd1: "render_frame tb run (sint (displayed_scene st)) (frame_no (runtime st)) (dc_render st) = Some rd1"
        "rendered (scene_picture tb (displayed_scene st) (frame_no (runtime st))) n (dc_render st) rd1"
      using render_frame_image[OF rd(1) tb small_scene(1,2)[OF six(1)], of "frame_no (runtime st)"] small_scene(3)[OF six(1)]
      by (auto simp: scene_picture_def)
    then have "draw_frame tb run st = Some (st\<lparr>dc_render := rd1\<rparr>)"
      using 3 by (simp add: draw_frame_def begin_fade_def cart_transition_active_def)
    then show ?thesis using rd1(2) 3 six rd(2)
      by (simp add: same_rest_def fading_def steady_frame_def rendered_def display_inv_def fade_ok_def)
  qed
qed

end

section \<open>The other phases of an iteration\<close>

lemma runtime_step_count: "scene_count (runtime_step e r) = scene_count r"
  by (cases e) (auto simp: cart_runtime_tick_def Let_def frame_simps cart_runtime_request_next_def
      cart_runtime_request_previous_def)

lemma demo_inv_runtime:
  "demo_inv tb n ops st \<Longrightarrow> runtime_inv r \<Longrightarrow> scene_count r = 6 \<Longrightarrow> demo_inv tb n ops (st\<lparr>runtime := r\<rparr>)"
  by (auto simp: demo_inv_def display_inv_def fade_ok_def runtime_inv_def)

lemma demo_inv_step: "demo_inv tb n ops st \<Longrightarrow> demo_inv tb n ops (st\<lparr>runtime := runtime_step e (runtime st)\<rparr>)"
  by (intro demo_inv_runtime) (auto simp: demo_inv_def runtime_step_inv runtime_step_count)

lemma demo_inv_flags [simp]:
  "demo_inv tb n ops (st\<lparr>running := b\<rparr>) = demo_inv tb n ops st"
  "demo_inv tb n ops (st\<lparr>next_scene_requested := b\<rparr>) = demo_inv tb n ops st"
  by (simp_all add: demo_inv_def display_inv_def fade_ok_def)

lemma demo_inv_input:
  "demo_inv tb n ops st \<Longrightarrow> wf_input inp \<Longrightarrow> in_ops inp = Ptr ops \<Longrightarrow> demo_inv tb n ops (st\<lparr>input := inp\<rparr>)"
  by (simp add: demo_inv_def display_inv_def fade_ok_def)

text \<open>The display state, which only \<open>draw_frame\<close> changes.\<close>

definition same_display :: "'w demo_cart \<Rightarrow> 'w demo_cart \<Rightarrow> bool" where
  "same_display st st' \<longleftrightarrow> dc_render st' = dc_render st \<and> transition st' = transition st \<and> displayed_scene st' = displayed_scene st"

lemma handle_requests_spec:
  assumes inv: "demo_inv tb n ops st" and ops: "input_ops ops" "runs_dry m ops"
  shows "\<exists>st' w'. handle_requests now st w = Some (st', w') \<and> demo_inv tb n ops st' \<and> same_display st st'"
proof -
  define st1 where "st1 = (if next_scene_requested st
    then st\<lparr>runtime := runtime_step (Next now (3600 * second_ns)) (runtime st), next_scene_requested := False\<rparr> else st)"
  have inv1: "demo_inv tb n ops st1" using demo_inv_step[OF inv, of "Next now (3600 * second_ns)"] inv by (simp add: st1_def)
  obtain out w' a f where poll: "cart_input_poll (Ptr (input st1)) (Ptr CART_INPUT_NONE) (Ptr empty_frame) w = Some (0, Ptr out, Ptr a, Ptr f, w')"
      "wf_input out" "in_ops out = Ptr ops"
    using input_ops.cart_input_poll_total[OF ops, of "input st1" CART_INPUT_NONE empty_frame w] inv1 by (auto simp: demo_inv_def)
  define st2 where "st2 = st1\<lparr>input := out\<rparr>"
  have inv2: "demo_inv tb n ops st2" using demo_inv_input[OF inv1 poll(2,3)] by (simp add: st2_def)
  define st3 where "st3 = (case a of CART_INPUT_QUIT \<Rightarrow> st2\<lparr>running := False\<rparr>
    | CART_INPUT_NEXT \<Rightarrow> st2\<lparr>runtime := runtime_step (Next now (8 * second_ns)) (runtime st2)\<rparr>
    | CART_INPUT_PREVIOUS \<Rightarrow> st2\<lparr>runtime := runtime_step (Previous now (8 * second_ns)) (runtime st2)\<rparr> | _ \<Rightarrow> st2)"
  have e: "(if next_scene_requested st then st\<lparr>runtime := deref (cart_runtime_request_next (Ptr (runtime st)) now (3600 * second_ns)),
      next_scene_requested := False\<rparr> else st) = st1" by (simp only: st1_def runtime_step.simps)
  have "handle_requests now st w = Some (st3, w')"
    unfolding handle_requests_def Let_def e using poll(1) by (cases a) (simp_all add: st2_def st3_def)
  moreover have "demo_inv tb n ops st3" using demo_inv_step[OF inv2, of "Next now (8 * second_ns)"]
      demo_inv_step[OF inv2, of "Previous now (8 * second_ns)"] inv2 by (simp add: st3_def split: cart_input_action.split)
  moreover have "same_display st st3" by (simp add: same_display_def st3_def st2_def st1_def split: cart_input_action.split)
  ultimately show ?thesis by blast
qed

lemma present_frame_spec:
  assumes "demo_inv tb n ops st"
  shows "\<exists>st'. present_frame now st = Some st' \<and> demo_inv tb n ops st' \<and> same_display st st' \<and> runtime st' = runtime st
    \<and> (\<forall>X Y. X < 1280 \<longrightarrow> Y < 720 \<longrightarrow> framebuffer st' ! (Y * 1280 + X) = low (dc_render st) ! (Y div 4 * 320 + X div 4))"
proof -
  have "length (low (dc_render st)) = 57600" "length (framebuffer st) = 1280 * 720" "length (display_row st) = 1280"
    using assms by (simp_all add: demo_inv_def display_inv_def wf_renderer_def)
  then obtain f r where fr: "cart_presentation_upscale (Ptr (framebuffer st)) (Ptr (low (dc_render st))) (Ptr (display_row st)) = Some (Ptr f, Ptr r)"
      "length f = 1280 * 720" "length r = 1280"
      "\<forall>X Y. X < 1280 \<longrightarrow> Y < 720 \<longrightarrow> f ! (Y * 1280 + X) = low (dc_render st) ! (Y div 4 * 320 + X div 4)"
    using upscale_spec[of "low (dc_render st)" "display_row st" "framebuffer st"] by auto
  then show ?thesis using assms
    by (auto simp: present_frame_def Let_def demo_inv_def display_inv_def fade_ok_def same_display_def)
qed

lemma demo_inv_tick:
  assumes "demo_inv tb n ops st" "cart_runtime_tick (Ptr (runtime st)) now = (rc, r)"
  shows "demo_inv tb n ops (st\<lparr>runtime := deref r\<rparr>)"
  using demo_inv_step[OF assms(1), of "Tick now"] assms(2) by simp

lemma fold_on_signal [simp]:
  "demo_inv tb n ops (fold on_signal sigs st) = demo_inv tb n ops st"
  "dc_render (fold on_signal sigs st) = dc_render st" "transition (fold on_signal sigs st) = transition st"
  "displayed_scene (fold on_signal sigs st) = displayed_scene st" "framebuffer (fold on_signal sigs st) = framebuffer st"
  by (induction sigs arbitrary: st) (simp_all add: on_signal_def)

lemma pace_frame_spec:
  assumes "demo_inv tb n ops st" "pace_frame os st w = (go, st', w')"
  shows "demo_inv tb n ops st' \<and> same_display st st' \<and> framebuffer st' = framebuffer st"
  using assms(2) assms(1) demo_inv_tick[OF assms(1)]
  by (auto simp: pace_frame_def Let_def same_display_def split: prod.splits option.splits if_splits)

section \<open>One iteration\<close>

text \<open>An iteration either ends the loop before a frame is drawn, or draws one and presents it.\<close>

definition drew_frame :: "int list \<Rightarrow> 'w demo_cart \<Rightarrow> 'w demo_cart \<Rightarrow> bool" where
  "drew_frame tb st st' \<longleftrightarrow> (\<exists>st1. same_display st st1 \<and> (if fading st1 then fade_frame tb st1 st' else steady_frame tb st1 st'))
     \<and> (\<forall>X Y. X < 1280 \<longrightarrow> Y < 720 \<longrightarrow> framebuffer st' ! (Y * 1280 + X) = low (dc_render st') ! (Y div 4 * 320 + X div 4))"

lemma frame_same_display:
  "same_display a b \<Longrightarrow> fade_frame tb st a = fade_frame tb st b" "same_display a b \<Longrightarrow> steady_frame tb st a = steady_frame tb st b"
  by (simp_all add: same_display_def fade_frame_def steady_frame_def)

context scheduler
begin

lemma loop_step_spec:
  assumes inv: "demo_inv tb n ops st" and tb: "sine_table tb" and ops: "input_ops ops" "runs_dry m ops"
  shows "\<exists>go st' w'. loop_step tb run os st w = Some (go, st', w') \<and> demo_inv tb n ops st'
    \<and> (\<not> go \<and> same_display st st' \<or> drew_frame tb st st')"
proof (cases "monotonic_now_ns os w")
  case (Pair now0 w1)
  show ?thesis
  proof (cases now0)
    case None
    then show ?thesis using Pair inv by (intro exI[of _ False]) (simp add: loop_step_def same_display_def)
  next
    case (Some now)
    obtain rc r where tick: "cart_runtime_tick (Ptr (runtime st)) now = (rc, r)" by fastforce
    have inv1: "demo_inv tb n ops (st\<lparr>runtime := deref r\<rparr>)" using demo_inv_tick[OF inv tick] .
    show ?thesis
    proof (cases "rc = 0")
      case False
      then show ?thesis using Pair Some tick inv1 by (intro exI[of _ False]) (simp add: loop_step_def same_display_def)
    next
      case True
      obtain st2 w2 where st2: "handle_requests now (st\<lparr>runtime := deref r\<rparr>) w1 = Some (st2, w2)" "demo_inv tb n ops st2"
          "same_display (st\<lparr>runtime := deref r\<rparr>) st2"
        using handle_requests_spec[OF inv1 ops] by blast
      obtain st3 where st3: "draw_frame tb run st2 = Some st3" "display_inv tb n st3" "same_rest st2 st3"
          "if fading st2 then fade_frame tb st2 st3 else steady_frame tb st2 st3"
        using draw_frame_spec[OF _ tb, of n st2] st2(2) by (auto simp: demo_inv_def)
      have inv3: "demo_inv tb n ops st3" using st2(2) st3(2,3) by (simp add: demo_inv_def same_rest_def)
      obtain st4 where st4: "present_frame now st3 = Some st4" "demo_inv tb n ops st4" "same_display st3 st4"
          "\<forall>X Y. X < 1280 \<longrightarrow> Y < 720 \<longrightarrow> framebuffer st4 ! (Y * 1280 + X) = low (dc_render st3) ! (Y div 4 * 320 + X div 4)"
        using present_frame_spec[OF inv3] by blast
      obtain go st5 w5 where st5: "pace_frame os st4 w2 = (go, st5, w5)" by (metis prod.exhaust)
      have p: "demo_inv tb n ops st5" "same_display st4 st5" "framebuffer st5 = framebuffer st4"
        using pace_frame_spec[OF st4(2) st5] by simp_all
      have disp: "same_display st3 st5" using st4(3) p(2) by (simp add: same_display_def)
      have "same_display st st2" using st2(3) by (simp add: same_display_def)
      then have "drew_frame tb st st5"
        unfolding drew_frame_def using st3(4) frame_same_display[OF disp] st4(4) p(3) disp
        by (intro conjI exI[of _ st2]) (auto simp: same_display_def)
      moreover have "loop_step tb run os st w = Some (go, st5, w5)"
        using Pair Some tick True st2(1) st3(1) st4(1) st5 by (simp add: loop_step_def)
      ultimately show ?thesis using p(1) by blast
    qed
  qed
qed

end


section \<open>Runs of the loop\<close>

text \<open>A run from \<open>st0\<close>, with the frames it has shown.\<close>

inductive demo_trace ::
  "int list \<Rightarrow> (render_pool \<Rightarrow> render_pool) \<Rightarrow> 'w demo_os \<Rightarrow> 'w demo_cart \<Rightarrow> 'w \<Rightarrow> u32 list list \<Rightarrow> 'w demo_cart \<Rightarrow> 'w \<Rightarrow> bool"
  for tb run os st0 w0 where
  no_frame: "demo_trace tb run os st0 w0 [] st0 w0"
| one_more: "\<lbrakk>demo_trace tb run os st0 w0 shown st w; running st; loop_step tb run os st w = Some (True, st', w')\<rbrakk>
    \<Longrightarrow> demo_trace tb run os st0 w0 (shown @ [low (dc_render st')]) st' w'"

definition fade_so_far :: "u32 list list \<Rightarrow> 'w demo_cart \<Rightarrow> bool" where
  "fade_so_far shown st \<longleftrightarrow> (active (transition st) \<longrightarrow> (\<exists>pre. shown = pre @
     map (\<lambda>k. blended (of_nat k) (low_from (dc_render st)) (low_to (dc_render st))) [0..<unat (elapsed_frames (transition st))]))"

lemma fade_frame_history:
  assumes so_far: "fade_so_far shown st" and fade: "fade_frame tb st st'" and e: "active (transition st) \<Longrightarrow> elapsed_frames (transition st) < 15"
  shows "\<exists>pre. shown @ [low (dc_render st')] = pre @
    map (\<lambda>k. blended (of_nat k) (low_from (dc_render st')) (low_to (dc_render st'))) [0..<Suc (unat (fade_step st))]"
proof -
  let ?bl = "\<lambda>k. blended (of_nat k) (low_from (dc_render st')) (low_to (dc_render st'))"
  have "\<exists>pre. shown = pre @ map ?bl [0..<unat (fade_step st)]"
    using so_far fade by (auto simp: fade_so_far_def fade_frame_def fade_step_def)
  moreover have "low (dc_render st') = ?bl (unat (fade_step st))" using fade by (simp add: fade_frame_def)
  ultimately show ?thesis by auto
qed

lemma fade_so_far_same: "same_display st st' \<Longrightarrow> fade_so_far shown st' = fade_so_far shown st"
  by (simp add: fade_so_far_def same_display_def)

lemma drew_frame_history:
  assumes drew: "drew_frame tb st st'" and so_far: "fade_so_far shown st" and ok: "fade_ok tb st"
  shows "fade_so_far (shown @ [low (dc_render st')]) st'"
    and "displayed_scene st' \<noteq> displayed_scene st \<Longrightarrow> \<exists>pre frame. shown @ [low (dc_render st')] = pre @
      map (\<lambda>k. blended (of_nat k) (scene_picture tb (displayed_scene st) frame) (scene_picture tb (displayed_scene st') frame)) [0..<15]"
proof -
  obtain st1 where st1: "same_display st st1" "if fading st1 then fade_frame tb st1 st' else steady_frame tb st1 st'"
    using drew by (auto simp: drew_frame_def)
  have far1: "fade_so_far shown st1" using fade_so_far_same[OF st1(1)] so_far by simp
  have e1: "elapsed_frames (transition st1) < 15" if "active (transition st1)"
    using ok st1(1) that by (auto simp: fade_ok_def same_display_def)
  have disp: "displayed_scene st1 = displayed_scene st" using st1(1) by (simp add: same_display_def)
  show "fade_so_far (shown @ [low (dc_render st')]) st'"
  proof (cases "fading st1")
    case True
    then have fade: "fade_frame tb st1 st'" using st1(2) by simp
    have "unat (fade_step st1 + 1) = Suc (unat (fade_step st1))" if "fade_step st1 < 15"
      using that by (simp add: word_less_nat_alt unat_add_no_wrap)
    moreover have "fade_step st1 < 15" using e1 by (simp add: fade_step_def)
    ultimately show ?thesis using fade_frame_history[OF far1 fade e1] fade
      by (auto simp: fade_so_far_def fade_frame_def split: if_splits)
  next
    case False
    then show ?thesis using st1(2) by (simp add: steady_frame_def fade_so_far_def)
  qed
  assume changed: "displayed_scene st' \<noteq> displayed_scene st"
  then have fade: "fade_frame tb st1 st'" using st1(2) disp by (auto simp: steady_frame_def split: if_splits)
  then have last: "fade_step st1 = 14" "displayed_scene st' = fade_target st1"
    using changed disp by (auto simp: fade_frame_def split: if_splits)
  obtain frame where "low_from (dc_render st') = scene_picture tb (displayed_scene st) frame"
      "low_to (dc_render st') = scene_picture tb (displayed_scene st') frame"
    using fade last(2) disp by (auto simp: fade_frame_def)
  moreover obtain pre where "shown @ [low (dc_render st')] = pre @
      map (\<lambda>k. blended (of_nat k) (low_from (dc_render st')) (low_to (dc_render st'))) [0..<Suc (unat (fade_step st1))]"
    using fade_frame_history[OF far1 fade e1] by blast
  moreover have "Suc (unat (fade_step st1)) = 15" using last(1) by simp
  ultimately show "\<exists>pre frame. shown @ [low (dc_render st')] = pre @
      map (\<lambda>k. blended (of_nat k) (scene_picture tb (displayed_scene st) frame) (scene_picture tb (displayed_scene st') frame)) [0..<15]"
    by (intro exI[of _ pre] exI[of _ frame]) (simp only:)
qed

context scheduler
begin

lemma demo_trace_inv:
  assumes "demo_trace tb run os st0 w0 shown st w" "demo_inv tb n ops st0" "\<not> active (transition st0)"
    and "sine_table tb" "input_ops ops" "runs_dry m ops"
  shows "demo_inv tb n ops st \<and> fade_so_far shown st"
  using assms(1)
proof (induction rule: demo_trace.induct)
  case no_frame
  then show ?case using assms(2,3) by (simp add: fade_so_far_def)
next
  case (one_more shown st w st' w')
  obtain go s v where "loop_step tb run os st w = Some (go, s, v)" "demo_inv tb n ops s" "\<not> go \<and> same_display st s \<or> drew_frame tb st s"
    using loop_step_spec[OF _ assms(4-6)] one_more.IH by blast
  then have "demo_inv tb n ops st'" "drew_frame tb st st'" using one_more.hyps(3) by simp_all
  moreover have "fade_ok tb st" using one_more.IH by (simp add: demo_inv_def display_inv_def)
  ultimately show ?case using drew_frame_history(1) one_more.IH by blast
qed

lemma change_follows_fade:
  assumes "demo_trace tb run os st0 w0 shown st w" "demo_inv tb n ops st0" "\<not> active (transition st0)"
    and "sine_table tb" "input_ops ops" "runs_dry m ops"
    and "loop_step tb run os st w = Some (go, st', w')" "displayed_scene st' \<noteq> displayed_scene st"
  shows "\<exists>pre frame. shown @ [low (dc_render st')] = pre @
      map (\<lambda>k. blended (of_nat k) (scene_picture tb (displayed_scene st) frame) (scene_picture tb (displayed_scene st') frame)) [0..<15]"
proof -
  have inv: "demo_inv tb n ops st" "fade_so_far shown st" using demo_trace_inv[OF assms(1-6)] by simp_all
  then have ok: "fade_ok tb st" by (simp add: demo_inv_def display_inv_def)
  have "drew_frame tb st st'"
    using loop_step_spec[OF inv(1) assms(4-6), of os w] assms(7,8) by (auto simp: same_display_def)
  then show ?thesis using drew_frame_history(2)[OF _ inv(2) ok] assms(8) by blast
qed

end

section \<open>Start-up\<close>

text \<open>What is assumed of the environment: the pool's threads run until the main thread leaves
  \<open>cart_worker_pool_init\<close>, a mapped framebuffer has the size that was asked for, and the calls on clock and
  framebuffer open and close no input device.\<close>

definition boots :: "(render_pool \<Rightarrow> render_pool) \<Rightarrow> bool" where
  "boots boot \<longleftrightarrow> (\<forall>p. pool_reachable 4 LH p \<and> pool_main p = Creating 0 \<longrightarrow> pool_step\<^sup>*\<^sup>* p (boot p) \<and> at_rest (boot p))"

definition os_ok :: "('w \<Rightarrow> int set) \<Rightarrow> 'w demo_os \<Rightarrow> bool" where
  "os_ok opened os \<longleftrightarrow> (\<forall>w. opened (snd (os_clock os w)) = opened w \<and> opened (snd (os_fb_open os w)) = opened w
     \<and> (\<forall>fd. opened (snd (os_fb_query os fd w)) = opened w \<and> opened (snd (os_fb_map os fd w)) = opened w
          \<and> opened (os_fb_close os fd w) = opened w)
     \<and> opened (os_fb_unmap os w) = opened w)
     \<and> (\<forall>fd w fb. fst (os_fb_map os fd w) = Some fb \<longrightarrow> length fb = 1280 * 720)"

definition starting :: "('j, 's) cart_worker_pool \<Rightarrow> bool" where
  "starting p \<longleftrightarrow> pool_main p \<notin> {WantStart, InStart, WantStop, InStop, ShutWant, ShutIn, Down}
     \<and> pool_main p \<notin> range Joining \<and> (pool_main p = Idle \<longrightarrow> pool_active p)"

lemma starting_step: "pool_step p q \<Longrightarrow> starting p \<Longrightarrow> starting q"
  by (elim pool_stepE worker_stepE main_stepE barrier_stepE) (auto simp: starting_def)

lemma starting_run: "pool_step\<^sup>*\<^sup>* p q \<Longrightarrow> starting p \<Longrightarrow> starting q"
  by (induction rule: rtranclp_induct) (auto intro: starting_step)

lemma booted_pool:
  assumes "boots boot" "cart_worker_pool_init works (Ptr p0) RENDER_THREADS LH = (None, Ptr p, objs)"
  shows "pool_main (boot p) = InitFailed
    \<or> (pool_reachable 4 LH (boot p) \<and> pool_main (boot p) = Idle \<and> pool_active (boot p) \<and> worker_count (boot p) = 4)"
proof -
  have p: "pool_reachable 4 LH p" using pool_reachable.started[of works p0 4 LH p objs] assms(2) by simp
  have c: "pool_main p = Creating 0" using assms(2) by (auto simp: cart_worker_pool_init_def Let_def split: if_splits)
  have b: "pool_step\<^sup>*\<^sup>* p (boot p)" "at_rest (boot p)" using assms(1) p c by (auto simp: boots_def)
  have r: "pool_reachable 4 LH (boot p)" using pool_run_reachable[OF b(1) p] .
  have "starting p" using c by (auto simp: starting_def)
  then have s: "starting (boot p)" using starting_run[OF b(1)] by simp
  have "worker_count (boot p) = 4" if "pool_main (boot p) = Idle"
    using pool_reachable_inv[OF r] that by (simp add: pool_inv_def)
  then show ?thesis using b(2) s r by (auto simp: at_rest_def starting_def)
qed

lemma give_up_closes:
  assumes "input_ops ops" "fd_ledger opened ops" "os_ok opened os"
    and "wf_input inp" "in_ops inp = Ptr ops" "accounts opened base inp w"
  shows "\<exists>w'. give_up os fd inp w = Some (Inl 1, w') \<and> opened w' = base"
proof -
  obtain fin w' where "cart_input_shutdown (Ptr inp) w = Some (Ptr fin, w')" "opened w' = base"
    using input_ops.cart_input_shutdown_closes[OF assms(1,2,5,4,6)] by blast
  then show ?thesis using assms(3) by (simp add: give_up_def os_ok_def)
qed

lemma started_inv:
  assumes "cart_runtime_init (Ptr rt0) cart_scene_count now frame_period attract_period CART_RUNTIME_MIN_CHANGE_NS = (0, Ptr r)"
    and "pool_reachable 4 LH p" "pool_main p = Idle" "pool_active p" "worker_count p = 4"
    and "wf_input inp" "in_ops inp = Ptr ops" "length fb = 1280 * 720"
  shows "demo_inv tb 4 ops \<lparr>running = True, next_scene_requested = False,
    dc_render = zero_renderer\<lparr>rd_pool := p, row_slots := map Ptr [0..<8]\<rparr>,
    transition = zero_transition, displayed_scene = scene_index r, display_row = replicate 1280 0,
    framebuffer = fb, runtime = r, input = inp, report_start_ns = now, report_frame = 0,
    rendered_frames = 0, report_log = []\<rparr>"
proof -
  have r: "runtime_inv r" using cart_runtime_init_inv[OF assms(1)] .
  have "cart_scene_count = 6" by (simp add: cart_scene_count_def builtin_scenes_def)
  then have "scene_count r = 6" "scene_index r = 0" using runtime_init_fields[OF assms(1)] by simp_all
  then show ?thesis using assms r
    by (simp add: demo_inv_def display_inv_def fade_ok_def wf_renderer_def zero_renderer_def zero_transition_def)
qed

text \<open>What a start leaves: an error code and no input device, or a loop that is ready to run.\<close>

definition started :: "('w \<Rightarrow> int set) \<Rightarrow> int set \<Rightarrow> int list \<Rightarrow> 'w cart_input_ops \<Rightarrow> (int + 'w demo_cart \<times> int) \<Rightarrow> 'w \<Rightarrow> bool" where
  "started opened base tb ops res w = (case res of Inl code \<Rightarrow> code = 1 \<and> opened w = base
     | Inr (st, fd) \<Rightarrow> demo_inv tb 4 ops st \<and> \<not> active (transition st) \<and> running st \<and> accounts opened base (input st) w)"

lemma start_session_spec:
  assumes ops: "input_ops ops" "fd_ledger opened ops" and env: "boots boot" "os_ok opened os"
    and inp: "wf_input inp" "in_ops inp = Ptr ops" "accounts opened base inp w" and fb: "length fb = 1280 * 720"
  shows "\<exists>res w'. start_session works boot os rt0 fd fb inp now w = Some (res, w') \<and> started opened base tb ops res w'"
proof -
  obtain w' where give: "give_up os fd inp w = Some (Inl 1, w')" "started opened base tb ops (Inl 1) w'"
    using give_up_closes[OF ops env(2) inp] by (auto simp: started_def)
  obtain code pool objs where i: "cart_worker_pool_init works (Ptr (zero_pool :: render_pool)) RENDER_THREADS LH = (code, pool, objs)"
    by (metis prod.exhaust)
  then have code: "code = None \<and> pool \<noteq> NULL \<or> code = Some (- 1)" by (auto simp: cart_worker_pool_init_def Let_def split: if_splits)
  obtain rc r where rt: "cart_runtime_init (Ptr rt0) cart_scene_count now frame_period attract_period CART_RUNTIME_MIN_CHANGE_NS = (rc, r)"
    by fastforce
  show ?thesis
  proof (cases "code = Some (- 1) \<or> pool_main (boot (deref pool)) = InitFailed \<or> rc \<noteq> 0")
    case True
    then show ?thesis using give i rt code by (auto simp: start_session_def Let_def)
  next
    case False
    then obtain p where p: "code = None" "pool = Ptr p" "pool_main (boot p) \<noteq> InitFailed" "rc = 0"
      using code by (cases pool) auto
    have b: "pool_reachable 4 LH (boot p)" "pool_main (boot p) = Idle" "pool_active (boot p)" "worker_count (boot p) = 4"
      using booted_pool[OF env(1), of works zero_pool p objs] i p by auto
    obtain r' where r': "r = Ptr r'" using rt p(4) by (auto simp: cart_runtime_init_def split: if_splits)
    note rt' = rt[unfolded p(4) r']
    show ?thesis
      using i rt' p r' b(2) started_inv[OF rt' b inp(1,2) fb, of tb] inp(3)
      by (simp add: start_session_def Let_def started_def zero_transition_def)
  qed
qed

lemma demo_start_spec:
  fixes k :: "'w kernel" and w :: 'w
  assumes ops: "ops = cart_input_default_ops k" "calibrated_ops ops" "fd_ledger opened ops" "names_readable env ''/sys/class/input''"
    and env: "boots boot" "os_ok opened os"
  shows "\<exists>res w'. demo_start k env works boot os inp0 rt0 w = Some (res, w') \<and> started opened (opened w) tb ops res w'"
proof -
  have iops: "input_ops ops" unfolding ops(1) by (rule default.input_ops_axioms)
  obtain fd w1 where o1: "os_fb_open os w = (fd, w1)" by fastforce
  obtain q w2 where o2: "os_fb_query os fd w1 = (q, w2)" by fastforce
  obtain m w3 where o3: "os_fb_map os fd w2 = (m, w3)" by fastforce
  have keep: "opened w1 = opened w" "opened w2 = opened w" "opened w3 = opened w"
    using env(2) o1 o2 o3 unfolding os_ok_def by (metis snd_conv)+
  obtain rc inp w4 where o4: "cart_input_init k env (Ptr inp0) (Ptr ''/sys/class/input'') (Ptr ''/dev/input'') w3 = Some (rc, Ptr inp, w4)"
      "wf_input inp" "accounts opened (opened w3) inp w4" "in_ops inp = Ptr ops"
    using cart_input_init_ex_accounts[OF iops ops(2-4), of inp0 "''/dev/input''" w3] by (auto simp: cart_input_init_def ops(1))
  obtain now w5 where o5: "monotonic_now_ns os w4 = (now, w5)" by fastforce
  have "opened w5 = opened w4"
    using env(2) o5 unfolding os_ok_def monotonic_now_ns_def by (auto split: prod.splits option.splits) (metis snd_conv)+
  then have acc5: "accounts opened (opened w) inp w5" using o4(3) keep by (simp add: accounts_def)
  show ?thesis
  proof (cases "fd < 0 \<or> (case q of None \<Rightarrow> True | Some i \<Rightarrow> \<not> fb_expected i) \<or> m = None")
    case True
    then show ?thesis using o1 o2 o3 keep by (auto simp: demo_start_def started_def split: option.splits)
  next
    case False
    then obtain info fb where some: "0 \<le> fd" "q = Some info" "fb_expected info" "m = Some fb" by (cases q) auto
    have fb: "length fb = 1280 * 720" using env(2) o3 some(4) unfolding os_ok_def by (metis fst_conv)
    show ?thesis
    proof (cases now)
      case None
      then show ?thesis using give_up_closes[OF iops ops(3) env(2) o4(2,4) acc5, of fd] o1 o2 o3 o4(1) o5 some
        by (auto simp: demo_start_def started_def)
    next
      case (Some t)
      then show ?thesis
        using start_session_spec[OF iops ops(3) env o4(2,4) acc5 fb, of works rt0 fd t tb] o1 o2 o3 o4(1) o5 some
        by (simp add: demo_start_def)
    qed
  qed
qed


section \<open>Catching up\<close>

text \<open>The drawing of a sequence of iterations, with what the runtime says in each of them.\<close>

fun draw_run :: "int list \<Rightarrow> (render_pool \<Rightarrow> render_pool) \<Rightarrow> cart_runtime list \<Rightarrow> 'w demo_cart \<Rightarrow> 'w demo_cart option" where
  "draw_run tb run [] st = Some st"
| "draw_run tb run (r # rs) st = do { st \<leftarrow> draw_frame tb run (st\<lparr>runtime := r\<rparr>); draw_run tb run rs st }"

text \<open>How many frames it takes until the scene \<open>s\<close> is displayed.\<close>

definition frames_left :: "size_t \<Rightarrow> 'w demo_cart \<Rightarrow> nat" where
  "frames_left s st = (if active (transition st)
     then 15 - unat (elapsed_frames (transition st)) + (if to_scene (transition st) = s then 0 else 15)
     else if displayed_scene st = s then 0 else 15)"

lemma fade_frames_left:
  assumes "fade_frame tb st st'" "scene_index (runtime st) = s" "fading st" "active (transition st) \<Longrightarrow> elapsed_frames (transition st) < 15"
  shows "frames_left s st' = frames_left s st - 1 \<and> 0 < frames_left s st"
proof -
  define e where "e = unat (fade_step st)"
  have e: "e < 15" using assms(4) by (auto simp: e_def fade_step_def word_less_nat_alt)
  have left: "frames_left s st = 15 - e + (if fade_target st = s then 0 else 15)"
    using assms(2,3) by (auto simp: frames_left_def fading_def fade_step_def fade_target_def e_def)
  show ?thesis
  proof (cases "fade_step st = 14")
    case True
    then have "e = 14" by (simp add: e_def)
    then show ?thesis using True assms(1) left by (auto simp: fade_frame_def frames_left_def)
  next
    case False
    have "unat (fade_step st + 1) = Suc e" using e by (simp add: e_def unat_add_no_wrap)
    then show ?thesis using False assms(1) left e by (auto simp: fade_frame_def frames_left_def)
  qed
qed

context scheduler
begin

lemma draw_run_catches_up:
  assumes "display_inv tb n st" "sine_table tb" "s < 6" "\<forall>r \<in> set rs. scene_index r = s"
  shows "\<exists>st'. draw_run tb run rs st = Some st' \<and> display_inv tb n st' \<and> frames_left s st' = frames_left s st - length rs"
  using assms(1,4)
proof (induction rs arbitrary: st)
  case Nil
  then show ?case by simp
next
  case (Cons r rs)
  let ?s = "st\<lparr>runtime := r\<rparr>"
  have inv: "display_inv tb n ?s" using Cons.prems assms(3) by (simp add: display_inv_def fade_ok_def)
  obtain st1 where st1: "draw_frame tb run ?s = Some st1" "display_inv tb n st1"
      "if fading ?s then fade_frame tb ?s st1 else steady_frame tb ?s st1"
    using draw_frame_spec[OF inv assms(2)] by blast
  have same: "frames_left s ?s = frames_left s st" by (simp add: frames_left_def)
  have "frames_left s st1 = frames_left s st - 1"
  proof (cases "fading ?s")
    case True
    have "elapsed_frames (transition ?s) < 15" if "active (transition ?s)" using inv that by (simp add: display_inv_def fade_ok_def)
    then show ?thesis using fade_frames_left[of tb ?s st1 s] True st1(3) Cons.prems(2) same by simp
  next
    case False
    then have "frames_left s ?s = 0" "frames_left s st1 = 0"
      using st1(3) Cons.prems(2) by (auto simp: fading_def steady_frame_def frames_left_def)
    then show ?thesis using same by simp
  qed
  moreover obtain st' where "draw_run tb run rs st1 = Some st'" "display_inv tb n st'" "frames_left s st' = frames_left s st1 - length rs"
    using Cons.IH[OF st1(2)] Cons.prems(2) by auto
  ultimately show ?case using st1(1) by auto
qed

end

section \<open>Properties\<close>

text \<open>C1. Scene changes are never hard cuts.  In every run of the frame loop, under every schedule of the
  render threads, every iteration is memory safe and returns, and if it makes another scene the displayed
  one, then the last fifteen frames shown, this one included, were the fifteen blends of one picture of the
  old scene into one picture of the new one, in order.\<close>

theorem scene_change_is_a_full_fade:
  assumes "scheduler run" "sine_table tb" "input_ops ops" "runs_dry m ops"
    and "demo_inv tb n ops st0" "\<not> active (transition st0)" "demo_trace tb run os st0 w0 shown st w"
  shows "\<exists>go st' w'. loop_step tb run os st w = Some (go, st', w') \<and> demo_inv tb n ops st'
    \<and> (displayed_scene st' = displayed_scene st
       \<or> (\<exists>pre frame. shown @ [low (dc_render st')] = pre @ map (\<lambda>k. blended (of_nat k)
            (scene_picture tb (displayed_scene st) frame) (scene_picture tb (displayed_scene st') frame)) [0..<15]))"
proof -
  have inv: "demo_inv tb n ops st" using scheduler.demo_trace_inv[OF assms(1,7,5,6,2-4)] by simp
  obtain go st' w' where s: "loop_step tb run os st w = Some (go, st', w')" "demo_inv tb n ops st'"
    using scheduler.loop_step_spec[OF assms(1) inv assms(2-4)] by blast
  then show ?thesis using scheduler.change_follows_fade[OF assms(1,7,5,6,2-4) s(1)] by blast
qed

text \<open>C13. The display catches up.  If the runtime selects the same scene for at least thirty iterations,
  the display shows it at the end and no fade is running, whatever fade was in flight before.\<close>

theorem display_catches_up:
  assumes "scheduler run" "sine_table tb" "display_inv tb n st" "s < 6"
    and "\<forall>r \<in> set rs. scene_index r = s" "30 \<le> length rs"
  shows "\<exists>st'. draw_run tb run rs st = Some st' \<and> displayed_scene st' = s \<and> \<not> active (transition st')"
proof -
  obtain st' where st': "draw_run tb run rs st = Some st'" "display_inv tb n st'" "frames_left s st' = frames_left s st - length rs"
    using scheduler.draw_run_catches_up[OF assms(1,3,2,4,5)] by blast
  have "frames_left s st \<le> 30" unfolding frames_left_def using diff_le_self[of 15 "unat (elapsed_frames (transition st))"] by auto
  then have "frames_left s st' = 0" using st'(3) assms(6) by simp
  moreover have "unat (elapsed_frames (transition st')) < 15" if "active (transition st')"
    using st'(2) that by (simp add: display_inv_def fade_ok_def word_less_nat_alt)
  ultimately show ?thesis using st'(1) by (auto simp: frames_left_def split: if_splits)
qed



section \<open>A session\<close>

definition quiet_os :: "script_world demo_os" where
  "quiet_os = \<lparr>os_clock = (\<lambda>w. (Some (0, 0), w)), os_sleep = (\<lambda>_ w. (0, w)), os_signals = (\<lambda>w. ([], w)),
     os_fb_open = (\<lambda>w. (3, w)),
     os_fb_query = (\<lambda>_ w. (Some \<lparr>fb_xres = 1280, fb_yres = 720, fb_bpp = 32, fb_line_length = 5120\<rparr>, w)),
     os_fb_map = (\<lambda>_ w. (Some (replicate (1280 * 720) 0), w)), os_fb_unmap = (\<lambda>w. w), os_fb_close = (\<lambda>_ w. w)\<rparr>"

definition quiet_cart :: "script_world demo_cart" where
  "quiet_cart = \<lparr>running = True, next_scene_requested = True, dc_render = demo_renderer, transition = zero_transition,
     displayed_scene = 0, display_row = replicate 1280 0, framebuffer = replicate (1280 * 720) 0, runtime = demo_runtime,
     input = connected_keyboard, report_start_ns = 0, report_frame = 0, rendered_frames = 0, report_log = []\<rparr>"

abbreviation demo_sines :: "int list" where "demo_sines \<equiv> snd (cart_legacy_scenes_init sawtooth)"

lemma quiet_cart_inv: "demo_inv tb 1 script_ops quiet_cart"
proof -
  have ops: "in_ops connected_keyboard = Ptr script_ops" by (simp add: connected_keyboard_def zero_input_def)
  have rt: "scene_count demo_runtime = 6" "scene_index demo_runtime = 0" by (simp_all add: demo_runtime_def)
  have tgt: "canvas_target demo_renderer = Low" by (simp add: demo_renderer_def zero_renderer_def)
  show ?thesis unfolding demo_inv_def display_inv_def fade_ok_def
    using demo_renderer_wf demo_runtime_inv connected_keyboard_wf ops rt tgt
    by (simp add: quiet_cart_def zero_transition_def)
qed

theorem scene_change_is_a_full_fade_witness:
  "\<exists>go st' w'. loop_step demo_sines any_schedule quiet_os quiet_cart script_start = Some (go, st', w')
    \<and> demo_inv demo_sines 1 script_ops st'"
  using scene_change_is_a_full_fade[OF any.scheduler_axioms sawtooth_ok script_input_ops script_dry quiet_cart_inv _ demo_trace.no_frame,
    of quiet_os script_start]
  by (auto simp: quiet_cart_def zero_transition_def)

theorem display_catches_up_witness:
  "\<exists>st'. draw_run demo_sines any_schedule (replicate 30 (demo_runtime\<lparr>scene_index := 3\<rparr>)) quiet_cart = Some st'
    \<and> displayed_scene st' = 3 \<and> \<not> active (transition st')"
  using display_catches_up[OF any.scheduler_axioms sawtooth_ok, of 1 quiet_cart 3 "replicate 30 (demo_runtime\<lparr>scene_index := 3\<rparr>)"]
    quiet_cart_inv[of demo_sines]
  by (simp add: demo_inv_def)

definition any_boot :: "render_pool \<Rightarrow> render_pool" where
  "any_boot p = (SOME q. pool_step\<^sup>*\<^sup>* p q \<and> at_rest q)"

lemma any_boot_boots: "boots any_boot"
  unfolding boots_def
proof (intro allI impI)
  fix p :: render_pool
  assume "pool_reachable 4 LH p \<and> pool_main p = Creating 0"
  then have "pool_inv 4 LH p" by (intro pool_reachable_inv) simp_all
  then have "\<exists>q. pool_step\<^sup>*\<^sup>* p q \<and> at_rest q" by (rule pool_comes_to_rest) simp
  then show "pool_step\<^sup>*\<^sup>* p (any_boot p) \<and> at_rest (any_boot p)" unfolding any_boot_def by (rule someI_ex)
qed

lemma quiet_os_ok: "os_ok opened quiet_os"
  by (simp add: os_ok_def quiet_os_def)

lemma script_kernel_ops:
  "calibrated_ops (cart_input_default_ops script_kernel)" "fd_ledger (\<lambda>w. set (sw_open w)) (cart_input_default_ops script_kernel)"
proof -
  have ioctl: "k_ioctl script_kernel = (\<lambda>fd request w. ((- 1, []), w))" by (simp add: script_kernel_def)
  show "calibrated_ops (cart_input_default_ops script_kernel)"
    by (simp add: calibrated_ops_def cart_input_default_ops_def default_ioctl_abs_def ioctl)
  have "queries_keep (\<lambda>w. set (sw_open w)) (cart_input_default_ops script_kernel)"
    by (auto simp: queries_keep_def cart_input_default_ops_def default_ioctl_name_def default_ioctl_key_state_def default_ioctl_bit_def
        default_ioctl_abs_def Let_def ioctl)
  then show "fd_ledger (\<lambda>w. set (sw_open w)) (cart_input_default_ops script_kernel)"
    by (intro script_ledger_of)
      (simp_all add: cart_input_default_ops_def default_open_def default_close_def default_read_def script_kernel_def fun_eq_iff)
qed


end
