(* ===== verification/Release_Cart.thy ===== *)
theory Release_Cart
  imports Release_Scenes Demo_Cart
begin

text \<open>
  The program of the released v0.1 cart, \<open>cart/provenance/v0.1/pstv-demo-cart.c\<close>: four threads that are
  created and joined for every frame, the upscaler, the dump mode and the display loop.  A thread of the
  release makes a fixed list of stores, because no scene reads the image, so that an interleaving of the
  threads is an interleaving of their stores; \<open>sched\<close> gives the thread that stores next, and what is left
  when it ends is done by the joins.  Every interleaving is of that form.

  The results: whatever the interleaving, the release draws the reference image of its successor for the
  first 65536 frames; the dump modes of the two programs write the same file; and an iteration of the display
  loop is memory safe and shows that image, four times enlarged, of the scene that its rule selects.
\<close>

section \<open>Rendering a frame\<close>

text \<open>What each thread has still to store, and the image.\<close>

type_synonym v1_threads = "(int \<times> int \<times> u32) list list \<times> u32 list"

definition v1_thread_step :: "nat \<Rightarrow> v1_threads \<Rightarrow> v1_threads option" where
  "v1_thread_step i st = (case st of (todo, img) \<Rightarrow>
     if i < length todo then (case todo ! i of [] \<Rightarrow> Some (todo, img)
       | (y, x, v) # ws \<Rightarrow> map_option (\<lambda>img. (todo[i := ws], img)) (v1_put y x v img))
     else Some (todo, img))"

definition v1_join :: "v1_threads \<Rightarrow> u32 list option" where
  "v1_join st = (case st of (todo, img) \<Rightarrow> mfold (mfold (\<lambda>(y, x, v). v1_put y x v)) todo img)"

definition v1_job_of :: "int \<Rightarrow> int \<Rightarrow> nat \<Rightarrow> v1_job" where
  "v1_job_of which t i = \<lparr>job_y0 = int i * LH div 4, job_y1 = (int i + 1) * LH div 4, job_t = t, job_which = which\<rparr>"

text \<open>\<open>created i\<close> tells whether \<open>pthread_create\<close> succeeds; its result is not checked, and joining a thread
  that was not created is undefined.\<close>

definition v1_render_frame :: "int list \<Rightarrow> (nat \<Rightarrow> bool) \<Rightarrow> nat list \<Rightarrow> int \<Rightarrow> int \<Rightarrow> low_draw" where
  "v1_render_frame tb created sched which t img =
     (if \<not> list_all created [0..<4] then None
      else do {
        st \<leftarrow> mfold v1_thread_step sched (map (\<lambda>i. v1_worker tb (v1_job_of which t i)) [0..<4], img);
        img \<leftarrow> v1_join st;
        v1_overlay tb which t img
      })"

text \<open>The row buffer is a local array; it is written before it is read.\<close>

definition v1_upscale_line :: "u32 list \<Rightarrow> nat \<Rightarrow> u32 list \<times> u32 list \<Rightarrow> (u32 list \<times> u32 list) option" where
  "v1_upscale_line img y st = (case st of (dst, row) \<Rightarrow> do {
     row \<leftarrow> mfold (\<lambda>x. mfold (\<lambda>k r. do { v \<leftarrow> load img (y * 320 + x); store r (x * 4 + k) v }) [0..<4]) [0..<320] row;
     dst \<leftarrow> mfold (\<lambda>k d. memcpy_at d ((y * 4 + k) * 1280) row 1280) [0..<4] dst;
     Some (dst, row)
   })"

definition v1_upscale :: "u32 list \<Rightarrow> u32 list \<Rightarrow> u32 list \<Rightarrow> u32 list option" where
  "v1_upscale img row dst = map_option fst (mfold (v1_upscale_line img) [0..<180] (dst, row))"

text \<open>The results of \<open>fprintf\<close>, \<open>fwrite\<close> and \<open>fclose\<close> are not checked.\<close>

definition v1_pixel_bytes :: "u32 \<Rightarrow> u8 list" where
  "v1_pixel_bytes c = [ucast (c AND 255), ucast (drop_bit 8 c AND 255), ucast (drop_bit 16 c AND 255)]"

definition v1_dump_ppm :: "out_stream option \<Rightarrow> u32 list \<Rightarrow> (int \<times> out_stream option) option" where
  "v1_dump_ppm file img = (case file of None \<Rightarrow> Some (1, None)
     | Some f \<Rightarrow> do {
         g \<leftarrow> mfold (\<lambda>(y, ky, x, kx) f. do { c \<leftarrow> load img (y * 320 + x); Some (put_ignoring (v1_pixel_bytes c) f) })
            [(y, ky, x, kx). y \<leftarrow> [0..<180], ky \<leftarrow> [0..<4], x \<leftarrow> [0..<320], kx \<leftarrow> [0..<4]]
            (put_ignoring (bytes_of (''P6'' @ [CHR 0x0A] @ show_nat 1280 @ '' '' @ show_nat 720 @ [CHR 0x0A] @ ''255'' @ [CHR 0x0A])) f);
         Some (0, Some g)
       })"

section \<open>Arguments and the dump mode\<close>

fun v1_parse :: "string list \<Rightarrow> string option \<times> int \<times> int \<Rightarrow> (string option \<times> int \<times> int) option" where
  "v1_parse [] acc = Some acc"
| "v1_parse [a] acc = Some acc"
| "v1_parse (a # v # rest) (dump, dump_scene, dump_frame) =
     (if a = ''--dump'' then v1_parse rest (Some v, dump_scene, dump_frame)
      else if a = ''--scene'' then do { n \<leftarrow> atoi v; v1_parse rest (dump, n smod SCENES, dump_frame) }
      else if a = ''--frame'' then do { n \<leftarrow> atoi v; v1_parse rest (dump, dump_scene, n) }
      else v1_parse (v # rest) (dump, dump_scene, dump_frame))"

definition v1_sines :: "(nat \<Rightarrow> int) \<Rightarrow> int list" where
  "v1_sines sine = map sine [0..<2048]"

definition v1_dump ::
  "(nat \<Rightarrow> int) \<Rightarrow> (nat \<Rightarrow> bool) \<Rightarrow> nat list \<Rightarrow> out_stream option \<Rightarrow> int \<Rightarrow> int \<Rightarrow> (int \<times> out_stream option) option" where
  "v1_dump sine created sched file dump_scene dump_frame = do {
     img \<leftarrow> v1_render_frame (v1_sines sine) created sched dump_scene dump_frame (replicate 57600 0);
     v1_dump_ppm file img
   }"

section \<open>The display loop\<close>

record 'w v1_os = "'w demo_os" +
  os_event_open :: "'w \<Rightarrow> int \<times> 'w"                          \<comment> \<open>\<open>open("/dev/input/event0")\<close>\<close>
  os_event_read :: "int \<Rightarrow> nat \<Rightarrow> 'w \<Rightarrow> read_result \<times> 'w"
  os_event_close :: "int \<Rightarrow> 'w \<Rightarrow> 'w"
  os_threads :: "'w \<Rightarrow> ((nat \<Rightarrow> bool) \<times> nat list) \<times> 'w"     \<comment> \<open>the threads of one frame\<close>

record v1_report =
  v1_rep_frames :: int
  v1_rep_scene :: int
  v1_rep_count :: int
  v1_rep_elapsed_ns :: int

record v1_cart =
  v1_running :: bool
  v1_next_requested :: bool
  v1_low :: "u32 list"
  v1_scene :: int
  v1_frame_no :: int
  v1_hold :: int
  v1_fb :: "u32 list"
  v1_infd :: int
  v1_next :: "u64 \<times> u64"
  v1_report_start :: "u64 \<times> u64"
  v1_report_frame :: int
  v1_log :: "v1_report list"

definition v1_on_signal :: "int \<Rightarrow> v1_cart \<Rightarrow> v1_cart" where
  "v1_on_signal sig st = (if sig = SIGUSR1 then st\<lparr>v1_next_requested := True\<rparr> else st\<lparr>v1_running := False\<rparr>)"

definition v1_event :: "input_event \<Rightarrow> v1_cart \<Rightarrow> v1_cart" where
  "v1_event ev st =
     (if ev_type ev = 1 \<and> ev_value ev = 1 then
        if ev_code ev = 1 \<or> ev_code ev = 16 then st\<lparr>v1_running := False\<rparr>
        else st\<lparr>v1_scene := (v1_scene st + 1) smod SCENES, v1_hold := 30 * 8\<rparr>
      else st)"

partial_function (option) v1_drain :: "'w v1_os \<Rightarrow> v1_cart \<Rightarrow> 'w \<Rightarrow> (v1_cart \<times> 'w) option" where
  "v1_drain os st w = (case os_event_read os (v1_infd st) 16 w of
     (Failed e, w) \<Rightarrow> Some (st, w)
   | (Got bs, w) \<Rightarrow> if length bs = 16 then v1_drain os (v1_event (decode_event bs) st) w else Some (st, w))"

text \<open>The scene of the next frame: the signal, the automatic advance, the events and the hold.\<close>

definition v1_select :: "'w v1_os \<Rightarrow> v1_cart \<Rightarrow> 'w \<Rightarrow> (v1_cart \<times> 'w) option" where
  "v1_select os st w = do {
     let st = (if v1_next_requested st
               then st\<lparr>v1_scene := (v1_scene st + 1) smod SCENES, v1_hold := 30 * 3600, v1_next_requested := False\<rparr> else st);
     let st = (if v1_hold st = 0 then st\<lparr>v1_scene := (v1_frame_no st sdiv (30 * 8)) smod SCENES\<rparr> else st);
     (st, w) \<leftarrow> (if v1_infd st \<ge> 0 then v1_drain os st w else Some (st, w));
     Some (if v1_hold st > 0 then st\<lparr>v1_hold := v1_hold st - 1\<rparr> else st, w)
   }"

text \<open>Drawing, presenting and counting; the counter is an \<open>int\<close>.\<close>

definition v1_show :: "int list \<Rightarrow> 'w v1_os \<Rightarrow> v1_cart \<Rightarrow> 'w \<Rightarrow> (v1_cart \<times> 'w) option" where
  "v1_show tb os st w = (case os_threads os w of ((created, sched), w) \<Rightarrow> do {
     img \<leftarrow> v1_render_frame tb created sched (v1_scene st) (v1_frame_no st) (v1_low st);
     fb \<leftarrow> v1_upscale img (replicate 1280 0) (v1_fb st);
     (if v1_frame_no st = INT32_MAX then None
      else Some (st\<lparr>v1_low := img, v1_fb := fb, v1_frame_no := v1_frame_no st + 1\<rparr>, w))
   })"

definition v1_measure :: "'w v1_os \<Rightarrow> v1_cart \<Rightarrow> 'w \<Rightarrow> (v1_cart \<times> 'w) option" where
  "v1_measure os st w =
     (if v1_frame_no st - v1_report_frame st \<ge> 300 then
        (case os_clock os w of (None, w) \<Rightarrow> None
         | (Some now, w) \<Rightarrow> Some (st\<lparr>v1_log := v1_log st @ [\<lparr>v1_rep_frames = v1_frame_no st, v1_rep_scene = v1_scene st,
               v1_rep_count = v1_frame_no st - v1_report_frame st,
               v1_rep_elapsed_ns = (uint (fst now) - uint (fst (v1_report_start st))) * 1000000000
                                    + (uint (snd now) - uint (snd (v1_report_start st)))\<rparr>],
             v1_report_start := now, v1_report_frame := v1_frame_no st\<rparr>, w))
      else Some (st, w))"

definition v1_advance :: "u64 \<times> u64 \<Rightarrow> u64 \<times> u64" where
  "v1_advance t = (let nsec = snd t + 1000000000 div 30
     in if nsec \<ge> 1000000000 then (fst t + 1, nsec - 1000000000) else (fst t, nsec))"

definition v1_pace :: "'w v1_os \<Rightarrow> v1_cart \<Rightarrow> 'w \<Rightarrow> v1_cart \<times> 'w" where
  "v1_pace os st w =
     (let st = st\<lparr>v1_next := v1_advance (v1_next st)\<rparr>
      in case os_sleep os (v1_next st) w of (_, w) \<Rightarrow> case os_signals os w of (signals, w) \<Rightarrow> (fold v1_on_signal signals st, w))"

definition v1_step :: "int list \<Rightarrow> 'w v1_os \<Rightarrow> v1_cart \<Rightarrow> 'w \<Rightarrow> (v1_cart \<times> 'w) option" where
  "v1_step tb os st w = do {
     (st, w) \<leftarrow> v1_select os st w;
     (st, w) \<leftarrow> v1_show tb os st w;
     (st, w) \<leftarrow> v1_measure os st w;
     Some (v1_pace os st w)
   }"

partial_function (option) v1_loop :: "int list \<Rightarrow> 'w v1_os \<Rightarrow> v1_cart \<Rightarrow> 'w \<Rightarrow> (v1_cart \<times> 'w) option" where
  "v1_loop tb os st w =
     (if \<not> v1_running st then Some (st, w)
      else do {
        (st, w) \<leftarrow> v1_step tb os st w;
        v1_loop tb os st w
      })"

definition v1_display :: "int list \<Rightarrow> 'w v1_os \<Rightarrow> int \<Rightarrow> u32 list \<Rightarrow> 'w \<Rightarrow> (int \<times> v1_cart option \<times> 'w) option" where
  "v1_display tb os fd fb w = (case os_event_open os w of (infd, w) \<Rightarrow>
     case os_clock os w of (None, w) \<Rightarrow> None
     | (Some now, w) \<Rightarrow> do {
         (st, w) \<leftarrow> v1_loop tb os \<lparr>v1_running = True, v1_next_requested = False, v1_low = replicate 57600 0, v1_scene = 0,
           v1_frame_no = 0, v1_hold = 0, v1_fb = fb, v1_infd = infd, v1_next = now, v1_report_start = now,
           v1_report_frame = 0, v1_log = []\<rparr> w;
         let w = (if v1_infd st \<ge> 0 then os_event_close os (v1_infd st) w else w);
         Some (0, Some st, os_fb_close os fd (os_fb_unmap os w))
       })"

definition v1_fb_expected :: "fb_info \<Rightarrow> bool" where
  "v1_fb_expected v \<longleftrightarrow> \<not> (fb_xres v \<noteq> 1280 \<or> fb_yres v \<noteq> 720 \<or> fb_bpp v \<noteq> 32 \<or> fb_line_length v \<noteq> 1280 * 4)"

text \<open>The exit code, the file of the dump mode, and the last state of the display loop.\<close>

definition v1_main ::
  "(nat \<Rightarrow> int) \<Rightarrow> 'w v1_os \<Rightarrow> (string \<Rightarrow> out_stream option) \<Rightarrow> string list \<Rightarrow> 'w
     \<Rightarrow> (int \<times> out_stream option \<times> v1_cart option \<times> 'w) option" where
  "v1_main sine os files args w = do {
     (dump, dump_scene, dump_frame) \<leftarrow> v1_parse args (None, 0, 120);
     (case dump of
        Some path \<Rightarrow> (case os_threads os w of ((created, sched), w) \<Rightarrow>
          map_option (\<lambda>(rc, f). (rc, f, None, w)) (v1_dump sine created sched (files path) dump_scene dump_frame))
      | None \<Rightarrow> (case os_fb_open os w of (fd, w) \<Rightarrow>
          if fd < 0 then Some (1, None, None, w)
          else (case os_fb_query os fd w of (None, w) \<Rightarrow> Some (1, None, None, w)
          | (Some info, w) \<Rightarrow>
            if \<not> v1_fb_expected info then Some (1, None, None, w)
            else (case os_fb_map os fd w of (None, w) \<Rightarrow> Some (1, None, None, w)
            | (Some fb, w) \<Rightarrow> map_option (\<lambda>(rc, st, w). (rc, None, st, w)) (v1_display (v1_sines sine) os fd fb w)))))
   }"

section \<open>Every interleaving gives the same image\<close>

definition threads_inv :: "(int \<Rightarrow> int \<Rightarrow> u32) \<Rightarrow> v1_threads \<Rightarrow> bool" where
  "threads_inv col st \<longleftrightarrow> length (snd st) = 57600
     \<and> (\<forall>ws \<in> set (fst st). \<forall>(y, x, v) \<in> set ws. 0 \<le> x \<and> x < LW \<and> 0 \<le> y \<and> y < LH \<and> v = col y x)
     \<and> (\<forall>x y. 0 \<le> x \<and> x < LW \<and> 0 \<le> y \<and> y < LH \<longrightarrow>
          (\<exists>ws \<in> set (fst st). (y, x, col y x) \<in> set ws) \<or> snd st ! nat (y * LW + x) = col y x)"

lemma cell_index:
  assumes "0 \<le> x" "x < LW" "0 \<le> y" "y < LH"
  shows "nat (y * LW + x) < 57600" "\<not> y * LW + x < 0"
  using assms by (simp_all add: nat_less_iff)

lemma cell_index_inj:
  assumes "0 \<le> x" "x < LW" "0 \<le> y" "0 \<le> x'" "x' < LW" "0 \<le> y'" "nat (y * LW + x) = nat (y' * LW + x')"
  shows "x = x' \<and> y = y'"
proof -
  have "y * LW + x = y' * LW + x'" using assms by simp
  then have "(y * LW + x) div LW = (y' * LW + x') div LW" "(y * LW + x) mod LW = (y' * LW + x') mod LW" by simp_all
  then show ?thesis using assms by simp
qed

lemma store_inv:
  assumes inv: "threads_inv col (todo, img)" and i: "i < length todo" "todo ! i = (y, x, v) # ws"
  shows "\<exists>img'. v1_put y x v img = Some img' \<and> threads_inv col (todo[i := ws], img')"
proof -
  have mem: "(y, x, v) # ws \<in> set todo" using i by (metis nth_mem)
  then have xy: "0 \<le> x" "x < LW" "0 \<le> y" "y < LH" "v = col y x" using inv by (fastforce simp: threads_inv_def)+
  have len: "length img = 57600" using inv by (simp add: threads_inv_def)
  let ?img = "img[nat (y * LW + x) := v]"
  have put: "v1_put y x v img = Some ?img" using cell_index[OF xy(1-4)] len by (simp add: v1_put_def)
  have sub: "set (todo[i := ws]) \<subseteq> insert ws (set todo)" by (rule set_update_subset_insert)
  have ws: "\<forall>p \<in> set ws. p \<in> set ((y, x, v) # ws)" by simp
  have cells: "(\<exists>us \<in> set (todo[i := ws]). (b, a, col b a) \<in> set us) \<or> ?img ! nat (b * LW + a) = col b a"
    if ab: "0 \<le> a" "a < LW" "0 \<le> b" "b < LH" for a b
  proof (cases "nat (b * LW + a) = nat (y * LW + x)")
    case True
    then have "a = x \<and> b = y" using ab xy by (intro cell_index_inj) auto
    then show ?thesis using xy(5) cell_index(1)[OF xy(1-4)] len by simp
  next
    case False
    have "(\<exists>us \<in> set todo. (b, a, col b a) \<in> set us) \<or> img ! nat (b * LW + a) = col b a"
      using inv ab by (simp add: threads_inv_def)
    then show ?thesis
    proof
      assume "\<exists>us \<in> set todo. (b, a, col b a) \<in> set us"
      then obtain j where j: "j < length todo" "(b, a, col b a) \<in> set (todo ! j)" by (metis in_set_conv_nth)
      have "(b, a, col b a) \<in> set (todo[i := ws] ! j)"
        using j i False by (cases "j = i") auto
      then show ?thesis using j(1) by (metis length_list_update nth_mem)
    next
      assume "img ! nat (b * LW + a) = col b a"
      then show ?thesis using False by simp
    qed
  qed
  have "threads_inv col (todo[i := ws], ?img)"
    unfolding threads_inv_def fst_conv snd_conv
  proof (intro conjI)
    show "length ?img = 57600" using len by simp
    show "\<forall>us \<in> set (todo[i := ws]). \<forall>(y, x, v) \<in> set us. 0 \<le> x \<and> x < LW \<and> 0 \<le> y \<and> y < LH \<and> v = col y x"
    proof
      fix us assume "us \<in> set (todo[i := ws])"
      then have "us = ws \<or> us \<in> set todo" using sub by blast
      then obtain us' where "us' \<in> set todo" "set us \<subseteq> set us'" using mem ws by blast
      then show "\<forall>(y, x, v) \<in> set us. 0 \<le> x \<and> x < LW \<and> 0 \<le> y \<and> y < LH \<and> v = col y x"
        using inv by (fastforce simp: threads_inv_def)
    qed
  qed (use cells in blast)
  then show ?thesis using put by blast
qed

lemma schedule_inv:
  assumes "threads_inv col st"
  shows "\<exists>st'. mfold v1_thread_step sched st = Some st' \<and> threads_inv col st'"
proof (rule mfold_invariant)
  show "threads_inv col st" by (rule assms)
  fix i st assume "threads_inv col st"
  then show "\<exists>st'. v1_thread_step i st = Some st' \<and> threads_inv col st'"
    using store_inv[of col "fst st" "snd st" i]
    by (cases st) (fastforce simp: v1_thread_step_def split: list.split)
qed

lemma join_thread:
  assumes "threads_inv col (ws # todo, img)"
  shows "\<exists>img'. mfold (\<lambda>(y, x, v). v1_put y x v) ws img = Some img' \<and> threads_inv col (todo, img')"
  using assms
proof (induction ws arbitrary: img)
  case Nil
  then show ?case by (auto simp: threads_inv_def)
next
  case (Cons p ws)
  obtain y x v where p: "p = (y, x, v)" by (cases p)
  obtain img' where "v1_put y x v img = Some img'" "threads_inv col (ws # todo, img')"
    using store_inv[of col "(p # ws) # todo" img 0 y x v ws] Cons.prems p by auto
  then show ?case using Cons.IH[of img'] p by auto
qed

lemma join_image:
  assumes "threads_inv col st"
  shows "\<exists>img. v1_join st = Some img \<and> threads_inv col ([], img)"
proof -
  have "\<exists>img'. mfold (mfold (\<lambda>(y, x, v). v1_put y x v)) todo img = Some img' \<and> threads_inv col ([], img')"
    if "threads_inv col (todo, img)" for todo img
    using that
  proof (induction todo arbitrary: img)
    case (Cons ws todo)
    then show ?case using join_thread[OF Cons.prems] by fastforce
  qed simp
  then show ?thesis using assms by (cases st) (simp add: v1_join_def)
qed

lemma v1_stores_mem:
  "(y, x, v) \<in> set (v1_stores col y0 y1) \<longleftrightarrow> y0 \<le> y \<and> y < y1 \<and> 0 \<le> x \<and> x < LW \<and> v = col y x"
  by (auto simp: v1_stores_def image_iff)

lemma threads_start:
  assumes "sine_table tb" "length img = 57600"
  shows "threads_inv (scene_colour tb which t) (map (\<lambda>i. v1_worker tb (v1_job_of which t i)) [0..<4], img)"
proof -
  have w: "v1_worker tb (v1_job_of which t i) = v1_stores (scene_colour tb which t) (int i * 45) ((int i + 1) * 45)" if "i < 4" for i
    unfolding v1_job_of_def using v1_worker_same[OF assms(1), of "int i * 45" "(int i + 1) * 45"] that by (simp add: mult.commute)
  have cover: "\<exists>ws \<in> set (map (\<lambda>i. v1_worker tb (v1_job_of which t i)) [0..<4]). (y, x, scene_colour tb which t y x) \<in> set ws"
    if "0 \<le> x" "x < LW" "0 \<le> y" "y < LH" for x y
  proof (rule bexI)
    let ?i = "nat (y div 45)"
    have i: "?i < 4" "int ?i * 45 \<le> y" "y \<le> (int ?i + 1) * 45 - 1" using that by (auto simp: nat_less_iff)
    then show "(y, x, scene_colour tb which t y x) \<in> set (v1_stores (scene_colour tb which t) (int ?i * 45) ((int ?i + 1) * 45))"
      using that by (simp add: v1_stores_mem)
    show "v1_stores (scene_colour tb which t) (int ?i * 45) ((int ?i + 1) * 45)
        \<in> set (map (\<lambda>i. v1_worker tb (v1_job_of which t i)) [0..<4])"
      using i(1) w[OF i(1)] by (metis (no_types, lifting) atLeastLessThan_iff image_eqI list.set_map set_upt zero_le)
  qed
  have "0 \<le> x \<and> x < LW \<and> 0 \<le> y \<and> y < LH \<and> v = scene_colour tb which t y x"
    if "i < 4" "(y, x, v) \<in> set (v1_worker tb (v1_job_of which t i))" for i y x v
    using that by (auto simp: w v1_stores_mem)
  then show ?thesis using assms(2) cover by (fastforce simp: threads_inv_def)
qed

text \<open>The rows of a frame, painted.\<close>

lemma threads_paint:
  assumes "sine_table tb" "length img = 57600"
  shows "\<exists>img'. (case mfold v1_thread_step sched (map (\<lambda>i. v1_worker tb (v1_job_of which t i)) [0..<4], img) of
        None \<Rightarrow> None | Some st \<Rightarrow> v1_join st) = Some img'
    \<and> painted (band_shape (scene_colour tb which t) 0 LH) (v1_stage img) (v1_stage img')"
proof -
  let ?col = "scene_colour tb which t"
  obtain st where st: "mfold v1_thread_step sched (map (\<lambda>i. v1_worker tb (v1_job_of which t i)) [0..<4], img) = Some st"
      "threads_inv ?col st"
    using schedule_inv[OF threads_start[OF assms]] by blast
  obtain img' where img': "v1_join st = Some img'" "threads_inv ?col ([], img')" using join_image[OF st(2)] by blast
  have "img' ! k = ?col (int (k div 320)) (int (k mod 320))" if "k < 57600" for k
  proof -
    have "img' ! nat (int (k div 320) * LW + int (k mod 320)) = ?col (int (k div 320)) (int (k mod 320))"
      using img'(2) that by (simp add: threads_inv_def less_mult_imp_div_less)
    moreover have "nat (int (k div 320) * LW + int (k mod 320)) = k"
      by (metis nat_int of_nat_add of_nat_mult of_nat_numeral div_mult_mod_eq)
    ultimately show ?thesis by simp
  qed
  then have "painted (band_shape ?col 0 LH) (v1_stage img) (v1_stage img')"
    using img'(2) assms(2) by (auto simp: painted_def v1_stage_def threads_inv_def word_at_def in_canvas_def band_shape_def less_mult_imp_div_less)
  then show ?thesis using st(1) img'(1) by simp
qed

section \<open>The release draws the image of its successor\<close>

lemma v1_render_frame_image:
  assumes "sine_table tb" "length img = 57600" "\<forall>i < 4. created i" "uint frame < 65536"
  shows "v1_render_frame tb created sched (scene_number fn) (uint frame) img = Some (scene_image tb fn frame)"
proof -
  let ?t = "uint frame" and ?n = "scene_number fn"
  have phase: "legacy_frame_phase frame = ?t" using assms(4) by (simp add: legacy_frame_phase_def uint_mod)
  obtain img1 where rows: "(case mfold v1_thread_step sched (map (\<lambda>i. v1_worker tb (v1_job_of ?n ?t i)) [0..<4], img) of
        None \<Rightarrow> None | Some st \<Rightarrow> v1_join st) = Some img1"
      "painted (band_shape (scene_colour tb ?n ?t) 0 LH) (v1_stage img) (v1_stage img1)"
    using threads_paint[OF assms(1,2)] by blast
  obtain ov where ov: "low_paints ov (v1_overlay tb ?n ?t)" "paints ov (overlay tb ?n ?t)"
    using agrees_overlay[OF assms(1), of ?t ?n] by (auto simp: agrees_def)
  obtain img2 where over: "v1_overlay tb ?n ?t img1 = Some img2" "painted ov (v1_stage img1) (v1_stage img2)"
    using ov(1) painted_v1_length[OF rows(2)] assms(2) by (auto simp: low_paints_def)
  obtain d where d: "scene_image tb fn frame = deref (pixels d)"
      "painted (paint_over (band_shape (scene_colour tb ?n ?t) 0 LH) ov) blank_stage d"
    using scene_image_painted[of ov tb fn frame] ov(2) by (auto simp: phase)
  have "full_shape (paint_over (band_shape (scene_colour tb ?n ?t) 0 LH) ov)"
    by (rule full_paint_over) (simp add: full_shape_def band_shape_def)
  then have "deref (pixels (v1_stage img2)) = deref (pixels d)"
    using painted_full[OF painted_trans[OF rows(2) over(2)] d(2)] v1_stage_ok[OF assms(2)] blank_stage_ok blank_stage_length assms(2)
    by (simp add: v1_stage_def)
  then have "img2 = scene_image tb fn frame" using d(1) by (simp add: v1_stage_def)
  moreover have "list_all created [0..<4]" using assms(3) by (simp add: list_all_iff)
  moreover obtain todo img' where
      "mfold v1_thread_step sched (map (\<lambda>i. v1_worker tb (v1_job_of ?n ?t i)) [0..<4], img) = Some (todo, img')"
      "v1_join (todo, img') = Some img1"
    using rows(1) by (auto split: option.splits)
  ultimately show ?thesis using over(1) by (simp add: v1_render_frame_def)
qed

lemma builtin_scene_number:
  assumes "0 \<le> which" "which < SCENES"
  shows "scene_number (scene_render (builtin_scenes ! nat which)) = which"
proof -
  have "which \<in> {0, 1, 2, 3, 4, 5}" using assms by auto
  then show ?thesis by (auto simp: builtin_scenes_def)
qed

lemma v1_render_builtin:
  assumes "sine_table tb" "length img = 57600" "\<forall>i < 4. created i" "uint frame < 65536" "0 \<le> which" "which < SCENES"
  shows "v1_render_frame tb created sched which (uint frame) img
    = Some (scene_image tb (scene_render (builtin_scenes ! nat which)) frame)"
  using v1_render_frame_image[OF assms(1-4), of sched "scene_render (builtin_scenes ! nat which)"]
  by (simp add: builtin_scene_number[OF assms(5,6)])

section \<open>The dump modes write the same file\<close>

lemma v1_dump_ppm_same: "v1_dump_ppm file img = dump_ppm file img"
proof -
  have px: "v1_pixel_bytes = rgb_bytes" by (simp add: v1_pixel_bytes_def rgb_bytes_def fun_eq_iff)
  have "(\<lambda>(y, ky, x, kx) f. do { c \<leftarrow> load img (y * 320 + x); Some (put_ignoring (rgb_bytes c) f) })
      = (\<lambda>(y, ky, x, kx) f. map_option (\<lambda>c. put_ignoring (rgb_bytes c) f) (load img (y * 320 + x)))"
    by (auto simp: fun_eq_iff map_conv_bind_option comp_def)
  then show ?thesis
    by (simp add: v1_dump_ppm_def dump_ppm_def px ppm_header_def map_conv_bind_option comp_def split: option.split)
qed

lemma v1_parse_same: "v1_parse args acc = parse_args args acc"
  by (induction args acc rule: v1_parse.induct) (auto split: Option.bind_splits)

lemma parsed_scene_range:
  assumes "v1_parse args (d, s, f) = Some (d', s', f')" "- SCENES < s" "s < SCENES"
  shows "- SCENES < s' \<and> s' < SCENES"
proof -
  have "- SCENES < n smod SCENES \<and> n smod SCENES < SCENES" for n
    using smod_int_range[of SCENES n] by auto
  then show ?thesis using assms
  proof (induction args "(d, s, f)" arbitrary: d s f rule: v1_parse.induct)
    case (3 a v rest dump dump_scene dump_frame)
    then show ?case by (auto split: if_splits Option.bind_splits)
  qed auto
qed

lemma dump_mode_image:
  assumes "scheduler run" "sine_table tb" "0 \<le> s" "s < SCENES"
  shows "dump_mode tb run out s f
    = dump_ppm out (scene_image tb (scene_render (builtin_scenes ! nat s)) (word_of_int f))"
proof -
  obtain code pool objs where init: "cart_worker_pool_init (\<lambda>_. True) (Ptr (zero_pool :: render_pool)) 0 LH = (code, pool, objs)"
    by (metis prod_cases3)
  then have c: "code = Some 0" "worker_count (deref pool) = 0"
    by (auto simp: cart_worker_pool_init_def zero_pool_def)
  let ?rd = "zero_renderer\<lparr>rd_pool := deref pool\<rparr>"
  have wf: "wf_renderer 0 ?rd" using c(2) by (simp add: wf_renderer_def zero_renderer_def)
  obtain rd' where rd': "render_frame tb run s (word_of_int f) ?rd = Some rd'"
      "rendered (scene_image tb (scene_render (builtin_scenes ! nat s)) (word_of_int f)) 0 ?rd rd'"
    using scheduler.render_frame_image[OF assms(1) wf assms(2-4)] by blast
  then have "low rd' = scene_image tb (scene_render (builtin_scenes ! nat s)) (word_of_int f)"
    by (simp add: rendered_def zero_renderer_def)
  then show ?thesis using init c(1) rd'(1) by (simp add: dump_mode_def)
qed

text \<open>C4. The successor keeps the release's pictures.  For every command line that asks for a dump of a scene
  that exists at one of the first 65536 frames, the released program, whatever the interleaving of its four
  threads, exits with the code and leaves the file that its successor, whatever its scheduling, exits with and
  leaves, also when the file cannot be opened or refuses a write; and both parse every command line alike.\<close>

theorem successor_keeps_the_pictures:
  assumes "scheduler run" "sine_table (v1_sines sine)"
    and "v1_parse args (None, 0, 120) = Some (Some path, s, f)" "0 \<le> s" "0 \<le> f" "f < 65536"
    and "os_threads os w = ((created, sched), w')" "\<forall>i < 4. created i"
  shows "parse_args args (None, 0, 120) = Some (Some path, s, f)
    \<and> (\<exists>code out. dump_mode (snd (cart_legacy_scenes_init sine)) run (files path) s f = Some (code, out)
         \<and> v1_main sine os files args w = Some (code, out, None, w'))"
proof -
  let ?tb = "v1_sines sine" and ?img = "scene_image (v1_sines sine) (scene_render (builtin_scenes ! nat s)) (word_of_int f)"
  have tb: "snd (cart_legacy_scenes_init sine) = ?tb" by (simp add: cart_legacy_scenes_init_def v1_sines_def)
  have s: "s < SCENES" using parsed_scene_range[OF assms(3)] by simp
  have u: "uint (word_of_int f :: u64) = f" using assms(5,6) by (simp add: uint_word_of_int take_bit_int_eq_self)
  have "v1_render_frame ?tb created sched s f (replicate 57600 0) = Some ?img"
    using v1_render_builtin[OF assms(2) _ assms(8), of "replicate 57600 0" "word_of_int f" s sched] u assms(4,6) s by simp
  then have dump: "v1_dump sine created sched (files path) s f = dump_ppm (files path) ?img"
    by (simp add: v1_dump_def v1_dump_ppm_same)
  have len: "length ?img = 57600" by (rule scene_image_length[OF assms(2)])
  have "\<exists>g. mfold (\<lambda>(y, ky, x, kx) f. map_option (\<lambda>c. put_ignoring (rgb_bytes c) f) (load ?img (y * 320 + x)))
      [(y, ky, x, kx). y \<leftarrow> [0..<180], ky \<leftarrow> [0..<4], x \<leftarrow> [0..<320], kx \<leftarrow> [0..<4]] g0 = Some g \<and> True" for g0
    by (rule mfold_invariant) (auto simp: load_def len)
  then obtain code out where "dump_ppm (files path) ?img = Some (code, out)"
    by (fastforce simp: dump_ppm_def split: option.split)
  then show ?thesis
    using assms(3,7) dump dump_mode_image[OF assms(1,2,4) s, of "files path" f]
    by (simp add: v1_parse_same tb v1_main_def)
qed

section \<open>An iteration of the display loop\<close>

text \<open>The events of a drain: whole reads, up to the first read that is not.\<close>

inductive reads_events :: "'w v1_os \<Rightarrow> int \<Rightarrow> 'w \<Rightarrow> input_event list \<Rightarrow> 'w \<Rightarrow> bool" for os :: "'w v1_os" and fd :: int where
  dry: "os_event_read os fd 16 w = (r, w') \<Longrightarrow> (\<forall>bs. r = Got bs \<longrightarrow> length bs \<noteq> 16) \<Longrightarrow> reads_events os fd w [] w'"
| event: "os_event_read os fd 16 w = (Got bs, w1) \<Longrightarrow> length bs = 16 \<Longrightarrow> reads_events os fd w1 es w'
    \<Longrightarrow> reads_events os fd w (decode_event bs # es) w'"

definition quits :: "input_event \<Rightarrow> bool" where
  "quits ev \<longleftrightarrow> ev_type ev = 1 \<and> ev_value ev = 1 \<and> (ev_code ev = 1 \<or> ev_code ev = 16)"

definition turns :: "input_event \<Rightarrow> bool" where
  "turns ev \<longleftrightarrow> ev_type ev = 1 \<and> ev_value ev = 1 \<and> \<not> (ev_code ev = 1 \<or> ev_code ev = 16)"

lemma v1_event_turns: "turns ev \<Longrightarrow> v1_event ev st = st\<lparr>v1_scene := (v1_scene st + 1) smod SCENES, v1_hold := 240\<rparr>"
  by (auto simp: turns_def v1_event_def)

lemma v1_event_quits: "quits ev \<Longrightarrow> v1_event ev st = st\<lparr>v1_running := False\<rparr>"
  by (auto simp: quits_def v1_event_def)

lemma v1_event_other: "\<not> turns ev \<Longrightarrow> \<not> quits ev \<Longrightarrow> v1_event ev st = st"
  by (auto simp: turns_def quits_def v1_event_def)

lemma v1_event_infd [simp]: "v1_infd (v1_event ev st) = v1_infd st"
  by (simp add: v1_event_def)

text \<open>What events do to the state.\<close>

lemma v1_events_effect:
  assumes "0 \<le> v1_scene st" "v1_scene st < SCENES"
  shows "fold v1_event es st = st\<lparr>v1_running := v1_running st \<and> \<not> list_ex quits es,
    v1_scene := (v1_scene st + int (length (filter turns es))) mod SCENES,
    v1_hold := (if list_ex turns es then 240 else v1_hold st)\<rparr>"
  using assms
proof (induction es arbitrary: st)
  case Nil
  then show ?case by simp
next
  case (Cons ev es)
  consider "turns ev" "\<not> quits ev" | "quits ev" "\<not> turns ev" | "\<not> turns ev" "\<not> quits ev"
    by (auto simp: turns_def quits_def)
  then show ?case
  proof cases
    case 1
    have "(v1_scene st + 1) smod SCENES = (v1_scene st + 1) mod SCENES" using Cons.prems by (simp add: smod_mod_positive)
    then show ?thesis using 1 Cons.IH[of "v1_event ev st"] by (simp add: v1_event_turns mod_simps algebra_simps)
  next
    case 2
    then show ?thesis using Cons by (simp add: v1_event_quits)
  next
    case 3
    then show ?thesis using Cons by (simp add: v1_event_other)
  qed
qed

text \<open>A reader whose input runs dry: every whole event read brings \<open>left\<close> down.\<close>

definition v1_runs_dry :: "('w \<Rightarrow> nat) \<Rightarrow> 'w v1_os \<Rightarrow> bool" where
  "v1_runs_dry left os \<longleftrightarrow> (\<forall>fd w bs w'. os_event_read os fd 16 w = (Got bs, w') \<and> length bs = 16 \<longrightarrow> left w' < left w)"

lemma v1_drain_reads:
  assumes "v1_runs_dry left os"
  shows "\<exists>es w'. v1_drain os st w = Some (fold v1_event es st, w') \<and> reads_events os (v1_infd st) w es w'"
proof (induction "left w" arbitrary: st w rule: less_induct)
  case less
  show ?case
  proof (cases "\<exists>bs w1. os_event_read os (v1_infd st) 16 w = (Got bs, w1) \<and> length bs = 16")
    case True
    then obtain bs w1 where r: "os_event_read os (v1_infd st) 16 w = (Got bs, w1)" "length bs = 16" by blast
    then have "left w1 < left w" using assms by (auto simp: v1_runs_dry_def)
    from less.hyps[OF this, of "v1_event (decode_event bs) st"] obtain es w' where
        es: "v1_drain os (v1_event (decode_event bs) st) w1 = Some (fold v1_event es (v1_event (decode_event bs) st), w')"
          "reads_events os (v1_infd st) w1 es w'" by auto
    have "v1_drain os st w = Some (fold v1_event (decode_event bs # es) st, w')"
      by (subst v1_drain.simps) (simp add: r es(1))
    then show ?thesis using reads_events.event[OF r es(2)] by blast
  next
    case False
    obtain r w' where r: "os_event_read os (v1_infd st) 16 w = (r, w')" by fastforce
    have "v1_drain os st w = Some (fold v1_event [] st, w')"
      by (subst v1_drain.simps) (use False r in \<open>auto split: read_result.split\<close>)
    moreover have "reads_events os (v1_infd st) w [] w'" using False r by (intro reads_events.dry[OF r]) auto
    ultimately show ?thesis by blast
  qed
qed

definition v1_inv :: "v1_cart \<Rightarrow> bool" where
  "v1_inv st \<longleftrightarrow> 0 \<le> v1_scene st \<and> v1_scene st < SCENES \<and> 0 \<le> v1_frame_no st \<and> 0 \<le> v1_hold st
     \<and> length (v1_low st) = 57600 \<and> length (v1_fb st) = 1280 * 720"

text \<open>The rule that selects the scene of a frame: a pending signal turns one scene on and holds for an hour;
  without a hold the scene is that of the eight seconds; then every key press turns one scene on.\<close>

definition v1_rule :: "v1_cart \<Rightarrow> input_event list \<Rightarrow> int" where
  "v1_rule st es = ((if v1_next_requested st then v1_scene st + 1
       else if v1_hold st = 0 then v1_frame_no st div 240 else v1_scene st)
     + int (length (filter turns es))) mod SCENES"

lemma v1_select_rule:
  assumes "v1_runs_dry left os" "v1_inv st"
  shows "\<exists>st' es w'. v1_select os st w = Some (st', w') \<and> v1_inv st'
    \<and> (if 0 \<le> v1_infd st then reads_events os (v1_infd st) w es w' else es = [] \<and> w' = w)
    \<and> v1_scene st' = v1_rule st es \<and> v1_running st' = (v1_running st \<and> \<not> list_ex quits es)
    \<and> v1_frame_no st' = v1_frame_no st \<and> v1_low st' = v1_low st \<and> v1_fb st' = v1_fb st"
proof -
  define st1 where "st1 = (if v1_next_requested st
    then st\<lparr>v1_scene := (v1_scene st + 1) smod SCENES, v1_hold := 30 * 3600, v1_next_requested := False\<rparr> else st)"
  define st2 where "st2 = (if v1_hold st1 = 0 then st1\<lparr>v1_scene := (v1_frame_no st1 sdiv (30 * 8)) smod SCENES\<rparr> else st1)"
  have auto_scene: "(v1_frame_no st sdiv 240) smod SCENES = (v1_frame_no st div 240) mod SCENES"
    using assms(2) by (simp add: v1_inv_def sdiv_nonneg smod_mod_positive pos_imp_zdiv_nonneg_iff)
  have turn: "(v1_scene st + 1) smod SCENES = (v1_scene st + 1) mod SCENES"
    using assms(2) by (simp add: v1_inv_def smod_mod_positive)
  have st2: "v1_inv st2" "v1_infd st2 = v1_infd st" "v1_running st2 = v1_running st" "v1_frame_no st2 = v1_frame_no st"
      "v1_low st2 = v1_low st" "v1_fb st2 = v1_fb st"
      "v1_scene st2 = (if v1_next_requested st then v1_scene st + 1
         else if v1_hold st = 0 then v1_frame_no st div 240 else v1_scene st) mod SCENES"
    using assms(2) auto_scene turn by (auto simp: st1_def st2_def v1_inv_def)
  obtain es w' where es: "(if 0 \<le> v1_infd st2 then v1_drain os st2 w else Some (st2, w)) = Some (fold v1_event es st2, w')"
      "if 0 \<le> v1_infd st then reads_events os (v1_infd st) w es w' else es = [] \<and> w' = w"
  proof (cases "0 \<le> v1_infd st")
    case True
    then show ?thesis using v1_drain_reads[OF assms(1), of st2 w] st2(2) that by auto
  next
    case False
    then show ?thesis using that[of "[]" w] st2(2) by simp
  qed
  define st3 where "st3 = fold v1_event es st2"
  define st4 where "st4 = (if v1_hold st3 > 0 then st3\<lparr>v1_hold := v1_hold st3 - 1\<rparr> else st3)"
  have r: "0 \<le> v1_scene st2" "v1_scene st2 < SCENES" using st2(1) by (simp_all add: v1_inv_def)
  note eff = v1_events_effect[OF r, of es, folded st3_def]
  have "v1_select os st w = Some (st4, w')"
    unfolding v1_select_def Let_def st1_def[symmetric] st2_def[symmetric] es(1) st3_def[symmetric] by (simp add: st4_def)
  moreover have "v1_scene st4 = v1_rule st es"
    by (simp add: st4_def eff st2(7) v1_rule_def mod_simps)
  moreover have "v1_inv st4" "v1_running st4 = (v1_running st \<and> \<not> list_ex quits es)" "v1_frame_no st4 = v1_frame_no st"
      "v1_low st4 = v1_low st" "v1_fb st4 = v1_fb st"
    using st2 by (auto simp: st4_def eff v1_inv_def)
  ultimately show ?thesis using es(2) by blast
qed

lemma v1_upscale_same:
  assumes "cart_presentation_upscale (Ptr fb) (Ptr img) (Ptr row) = Some (Ptr f, Ptr r)"
  shows "v1_upscale img row fb = Some f"
proof -
  note dims = LOGICAL_WIDTH_def LOGICAL_HEIGHT_def SCALE_def FRAMEBUFFER_WIDTH_def
  have bind: "(do { v \<leftarrow> load img i; store r' j v }) = (case load img i of None \<Rightarrow> None | Some v \<Rightarrow> store r' j v)" for i j r'
    by (cases "load img i") simp_all
  have "v1_upscale_line img y st = upscale_line img y st" for y st
    unfolding v1_upscale_line_def upscale_line_def expand_row_def copy_rows_def dims bind
    by (simp add: map_conv_bind_option comp_def split: prod.split option.split bind_split)
  then have "v1_upscale_line img = upscale_line img" by (simp add: fun_eq_iff)
  then show ?thesis using assms by (auto simp: v1_upscale_def cart_presentation_upscale_def dims)
qed

text \<open>What the loop needs of the system: threads can be created, the clock can be read.\<close>

definition v1_able :: "'w v1_os \<Rightarrow> bool" where
  "v1_able os \<longleftrightarrow> (\<forall>w. \<forall>i < 4. fst (fst (os_threads os w)) i) \<and> (\<forall>w. fst (os_clock os w) \<noteq> None)"

definition enlarged :: "u32 list \<Rightarrow> u32 list \<Rightarrow> bool" where
  "enlarged img fb \<longleftrightarrow> length fb = 1280 * 720 \<and> (\<forall>X Y. X < 1280 \<longrightarrow> Y < 720 \<longrightarrow> fb ! (Y * 1280 + X) = img ! (Y div 4 * 320 + X div 4))"

lemma v1_show_image:
  assumes "v1_able os" "sine_table tb" "v1_inv st" "v1_frame_no st < 65536"
  shows "\<exists>img fb w'. v1_show tb os st w = Some (st\<lparr>v1_low := img, v1_fb := fb, v1_frame_no := v1_frame_no st + 1\<rparr>, w')
    \<and> img = scene_image tb (scene_render (builtin_scenes ! nat (v1_scene st))) (word_of_int (v1_frame_no st))
    \<and> enlarged img fb"
proof -
  obtain created sched w' where th: "os_threads os w = ((created, sched), w')" by (metis surj_pair)
  then have cr: "\<forall>i < 4. created i" using assms(1) unfolding v1_able_def by (metis fst_conv)
  let ?img = "scene_image tb (scene_render (builtin_scenes ! nat (v1_scene st))) (word_of_int (v1_frame_no st))"
  have inv: "0 \<le> v1_scene st" "v1_scene st < SCENES" "0 \<le> v1_frame_no st" "length (v1_low st) = 57600" "length (v1_fb st) = 1280 * 720"
    using assms(3) by (simp_all add: v1_inv_def)
  have u: "uint (word_of_int (v1_frame_no st) :: u64) = v1_frame_no st"
    using inv(3) assms(4) by (simp add: uint_word_of_int take_bit_int_eq_self)
  have img: "v1_render_frame tb created sched (v1_scene st) (v1_frame_no st) (v1_low st) = Some ?img"
    using v1_render_builtin[OF assms(2) inv(4) cr _ inv(1,2), of "word_of_int (v1_frame_no st)" sched] u assms(4) by simp
  have len: "320 * 180 \<le> length ?img" using scene_image_length[OF assms(2)] by simp
  obtain f r where up: "cart_presentation_upscale (Ptr (v1_fb st)) (Ptr ?img) (Ptr (replicate 1280 0)) = Some (Ptr f, Ptr r)"
      "enlarged ?img f"
    using upscale_spec[OF len, of "replicate 1280 0" "v1_fb st"] inv(5) by (auto simp: enlarged_def)
  have "v1_frame_no st \<noteq> INT32_MAX" using assms(4) by simp
  then have "v1_show tb os st w = Some (st\<lparr>v1_low := ?img, v1_fb := f, v1_frame_no := v1_frame_no st + 1\<rparr>, w')"
    using th img v1_upscale_same[OF up(1)] by (simp add: v1_show_def)
  then show ?thesis using up(2) by blast
qed

lemma fold_signals:
  "fold v1_on_signal sigs st = st\<lparr>v1_next_requested := v1_next_requested st \<or> SIGUSR1 \<in> set sigs,
     v1_running := v1_running st \<and> (\<forall>s \<in> set sigs. s = SIGUSR1)\<rparr>"
  by (induction sigs arbitrary: st) (auto simp: v1_on_signal_def)


section \<open>Examples\<close>

text \<open>A system with one key press to read, and a command line of the capture test.\<close>

definition v1_key_press :: "u8 list" where
  "v1_key_press = [0, 0, 0, 0, 0, 0, 0, 0, 1, 0, 48, 1, 1, 0, 0, 0]"

definition v1_demo_os :: "nat v1_os" where
  "v1_demo_os = \<lparr>os_clock = (\<lambda>w. (Some (of_nat w, 0), w)), os_sleep = (\<lambda>_ w. (0, w)), os_signals = (\<lambda>w. ([], w)),
     os_fb_open = (\<lambda>w. (3, w)), os_fb_query = (\<lambda>_ w. (None, w)), os_fb_map = (\<lambda>_ w. (None, w)),
     os_fb_unmap = (\<lambda>w. w), os_fb_close = (\<lambda>_ w. w), os_event_open = (\<lambda>w. (4, w)),
     os_event_read = (\<lambda>_ _ w. if w = 0 then (Got v1_key_press, 1) else (Failed EAGAIN, w)),
     os_event_close = (\<lambda>_ w. w), os_threads = (\<lambda>w. ((\<lambda>_. True, [2, 0, 0, 3, 1, 2, 3]), w))\<rparr>"

definition v1_demo_cart :: v1_cart where
  "v1_demo_cart = \<lparr>v1_running = True, v1_next_requested = False, v1_low = replicate 57600 0, v1_scene = 1, v1_frame_no = 500,
     v1_hold = 0, v1_fb = replicate (1280 * 720) 0, v1_infd = 4, v1_next = (0, 0), v1_report_start = (0, 0),
     v1_report_frame = 300, v1_log = []\<rparr>"

theorem successor_keeps_the_pictures_witness:
  "\<exists>code out. dump_mode (snd (cart_legacy_scenes_init sawtooth)) any_schedule (Some open_stream) 3 120 = Some (code, out)
    \<and> v1_main sawtooth v1_demo_os (\<lambda>_. Some open_stream) [''--scene'', ''9'', ''--dump'', ''o.ppm''] 0 = Some (code, out, None, 0)"
proof -
  have tb: "sine_table (v1_sines sawtooth)" using sawtooth_ok by (simp add: v1_sines_def cart_legacy_scenes_init_def)
  have args: "v1_parse [''--scene'', ''9'', ''--dump'', ''o.ppm''] (None, 0, 120) = Some (Some ''o.ppm'', 3, 120)"
    by code_simp
  show ?thesis
    using successor_keeps_the_pictures[OF any.scheduler_axioms tb args, of v1_demo_os 0 "\<lambda>_. True" "[2, 0, 0, 3, 1, 2, 3]" 0 "\<lambda>_. Some open_stream"]
    by (simp add: v1_demo_os_def)
qed

inductive_cases reads_eventsE: "reads_events os fd w es w'"

lemma v1_demo_reads:
  assumes "reads_events v1_demo_os fd 0 es w"
  shows "es = [decode_event v1_key_press]"
proof -
  have rd: "os_event_read v1_demo_os = (\<lambda>_ _ w. if w = 0 then (Got v1_key_press, 1) else (Failed EAGAIN, w))"
    by (simp add: v1_demo_os_def)
  have len: "length v1_key_press = 16" by (simp add: v1_key_press_def)
  have "us = []" if "reads_events v1_demo_os fd 1 us v" for us v
    using that by (rule reads_eventsE) (simp_all add: rd)
  with assms show ?thesis by (auto simp: rd len elim: reads_eventsE)
qed


end
