(* ===== verification/Legacy_Input.thy ===== *)
theory Legacy_Input
  imports Input_Poll
begin

text \<open>
  The first input engine of the cart, \<open>cart/src/input.c\<close>, which \<open>input_evdev.c\<close> has replaced: it takes one
  event device, the one whose sysfs texts look most like the buttons of the console, and drains it.  The
  directory and the texts of sysfs are a parameter that stands still during one scan; opening, closing and
  reading event nodes are operations on a world.  \<open>CART_INPUT_PATH_MAX\<close>, which no header of the repository
  defines, is the parameter \<open>pmax\<close>.

  The lemmas show that a scan keeps its descriptors: it ends with exactly one more when it reports a device,
  the best one by rank and number of those that can be opened, and with none more otherwise, on every error
  path; what the capability texts mean; and that a poll drains what is there, up to a quit key.
\<close>

section \<open>The environment\<close>

abbreviation EINVAL :: errno where "EINVAL \<equiv> EOTHER 22"
abbreviation ENAMETOOLONG :: errno where "ENAMETOOLONG \<equiv> EOTHER 36"
abbreviation EOVERFLOW :: errno where "EOVERFLOW \<equiv> EOTHER 75"

text \<open>A file opened for reading: its bytes, the error that a read meets behind them, if any, and whether
  closing fails.\<close>

record in_stream =
  ins_text :: string
  ins_error :: "errno option"
  ins_close :: "errno option"

text \<open>A directory: its entries, the error that ends the listing, if any, and whether closing fails.\<close>

record dir_stream =
  ds_names :: "string list"
  ds_error :: "errno option"
  ds_close :: "errno option"

record legacy_env =
  le_dir :: "string \<Rightarrow> errno + dir_stream"
  le_file :: "string \<Rightarrow> errno + in_stream"

record 'w legacy_ops =
  lg_open :: "string \<Rightarrow> 'w \<Rightarrow> int \<times> 'w"
  lg_close :: "int \<Rightarrow> 'w \<Rightarrow> 'w"
  lg_read :: "int \<Rightarrow> nat \<Rightarrow> 'w \<Rightarrow> read_result \<times> 'w"

record legacy_input =
  lg_fd :: int
  lg_path :: string
  lg_name :: string

section \<open>Texts\<close>

definition legacy_path_join :: "nat \<Rightarrow> string \<Rightarrow> string \<Rightarrow> errno + string" where
  "legacy_path_join pmax left right =
     (let written = left @ ''/'' @ right in if length written \<ge> pmax then Inl ENAMETOOLONG else Inr written)"

text \<open>One trailing newline, then one trailing carriage return.\<close>

definition legacy_chomp :: "string \<Rightarrow> string" where
  "legacy_chomp s =
     (let s = (if s \<noteq> [] \<and> last s = CHR 0x0A then butlast s else s)
      in if s \<noteq> [] \<and> last s = CHR 0x0D then butlast s else s)"

text \<open>\<open>fgets\<close> returns NULL at the end of the file and when a read fails before a newline or the end of the
  buffer is reached; \<open>fgetc\<close> returns EOF in both cases too.\<close>

definition legacy_read_line :: "(string \<Rightarrow> errno + in_stream) \<Rightarrow> string \<Rightarrow> nat \<Rightarrow> errno + string" where
  "legacy_read_line files path output_size =
     (if output_size < 2 then Inl EINVAL
      else case files path of Inl e \<Rightarrow> Inl e
      | Inr f \<Rightarrow> (case fgets output_size (ins_text f) of (chunk, rest) \<Rightarrow>
          let ended = (rest = [] \<and> length chunk < output_size - 1 \<and> (chunk = [] \<or> last chunk \<noteq> CHR 0x0A))
          in if ended \<and> ins_error f \<noteq> None then Inl (the (ins_error f))
             else if chunk = [] then Inl EIO
             else if \<not> ended \<and> rest \<noteq> [] then Inl EOVERFLOW
             else (case ins_close f of Some e \<Rightarrow> Inl e | None \<Rightarrow> Inr (legacy_chomp (c_str chunk)))))"

definition legacy_event_number :: "string \<Rightarrow> u32 option" where
  "legacy_event_number name =
     (let digits = drop 5 name in
      if take 5 name \<noteq> ''event'' then None
      else if digits = '''' then None
      else if \<not> list_all isdigit digits then None
      else case strtoul digits of None \<Rightarrow> None
        | Some (parsed, rest, erange) \<Rightarrow> if erange \<or> rest \<noteq> [] \<or> parsed > 2147483647 then None else Some parsed)"

definition hex_value :: "char \<Rightarrow> nat option" where
  "hex_value c = (let d = (of_char c :: nat) in
     if 48 \<le> d \<and> d \<le> 57 then Some (d - 48)
     else if 97 \<le> d \<and> d \<le> 102 then Some (d - 97 + 10)
     else if 65 \<le> d \<and> d \<le> 70 then Some (d - 65 + 10)
     else None)"

text \<open>The loop runs from the end of the text.\<close>

fun legacy_bit_loop :: "nat \<Rightarrow> nat \<Rightarrow> string \<Rightarrow> bool" where
  "legacy_bit_loop wanted nibble [] = False"
| "legacy_bit_loop wanted nibble (digit # before) =
     (if isspace digit then legacy_bit_loop wanted nibble before
      else case hex_value digit of None \<Rightarrow> False
      | Some value \<Rightarrow> if nibble = wanted div 4 then value AND push_bit (wanted mod 4) 1 \<noteq> 0
          else legacy_bit_loop wanted (nibble + 1) before)"

definition capability_has_bit :: "string \<Rightarrow> nat \<Rightarrow> bool" where
  "capability_has_bit s wanted = legacy_bit_loop wanted 0 (rev s)"

definition LEGACY_BUTTONS_NAME :: string where "LEGACY_BUTTONS_NAME = ''PlayStation Vita Buttons (Syscon)''"
definition LEGACY_BUTTONS_PHYS :: string where "LEGACY_BUTTONS_PHYS = ''vita_syscon_buttons''"

text \<open>\<open>BTN_A\<close>, \<open>BTN_DPAD_UP\<close>, \<open>BTN_START\<close>, \<open>KEY_ESC\<close> and \<open>KEY_Q\<close>.\<close>

definition candidate_rank :: "string \<Rightarrow> string \<Rightarrow> string \<Rightarrow> nat" where
  "candidate_rank name phys keys =
     (if phys = LEGACY_BUTTONS_PHYS then 4
      else if name = LEGACY_BUTTONS_NAME then 3
      else if capability_has_bit keys 0x130 \<or> capability_has_bit keys 0x220 \<or> capability_has_bit keys 0x13b then 2
      else if capability_has_bit keys 1 \<or> capability_has_bit keys 16 then 1
      else 0)"

section \<open>Discovery\<close>

text \<open>What one directory entry says: \<open>None\<close> where the loop continues, else rank, number, name and node.\<close>

definition legacy_candidate ::
  "nat \<Rightarrow> (string \<Rightarrow> errno + in_stream) \<Rightarrow> string \<Rightarrow> string \<Rightarrow> (nat \<times> u32 \<times> string) option" where
  "legacy_candidate pmax files sys d_name = do {
     number \<leftarrow> legacy_event_number d_name;
     let join = (\<lambda>a b. case legacy_path_join pmax a b of Inl e \<Rightarrow> None | Inr p \<Rightarrow> Some p);
     let line = (\<lambda>p size. case legacy_read_line files p size of Inl e \<Rightarrow> None | Inr s \<Rightarrow> Some s);
     event_path \<leftarrow> join sys d_name;
     device_path \<leftarrow> join event_path ''device'';
     ev_path \<leftarrow> join device_path ''capabilities/ev'';
     capabilities \<leftarrow> line ev_path 256;
     (if \<not> capability_has_bit capabilities 1 then None else do {
        name_path \<leftarrow> join device_path ''name'';
        name \<leftarrow> line name_path 128;
        let phys = (case do { phys_path \<leftarrow> join device_path ''phys''; line phys_path 128 } of None \<Rightarrow> '''' | Some s \<Rightarrow> s);
        key_path \<leftarrow> join device_path ''capabilities/key'';
        keys \<leftarrow> line key_path 256;
        Some (candidate_rank name phys keys, number, name)
      })
   }"

record 'w legacy_scan =
  best_fd :: int
  best_rank :: nat
  best_number :: u32
  best_path :: string
  best_name :: string
  scan_world :: 'w

definition legacy_entry ::
  "nat \<Rightarrow> legacy_env \<Rightarrow> 'w legacy_ops \<Rightarrow> string \<Rightarrow> string \<Rightarrow> string \<Rightarrow> 'w legacy_scan \<Rightarrow> 'w legacy_scan" where
  "legacy_entry pmax env ops sys dev d_name s =
     (case legacy_candidate pmax (le_file env) sys d_name of None \<Rightarrow> s
      | Some (rank, number, name) \<Rightarrow>
        if rank = 0 then s
        else if rank < best_rank s \<or> (rank = best_rank s \<and> number \<ge> best_number s) then s
        else case legacy_path_join pmax dev d_name of Inl e \<Rightarrow> s
        | Inr event_path \<Rightarrow> (case lg_open ops event_path (scan_world s) of (fd, w) \<Rightarrow>
            if fd < 0 then s\<lparr>scan_world := w\<rparr>
            else let w = (if best_fd s \<ge> 0 then lg_close ops (best_fd s) w else w)
                 in \<lparr>best_fd = fd, best_rank = rank, best_number = number, best_path = event_path, best_name = name, scan_world = w\<rparr>))"

definition no_best :: "'w \<Rightarrow> 'w legacy_scan" where
  "no_best w = \<lparr>best_fd = - 1, best_rank = 0, best_number = - 1, best_path = '''', best_name = '''', scan_world = w\<rparr>"

text \<open>The code that \<open>errno\<close> holds after a failure is part of the result.\<close>

definition legacy_discover ::
  "nat \<Rightarrow> legacy_env \<Rightarrow> 'w legacy_ops \<Rightarrow> legacy_input ptr \<Rightarrow> string ptr \<Rightarrow> string ptr \<Rightarrow> 'w
     \<Rightarrow> (errno + bool) \<times> legacy_input ptr \<times> 'w" where
  "legacy_discover pmax env ops inp sys dev w = (case (inp, sys, dev) of
     (Ptr i, Ptr sys_class_input, Ptr dev_input) \<Rightarrow>
       let i = i\<lparr>lg_fd := - 1, lg_path := '''', lg_name := ''''\<rparr> in
       (case le_dir env sys_class_input of
          Inl e \<Rightarrow> (if e = ENOENT then Inr False else Inl e, Ptr i, w)
        | Inr d \<Rightarrow>
            let s = fold (legacy_entry pmax env ops sys_class_input dev_input) (ds_names d) (no_best w);
                scan_errno = (case ds_error d of Some e \<Rightarrow> Some e | None \<Rightarrow> ds_close d)
            in case scan_errno of
                 Some e \<Rightarrow> (Inl e, Ptr i, if best_fd s \<ge> 0 then lg_close ops (best_fd s) (scan_world s) else scan_world s)
               | None \<Rightarrow>
                   if best_fd s < 0 then (Inr False, Ptr i, scan_world s)
                   else (Inr True, Ptr (i\<lparr>lg_fd := best_fd s, lg_path := best_path s, lg_name := best_name s\<rparr>), scan_world s))
   | _ \<Rightarrow> (Inl EINVAL, inp, w))"

section \<open>Poll and close\<close>

definition legacy_pressed :: "input_event \<Rightarrow> bool" where
  "legacy_pressed event \<longleftrightarrow> \<not> (ev_type event \<noteq> 1 \<or> ev_value event \<noteq> 1)"

definition legacy_quits :: "input_event \<Rightarrow> bool" where
  "legacy_quits event \<longleftrightarrow> ev_code event = 1 \<or> ev_code event = 16"

partial_function (option) legacy_poll_loop ::
  "'w legacy_ops \<Rightarrow> int \<Rightarrow> cart_input_action \<Rightarrow> 'w \<Rightarrow> (errno option \<times> cart_input_action \<times> 'w) option" where
  "legacy_poll_loop ops fd action w = (case lg_read ops fd 16 w of
     (Got bs, w) \<Rightarrow>
       if length bs = 16 then
         if \<not> legacy_pressed (decode_event bs) then legacy_poll_loop ops fd action w
         else if legacy_quits (decode_event bs) then Some (None, CART_INPUT_QUIT, w)
         else legacy_poll_loop ops fd CART_INPUT_NEXT w
       else if bs = [] then Some (None, action, w)
       else Some (Some EIO, action, w)
   | (Failed e, w) \<Rightarrow>
       if e = EINTR then legacy_poll_loop ops fd action w
       else if e = EAGAIN then Some (None, action, w)
       else Some (Some e, action, w))"

definition legacy_poll ::
  "'w legacy_ops \<Rightarrow> legacy_input ptr \<Rightarrow> cart_input_action ptr \<Rightarrow> 'w \<Rightarrow> (errno option \<times> cart_input_action ptr \<times> 'w) option" where
  "legacy_poll ops inp action w = (case (inp, action) of
     (Ptr i, Ptr a) \<Rightarrow>
       if lg_fd i < 0 then Some (None, Ptr CART_INPUT_NONE, w)
       else map_option (\<lambda>(rc, a, w). (rc, Ptr a, w)) (legacy_poll_loop ops (lg_fd i) CART_INPUT_NONE w)
   | _ \<Rightarrow> Some (Some EINVAL, action, w))"

definition legacy_close :: "'w legacy_ops \<Rightarrow> legacy_input ptr \<Rightarrow> 'w \<Rightarrow> legacy_input ptr \<times> 'w" where
  "legacy_close ops inp w = (case inp of NULL \<Rightarrow> (NULL, w)
     | Ptr i \<Rightarrow> (Ptr (i\<lparr>lg_fd := - 1, lg_path := '''', lg_name := ''''\<rparr>), if lg_fd i \<ge> 0 then lg_close ops (lg_fd i) w else w))"

section \<open>The meaning of a capability text\<close>

text \<open>The number that the hexadecimal digits of a text write, the last digit first and without the white space
  between them; a character that is neither ends it.\<close>

definition hex_digit :: "char \<Rightarrow> nat" where
  "hex_digit c = (case hex_value c of None \<Rightarrow> 0 | Some v \<Rightarrow> v)"

definition hex_readable :: "char \<Rightarrow> bool" where
  "hex_readable c \<longleftrightarrow> isspace c \<or> hex_value c \<noteq> None"

definition hex_tail :: "string \<Rightarrow> nat" where
  "hex_tail ds = foldr (\<lambda>c n. hex_digit c + 16 * n) (filter (\<lambda>c. \<not> isspace c) (takeWhile hex_readable ds)) 0"

definition capability_number :: "string \<Rightarrow> nat" where
  "capability_number s = hex_tail (rev s)"

lemma hex_digit_less: "hex_digit c < 16"
  by (auto simp: hex_digit_def hex_value_def Let_def split: option.splits if_splits)

lemma bit_hex_step:
  assumes "v < (16 :: nat)"
  shows "bit (v + 16 * n) i \<longleftrightarrow> (if i < 4 then bit v i else bit n (i - 4))"
proof -
  have "take_bit 4 (v + 16 * n) = v" "drop_bit 4 (v + 16 * n) = n"
    using assms by (simp_all add: take_bit_eq_mod drop_bit_eq_div)
  then have "bit v i \<longleftrightarrow> i < 4 \<and> bit (v + 16 * n) i" "bit n (i - 4) \<longleftrightarrow> bit (v + 16 * n) (4 + (i - 4))"
    by (metis bit_take_bit_iff, metis bit_drop_bit_eq comp_apply)
  then show ?thesis by auto
qed

lemma legacy_bit_loop_bit:
  "legacy_bit_loop wanted k ds \<longleftrightarrow> k \<le> wanted div 4 \<and> bit (hex_tail ds) (wanted - 4 * k)"
  if "k \<le> wanted div 4"
  using that
proof (induction ds arbitrary: k)
  case Nil
  then show ?case by (simp add: hex_tail_def)
next
  case (Cons c ds)
  show ?case
  proof (cases "isspace c")
    case True
    then show ?thesis using Cons by (simp add: hex_tail_def hex_readable_def)
  next
    case notspace: False
    show ?thesis
    proof (cases "hex_value c")
      case None
      then show ?thesis using notspace by (simp add: hex_tail_def hex_readable_def)
    next
      case (Some v)
      then have tail: "hex_tail (c # ds) = v + 16 * hex_tail ds" and v: "v < 16"
        using notspace hex_digit_less[of c] by (simp_all add: hex_tail_def hex_readable_def hex_digit_def)
      show ?thesis
      proof (cases "k = wanted div 4")
        case True
        then have "wanted - 4 * k = wanted mod 4" by (metis minus_mult_div_eq_mod)
        moreover have "legacy_bit_loop wanted k (c # ds) \<longleftrightarrow> bit v (wanted mod 4)"
          unfolding bit_iff_and_push_bit_not_eq_0 using True Some notspace by simp
        ultimately show ?thesis using True by (simp add: tail bit_hex_step[OF v])
      next
        case False
        then have "Suc k \<le> wanted div 4" "\<not> wanted - 4 * k < 4" "wanted - 4 * k - 4 = wanted - 4 * Suc k"
          using Cons.prems by auto
        then show ?thesis using False Some notspace Cons.IH[of "Suc k"] Cons.prems
          by (simp add: tail bit_hex_step[OF v])
      qed
    qed
  qed
qed

text \<open>The meaning of a capability text.  Whatever the text, the test for a bit is the bit of the one
  number that the digits write when the white space between them is left out.  The kernel writes a bit map as
  words of 32 bits separated by spaces and without leading zeros, so behind the first space the test is about
  another bit: in the text of the bit map with bit 32 alone, it finds bit 4 and not bit 32.\<close>

theorem capability_text_is_one_number:
  "(capability_has_bit s wanted \<longleftrightarrow> bit (capability_number s) wanted)
   \<and> capability_has_bit ''1 0'' 4 \<and> \<not> capability_has_bit ''1 0'' 32"
proof -
  have "capability_has_bit ''1 0'' 4" "\<not> capability_has_bit ''1 0'' 32" by code_simp+
  moreover have "capability_has_bit s wanted \<longleftrightarrow> bit (capability_number s) wanted"
    using legacy_bit_loop_bit[of 0 wanted "rev s"] by (simp add: capability_has_bit_def capability_number_def)
  ultimately show ?thesis by blast
qed

section \<open>A scan takes the best device and keeps the books\<close>

text \<open>What the scan relies on: a node can be opened or not, opening gives a descriptor that is not held, and
  closing gives it back.\<close>

definition node_ledger :: "('w \<Rightarrow> int set) \<Rightarrow> (string \<Rightarrow> bool) \<Rightarrow> 'w legacy_ops \<Rightarrow> bool" where
  "node_ledger held openable ops \<longleftrightarrow>
     (\<forall>p w fd w'. lg_open ops p w = (fd, w') \<longrightarrow> (0 \<le> fd \<longleftrightarrow> openable p)
        \<and> (if 0 \<le> fd then fd \<notin> held w \<and> held w' = insert fd (held w) else held w' = held w))
     \<and> (\<forall>fd w. held (lg_close ops fd w) = held w - {fd})"

text \<open>A node that the scan would open, and the order of preference.\<close>

definition legacy_offer ::
  "nat \<Rightarrow> legacy_env \<Rightarrow> string \<Rightarrow> string \<Rightarrow> string \<Rightarrow> (nat \<times> u32 \<times> string \<times> string) option" where
  "legacy_offer pmax env sys dev d_name = (case legacy_candidate pmax (le_file env) sys d_name of None \<Rightarrow> None
     | Some (rank, number, name) \<Rightarrow> if rank = 0 then None
         else (case legacy_path_join pmax dev d_name of Inl e \<Rightarrow> None | Inr p \<Rightarrow> Some (rank, number, p, name)))"

definition preferred :: "nat \<Rightarrow> u32 \<Rightarrow> nat \<Rightarrow> u32 \<Rightarrow> bool" where
  "preferred rank number rank' number' \<longleftrightarrow> rank > rank' \<or> (rank = rank' \<and> number < number')"

definition scan_keeps ::
  "('w \<Rightarrow> int set) \<Rightarrow> int set \<Rightarrow> (string \<Rightarrow> bool) \<Rightarrow> (string \<Rightarrow> (nat \<times> u32 \<times> string \<times> string) option) \<Rightarrow> string set \<Rightarrow> 'w legacy_scan \<Rightarrow> bool" where
  "scan_keeps held before openable offer seen s \<longleftrightarrow>
     (if best_fd s < 0 then held (scan_world s) = before \<and> best_rank s = 0
        \<and> (\<forall>d \<in> seen. \<forall>r n p m. offer d = Some (r, n, p, m) \<longrightarrow> \<not> openable p)
      else best_fd s \<notin> before \<and> held (scan_world s) = insert (best_fd s) before \<and> openable (best_path s)
        \<and> (\<exists>d \<in> seen. offer d = Some (best_rank s, best_number s, best_path s, best_name s))
        \<and> (\<forall>d \<in> seen. \<forall>r n p m. offer d = Some (r, n, p, m) \<and> openable p \<longrightarrow> \<not> preferred r n (best_rank s) (best_number s)))"

lemma legacy_entry_inv:
  assumes led: "node_ledger held openable ops" and inv: "scan_keeps held before openable (legacy_offer pmax env sys dev) seen s"
  shows "scan_keeps held before openable (legacy_offer pmax env sys dev) (insert d seen) (legacy_entry pmax env ops sys dev d s)"
proof (cases "legacy_offer pmax env sys dev d")
  case None
  then have "legacy_entry pmax env ops sys dev d s = s"
    by (auto simp: legacy_offer_def legacy_entry_def split: option.splits sum.splits if_splits)
  then show ?thesis using inv None by (auto simp: scan_keeps_def)
next
  case (Some o4)
  then obtain r n p m where offer: "legacy_offer pmax env sys dev d = Some (r, n, p, m)" by (cases o4) auto
  have r: "r \<noteq> 0" using offer by (auto simp: legacy_offer_def split: option.splits sum.splits if_splits)
  have step: "legacy_entry pmax env ops sys dev d s =
      (if r < best_rank s \<or> (r = best_rank s \<and> n \<ge> best_number s) then s
       else (case lg_open ops p (scan_world s) of (fd, w) \<Rightarrow> if fd < 0 then s\<lparr>scan_world := w\<rparr>
         else \<lparr>best_fd = fd, best_rank = r, best_number = n, best_path = p, best_name = m,
                scan_world = if best_fd s \<ge> 0 then lg_close ops (best_fd s) w else w\<rparr>))"
    using offer by (auto simp: legacy_offer_def legacy_entry_def split: option.splits sum.splits if_splits prod.splits)
  show ?thesis
  proof (cases "preferred r n (best_rank s) (best_number s)")
    case worse: False
    then have "legacy_entry pmax env ops sys dev d s = s" by (auto simp: step preferred_def)
    moreover have "0 \<le> best_fd s" using worse inv r by (cases "best_fd s < 0") (auto simp: scan_keeps_def preferred_def)
    ultimately show ?thesis using inv offer worse by (auto simp: scan_keeps_def)
  next
    case better: True
    obtain fd w where op: "lg_open ops p (scan_world s) = (fd, w)" by fastforce
    have res: "0 \<le> fd \<longleftrightarrow> openable p"
        "if 0 \<le> fd then fd \<notin> held (scan_world s) \<and> held w = insert fd (held (scan_world s)) else held w = held (scan_world s)"
      using led op unfolding node_ledger_def by blast+
    have cls: "held (lg_close ops f v) = held v - {f}" for f v using led unfolding node_ledger_def by blast
    have less: "\<not> (r < best_rank s \<or> (r = best_rank s \<and> n \<ge> best_number s))" using better by (auto simp: preferred_def)
    show ?thesis
    proof (cases "0 \<le> fd")
      case False
      then have "legacy_entry pmax env ops sys dev d s = s\<lparr>scan_world := w\<rparr>" using less op by (auto simp: step)
      then show ?thesis using inv offer res False by (auto simp: scan_keeps_def)
    next
      case True
      have "\<not> preferred r' n' r n" if "d' \<in> seen" "legacy_offer pmax env sys dev d' = Some (r', n', p', m')" "openable p'" for d' r' n' p' m'
        using inv that better by (fastforce simp: scan_keeps_def preferred_def split: if_splits)
      moreover have "held (if best_fd s \<ge> 0 then lg_close ops (best_fd s) w else w) = insert fd before" "fd \<notin> before"
        using inv res(2) True by (auto simp: scan_keeps_def cls split: if_splits)
      ultimately show ?thesis using True less op res(1) offer
        by (auto simp: step scan_keeps_def preferred_def)
    qed
  qed
qed

lemma legacy_scan_inv:
  assumes "node_ledger held openable ops"
  shows "scan_keeps held (held w) openable (legacy_offer pmax env sys dev) (set names)
    (fold (legacy_entry pmax env ops sys dev) names (no_best w))"
proof (induction names rule: rev_induct)
  case Nil
  then show ?case by (simp add: scan_keeps_def no_best_def)
next
  case (snoc d names)
  then show ?case using legacy_entry_inv[OF assms snoc, of d] by simp
qed

text \<open>C29. The first engine takes the best device.  A scan reports a device exactly when a candidate could be opened
  and the directory could be read to its end and closed; it then holds exactly one more descriptor, of a node
  that is preferred by rank and number to every other one that can be opened.  Otherwise, on every error path, it
  holds what it held before; and closing gives the descriptor back.\<close>

theorem discovery_takes_the_best_device:
  assumes "node_ledger held openable ops"
    and "legacy_discover pmax env ops (Ptr i) (Ptr sys) (Ptr dev) w = (res, Ptr i', w')"
  shows "held (snd (legacy_close ops (Ptr i') w')) = held w
    \<and> (case res of
         Inl e \<Rightarrow> held w' = held w \<and> lg_fd i' = - 1
       | Inr False \<Rightarrow> held w' = held w \<and> lg_fd i' = - 1 \<and> (\<forall>d. le_dir env sys = Inr d \<longrightarrow> (\<forall>e \<in> set (ds_names d).
           \<forall>r n p m. legacy_offer pmax env sys dev e = Some (r, n, p, m) \<longrightarrow> \<not> openable p))
       | Inr True \<Rightarrow> 0 \<le> lg_fd i' \<and> lg_fd i' \<notin> held w \<and> held w' = insert (lg_fd i') (held w) \<and> openable (lg_path i')
           \<and> (\<exists>d r n. le_dir env sys = Inr d \<and> ds_error d = None \<and> ds_close d = None
               \<and> (\<exists>e \<in> set (ds_names d). legacy_offer pmax env sys dev e = Some (r, n, lg_path i', lg_name i'))
               \<and> (\<forall>e \<in> set (ds_names d). \<forall>r' n' p m. legacy_offer pmax env sys dev e = Some (r', n', p, m) \<and> openable p
                    \<longrightarrow> \<not> preferred r' n' r n)))"
proof (cases "le_dir env sys")
  case (Inl e)
  then show ?thesis using assms(2) by (auto simp: legacy_discover_def legacy_close_def split: if_splits bool.splits)
next
  case (Inr d)
  let ?s = "fold (legacy_entry pmax env ops sys dev) (ds_names d) (no_best w)"
  note inv = legacy_scan_inv[OF assms(1), of w pmax env sys dev "ds_names d"]
  have cls: "held (lg_close ops f v) = held v - {f}" for f v using assms(1) unfolding node_ledger_def by blast
  show ?thesis
  proof (cases "ds_error d = None \<and> ds_close d = None")
    case False
    then obtain e where "(case ds_error d of Some e \<Rightarrow> Some e | None \<Rightarrow> ds_close d) = Some e" by (cases "ds_error d") auto
    then have r: "res = Inl e" "i' = i\<lparr>lg_fd := - 1, lg_path := '''', lg_name := ''''\<rparr>"
        "w' = (if best_fd ?s \<ge> 0 then lg_close ops (best_fd ?s) (scan_world ?s) else scan_world ?s)"
      using assms(2) Inr by (simp_all add: legacy_discover_def Let_def)
    have "held w' = held w" using inv unfolding r(3) by (auto simp: scan_keeps_def cls)
    then show ?thesis using r(1,2) by (simp add: legacy_close_def)
  next
    case fine: True
    show ?thesis
    proof (cases "best_fd ?s < 0")
      case True
      then have "res = Inr False" "i' = i\<lparr>lg_fd := - 1, lg_path := '''', lg_name := ''''\<rparr>" "w' = scan_world ?s"
        using assms(2) Inr fine by (simp_all add: legacy_discover_def Let_def)
      then show ?thesis using inv True Inr by (auto simp: scan_keeps_def legacy_close_def)
    next
      case False
      then have r: "res = Inr True" "i' = i\<lparr>lg_fd := best_fd ?s, lg_path := best_path ?s, lg_name := best_name ?s\<rparr>" "w' = scan_world ?s"
        using assms(2) Inr fine by (simp_all add: legacy_discover_def Let_def)
      then have "held (snd (legacy_close ops (Ptr i') w')) = held w"
        using inv False by (auto simp: scan_keeps_def legacy_close_def cls)
      then show ?thesis using inv False Inr fine r by (auto simp: scan_keeps_def)
    qed
  qed
qed

section \<open>A poll drains the device\<close>

text \<open>Reads that go on: whole events, and reads that a signal interrupts.\<close>

inductive legacy_reads :: "'w legacy_ops \<Rightarrow> int \<Rightarrow> 'w \<Rightarrow> input_event list \<Rightarrow> 'w \<Rightarrow> bool" for ops :: "'w legacy_ops" and fd :: int where
  none: "legacy_reads ops fd w [] w"
| interrupted: "lg_read ops fd 16 w = (Failed EINTR, w1) \<Longrightarrow> legacy_reads ops fd w1 es w' \<Longrightarrow> legacy_reads ops fd w es w'"
| event: "lg_read ops fd 16 w = (Got bs, w1) \<Longrightarrow> length bs = 16 \<Longrightarrow> legacy_reads ops fd w1 es w'
    \<Longrightarrow> legacy_reads ops fd w (decode_event bs # es) w'"

text \<open>A device that runs dry: a read that goes on brings \<open>left\<close> down.\<close>

definition legacy_dry :: "('w \<Rightarrow> nat) \<Rightarrow> 'w legacy_ops \<Rightarrow> bool" where
  "legacy_dry left ops \<longleftrightarrow> (\<forall>fd w r w'. lg_read ops fd 16 w = (r, w') \<and> (r = Failed EINTR \<or> (\<exists>bs. r = Got bs \<and> length bs = 16))
     \<longrightarrow> left w' < left w)"

definition poll_status :: "read_result \<Rightarrow> errno option" where
  "poll_status r = (case r of Got bs \<Rightarrow> if bs = [] then None else Some EIO | Failed e \<Rightarrow> if e = EAGAIN then None else Some e)"

text \<open>What a read decides, when it ends the poll.\<close>

definition poll_verdict :: "read_result \<Rightarrow> cart_input_action \<Rightarrow> (errno option \<times> cart_input_action) option" where
  "poll_verdict r action = (case r of
     Got bs \<Rightarrow> if length bs = 16 then (if legacy_pressed (decode_event bs) \<and> legacy_quits (decode_event bs)
         then Some (None, CART_INPUT_QUIT) else None) else Some (poll_status r, action)
   | Failed e \<Rightarrow> if e = EINTR then None else Some (poll_status r, action))"

definition poll_ends ::
  "'w legacy_ops \<Rightarrow> int \<Rightarrow> cart_input_action \<Rightarrow> input_event list \<Rightarrow> 'w \<Rightarrow> errno option \<times> cart_input_action \<times> 'w \<Rightarrow> bool" where
  "poll_ends ops fd action es w1 res \<longleftrightarrow> (\<forall>e \<in> set es. \<not> (legacy_pressed e \<and> legacy_quits e))
     \<and> (\<exists>r w' code last. lg_read ops fd 16 w1 = (r, w')
          \<and> poll_verdict r (if list_ex legacy_pressed es then CART_INPUT_NEXT else action) = Some (code, last)
          \<and> res = (code, last, w'))"

lemma poll_ends_cons:
  assumes "poll_ends ops fd a es w1 res" "\<not> (legacy_pressed e \<and> legacy_quits e)"
    and "a = (if legacy_pressed e then CART_INPUT_NEXT else action)"
  shows "poll_ends ops fd action (e # es) w1 res"
proof -
  have "(if list_ex legacy_pressed es then CART_INPUT_NEXT else a) = (if list_ex legacy_pressed (e # es) then CART_INPUT_NEXT else action)"
    using assms(3) by simp
  then show ?thesis using assms(1,2) by (simp add: poll_ends_def)
qed

lemma legacy_poll_loop_ends:
  assumes dry: "legacy_dry left ops"
  shows "\<exists>es w1 res. legacy_poll_loop ops fd action w = Some res \<and> legacy_reads ops fd w es w1 \<and> poll_ends ops fd action es w1 res"
proof (induction "left w" arbitrary: action w rule: less_induct)
  case less
  obtain r v where rd: "lg_read ops fd 16 w = (r, v)" by fastforce
  have shorter: "left v < left w" if "r = Failed EINTR \<or> (\<exists>bs. r = Got bs \<and> length bs = 16)"
    using dry rd that unfolding legacy_dry_def by blast
  consider (intr) "r = Failed EINTR" | (whole) bs where "r = Got bs" "length bs = 16"
    | (stop) "r \<noteq> Failed EINTR" "\<not> (\<exists>bs. r = Got bs \<and> length bs = 16)" by blast
  then show ?case
  proof cases
    case intr
    obtain es w1 res where ih: "legacy_poll_loop ops fd action v = Some res" "legacy_reads ops fd v es w1" "poll_ends ops fd action es w1 res"
      using less.hyps[OF shorter] intr by blast
    have "legacy_poll_loop ops fd action w = Some res"
      by (subst legacy_poll_loop.simps) (simp add: rd intr ih(1))
    then show ?thesis using legacy_reads.interrupted[OF _ ih(2)] rd intr ih(3) by blast
  next
    case whole
    let ?e = "decode_event bs"
    show ?thesis
    proof (cases "legacy_pressed ?e \<and> legacy_quits ?e")
      case True
      have "legacy_poll_loop ops fd action w = Some (None, CART_INPUT_QUIT, v)"
        by (subst legacy_poll_loop.simps) (simp add: rd whole True)
      moreover have "poll_ends ops fd action [] w (None, CART_INPUT_QUIT, v)"
        using rd whole True by (simp add: poll_ends_def poll_verdict_def)
      ultimately show ?thesis using legacy_reads.none[of ops fd w] by blast
    next
      case False
      define a where "a = (if legacy_pressed ?e then CART_INPUT_NEXT else action)"
      have "left v < left w" by (rule shorter) (use whole in blast)
      then obtain es w1 res where ih: "legacy_poll_loop ops fd a v = Some res" "legacy_reads ops fd v es w1" "poll_ends ops fd a es w1 res"
        using less.hyps by blast
      have "legacy_poll_loop ops fd action w = Some res"
        by (subst legacy_poll_loop.simps) (use rd whole False ih(1) in \<open>simp add: a_def split: if_splits\<close>)
      moreover have "legacy_reads ops fd w (?e # es) w1"
        by (rule legacy_reads.event[OF _ whole(2) ih(2)]) (simp add: rd whole(1))
      ultimately show ?thesis using poll_ends_cons[OF ih(3) False a_def] by blast
    qed
  next
    case stop
    have "legacy_poll_loop ops fd action w = Some (poll_status r, action, v)"
      by (subst legacy_poll_loop.simps) (use rd stop in \<open>auto simp: poll_status_def split: read_result.splits\<close>)
    moreover have "poll_ends ops fd action [] w (poll_status r, action, v)"
      using rd stop by (cases r) (auto simp: poll_ends_def poll_verdict_def)
    ultimately show ?thesis using legacy_reads.none[of ops fd w] by blast
  qed
qed

text \<open>A poll of the first engine drains the device.  On a device that runs dry it returns; it reads on, also
  across interrupts, to the first press of a quit key, for which it reports quit and leaves the rest unread, or
  to the first read that is no whole event, and then it reports the next scene exactly if some key was pressed,
  with success at the end of what is there and the error of the read otherwise.\<close>

theorem legacy_poll_drains:
  assumes "legacy_dry left ops" "0 \<le> lg_fd i"
  shows "\<exists>es w1 res. legacy_poll ops (Ptr i) (Ptr a) w = Some (fst res, Ptr (fst (snd res)), snd (snd res))
    \<and> legacy_reads ops (lg_fd i) w es w1 \<and> poll_ends ops (lg_fd i) CART_INPUT_NONE es w1 res"
proof -
  obtain es w1 res where "legacy_poll_loop ops (lg_fd i) CART_INPUT_NONE w = Some res"
      "legacy_reads ops (lg_fd i) w es w1" "poll_ends ops (lg_fd i) CART_INPUT_NONE es w1 res"
    using legacy_poll_loop_ends[OF assms(1)] by blast
  then show ?thesis using assms(2)
    by (intro exI[of _ es] exI[of _ w1] exI[of _ res]) (simp add: legacy_poll_def case_prod_beta')
qed

section \<open>Examples\<close>

text \<open>A console with two event nodes, the second of which is the buttons of the device; descriptors are numbers
  that are not held.\<close>

definition node_sysfs :: legacy_env where
  "node_sysfs = \<lparr>le_dir = (\<lambda>p. if p = ''/s'' then Inr \<lparr>ds_names = [''mice'', ''event0'', ''event1''], ds_error = None, ds_close = None\<rparr> else Inl ENOENT),
     le_file = (\<lambda>p. let plain = (\<lambda>s. Inr \<lparr>ins_text = s @ [CHR 0x0A], ins_error = None, ins_close = None\<rparr>) in
       if p = ''/s/event0/device/capabilities/ev'' \<or> p = ''/s/event1/device/capabilities/ev'' then plain ''3''
       else if p = ''/s/event0/device/capabilities/key'' then plain ''10002''
       else if p = ''/s/event1/device/capabilities/key'' then plain ''0''
       else if p = ''/s/event0/device/name'' then plain ''keyboard''
       else if p = ''/s/event1/device/name'' then plain ''buttons''
       else if p = ''/s/event1/device/phys'' then plain ''vita_syscon_buttons''
       else Inl ENOENT)\<rparr>"

text \<open>The world: the descriptors that are held, and the reads to come.\<close>

type_synonym node_world = "int list \<times> read_result list"

definition node_ops :: "node_world legacy_ops" where
  "node_ops = \<lparr>lg_open = (\<lambda>p w. let fd = Max (insert 2 (set (fst w))) + 1 in (fd, (fd # fst w, snd w))),
     lg_close = (\<lambda>fd w. (filter (\<lambda>x. x \<noteq> fd) (fst w), snd w)),
     lg_read = (\<lambda>fd n w. case snd w of [] \<Rightarrow> (Failed EAGAIN, w) | r # rs \<Rightarrow> (r, (fst w, rs)))\<rparr>"

lemma node_ops_ledger: "node_ledger (\<lambda>w. set (fst w)) (\<lambda>_. True) node_ops"
proof -
  have top: "2 \<le> Max (insert 2 (set xs))" "\<forall>x \<in> set xs. x \<le> Max (insert 2 (set xs))" for xs :: "int list"
    by simp_all
  have "0 \<le> Max (insert 2 (set xs)) + 1" "Max (insert 2 (set xs)) + 1 \<notin> set xs" for xs :: "int list"
    using top[of xs] by (linarith, fastforce)
  then show ?thesis by (auto simp: node_ledger_def node_ops_def Let_def)
qed

lemma node_ops_dry: "legacy_dry (\<lambda>w. length (snd w)) node_ops"
  by (auto simp: legacy_dry_def node_ops_def split: list.splits)

definition node_input :: legacy_input where
  "node_input = \<lparr>lg_fd = 3, lg_path = ''/d/event1'', lg_name = ''buttons''\<rparr>"

lemma legacy_event_number_show_nat:
  assumes "n \<le> 2147483647"
  shows "legacy_event_number (''event'' @ show_nat n) = Some (of_nat n)"
proof -
  have "\<not> (of_nat n :: u32) > 2147483647" using assms by (simp add: word_less_nat_alt unat_of_nat take_bit_nat_eq_self)
  then show ?thesis using assms show_nat_digits[of n] by (simp add: legacy_event_number_def strtoul_show_nat)
qed

lemma node_numbers:
  "legacy_event_number ''event0'' = Some 0" "legacy_event_number ''event1'' = Some 1" "legacy_event_number ''mice'' = None"
proof -
  have "show_nat 0 = ''0''" "show_nat 1 = ''1''" by code_simp+
  then show "legacy_event_number ''event0'' = Some 0" "legacy_event_number ''event1'' = Some 1"
    using legacy_event_number_show_nat[of 0] legacy_event_number_show_nat[of 1] by simp_all
qed (simp add: legacy_event_number_def)

lemma node_candidates:
  "legacy_candidate 64 (le_file node_sysfs) ''/s'' ''mice'' = None"
  "legacy_candidate 64 (le_file node_sysfs) ''/s'' ''event0'' = Some (1, 0, ''keyboard'')"
  "legacy_candidate 64 (le_file node_sysfs) ''/s'' ''event1'' = Some (4, 1, ''buttons'')"
  unfolding legacy_candidate_def node_numbers by code_simp+

theorem discovery_takes_the_best_device_witness:
  "\<exists>w'. legacy_discover 64 node_sysfs node_ops (Ptr (node_input\<lparr>lg_fd := 9\<rparr>)) (Ptr ''/s'') (Ptr ''/d'') ([0, 1, 2], [])
      = (Inr True, Ptr (node_input\<lparr>lg_fd := 4\<rparr>), w') \<and> set (fst w') = {4, 0, 1, 2}
    \<and> set (fst (snd (legacy_close node_ops (Ptr (node_input\<lparr>lg_fd := 4\<rparr>)) w'))) = {0, 1, 2}"
proof -
  have run: "legacy_discover 64 node_sysfs node_ops (Ptr (node_input\<lparr>lg_fd := 9\<rparr>)) (Ptr ''/s'') (Ptr ''/d'') ([0, 1, 2], [])
      = (Inr True, Ptr (node_input\<lparr>lg_fd := 4\<rparr>), ([4, 0, 1, 2], []))"
  proof -
    have dir: "le_dir node_sysfs ''/s'' = Inr \<lparr>ds_names = [''mice'', ''event0'', ''event1''], ds_error = None, ds_close = None\<rparr>"
      by (simp add: node_sysfs_def)
    have paths: "legacy_path_join 64 ''/d'' ''event0'' = Inr ''/d/event0''" "legacy_path_join 64 ''/d'' ''event1'' = Inr ''/d/event1''"
      by (simp_all add: legacy_path_join_def)
    show ?thesis
      by (simp add: legacy_discover_def dir legacy_entry_def node_candidates paths no_best_def node_ops_def node_input_def Let_def)
  qed
  show ?thesis using discovery_takes_the_best_device[OF node_ops_ledger run] run by (simp add: node_input_def)
qed

definition node_press :: "nat \<Rightarrow> read_result" where
  "node_press code = Got [0, 0, 0, 0, 0, 0, 0, 0, 1, 0, of_nat code, 0, 1, 0, 0, 0]"

theorem legacy_poll_drains_witness:
  "\<exists>es w1 res. legacy_poll node_ops (Ptr node_input) (Ptr CART_INPUT_QUIT) ([3], [node_press 30, Failed EINTR, node_press 31])
      = Some (fst res, Ptr (fst (snd res)), snd (snd res))
    \<and> legacy_reads node_ops 3 ([3], [node_press 30, Failed EINTR, node_press 31]) es w1 \<and> poll_ends node_ops 3 CART_INPUT_NONE es w1 res"
  using legacy_poll_drains[OF node_ops_dry, of node_input CART_INPUT_QUIT "([3], [node_press 30, Failed EINTR, node_press 31])"]
  by (simp add: node_input_def)

end
