(* ===== verification/Hello_Native.thy ===== *)
theory Hello_Native
  imports Complex_Main C_Library
begin

text \<open>
  The reference example of a native build, \<open>toolkit/examples/hello-native\<close>: \<open>main.c\<close> with the worker thread
  and the exit codes, and \<open>system.c\<close> with the system facts and the checked sum.  A \<open>double\<close> is a real number,
  and every operation on doubles is the operation on reals followed by \<open>rnd\<close>, the rounding of the arithmetic.
  \<open>round64\<close> is the rounding of IEEE 754 binary64 to the nearest value, ties to even, for numbers that are
  neither subnormal nor too large; the sums of the example stay between the square root of 1 and \<open>2 ^ 23\<close>.
  What is proved for any rounding with the relative error of binary64 is in the locale \<open>double_rounding\<close>.
\<close>

section \<open>Doubles\<close>

text \<open>The nearest integer, ties to even.\<close>

definition nearest_even :: "real \<Rightarrow> int" where
  "nearest_even y = (let f = \<lfloor>y\<rfloor>; d = y - of_int f
     in if d < 1 / 2 then f else if d > 1 / 2 then f + 1 else if even f then f else f + 1)"

definition ulp64 :: "real \<Rightarrow> real" where
  "ulp64 x = 2 powr (of_int (\<lfloor>log 2 \<bar>x\<bar>\<rfloor> - 52))"

definition round64 :: "real \<Rightarrow> real" where
  "round64 x = (if x = 0 then 0 else of_int (nearest_even (x / ulp64 x)) * ulp64 x)"

section \<open>system.c\<close>

abbreviation VITA_SYSTEM_FIELD :: nat where "VITA_SYSTEM_FIELD \<equiv> 96"

record vita_system_info =
  si_kernel :: string
  si_arch :: string
  si_cpu_count :: int

record hello_os =
  ho_create :: int                          \<comment> \<open>the result of \<open>pthread_create\<close>\<close>
  ho_join :: "int \<times> bool"                   \<comment> \<open>the result of \<open>pthread_join\<close>, and whether the pointer is the argument\<close>
  ho_uname :: "(string \<times> string) option"    \<comment> \<open>release and machine\<close>
  ho_cpus :: int                            \<comment> \<open>\<open>sysconf(_SC_NPROCESSORS_ONLN)\<close>\<close>
  ho_flush :: int

text \<open>\<open>strncpy\<close> into a zeroed field that is one character longer.\<close>

definition vita_system_info_of :: "hello_os \<Rightarrow> vita_system_info ptr \<Rightarrow> int \<times> vita_system_info ptr" where
  "vita_system_info_of os info = (case info of NULL \<Rightarrow> (- 1, NULL) | Ptr _ \<Rightarrow>
     let cleared = \<lparr>si_kernel = '''', si_arch = '''', si_cpu_count = 0\<rparr> in
     (case ho_uname os of None \<Rightarrow> (- 1, Ptr cleared)
      | Some (release, machine) \<Rightarrow>
          (0, Ptr (cleared\<lparr>si_kernel := fit VITA_SYSTEM_FIELD release, si_arch := fit VITA_SYSTEM_FIELD machine,
                     si_cpu_count := (if ho_cpus os > 0 then ho_cpus os else 0)\<rparr>))))"

definition vita_unit_step :: "(real \<Rightarrow> real) \<Rightarrow> real \<Rightarrow> real" where
  "vita_unit_step rnd v = (let root = rnd (sqrt v) in rnd (rnd (root * root) / v))"

definition vita_accumulator_is_expected :: "(real \<Rightarrow> real) \<Rightarrow> real \<Rightarrow> nat \<Rightarrow> bool" where
  "vita_accumulator_is_expected rnd accumulator iterations =
     (let expected = rnd (of_nat iterations);
          delta = rnd (accumulator - expected);
          delta = (if delta < 0 then - delta else delta)
      in delta \<le> rnd (rnd (1 / 10 ^ 9) * expected))"

section \<open>main.c\<close>

record worker_arg =
  wa_iterations :: nat
  wa_accumulator :: real

definition hello_worker :: "(real \<Rightarrow> real) \<Rightarrow> worker_arg \<Rightarrow> worker_arg" where
  "hello_worker rnd arg = arg\<lparr>wa_accumulator :=
     fold (\<lambda>i acc. rnd (acc + vita_unit_step rnd (rnd (of_nat i)))) [1..<Suc (wa_iterations arg)] 0\<rparr>"

definition hello_lines :: "(real \<Rightarrow> string) \<Rightarrow> worker_arg \<Rightarrow> vita_system_info \<Rightarrow> string list" where
  "hello_lines fixed4 arg info =
     [''schema=1'', ''example=hello-native'', ''threads=1'', ''iterations='' @ show_nat (wa_iterations arg),
      ''accumulator='' @ fixed4 (wa_accumulator arg), ''kernel='' @ si_kernel info, ''arch='' @ si_arch info,
      ''cpus='' @ show_int (si_cpu_count info), ''status=ok'']"

text \<open>The exit code and the lines of the report; \<open>fixed4\<close> is the conversion \<open>%.4f\<close>.\<close>

definition hello_main :: "(real \<Rightarrow> real) \<Rightarrow> (real \<Rightarrow> string) \<Rightarrow> hello_os \<Rightarrow> int \<times> string list" where
  "hello_main rnd fixed4 os =
     (let arg = \<lparr>wa_iterations = 1024, wa_accumulator = 0\<rparr> in
      if ho_create os \<noteq> 0 then (2, [])
      else let arg = hello_worker rnd arg in
      if fst (ho_join os) \<noteq> 0 \<or> \<not> snd (ho_join os) then (3, [])
      else case vita_system_info_of os (Ptr \<lparr>si_kernel = '''', si_arch = '''', si_cpu_count = 0\<rparr>) of (rc, info) \<Rightarrow>
      if rc \<noteq> 0 then (4, [])
      else if \<not> vita_accumulator_is_expected rnd (wa_accumulator arg) (wa_iterations arg) then (5, [])
      else if ho_flush os \<noteq> 0 then (6, hello_lines fixed4 arg (deref info))
      else (0, hello_lines fixed4 arg (deref info)))"

section \<open>Sums under rounding\<close>

abbreviation unit_roundoff :: real where "unit_roundoff \<equiv> 1 / 2 ^ 53"

locale double_rounding =
  fixes rnd :: "real \<Rightarrow> real"
  assumes relative: "\<bar>rnd x - x\<bar> \<le> \<bar>x\<bar> * unit_roundoff"
begin

lemma rounded:
  obtains e where "rnd x = x * (1 + e)" "\<bar>e\<bar> \<le> unit_roundoff"
proof (cases "x = 0")
  case True
  then have "rnd x = x * (1 + 0)" using relative[of x] by simp
  then show ?thesis using that[of 0] by simp
next
  case False
  have "rnd x = x * (1 + (rnd x - x) / x)" using False by (simp add: field_simps)
  moreover have "\<bar>(rnd x - x) / x\<bar> \<le> unit_roundoff"
    using relative[of x] False by (simp add: abs_divide divide_le_eq mult.commute)
  ultimately show ?thesis using that by blast
qed

lemma rounded_nonneg: "0 \<le> x \<Longrightarrow> 0 \<le> rnd x"
proof -
  assume "0 \<le> x"
  obtain e where "rnd x = x * (1 + e)" "\<bar>e\<bar> \<le> unit_roundoff" by (rule rounded)
  moreover then have "0 \<le> 1 + e" by (simp add: abs_le_iff)
  ultimately show ?thesis using \<open>0 \<le> x\<close> by simp
qed

lemma rounded_abs: "\<bar>rnd x\<bar> \<le> \<bar>x\<bar> * (1 + unit_roundoff)"
proof -
  have "\<bar>rnd x\<bar> \<le> \<bar>x\<bar> + \<bar>rnd x - x\<bar>" by linarith
  also have "\<dots> \<le> \<bar>x\<bar> + \<bar>x\<bar> * unit_roundoff" using relative by simp
  finally show ?thesis by (simp add: distrib_left)
qed

text \<open>One rounding moves a factor close to 1 by little.\<close>

lemma factor_step:
  assumes "\<bar>f - 1\<bar> \<le> k * unit_roundoff" "\<bar>e\<bar> \<le> unit_roundoff" "0 \<le> k" "k \<le> 8"
  shows "\<bar>f * (1 + e) - 1\<bar> \<le> (k + 1 + 1 / 8) * unit_roundoff"
proof -
  have "\<bar>f - 1\<bar> \<le> 1 / 8" by (rule order_trans[OF assms(1)]) (use assms(4) in simp)
  then have f: "\<bar>f\<bar> \<le> 1 + 1 / 8" by linarith
  have "\<bar>f * e\<bar> \<le> (1 + 1 / 8) * unit_roundoff" unfolding abs_mult using f assms(2) by (intro mult_mono) auto
  moreover have "f * (1 + e) - 1 = (f - 1) + f * e" by (simp add: algebra_simps)
  ultimately show ?thesis using assms(1) abs_triangle_ineq[of "f - 1" "f * e"] by (simp add: algebra_simps)
qed

lemma unit_step_near_one:
  assumes "0 < v"
  shows "\<bar>vita_unit_step rnd v - 1\<bar> \<le> 5 * unit_roundoff"
proof -
  obtain a where a: "rnd (sqrt v) = sqrt v * (1 + a)" "\<bar>a\<bar> \<le> unit_roundoff" by (rule rounded)
  let ?r = "rnd (sqrt v)"
  obtain b where b: "rnd (?r * ?r) = ?r * ?r * (1 + b)" "\<bar>b\<bar> \<le> unit_roundoff" by (rule rounded)
  obtain c where c: "rnd (rnd (?r * ?r) / v) = rnd (?r * ?r) / v * (1 + c)" "\<bar>c\<bar> \<le> unit_roundoff" by (rule rounded)
  have "sqrt v * sqrt v = v" using assms by simp
  then have "?r * ?r = v * ((1 + a) * (1 + a))" unfolding a(1) by (metis mult.assoc mult.left_commute)
  then have sq: "rnd (?r * ?r) / v = (1 + a) * (1 + a) * (1 + b)" unfolding b(1) using assms by simp
  have eq: "vita_unit_step rnd v = (1 + a) * (1 + a) * (1 + b) * (1 + c)"
    using c(1) unfolding vita_unit_step_def Let_def sq .
  have "\<bar>(1 + a) - 1\<bar> \<le> 1 * unit_roundoff" using a(2) by simp
  note 2 = factor_step[OF this a(2)]
  have 3: "\<bar>(1 + a) * (1 + a) * (1 + b) - 1\<bar> \<le> (1 + 1 + 1 / 8 + 1 + 1 / 8) * unit_roundoff"
    by (rule factor_step[OF 2 b(2)]) simp_all
  have "\<bar>(1 + a) * (1 + a) * (1 + b) * (1 + c) - 1\<bar> \<le> (1 + 1 + 1 / 8 + 1 + 1 / 8 + 1 + 1 / 8) * unit_roundoff"
    by (rule factor_step[OF 3 c(2)]) simp_all
  then show ?thesis unfolding eq by (rule order_trans) simp
qed

lemma sum_near:
  assumes "n \<le> 2 ^ 22"
  shows "\<bar>fold (\<lambda>i acc. rnd (acc + vita_unit_step rnd (rnd (of_nat i)))) [1..<Suc n] 0 - of_nat n\<bar>
    \<le> of_nat n * (of_nat n + 8) * unit_roundoff"
  using assms
proof (induction n)
  case 0
  then show ?case by simp
next
  case (Suc n)
  define acc where "acc = fold (\<lambda>i acc. rnd (acc + vita_unit_step rnd (rnd (of_nat i)))) [1..<Suc n] 0"
  define s where "s = vita_unit_step rnd (rnd (of_nat (Suc n)))"
  let ?n = "of_nat n :: real"
  have n: "?n \<le> 2 ^ 22" using Suc.prems by (metis Suc_leD numeral_power_le_of_nat_cancel_iff of_nat_le_iff of_nat_numeral of_nat_power)
  have ih: "\<bar>acc - ?n\<bar> \<le> ?n * (?n + 8) * unit_roundoff" using Suc by (simp add: acc_def)
  have "?n * (?n + 8) \<le> 2 ^ 22 * (2 ^ 22 + 8)" using n by (intro mult_mono) auto
  then have one: "?n * (?n + 8) * unit_roundoff \<le> 1" by simp
  obtain d where d: "rnd (of_nat (Suc n)) = of_nat (Suc n) * (1 + d)" "\<bar>d\<bar> \<le> unit_roundoff" by (rule rounded)
  have "0 < 1 + d" using d(2) by (simp add: abs_le_iff)
  then have "0 < rnd (of_nat (Suc n))" unfolding d(1) by (intro mult_pos_pos) simp_all
  then have s: "\<bar>s - 1\<bar> \<le> 5 * unit_roundoff" unfolding s_def by (rule unit_step_near_one)
  obtain e where e: "rnd (acc + s) = (acc + s) * (1 + e)" "\<bar>e\<bar> \<le> unit_roundoff" by (rule rounded)
  have "\<bar>acc - ?n\<bar> \<le> 1" by (rule order_trans[OF ih one])
  moreover have "\<bar>s - 1\<bar> \<le> 1" by (rule order_trans[OF s]) simp
  ultimately have "\<bar>acc + s\<bar> \<le> ?n + 3" by linarith
  then have "\<bar>(acc + s) * e\<bar> \<le> (?n + 3) * unit_roundoff" unfolding abs_mult using e(2) by (intro mult_mono) auto
  moreover have "rnd (acc + s) - of_nat (Suc n) = (acc - ?n) + (s - 1) + (acc + s) * e" unfolding e(1) by (simp add: algebra_simps)
  ultimately have "\<bar>rnd (acc + s) - of_nat (Suc n)\<bar> \<le> ?n * (?n + 8) * unit_roundoff + 5 * unit_roundoff + (?n + 3) * unit_roundoff"
    using ih s by linarith
  also have "\<dots> \<le> of_nat (Suc n) * (of_nat (Suc n) + 8) * unit_roundoff" by (simp add: field_simps)
  finally show ?case by (simp add: acc_def s_def)
qed

text \<open>The tolerance, and the distance that the check computes.\<close>

lemma tolerance:
  obtains f where "rnd (rnd (1 / 10 ^ 9) * rnd (of_nat n)) = of_nat n / 10 ^ 9 * f" "\<bar>f - 1\<bar> \<le> 4 * unit_roundoff"
proof -
  obtain a where a: "rnd (1 / 10 ^ 9) = 1 / 10 ^ 9 * (1 + a)" "\<bar>a\<bar> \<le> unit_roundoff" by (rule rounded)
  obtain b where b: "rnd (of_nat n) = of_nat n * (1 + b)" "\<bar>b\<bar> \<le> unit_roundoff" by (rule rounded)
  let ?p = "rnd (1 / 10 ^ 9) * rnd (of_nat n)"
  obtain c where c: "rnd ?p = ?p * (1 + c)" "\<bar>c\<bar> \<le> unit_roundoff" by (rule rounded)
  have "\<bar>(1 + a) - 1\<bar> \<le> 1 * unit_roundoff" using a(2) by simp
  note 2 = factor_step[OF this b(2)]
  have "\<bar>(1 + a) * (1 + b) * (1 + c) - 1\<bar> \<le> (1 + 1 + 1 / 8 + 1 + 1 / 8) * unit_roundoff"
    by (rule factor_step[OF 2 c(2)]) simp_all
  then have "\<bar>(1 + a) * (1 + b) * (1 + c) - 1\<bar> \<le> 4 * unit_roundoff" by (rule order_trans) simp
  moreover have "rnd ?p = of_nat n / 10 ^ 9 * ((1 + a) * (1 + b) * (1 + c))" unfolding c(1) unfolding a(1) b(1) by simp
  ultimately show ?thesis using that by blast
qed

lemma check_iff:
  "vita_accumulator_is_expected rnd acc n \<longleftrightarrow> \<bar>rnd (acc - rnd (of_nat n))\<bar> \<le> rnd (rnd (1 / 10 ^ 9) * rnd (of_nat n))"
  by (simp add: vita_accumulator_is_expected_def Let_def abs_if)

lemma check_accepts:
  assumes "n \<le> 2 ^ 22" "\<bar>acc - of_nat n\<bar> \<le> of_nat n * (of_nat n + 8) * unit_roundoff"
  shows "vita_accumulator_is_expected rnd acc n"
proof -
  let ?n = "of_nat n :: real"
  have n: "?n \<le> 2 ^ 22" using assms(1) by (metis numeral_power_le_of_nat_cancel_iff of_nat_le_iff of_nat_numeral of_nat_power)
  obtain f where f: "rnd (rnd (1 / 10 ^ 9) * rnd ?n) = ?n / 10 ^ 9 * f" "\<bar>f - 1\<bar> \<le> 4 * unit_roundoff" by (rule tolerance)
  have "1 - 4 * unit_roundoff \<le> f" using f(2) by linarith
  then have half: "3 / 4 \<le> f" by (rule order_trans[rotated]) simp
  have e: "\<bar>rnd ?n - ?n\<bar> \<le> ?n * unit_roundoff" using relative[of ?n] by simp
  have "\<bar>acc - rnd ?n\<bar> \<le> \<bar>acc - ?n\<bar> + \<bar>rnd ?n - ?n\<bar>" by linarith
  also have "\<dots> \<le> ?n * (?n + 8) * unit_roundoff + ?n * unit_roundoff" using assms(2) e by (rule add_mono)
  also have "\<dots> = ?n * (?n + 9) * unit_roundoff" by (simp add: algebra_simps)
  finally have near: "\<bar>acc - rnd ?n\<bar> \<le> ?n * (?n + 9) * unit_roundoff" .
  have "?n * (?n + 9) * unit_roundoff \<le> ?n * ((2 ^ 22 + 9) * unit_roundoff)"
    unfolding mult.assoc using n by (intro mult_left_mono mult_right_mono) auto
  then have near': "\<bar>acc - rnd ?n\<bar> \<le> ?n * ((2 ^ 22 + 9) * unit_roundoff)" by (rule order_trans[OF near])
  have "\<bar>rnd (acc - rnd ?n)\<bar> \<le> \<bar>acc - rnd ?n\<bar> * (1 + unit_roundoff)"
    by (rule rounded_abs)
  also have "\<dots> \<le> ?n * ((2 ^ 22 + 9) * unit_roundoff) * (1 + unit_roundoff)"
    using near' by (rule mult_right_mono) simp
  also have "\<dots> = ?n * ((2 ^ 22 + 9) * unit_roundoff * (1 + unit_roundoff))" by simp
  also have "\<dots> \<le> ?n * (1 / 10 ^ 9 * (3 / 4))" by (rule mult_left_mono) simp_all
  also have "\<dots> \<le> ?n / 10 ^ 9 * f" using mult_left_mono[OF half, of "?n / 10 ^ 9"] by simp
  finally show ?thesis unfolding check_iff f(1) .
qed

lemma check_rejects:
  assumes "n \<le> 5 * 10 ^ 8" "1 \<le> \<bar>acc - of_nat n\<bar>"
  shows "\<not> vita_accumulator_is_expected rnd acc n"
proof -
  let ?n = "of_nat n :: real"
  have "real n \<le> real (5 * 10 ^ 8)" using assms(1) by (simp only: of_nat_le_iff)
  then have n: "?n \<le> 5 * 10 ^ 8" by simp
  obtain f where f: "rnd (rnd (1 / 10 ^ 9) * rnd ?n) = ?n / 10 ^ 9 * f" "\<bar>f - 1\<bar> \<le> 4 * unit_roundoff" by (rule tolerance)
  have "f \<le> 1 + 4 * unit_roundoff" using f(2) by linarith
  then have f_le: "f \<le> 5 / 4" by (rule order_trans) simp
  have "?n / 10 ^ 9 * f \<le> ?n / 10 ^ 9 * (5 / 4)" using f_le by (intro mult_left_mono) auto
  also have "\<dots> \<le> 5 / 8" using n by simp
  finally have tol: "?n / 10 ^ 9 * f \<le> 5 / 8" .
  have e: "\<bar>rnd ?n - ?n\<bar> \<le> 1 / 16"
    by (rule order_trans[OF relative]) (use n in simp)
  then have far: "15 / 16 \<le> \<bar>acc - rnd ?n\<bar>" using assms(2) by linarith
  have "\<bar>acc - rnd ?n\<bar> - \<bar>rnd (acc - rnd ?n)\<bar> \<le> \<bar>acc - rnd ?n\<bar> * unit_roundoff"
    using relative[of "acc - rnd ?n"] abs_triangle_ineq2[of "acc - rnd ?n" "rnd (acc - rnd ?n)"]
    unfolding abs_minus_commute[of "acc - rnd ?n"] by (rule order_trans[rotated])
  then have "\<bar>acc - rnd ?n\<bar> * (1 - unit_roundoff) \<le> \<bar>rnd (acc - rnd ?n)\<bar>" by (simp add: algebra_simps)
  moreover have "15 / 16 * (1 - unit_roundoff) \<le> \<bar>acc - rnd ?n\<bar> * (1 - unit_roundoff)" using far by (rule mult_right_mono) simp
  moreover have "3 / 4 \<le> 15 / 16 * (1 - unit_roundoff)" by simp
  ultimately have "3 / 4 \<le> \<bar>rnd (acc - rnd ?n)\<bar>" by linarith
  then show ?thesis using tol unfolding check_iff f(1) by linarith
qed

lemma worker_sum_accepted:
  assumes "wa_iterations arg \<le> 2 ^ 22"
  shows "vita_accumulator_is_expected rnd (wa_accumulator (hello_worker rnd arg)) (wa_iterations arg)"
  using check_accepts[OF assms sum_near[OF assms]] by (simp add: hello_worker_def)

lemma main_code:
  "fst (hello_main rnd fixed4 os) = (if ho_create os \<noteq> 0 then 2
     else if fst (ho_join os) \<noteq> 0 \<or> \<not> snd (ho_join os) then 3
     else if ho_uname os = None then 4
     else if ho_flush os \<noteq> 0 then 6 else 0)"
  using worker_sum_accepted[of "\<lparr>wa_iterations = 1024, wa_accumulator = 0\<rparr>"]
  by (auto simp: hello_main_def vita_system_info_of_def Let_def hello_worker_def split: option.split)

end

section \<open>binary64\<close>

lemma nearest_even_error: "\<bar>of_int (nearest_even y) - y\<bar> \<le> 1 / 2"
proof -
  have "of_int \<lfloor>y\<rfloor> \<le> y" "y < of_int \<lfloor>y\<rfloor> + 1" by linarith+
  then show ?thesis by (auto simp: nearest_even_def Let_def abs_le_iff)
qed

lemma ulp64_bound: "x \<noteq> 0 \<Longrightarrow> ulp64 x * 2 ^ 52 \<le> \<bar>x\<bar> \<and> 0 < ulp64 x"
proof -
  assume x: "x \<noteq> 0"
  have "ulp64 x * 2 ^ 52 = 2 powr of_int \<lfloor>log 2 \<bar>x\<bar>\<rfloor>"
    by (simp add: ulp64_def powr_diff powr_numeral)
  also have "\<dots> \<le> 2 powr (log 2 \<bar>x\<bar>)" by simp
  also have "\<dots> = \<bar>x\<bar>" using x by simp
  finally show ?thesis by (simp add: ulp64_def)
qed

interpretation binary64: double_rounding round64
proof
  fix x :: real
  show "\<bar>round64 x - x\<bar> \<le> \<bar>x\<bar> * unit_roundoff"
  proof (cases "x = 0")
    case False
    let ?u = "ulp64 x"
    have u: "?u * 2 ^ 52 \<le> \<bar>x\<bar>" "0 < ?u" using ulp64_bound[OF False] by simp_all
    have "round64 x - x = (of_int (nearest_even (x / ?u)) - x / ?u) * ?u" using False u(2) by (simp add: round64_def field_simps)
    then have "\<bar>round64 x - x\<bar> = \<bar>of_int (nearest_even (x / ?u)) - x / ?u\<bar> * ?u" using u(2) by (simp add: abs_mult)
    also have "\<dots> \<le> 1 / 2 * ?u" using nearest_even_error u(2) by (intro mult_right_mono) auto
    also have "\<dots> \<le> \<bar>x\<bar> * unit_roundoff" using u(1) by simp
    finally show ?thesis .
  qed (simp add: round64_def)
qed

section \<open>The check of the example\<close>

text \<open>C30. In binary64 the check of the accumulator separates right from wrong: for every iteration count up to
  \<open>2 ^ 22\<close> it accepts the sum that the worker computes, although the rounding errors of the four operations of a
  step and of the addition all count, and it accepts only values that are less than 1, the size of one step,
  away from the iteration count.  The program, which takes 1024 steps, never reports a mismatch: its exit
  code tells which call failed.\<close>

theorem hello_check_separates:
  assumes "wa_iterations arg \<le> 2 ^ 22"
  shows "vita_accumulator_is_expected round64 (wa_accumulator (hello_worker round64 arg)) (wa_iterations arg)
    \<and> (vita_accumulator_is_expected round64 acc (wa_iterations arg) \<longrightarrow> \<bar>acc - of_nat (wa_iterations arg)\<bar> < 1)
    \<and> fst (hello_main round64 fixed4 os) = (if ho_create os \<noteq> 0 then 2
         else if fst (ho_join os) \<noteq> 0 \<or> \<not> snd (ho_join os) then 3
         else if ho_uname os = None then 4
         else if ho_flush os \<noteq> 0 then 6 else 0)"
proof -
  have "wa_iterations arg \<le> 5 * 10 ^ 8" by (rule order_trans[OF assms]) simp
  then have "vita_accumulator_is_expected round64 acc (wa_iterations arg) \<longrightarrow> \<bar>acc - of_nat (wa_iterations arg)\<bar> < 1"
    using binary64.check_rejects by (metis not_less)
  then show ?thesis using binary64.worker_sum_accepted[OF assms] binary64.main_code by simp
qed

theorem hello_check_separates_witness:
  "vita_accumulator_is_expected round64 (wa_accumulator (hello_worker round64 \<lparr>wa_iterations = 1024, wa_accumulator = 0\<rparr>)) 1024
    \<and> \<not> vita_accumulator_is_expected round64 1025 1024
    \<and> fst (hello_main round64 (\<lambda>x. ''1024.0000'')
         \<lparr>ho_create = 0, ho_join = (0, True), ho_uname = Some (''6.1'', ''armv7l''), ho_cpus = 4, ho_flush = 0\<rparr>) = 0"
  using hello_check_separates[of "\<lparr>wa_iterations = 1024, wa_accumulator = 0\<rparr>" 1025 "\<lambda>x. ''1024.0000''"
    "\<lparr>ho_create = 0, ho_join = (0, True), ho_uname = Some (''6.1'', ''armv7l''), ho_cpus = 4, ho_flush = 0\<rparr>"]
  by simp

section \<open>A step is not always 1\<close>

lemma nearest_even_eq: "\<bar>y - of_int m\<bar> < 1 / 2 \<Longrightarrow> nearest_even y = m"
proof -
  assume "\<bar>y - of_int m\<bar> < 1 / 2"
  then have y: "y < of_int m + 1 / 2" "of_int m - 1 / 2 < y" by linarith+
  show ?thesis
  proof (cases "of_int m \<le> y")
    case True
    then have "\<lfloor>y\<rfloor> = m" using y by (intro floor_unique) linarith+
    then show ?thesis using y True by (simp add: nearest_even_def Let_def)
  next
    case False
    then have "\<lfloor>y\<rfloor> = m - 1" using y by (intro floor_unique) simp_all
    then show ?thesis using y False by (simp add: nearest_even_def Let_def)
  qed
qed

lemma round64_eq:
  assumes "2 ^ k \<le> x" "x < 2 ^ Suc k" "\<bar>x * 2 ^ 52 / 2 ^ k - of_int m\<bar> < 1 / 2"
  shows "round64 x = of_int m * 2 ^ k / 2 ^ 52"
proof -
  have x: "0 < x" by (rule less_le_trans[OF _ assms(1)]) simp
  have "\<lfloor>log 2 x\<rfloor> = int k"
    by (rule floor_unique) (use assms x in \<open>simp_all add: le_log_iff log_less_iff powr_realpow powr_add\<close>)
  then have u: "ulp64 x = 2 ^ k / 2 ^ 52" using x by (simp add: ulp64_def powr_diff powr_realpow powr_numeral)
  have "nearest_even (x / ulp64 x) = m" by (rule nearest_even_eq) (use assms(3) in \<open>simp only: u divide_divide_eq_right\<close>)
  then have "round64 x = of_int m * ulp64 x" using x by (simp add: round64_def)
  then show ?thesis unfolding u by simp
qed

lemma step_of_two: "vita_unit_step round64 2 = 1 + 1 / 2 ^ 52"
proof -
  let ?m = "6369051672525773 :: real"
  have lo: "(?m - 1 / 2) / 2 ^ 52 < sqrt 2" by (rule real_less_rsqrt) (simp add: power2_eq_square)
  have hi: "sqrt 2 < (?m + 1 / 2) / 2 ^ 52" by (rule real_less_lsqrt) (simp_all add: power2_eq_square)
  have root: "round64 (sqrt 2) = ?m / 2 ^ 52"
  proof -
    have "\<bar>sqrt 2 * 2 ^ 52 / 2 ^ 0 - ?m\<bar> < 1 / 2" unfolding abs_less_iff using lo hi by (simp add: field_simps)
    moreover have "sqrt 2 < 2" by (rule real_less_lsqrt) simp_all
    ultimately show ?thesis using round64_eq[of 0 "sqrt 2" 6369051672525773] by simp
  qed
  have sq: "round64 (round64 (sqrt 2) * round64 (sqrt 2)) = 2 * (1 + 1 / 2 ^ 52)"
    unfolding root using round64_eq[of 1 "?m / 2 ^ 52 * (?m / 2 ^ 52)" "2 ^ 52 + 1"] by simp
  have "round64 (1 + 1 / 2 ^ 52) = 1 + 1 / 2 ^ 52" using round64_eq[of 0 "1 + 1 / 2 ^ 52" "2 ^ 52 + 1"] by simp
  then show ?thesis by (simp add: vita_unit_step_def Let_def sq)
qed

end
