(* ===== verification/Dash_Render.thy ===== *)
theory Dash_Render
  imports C_Library
begin

text \<open>
  The RAM-shadow renderer of the dashboard, \<open>toolkit/examples/vita-dashboard/src/render.c\<close> and \<open>render.h\<close>:
  clipped pixels, rectangles and scaled text of an 8x8 font in a byte buffer.  Every write goes through
  \<open>put_pixel\<close>; a store outside the buffer and an overflow of \<open>int\<close> are \<open>None\<close>.  A rectangle and a text
  paint exactly the pixels of their geometry that are on the screen, and no byte between the pixels.
\<close>

section \<open>State\<close>

record dash_renderer =
  shadow :: "u8 list ptr"
  rn_frame_bytes :: size_t
  rn_width :: u32
  rn_height :: u32
  rn_stride :: u32
  bytes_per_pixel :: u32
  clipped_writes :: u32

definition font8x8 :: "u8 list list" where
  "font8x8 =
    [[0, 0, 0, 0, 0, 0, 0, 0],
     [0x18, 0x18, 0x18, 0x18, 0, 0, 0x18, 0],
     [0x6C, 0x6C, 0, 0, 0, 0, 0, 0],
     [0x6C, 0xFE, 0x6C, 0x6C, 0x6C, 0xFE, 0x6C, 0],
     [0x18, 0x7E, 0xC0, 0x7C, 0x06, 0xFC, 0x18, 0],
     [0, 0xC6, 0xCC, 0x18, 0x30, 0x66, 0xC6, 0],
     [0x38, 0x6C, 0x38, 0x76, 0xDC, 0xCC, 0x76, 0],
     [0x18, 0x18, 0x30, 0, 0, 0, 0, 0],
     [0x0C, 0x18, 0x30, 0x30, 0x30, 0x18, 0x0C, 0],
     [0x30, 0x18, 0x0C, 0x0C, 0x0C, 0x18, 0x30, 0],
     [0, 0x66, 0x3C, 0xFF, 0x3C, 0x66, 0, 0],
     [0, 0x18, 0x18, 0x7E, 0x18, 0x18, 0, 0],
     [0, 0, 0, 0, 0, 0x18, 0x18, 0x30],
     [0, 0, 0, 0x7E, 0, 0, 0, 0],
     [0, 0, 0, 0, 0, 0x18, 0x18, 0],
     [0x06, 0x0C, 0x18, 0x30, 0x60, 0xC0, 0x80, 0],
     [0x7C, 0xC6, 0xCE, 0xDE, 0xF6, 0xE6, 0x7C, 0],
     [0x18, 0x38, 0x18, 0x18, 0x18, 0x18, 0x7E, 0],
     [0x7C, 0xC6, 0x06, 0x1C, 0x30, 0x66, 0xFE, 0],
     [0x7C, 0xC6, 0x06, 0x3C, 0x06, 0xC6, 0x7C, 0],
     [0x1C, 0x3C, 0x6C, 0xCC, 0xFE, 0x0C, 0x1E, 0],
     [0xFE, 0xC0, 0xC0, 0xFC, 0x06, 0xC6, 0x7C, 0],
     [0x38, 0x60, 0xC0, 0xFC, 0xC6, 0xC6, 0x7C, 0],
     [0xFE, 0xC6, 0x0C, 0x18, 0x30, 0x30, 0x30, 0],
     [0x7C, 0xC6, 0xC6, 0x7C, 0xC6, 0xC6, 0x7C, 0],
     [0x7C, 0xC6, 0xC6, 0x7E, 0x06, 0x0C, 0x78, 0],
     [0, 0x18, 0x18, 0, 0, 0x18, 0x18, 0],
     [0, 0x18, 0x18, 0, 0, 0x18, 0x18, 0x30],
     [0x06, 0x0C, 0x18, 0x30, 0x18, 0x0C, 0x06, 0],
     [0, 0, 0x7E, 0, 0x7E, 0, 0, 0],
     [0x60, 0x30, 0x18, 0x0C, 0x18, 0x30, 0x60, 0],
     [0x7C, 0xC6, 0x0C, 0x18, 0x18, 0, 0x18, 0],
     [0x7C, 0xC6, 0xDE, 0xDE, 0xDE, 0xC0, 0x78, 0],
     [0x38, 0x6C, 0xC6, 0xC6, 0xFE, 0xC6, 0xC6, 0],
     [0xFC, 0x66, 0x66, 0x7C, 0x66, 0x66, 0xFC, 0],
     [0x3C, 0x66, 0xC0, 0xC0, 0xC0, 0x66, 0x3C, 0],
     [0xF8, 0x6C, 0x66, 0x66, 0x66, 0x6C, 0xF8, 0],
     [0xFE, 0x62, 0x68, 0x78, 0x68, 0x62, 0xFE, 0],
     [0xFE, 0x62, 0x68, 0x78, 0x68, 0x60, 0xF0, 0],
     [0x3C, 0x66, 0xC0, 0xC0, 0xCE, 0x66, 0x3A, 0],
     [0xC6, 0xC6, 0xC6, 0xFE, 0xC6, 0xC6, 0xC6, 0],
     [0x3C, 0x18, 0x18, 0x18, 0x18, 0x18, 0x3C, 0],
     [0x1E, 0x0C, 0x0C, 0x0C, 0xCC, 0xCC, 0x78, 0],
     [0xE6, 0x66, 0x6C, 0x78, 0x6C, 0x66, 0xE6, 0],
     [0xF0, 0x60, 0x60, 0x60, 0x62, 0x66, 0xFE, 0],
     [0xC6, 0xEE, 0xFE, 0xFE, 0xD6, 0xC6, 0xC6, 0],
     [0xC6, 0xE6, 0xF6, 0xDE, 0xCE, 0xC6, 0xC6, 0],
     [0x7C, 0xC6, 0xC6, 0xC6, 0xC6, 0xC6, 0x7C, 0],
     [0xFC, 0x66, 0x66, 0x7C, 0x60, 0x60, 0xF0, 0],
     [0x7C, 0xC6, 0xC6, 0xC6, 0xD6, 0xDE, 0x7C, 0x06],
     [0xFC, 0x66, 0x66, 0x7C, 0x6C, 0x66, 0xE6, 0],
     [0x7C, 0xC6, 0x60, 0x38, 0x0C, 0xC6, 0x7C, 0],
     [0x7E, 0x7E, 0x5A, 0x18, 0x18, 0x18, 0x3C, 0],
     [0xC6, 0xC6, 0xC6, 0xC6, 0xC6, 0xC6, 0x7C, 0],
     [0xC6, 0xC6, 0xC6, 0xC6, 0xC6, 0x6C, 0x38, 0],
     [0xC6, 0xC6, 0xC6, 0xD6, 0xFE, 0xEE, 0xC6, 0],
     [0xC6, 0xC6, 0x6C, 0x38, 0x6C, 0xC6, 0xC6, 0],
     [0x66, 0x66, 0x66, 0x3C, 0x18, 0x18, 0x3C, 0],
     [0xFE, 0xC6, 0x8C, 0x18, 0x32, 0x66, 0xFE, 0],
     [0x3C, 0x30, 0x30, 0x30, 0x30, 0x30, 0x3C, 0],
     [0xC0, 0x60, 0x30, 0x18, 0x0C, 0x06, 0x02, 0],
     [0x3C, 0x0C, 0x0C, 0x0C, 0x0C, 0x0C, 0x3C, 0],
     [0x10, 0x38, 0x6C, 0xC6, 0, 0, 0, 0],
     [0, 0, 0, 0, 0, 0, 0, 0xFF],
     [0x30, 0x18, 0x0C, 0, 0, 0, 0, 0],
     [0, 0, 0x78, 0x0C, 0x7C, 0xCC, 0x76, 0],
     [0xE0, 0x60, 0x7C, 0x66, 0x66, 0x66, 0xDC, 0],
     [0, 0, 0x7C, 0xC6, 0xC0, 0xC6, 0x7C, 0],
     [0x1C, 0x0C, 0x7C, 0xCC, 0xCC, 0xCC, 0x76, 0],
     [0, 0, 0x7C, 0xC6, 0xFE, 0xC0, 0x7C, 0],
     [0x3C, 0x66, 0x60, 0xF8, 0x60, 0x60, 0xF0, 0],
     [0, 0, 0x76, 0xCC, 0xCC, 0x7C, 0x0C, 0xF8],
     [0xE0, 0x60, 0x6C, 0x76, 0x66, 0x66, 0xE6, 0],
     [0x18, 0, 0x38, 0x18, 0x18, 0x18, 0x3C, 0],
     [0x06, 0, 0x0E, 0x06, 0x06, 0x66, 0x66, 0x3C],
     [0xE0, 0x60, 0x66, 0x6C, 0x78, 0x6C, 0xE6, 0],
     [0x38, 0x18, 0x18, 0x18, 0x18, 0x18, 0x3C, 0],
     [0, 0, 0xEC, 0xFE, 0xD6, 0xD6, 0xD6, 0],
     [0, 0, 0xDC, 0x66, 0x66, 0x66, 0x66, 0],
     [0, 0, 0x7C, 0xC6, 0xC6, 0xC6, 0x7C, 0],
     [0, 0, 0xDC, 0x66, 0x66, 0x7C, 0x60, 0xF0],
     [0, 0, 0x76, 0xCC, 0xCC, 0x7C, 0x0C, 0x1E],
     [0, 0, 0xDC, 0x76, 0x60, 0x60, 0xF0, 0],
     [0, 0, 0x7E, 0xC0, 0x7C, 0x06, 0xFC, 0],
     [0x30, 0x30, 0xFC, 0x30, 0x30, 0x36, 0x1C, 0],
     [0, 0, 0xCC, 0xCC, 0xCC, 0xCC, 0x76, 0],
     [0, 0, 0xC6, 0xC6, 0xC6, 0x6C, 0x38, 0],
     [0, 0, 0xC6, 0xD6, 0xD6, 0xFE, 0x6C, 0],
     [0, 0, 0xC6, 0x6C, 0x38, 0x6C, 0xC6, 0],
     [0, 0, 0xC6, 0xC6, 0xC6, 0x7E, 0x06, 0xFC],
     [0, 0, 0xFE, 0x8C, 0x18, 0x62, 0xFE, 0],
     [0x0E, 0x18, 0x18, 0x70, 0x18, 0x18, 0x0E, 0],
     [0x18, 0x18, 0x18, 0x18, 0x18, 0x18, 0x18, 0],
     [0x70, 0x18, 0x18, 0x0E, 0x18, 0x18, 0x70, 0],
     [0x76, 0xDC, 0, 0, 0, 0, 0, 0]]"

abbreviation FONT_FIRST :: u8 where "FONT_FIRST \<equiv> 0x20"
abbreviation FONT_LAST :: u8 where "FONT_LAST \<equiv> 0x7E"

section \<open>Operations\<close>

text \<open>\<open>malloc\<close> is a parameter: NULL, or a block with arbitrary contents.\<close>

definition render_init :: "(size_t \<Rightarrow> u8 list ptr) \<Rightarrow> u32 \<Rightarrow> u32 \<Rightarrow> u32 \<Rightarrow> u32 \<Rightarrow> (int \<times> dash_renderer) option" where
  "render_init malloc w h bpp stride =
    (let r = \<lparr>shadow = NULL, rn_frame_bytes = 0, rn_width = 0, rn_height = 0, rn_stride = 0, bytes_per_pixel = 0, clipped_writes = 0\<rparr>
     in if w = 0 \<or> h = 0 \<or> bpp = 0 \<or> bpp mod 8 \<noteq> 0 then Some (- 1, r)
     else let stride = (if stride = 0 then w * (bpp div 8) else stride)
     in if stride < w * (bpp div 8) then Some (- 1, r)
     else let r = r\<lparr>rn_frame_bytes := stride * h\<rparr>
     in if rn_frame_bytes r = 0 \<or> 64 * 1024 * 1024 < rn_frame_bytes r then Some (- 1, r)
     else case malloc (rn_frame_bytes r) of NULL \<Rightarrow> Some (- 1, r\<lparr>rn_frame_bytes := 0\<rparr>)
     | Ptr block \<Rightarrow> do {
         block \<leftarrow> mfold (\<lambda>i b. store b i 0) [0..<unat (rn_frame_bytes r)] block;
         Some (0, r\<lparr>shadow := Ptr block, rn_width := w, rn_height := h, rn_stride := stride, bytes_per_pixel := bpp div 8\<rparr>)
       })"

definition render_free :: "dash_renderer \<Rightarrow> dash_renderer" where
  "render_free r = r\<lparr>shadow := NULL, rn_frame_bytes := 0\<rparr>"

definition put_pixel :: "int \<Rightarrow> int \<Rightarrow> u32 \<Rightarrow> dash_renderer \<Rightarrow> dash_renderer option" where
  "put_pixel x y rgba r =
    (if x < 0 \<or> y < 0 then Some r
     else if rn_width r \<le> of_int x \<or> rn_height r \<le> of_int y then Some r
     else let offset = of_int y * rn_stride r + of_int x * bytes_per_pixel r
     in if rn_frame_bytes r < offset + bytes_per_pixel r then Some r
     else case shadow r of NULL \<Rightarrow> None | Ptr b \<Rightarrow> do {
       b \<leftarrow> store b (unat offset) (ucast (drop_bit 24 rgba AND 0xFF));
       b \<leftarrow> store b (unat offset + 1) (ucast (drop_bit 16 rgba AND 0xFF));
       b \<leftarrow> store b (unat offset + 2) (ucast (drop_bit 8 rgba AND 0xFF));
       b \<leftarrow> (if 4 \<le> bytes_per_pixel r then store b (unat offset + 3) (ucast (rgba AND 0xFF)) else Some b);
       Some (r\<lparr>shadow := Ptr b\<rparr>)
     })"

definition render_rect :: "int \<Rightarrow> int \<Rightarrow> int \<Rightarrow> int \<Rightarrow> u32 \<Rightarrow> dash_renderer \<Rightarrow> dash_renderer option" where
  "render_rect x y w h rgba r =
    (if w \<le> 0 \<or> h \<le> 0 then Some r
     else if \<not> in_int32 (x + w) \<or> \<not> in_int32 (y + h) then None
     else let r = (if x < 0 \<or> y < 0 \<or> sint (rn_width r) < x + w \<or> sint (rn_height r) < y + h
                   then r\<lparr>clipped_writes := clipped_writes r + 1\<rparr> else r)
     in mfold (\<lambda>row. mfold (\<lambda>col. put_pixel col row rgba) [x..x + w - 1]) [y..y + h - 1] r)"

definition render_clear :: "u32 \<Rightarrow> dash_renderer \<Rightarrow> dash_renderer option" where
  "render_clear rgba r = render_rect 0 0 (sint (rn_width r)) (sint (rn_height r)) rgba r"

definition glyph_of :: "char \<Rightarrow> u8 list option" where
  "glyph_of c = (let ch = (of_char c :: u8);
       ch = (if ch < FONT_FIRST \<or> FONT_LAST < ch then 63 else ch)
     in load font8x8 (unat (ch - FONT_FIRST)))"

definition int_add :: "int \<Rightarrow> int \<Rightarrow> int option" where
  "int_add a b = (if in_int32 (a + b) then Some (a + b) else None)"

definition draw_cell ::
  "int \<Rightarrow> int \<Rightarrow> u32 \<Rightarrow> u32 \<Rightarrow> u8 list \<Rightarrow> nat \<Rightarrow> nat \<Rightarrow> dash_renderer \<Rightarrow> dash_renderer option" where
  "draw_cell pen y scale rgba glyph gy gx r = do {
     bits \<leftarrow> load glyph gy;
     if (ucast bits :: u32) AND drop_bit gx 0x80 = 0 then Some r
     else do {
       px \<leftarrow> int_add pen (sint (of_nat gx * scale));
       py \<leftarrow> int_add y (sint (of_nat gy * scale));
       render_rect px py (sint scale) (sint scale) rgba r
     }
   }"

fun text_loop :: "int \<Rightarrow> u32 \<Rightarrow> u32 \<Rightarrow> string \<Rightarrow> int \<Rightarrow> dash_renderer \<Rightarrow> (int \<times> dash_renderer) option" where
  "text_loop y scale rgba [] pen r = Some (pen, r)"
| "text_loop y scale rgba (c # cs) pen r = do {
     glyph \<leftarrow> glyph_of c;
     r \<leftarrow> mfold (\<lambda>gy. mfold (\<lambda>gx. draw_cell pen y scale rgba glyph gy gx) [0..<8]) [0..<8] r;
     pen \<leftarrow> int_add pen (sint (9 * scale));
     text_loop y scale rgba cs pen r
   }"

definition render_text :: "int \<Rightarrow> int \<Rightarrow> string ptr \<Rightarrow> u32 \<Rightarrow> u32 \<Rightarrow> dash_renderer \<Rightarrow> (int \<times> dash_renderer) option" where
  "render_text x y text_ptr scale rgba r = (case text_ptr of NULL \<Rightarrow> Some (0, r)
     | Ptr s \<Rightarrow> do {
         let scale = (if scale = 0 then 1 else scale);
         (pen, r) \<leftarrow> text_loop y scale rgba s x r;
         adv \<leftarrow> int_add pen (- x);
         Some (adv, r)
       })"

definition render_row ::
  "int \<Rightarrow> int \<Rightarrow> string ptr \<Rightarrow> string ptr \<Rightarrow> u32 \<Rightarrow> u32 \<Rightarrow> u32 \<Rightarrow> dash_renderer \<Rightarrow> dash_renderer option" where
  "render_row x y lbl val scale label_rgba value_rgba r = do {
     let scale = (if scale = 0 then 1 else scale);
     (_, r) \<leftarrow> render_text x y lbl scale label_rgba r;
     vx \<leftarrow> int_add x (sint (18 * 9 * scale));
     (_, r) \<leftarrow> render_text vx y val scale value_rgba r;
     Some r
   }"

section \<open>Painting\<close>

text \<open>\<open>channels\<close> bytes of a pixel are written; \<open>wf_shadow\<close> is the geometry that \<open>render_init\<close> establishes when
  its products do not wrap and a pixel has at least three bytes.\<close>

definition channels :: "dash_renderer \<Rightarrow> nat" where
  "channels r = min 4 (unat (bytes_per_pixel r))"

definition rgba_bytes :: "u32 \<Rightarrow> u8 list" where
  "rgba_bytes c = [ucast (drop_bit 24 c AND 0xFF), ucast (drop_bit 16 c AND 0xFF), ucast (drop_bit 8 c AND 0xFF), ucast (c AND 0xFF)]"

definition on_screen :: "dash_renderer \<Rightarrow> int \<Rightarrow> int \<Rightarrow> bool" where
  "on_screen r x y \<longleftrightarrow> 0 \<le> x \<and> x < uint (rn_width r) \<and> 0 \<le> y \<and> y < uint (rn_height r)"

definition byte_at :: "dash_renderer \<Rightarrow> int \<Rightarrow> int \<Rightarrow> nat" where
  "byte_at r x y = nat y * unat (rn_stride r) + nat x * unat (bytes_per_pixel r)"

definition geometry :: "dash_renderer \<Rightarrow> size_t \<times> u32 \<times> u32 \<times> u32 \<times> u32" where
  "geometry r = (rn_frame_bytes r, rn_width r, rn_height r, rn_stride r, bytes_per_pixel r)"

definition wf_shadow :: "dash_renderer \<Rightarrow> bool" where
  "wf_shadow r \<longleftrightarrow> shadow r \<noteq> NULL \<and> length (deref (shadow r)) = unat (rn_frame_bytes r)
     \<and> unat (rn_frame_bytes r) = unat (rn_stride r) * unat (rn_height r) \<and> unat (rn_frame_bytes r) \<le> 67108864
     \<and> unat (rn_width r) * unat (bytes_per_pixel r) \<le> unat (rn_stride r) \<and> 3 \<le> unat (bytes_per_pixel r)
     \<and> 0 < unat (rn_width r) \<and> 0 < unat (rn_height r)"

text \<open>\<open>painted r P c r'\<close>: from \<open>r\<close> to \<open>r'\<close> the pixels on the screen that satisfy \<open>P\<close> got the colour \<open>c\<close>; every other byte is as
  it was.\<close>

definition painted_in :: "dash_renderer \<Rightarrow> (int \<Rightarrow> int \<Rightarrow> bool) \<Rightarrow> u32 \<Rightarrow> dash_renderer \<Rightarrow> bool" where
  "painted_in r P c r' \<longleftrightarrow> wf_shadow r' \<and> geometry r' = geometry r
     \<and> (\<forall>x y d. on_screen r x y \<longrightarrow> d < channels r \<longrightarrow> P x y \<longrightarrow> deref (shadow r') ! (byte_at r x y + d) = rgba_bytes c ! d)
     \<and> (\<forall>k. (\<forall>x y d. on_screen r x y \<longrightarrow> d < channels r \<longrightarrow> P x y \<longrightarrow> k \<noteq> byte_at r x y + d)
          \<longrightarrow> deref (shadow r') ! k = deref (shadow r) ! k)"

lemma geometry_eq:
  assumes "geometry r' = geometry r"
  shows "on_screen r' = on_screen r" "byte_at r' = byte_at r" "channels r' = channels r"
  using assms by (auto simp: geometry_def on_screen_def byte_at_def channels_def fun_eq_iff)

lemma on_screen_nat:
  "on_screen r x y \<Longrightarrow> nat x < unat (rn_width r) \<and> nat y < unat (rn_height r)"
  unfolding on_screen_def by (simp add: nat_less_unat_iff)

lemma byte_at_bound:
  assumes wf: "wf_shadow r" and on: "on_screen r x y"
  shows "byte_at r x y + unat (bytes_per_pixel r) \<le> unat (rn_frame_bytes r)"
proof -
  have x: "nat x + 1 \<le> unat (rn_width r)" and y: "nat y + 1 \<le> unat (rn_height r)"
    using on_screen_nat[OF on] by simp_all
  have "nat x * unat (bytes_per_pixel r) + unat (bytes_per_pixel r) = (nat x + 1) * unat (bytes_per_pixel r)" by simp
  also have "\<dots> \<le> unat (rn_width r) * unat (bytes_per_pixel r)" using x by (rule mult_le_mono1)
  also have "\<dots> \<le> unat (rn_stride r)" using wf by (simp add: wf_shadow_def)
  finally have row: "nat x * unat (bytes_per_pixel r) + unat (bytes_per_pixel r) \<le> unat (rn_stride r)" .
  have "nat y * unat (rn_stride r) + unat (rn_stride r) = (nat y + 1) * unat (rn_stride r)" by simp
  also have "\<dots> \<le> unat (rn_height r) * unat (rn_stride r)" using y by (rule mult_le_mono1)
  finally show ?thesis using row wf by (simp add: byte_at_def wf_shadow_def mult.commute)
qed

lemma byte_at_inject:
  assumes wf: "wf_shadow r" and on: "on_screen r x y" "on_screen r x' y'"
    and d: "d < channels r" "d' < channels r" and eq: "byte_at r x y + d = byte_at r x' y' + d'"
  shows "x = x' \<and> y = y' \<and> d = d'"
proof -
  let ?b = "unat (bytes_per_pixel r)" and ?s = "unat (rn_stride r)"
  have low: "nat i * ?b + e < ?s" if "on_screen r i j" "e < channels r" for i j e
  proof -
    have "nat i + 1 \<le> unat (rn_width r)" using on_screen_nat[OF that(1)] by simp
    then have "(nat i + 1) * ?b \<le> unat (rn_width r) * ?b" by (rule mult_le_mono1)
    then show ?thesis using wf that(2) by (simp add: wf_shadow_def channels_def)
  qed
  have "(nat y * ?s + (nat x * ?b + d)) div ?s = nat y" "(nat y' * ?s + (nat x' * ?b + d')) div ?s = nat y'"
    using low[OF on(1) d(1)] low[OF on(2) d(2)] by simp_all
  then have y: "nat y = nat y'" using eq by (simp add: byte_at_def add.assoc)
  then have "nat x * ?b + d = nat x' * ?b + d'" using eq by (simp add: byte_at_def)
  moreover have "d < ?b" "d' < ?b" using d by (simp_all add: channels_def)
  then have "(nat x * ?b + d) div ?b = nat x" "(nat x' * ?b + d') div ?b = nat x'" by simp_all
  ultimately have "nat x = nat x'" by simp
  then show ?thesis using y on eq by (auto simp: on_screen_def byte_at_def eq_nat_nat_iff)
qed

lemma painted_in_refl: "wf_shadow r \<Longrightarrow> (\<And>x y. on_screen r x y \<Longrightarrow> \<not> P x y) \<Longrightarrow> painted_in r P c r"
  by (auto simp: painted_in_def)

lemma painted_in_trans:
  assumes 1: "painted_in r P c s" and 2: "painted_in s Q c t"
  shows "painted_in r (\<lambda>x y. P x y \<or> Q x y) c t"
proof -
  have geo: "on_screen s = on_screen r" "byte_at s = byte_at r" "channels s = channels r" "geometry t = geometry r"
    using 1 2 geometry_eq[of s r] by (auto simp: painted_in_def)
  have "deref (shadow t) ! (byte_at r x y + d) = rgba_bytes c ! d"
    if on: "on_screen r x y" "d < channels r" "P x y \<or> Q x y" for x y d
  proof (cases "\<forall>x' y' d'. on_screen r x' y' \<longrightarrow> d' < channels r \<longrightarrow> Q x' y' \<longrightarrow> byte_at r x y + d \<noteq> byte_at r x' y' + d'")
    case True
    then have "P x y" using on by blast
    then have "deref (shadow s) ! (byte_at r x y + d) = rgba_bytes c ! d" using 1 on by (simp add: painted_in_def)
    moreover have "deref (shadow t) ! (byte_at r x y + d) = deref (shadow s) ! (byte_at r x y + d)"
      using 2 True unfolding painted_in_def geo by blast
    ultimately show ?thesis by simp
  next
    case False
    then obtain x' y' d' where o: "on_screen r x' y'" "d' < channels r" "Q x' y'" "byte_at r x y + d = byte_at r x' y' + d'"
      by blast
    have "wf_shadow s" using 1 by (simp add: painted_in_def)
    then have "d' = d" using byte_at_inject[of s x y x' y' d d'] o on geo by simp
    then show ?thesis using 2 o unfolding painted_in_def geo by metis
  qed
  moreover have "deref (shadow t) ! k = deref (shadow r) ! k"
    if "\<forall>x y d. on_screen r x y \<longrightarrow> d < channels r \<longrightarrow> P x y \<or> Q x y \<longrightarrow> k \<noteq> byte_at r x y + d" for k
  proof -
    have "deref (shadow t) ! k = deref (shadow s) ! k" using 2 that unfolding painted_in_def geo by blast
    also have "\<dots> = deref (shadow r) ! k" using 1 that unfolding painted_in_def by blast
    finally show ?thesis .
  qed
  ultimately show ?thesis using 2 geo(4) unfolding painted_in_def by blast
qed

lemma painted_in_cong:
  assumes "painted_in r P c s" and "\<And>x y. on_screen r x y \<Longrightarrow> P x y = Q x y"
  shows "painted_in r Q c s"
  using assms unfolding painted_in_def by metis

lemma painted_in_wf: "painted_in r P c s \<Longrightarrow> wf_shadow s \<and> geometry s = geometry r"
  by (simp add: painted_in_def)

text \<open>A loop of paintings paints the union.\<close>

lemma mfold_painted:
  assumes "wf_shadow r" and "\<And>a s. a \<in> set as \<Longrightarrow> wf_shadow s \<Longrightarrow> geometry s = geometry r \<Longrightarrow> \<exists>t. f a s = Some t \<and> painted_in s (P a) c t"
  shows "\<exists>t. mfold f as r = Some t \<and> painted_in r (\<lambda>x y. \<exists>a \<in> set as. P a x y) c t"
  using assms
proof (induction as arbitrary: r)
  case Nil
  then show ?case by (simp add: painted_in_refl)
next
  case (Cons a as)
  obtain s where s: "f a r = Some s" "painted_in r (P a) c s" using Cons.prems by fastforce
  obtain t where t: "mfold f as s = Some t" "painted_in s (\<lambda>x y. \<exists>a \<in> set as. P a x y) c t"
    using Cons.IH[of s] Cons.prems(2) painted_in_wf[OF s(2)] by auto
  show ?case using painted_in_trans[OF s(2) t(2)] s(1) t(1) by simp
qed

lemma le_of_int_iff:
  "0 \<le> x \<Longrightarrow> x < 2 ^ 32 \<Longrightarrow> w \<le> (of_int x :: u32) \<longleftrightarrow> uint w \<le> x"
  by (simp add: word_le_def uint_word_of_int take_bit_int_eq_self)

lemma put_pixel_offset:
  assumes wf: "wf_shadow r" and on: "on_screen r x y"
  shows "unat (of_int y * rn_stride r + of_int x * bytes_per_pixel r) = byte_at r x y"
    and "\<not> rn_frame_bytes r < of_int y * rn_stride r + of_int x * bytes_per_pixel r + bytes_per_pixel r"
proof -
  have "uint (rn_width r) < 2 ^ 32" "uint (rn_height r) < 2 ^ 32"
    using uint_bounded[of "rn_width r"] uint_bounded[of "rn_height r"] by simp_all
  then have "0 \<le> x" "x < 2 ^ 32" "0 \<le> y" "y < 2 ^ 32" using on unfolding on_screen_def by linarith+
  then have n: "unat (of_int x :: u32) = nat x" "unat (of_int y :: u32) = nat y"
    by (auto intro!: unat_of_int_nonneg)
  have bound: "byte_at r x y + unat (bytes_per_pixel r) \<le> unat (rn_frame_bytes r)" "unat (rn_frame_bytes r) \<le> 67108864"
    using byte_at_bound[OF assms] wf by (simp_all add: wf_shadow_def)
  have a: "unat (of_int y * rn_stride r) = nat y * unat (rn_stride r)"
    using bound by (subst unat_mult_no_wrap) (simp_all add: n byte_at_def)
  have b: "unat (of_int x * bytes_per_pixel r) = nat x * unat (bytes_per_pixel r)"
    using bound by (subst unat_mult_no_wrap) (simp_all add: n byte_at_def)
  show off: "unat (of_int y * rn_stride r + of_int x * bytes_per_pixel r) = byte_at r x y"
    using bound by (subst unat_add_no_wrap) (simp_all add: a b byte_at_def)
  have "unat (of_int y * rn_stride r + of_int x * bytes_per_pixel r + bytes_per_pixel r) = byte_at r x y + unat (bytes_per_pixel r)"
    using bound by (subst unat_add_no_wrap) (simp_all add: off)
  then show "\<not> rn_frame_bytes r < of_int y * rn_stride r + of_int x * bytes_per_pixel r + bytes_per_pixel r"
    using bound by (simp add: word_less_nat_alt)
qed

lemma stores_nth:
  assumes "n = 3 \<or> n = 4" "off + n \<le> length b"
  shows "\<exists>b'. (do {
       b \<leftarrow> store b off (rgba_bytes c ! 0);
       b \<leftarrow> store b (off + 1) (rgba_bytes c ! 1);
       b \<leftarrow> store b (off + 2) (rgba_bytes c ! 2);
       (if n = 4 then store b (off + 3) (rgba_bytes c ! 3) else Some b)
     }) = Some b' \<and> length b' = length b
     \<and> (\<forall>d < n. b' ! (off + d) = rgba_bytes c ! d) \<and> (\<forall>k. k < off \<or> off + n \<le> k \<longrightarrow> b' ! k = b ! k)"
  using assms by (auto simp: nth_list_update less_Suc_eq numeral_3_eq_3 numeral_eq_Suc)

lemma put_pixel_painted:
  assumes wf: "wf_shadow r" and int: "in_int32 x" "in_int32 y"
  shows "\<exists>s. put_pixel x y c r = Some s \<and> painted_in r (\<lambda>i j. i = x \<and> j = y) c s"
proof (cases "on_screen r x y")
  case False
  have "put_pixel x y c r = Some r"
  proof (cases "x < 0 \<or> y < 0")
    case pos: False
    then have "rn_width r \<le> of_int x \<or> rn_height r \<le> of_int y"
      using False int by (auto simp: on_screen_def in_int32_def le_of_int_iff)
    then show ?thesis by (simp add: put_pixel_def)
  qed (simp add: put_pixel_def)
  moreover have "painted_in r (\<lambda>i j. i = x \<and> j = y) c r" using wf False by (intro painted_in_refl) auto
  ultimately show ?thesis by blast
next
  case True
  obtain b where b: "shadow r = Ptr b" using wf by (cases "shadow r") (auto simp: wf_shadow_def)
  have chan: "channels r = 3 \<or> channels r = 4" "channels r = 4 \<longleftrightarrow> 4 \<le> bytes_per_pixel r"
    using wf by (auto simp: wf_shadow_def channels_def word_le_nat_alt)
  have fits: "byte_at r x y + channels r \<le> length b"
    using byte_at_bound[OF wf True] wf b by (simp add: wf_shadow_def channels_def)
  note st = stores_nth[OF chan(1) fits, of c]
  have in_range: "\<not> rn_width r \<le> of_int x" "\<not> rn_height r \<le> of_int y" "\<not> (x < 0 \<or> y < 0)"
    using True int by (auto simp: on_screen_def in_int32_def le_of_int_iff)
  obtain b' where b': "put_pixel x y c r = Some (r\<lparr>shadow := Ptr b'\<rparr>)" "length b' = length b"
      "\<forall>d < channels r. b' ! (byte_at r x y + d) = rgba_bytes c ! d"
      "\<forall>k. k < byte_at r x y \<or> byte_at r x y + channels r \<le> k \<longrightarrow> b' ! k = b ! k"
    using st in_range put_pixel_offset[OF wf True] b chan(2) fits
    by (auto simp: put_pixel_def Let_def rgba_bytes_def split: if_splits Option.bind_splits)
  have "painted_in r (\<lambda>i j. i = x \<and> j = y) c (r\<lparr>shadow := Ptr b'\<rparr>)"
    unfolding painted_in_def
  proof (intro conjI allI impI)
    show "wf_shadow (r\<lparr>shadow := Ptr b'\<rparr>)" using wf b b'(2) by (simp add: wf_shadow_def)
    show "geometry (r\<lparr>shadow := Ptr b'\<rparr>) = geometry r" by (simp add: geometry_def)
  next
    fix i j d assume "d < channels r" "i = x \<and> j = y"
    then show "deref (shadow (r\<lparr>shadow := Ptr b'\<rparr>)) ! (byte_at r i j + d) = rgba_bytes c ! d" using b'(3) by simp
  next
    fix k assume k: "\<forall>i j d. on_screen r i j \<longrightarrow> d < channels r \<longrightarrow> i = x \<and> j = y \<longrightarrow> k \<noteq> byte_at r i j + d"
    have "k < byte_at r x y \<or> byte_at r x y + channels r \<le> k"
    proof (rule ccontr)
      assume "\<not> ?thesis"
      then have "k = byte_at r x y + (k - byte_at r x y)" "k - byte_at r x y < channels r" by auto
      then show False using k True by blast
    qed
    then show "deref (shadow (r\<lparr>shadow := Ptr b'\<rparr>)) ! k = deref (shadow r) ! k" using b'(4) b by auto
  qed
  then show ?thesis using b'(1) by blast
qed

lemma count_clip_painted:
  "painted_in (r\<lparr>clipped_writes := n\<rparr>) P c s \<longleftrightarrow> painted_in r P c s"
  "wf_shadow (r\<lparr>clipped_writes := n\<rparr>) \<longleftrightarrow> wf_shadow r"
  "geometry (r\<lparr>clipped_writes := n\<rparr>) = geometry r"
  by (simp_all add: painted_in_def wf_shadow_def geometry_def on_screen_def byte_at_def channels_def)

definition in_rect :: "int \<Rightarrow> int \<Rightarrow> int \<Rightarrow> int \<Rightarrow> int \<Rightarrow> int \<Rightarrow> bool" where
  "in_rect x y w h i j \<longleftrightarrow> x \<le> i \<and> i < x + w \<and> y \<le> j \<and> j < y + h"

lemma rect_loop_painted:
  assumes "wf_shadow r" "in_int32 x" "in_int32 y" "in_int32 (x + w)" "in_int32 (y + h)" "0 < w" "0 < h"
  shows "\<exists>s. mfold (\<lambda>row. mfold (\<lambda>col. put_pixel col row c) [x..x + w - 1]) [y..y + h - 1] r = Some s
    \<and> painted_in r (in_rect x y w h) c s"
proof -
  have row: "\<exists>t. mfold (\<lambda>col. put_pixel col row c) [x..x + w - 1] s = Some t
      \<and> painted_in s (\<lambda>i j. \<exists>col \<in> set [x..x + w - 1]. i = col \<and> j = row) c t"
    if "row \<in> set [y..y + h - 1]" "wf_shadow s" for row s
    using that(2) by (rule mfold_painted) (use that assms in \<open>auto simp: in_int32_def intro!: put_pixel_painted\<close>)
  obtain s where s: "mfold (\<lambda>row. mfold (\<lambda>col. put_pixel col row c) [x..x + w - 1]) [y..y + h - 1] r = Some s"
      "painted_in r (\<lambda>i j. \<exists>row \<in> set [y..y + h - 1]. \<exists>col \<in> set [x..x + w - 1]. i = col \<and> j = row) c s"
    using mfold_painted[OF assms(1), of "[y..y + h - 1]" "\<lambda>row. mfold (\<lambda>col. put_pixel col row c) [x..x + w - 1]"
        "\<lambda>row i j. \<exists>col \<in> set [x..x + w - 1]. i = col \<and> j = row" c] row by blast
  moreover have "painted_in r (in_rect x y w h) c s"
    using s(2) by (rule painted_in_cong) (auto simp: in_rect_def)
  ultimately show ?thesis by blast
qed

lemma render_rect_painted:
  assumes "wf_shadow r" "in_int32 x" "in_int32 y" "in_int32 (x + w)" "in_int32 (y + h)"
  shows "\<exists>s. render_rect x y w h c r = Some s \<and> painted_in r (in_rect x y w h) c s"
proof (cases "w \<le> 0 \<or> h \<le> 0")
  case True
  then have "painted_in r (in_rect x y w h) c r" using assms(1) by (intro painted_in_refl) (auto simp: in_rect_def)
  then show ?thesis using True by (auto simp: render_rect_def)
next
  case False
  let ?r = "if x < 0 \<or> y < 0 \<or> sint (rn_width r) < x + w \<or> sint (rn_height r) < y + h
              then r\<lparr>clipped_writes := clipped_writes r + 1\<rparr> else r"
  have "\<exists>s. mfold (\<lambda>row. mfold (\<lambda>col. put_pixel col row c) [x..x + w - 1]) [y..y + h - 1] ?r = Some s
      \<and> painted_in ?r (in_rect x y w h) c s"
    using False assms by (intro rect_loop_painted) (simp_all add: count_clip_painted)
  moreover have "painted_in ?r (in_rect x y w h) c s = painted_in r (in_rect x y w h) c s" for s
    by (simp add: count_clip_painted)
  ultimately show ?thesis using False assms by (simp add: render_rect_def Let_def)
qed

section \<open>Text\<close>

definition glyph_bit :: "u8 list \<Rightarrow> nat \<Rightarrow> nat \<Rightarrow> bool" where
  "glyph_bit g gy gx \<longleftrightarrow> (ucast (g ! gy) :: u32) AND drop_bit gx 0x80 \<noteq> 0"

text \<open>The reference: whether the point \<open>(dx, dy)\<close>, relative to the pen, is ink of a glyph or of a string at scale \<open>s\<close>.\<close>

definition glyph_ink :: "u8 list \<Rightarrow> int \<Rightarrow> int \<Rightarrow> int \<Rightarrow> bool" where
  "glyph_ink g s dx dy \<longleftrightarrow> 0 \<le> dx \<and> dx < 8 * s \<and> 0 \<le> dy \<and> dy < 8 * s \<and> glyph_bit g (nat (dy div s)) (nat (dx div s))"

fun text_ink :: "string \<Rightarrow> int \<Rightarrow> int \<Rightarrow> int \<Rightarrow> bool" where
  "text_ink [] s dx dy = False"
| "text_ink (c # cs) s dx dy = (glyph_ink (the (glyph_of c)) s dx dy \<or> text_ink cs s (dx - 9 * s) dy)"

lemma font_rows: "length font8x8 = 95" "list_all (\<lambda>g. length g = 8) font8x8"
  by (simp_all add: font8x8_def)

lemma glyph_of_total: "\<exists>g. glyph_of c = Some g \<and> length g = 8"
proof -
  let ?ch = "if (of_char c :: u8) < FONT_FIRST \<or> FONT_LAST < (of_char c :: u8) then 63 else (of_char c :: u8)"
  have "FONT_FIRST \<le> ?ch" "?ch \<le> FONT_LAST" by (auto simp: not_less)
  then have "unat (?ch - FONT_FIRST) < 95" by (simp add: word_le_nat_alt unat_sub_no_wrap)
  then have "unat (?ch - FONT_FIRST) < length font8x8" unfolding font_rows(1) .
  moreover from this have "length (font8x8 ! unat (?ch - FONT_FIRST)) = 8"
    using font_rows(2) by (simp only: list_all_length)
  ultimately show ?thesis by (simp only: glyph_of_def Let_def load_Some) blast
qed

lemma scaled:
  assumes "0 < uint scale" "9 * uint scale \<le> INT32_MAX" "n \<le> 9"
  shows "sint (of_nat n * scale :: u32) = int n * uint scale" "sint scale = uint scale" "sint (9 * scale) = 9 * uint scale"
proof -
  have s: "sint v = uint v" if "uint v \<le> INT32_MAX" for v :: u32
  proof -
    have "(0 :: int) \<le> uint v" "(- 2147483648 :: int) \<le> 0" by simp_all
    then have "- 2147483648 \<le> uint v" by (rule order_trans[rotated])
    then have "- (2 ^ 31) \<le> uint v" "uint v < 2 ^ 31" using that by simp_all
    then have "signed_take_bit 31 (uint v) = uint v" by (rule signed_take_bit_int_eq_self)
    then show ?thesis by (simp add: sint_uint)
  qed
  have n: "uint (of_nat n :: u32) = int n" using assms(3) by (simp add: uint_nat unat_of_nat)
  have "int n * uint scale \<le> 9 * uint scale" using assms by (intro mult_right_mono) simp_all
  then have "int n * uint scale < 4294967296" using assms(2) by linarith
  moreover have "0 \<le> int n * uint scale" by simp
  ultimately have "uint (of_nat n * scale) = int n * uint scale"
    by (simp add: uint_word_ariths n)
  moreover from this have "uint (of_nat n * scale) \<le> INT32_MAX"
    using \<open>int n * uint scale \<le> _\<close> assms(2) by linarith
  ultimately show "sint (of_nat n * scale :: u32) = int n * uint scale" using s by metis
  show "sint scale = uint scale" using s assms by simp
  have "uint (9 * scale) = 9 * uint scale" using assms by (simp add: uint_word_ariths)
  then show "sint (9 * scale) = 9 * uint scale" using s assms by simp
qed

lemma cell_iff:
  fixes s e :: int
  assumes "0 < s"
  shows "(\<exists>g \<in> {0..<8::nat}. int g * s \<le> e \<and> e < int g * s + s \<and> Q g) \<longleftrightarrow> 0 \<le> e \<and> e < 8 * s \<and> Q (nat (e div s))"
proof
  assume "\<exists>g \<in> {0..<8::nat}. int g * s \<le> e \<and> e < int g * s + s \<and> Q g"
  then obtain g where g: "g < 8" "int g * s \<le> e" "e < int g * s + s" "Q g" by auto
  have "int g * s + s = (int g + 1) * s" by (simp add: algebra_simps)
  also have "\<dots> \<le> 8 * s" using g(1) assms by (intro mult_right_mono) simp_all
  finally have "e < 8 * s" using g by linarith
  moreover have "0 \<le> e" using g(2) assms by (meson mult_nonneg_nonneg of_nat_0_le_iff order.strict_implies_order order_trans)
  moreover have "e div s = int g" using g(2,3) by (intro int_div_pos_eq[of _ _ _ "e - int g * s"]) (simp_all add: mult.commute)
  ultimately show "0 \<le> e \<and> e < 8 * s \<and> Q (nat (e div s))" using g(4) by simp
next
  assume r: "0 \<le> e \<and> e < 8 * s \<and> Q (nat (e div s))"
  have "e div s * s + e mod s = e" "0 \<le> e mod s" "e mod s < s" using assms by simp_all
  then have in_cell: "e div s * s \<le> e" "e < e div s * s + s" by linarith+
  have "0 \<le> e div s" using assms r by (simp add: pos_imp_zdiv_nonneg_iff)
  moreover have "e div s < 8"
  proof (rule ccontr)
    assume "\<not> e div s < 8"
    then have "8 * s \<le> e div s * s" using assms by (intro mult_right_mono) simp_all
    then show False using r in_cell by linarith
  qed
  ultimately show "\<exists>g \<in> {0..<8::nat}. int g * s \<le> e \<and> e < int g * s + s \<and> Q g"
    using r in_cell by (intro bexI[of _ "nat (e div s)"]) simp_all
qed

lemma draw_cell_painted:
  assumes wf: "wf_shadow r" and scale: "0 < uint scale" "9 * uint scale \<le> INT32_MAX"
    and g: "length g = 8" "gy < 8" "gx < 8"
    and pen: "in_int32 pen" "in_int32 (pen + 8 * uint scale)" and y: "in_int32 y" "in_int32 (y + 8 * uint scale)"
  shows "\<exists>s. draw_cell pen y scale c g gy gx r = Some s
    \<and> painted_in r (\<lambda>i j. glyph_bit g gy gx
        \<and> in_rect (pen + int gx * uint scale) (y + int gy * uint scale) (uint scale) (uint scale) i j) c s"
proof (cases "glyph_bit g gy gx")
  case False
  then have "draw_cell pen y scale c g gy gx r = Some r" using g by (simp add: draw_cell_def glyph_bit_def)
  then show ?thesis using False wf by (auto intro: painted_in_refl)
next
  case True
  have cell: "int k * uint scale + uint scale \<le> 8 * uint scale" "0 \<le> int k * uint scale" if "k < 8" for k
  proof -
    have "(int k + 1) * uint scale \<le> 8 * uint scale" using that scale by (intro mult_right_mono) simp_all
    then show "int k * uint scale + uint scale \<le> 8 * uint scale" by (simp add: algebra_simps)
    show "0 \<le> int k * uint scale" by simp
  qed
  note sc = scaled(1)[OF scale, of gx] scaled(1)[OF scale, of gy] scaled(2)[OF scale, of 0]
  have px: "in_int32 (pen + int gx * uint scale)" "in_int32 (pen + int gx * uint scale + uint scale)"
    using pen cell[OF g(3)] scale unfolding in_int32_def by linarith+
  have py: "in_int32 (y + int gy * uint scale)" "in_int32 (y + int gy * uint scale + uint scale)"
    using y cell[OF g(2)] scale unfolding in_int32_def by linarith+
  have "draw_cell pen y scale c g gy gx r =
      render_rect (pen + int gx * uint scale) (y + int gy * uint scale) (uint scale) (uint scale) c r"
    using True g px py sc by (simp add: draw_cell_def glyph_bit_def int_add_def)
  then show ?thesis using render_rect_painted[OF wf px(1) py(1) px(2) py(2), of c] True by simp
qed

lemma glyph_painted:
  assumes wf: "wf_shadow r" and scale: "0 < uint scale" "9 * uint scale \<le> INT32_MAX" and g: "length g = 8"
    and pen: "in_int32 pen" "in_int32 (pen + 8 * uint scale)" and y: "in_int32 y" "in_int32 (y + 8 * uint scale)"
  shows "\<exists>s. mfold (\<lambda>gy. mfold (\<lambda>gx. draw_cell pen y scale c g gy gx) [0..<8]) [0..<8] r = Some s
    \<and> painted_in r (\<lambda>i j. glyph_ink g (uint scale) (i - pen) (j - y)) c s"
proof -
  let ?s = "uint scale"
  let ?P = "\<lambda>gy gx i j. glyph_bit g gy gx \<and> in_rect (pen + int gx * ?s) (y + int gy * ?s) ?s ?s i j"
  have row: "\<exists>t. mfold (\<lambda>gx. draw_cell pen y scale c g gy gx) [0..<8] s = Some t
      \<and> painted_in s (\<lambda>i j. \<exists>gx \<in> set [0..<8]. ?P gy gx i j) c t" if "gy \<in> set [0..<8]" "wf_shadow s" for gy s
    using that(2) by (rule mfold_painted) (use that(1) in \<open>simp add: draw_cell_painted[OF _ scale g _ _ pen y]\<close>)
  obtain s where s: "mfold (\<lambda>gy. mfold (\<lambda>gx. draw_cell pen y scale c g gy gx) [0..<8]) [0..<8] r = Some s"
      "painted_in r (\<lambda>i j. \<exists>gy \<in> set [0..<8]. \<exists>gx \<in> set [0..<8]. ?P gy gx i j) c s"
    using mfold_painted[OF wf, of "[0..<8]" "\<lambda>gy. mfold (\<lambda>gx. draw_cell pen y scale c g gy gx) [0..<8]"
        "\<lambda>gy i j. \<exists>gx \<in> set [0..<8]. ?P gy gx i j" c] row by blast
  have "(\<exists>gy \<in> set [0..<8]. \<exists>gx \<in> set [0..<8]. ?P gy gx i j) = glyph_ink g ?s (i - pen) (j - y)" for i j
  proof -
    have "(\<exists>gy \<in> set [0..<8]. \<exists>gx \<in> set [0..<8]. ?P gy gx i j) \<longleftrightarrow>
        (\<exists>gy \<in> {0..<8}. int gy * ?s \<le> j - y \<and> j - y < int gy * ?s + ?s \<and>
          (\<exists>gx \<in> {0..<8}. int gx * ?s \<le> i - pen \<and> i - pen < int gx * ?s + ?s \<and> glyph_bit g gy gx))"
      unfolding in_rect_def set_upt by (intro bex_cong refl) (auto simp: algebra_simps)
    also have "\<dots> \<longleftrightarrow> glyph_ink g ?s (i - pen) (j - y)"
      unfolding cell_iff[OF scale(1)] glyph_ink_def by blast
    finally show ?thesis .
  qed
  then show ?thesis using s by auto
qed

lemma text_loop_painted:
  assumes "wf_shadow r" and scale: "0 < uint scale" "9 * uint scale \<le> INT32_MAX"
    and "in_int32 pen" "in_int32 (pen + 9 * uint scale * int (length str))" "in_int32 y" "in_int32 (y + 8 * uint scale)"
  shows "\<exists>s. text_loop y scale c str pen r = Some (pen + 9 * uint scale * int (length str), s)
    \<and> painted_in r (\<lambda>i j. text_ink str (uint scale) (i - pen) (j - y)) c s"
  using assms(1,4-)
proof (induction str arbitrary: pen r)
  case Nil
  then show ?case by (simp add: painted_in_refl)
next
  case (Cons ch str)
  obtain g where g: "glyph_of ch = Some g" "length g = 8" using glyph_of_total by blast
  have len: "9 * uint scale * int (length (ch # str)) = 9 * uint scale + 9 * uint scale * int (length str)"
    "0 \<le> 9 * uint scale * int (length str)" by (simp_all add: algebra_simps)
  have pen: "in_int32 (pen + 8 * uint scale)" "in_int32 (pen + 9 * uint scale)"
    using Cons.prems(2,3) scale len unfolding in_int32_def by linarith+
  obtain s where s: "mfold (\<lambda>gy. mfold (\<lambda>gx. draw_cell pen y scale c g gy gx) [0..<8]) [0..<8] r = Some s"
      "painted_in r (\<lambda>i j. glyph_ink g (uint scale) (i - pen) (j - y)) c s"
    using glyph_painted[OF Cons.prems(1) scale g(2) Cons.prems(2) pen(1) Cons.prems(4,5)] by blast
  obtain t where t: "text_loop y scale c str (pen + 9 * uint scale) s
        = Some (pen + 9 * uint scale + 9 * uint scale * int (length str), t)"
      "painted_in s (\<lambda>i j. text_ink str (uint scale) (i - (pen + 9 * uint scale)) (j - y)) c t"
    using Cons.IH[OF conjunct1[OF painted_in_wf[OF s(2)]] pen(2)] Cons.prems(3-5) len by (auto simp: add.assoc)
  have "text_loop y scale c (ch # str) pen r = Some (pen + 9 * uint scale * int (length (ch # str)), t)"
    using g(1) s(1) t(1) pen(2) scaled(3)[OF scale, of 0] len(1) by (simp add: int_add_def add.assoc)
  moreover have "painted_in r (\<lambda>i j. text_ink (ch # str) (uint scale) (i - pen) (j - y)) c t"
    using painted_in_trans[OF s(2) t(2)] g(1) by (simp add: algebra_simps)
  ultimately show ?case by blast
qed

lemma render_text_painted:
  assumes "wf_shadow r" "0 < uint scale" "9 * uint scale \<le> INT32_MAX" "in_int32 x"
    "in_int32 (x + 9 * uint scale * int (length str))" "in_int32 (9 * uint scale * int (length str))"
    "in_int32 y" "in_int32 (y + 8 * uint scale)"
  shows "\<exists>s. render_text x y (Ptr str) scale c r = Some (9 * uint scale * int (length str), s)
    \<and> painted_in r (\<lambda>i j. text_ink str (uint scale) (i - x) (j - y)) c s"
proof -
  have "scale \<noteq> 0" using assms(2) by auto
  then show ?thesis
    using text_loop_painted[OF assms(1,2,3,4,5,7,8), of c] assms(6) by (auto simp: render_text_def int_add_def Let_def)
qed

section \<open>Start-up\<close>

lemma clear_loop:
  "n \<le> length b \<Longrightarrow> mfold (\<lambda>i b. store b i 0) [0..<n] b = Some (replicate n 0 @ drop n b)"
proof (induction n)
  case (Suc n)
  then have "(replicate n 0 @ drop n b)[n := 0] = replicate (Suc n) 0 @ drop (Suc n) b"
    by (simp add: list_update_append replicate_append_same Cons_nth_drop_Suc[symmetric] del: replicate_Suc)
      (simp add: replicate_append_same[symmetric])
  then show ?case using Suc by (simp add: mfold_append)
qed simp

lemma render_init_wf:
  assumes init: "render_init malloc w h bpp stride = Some (0, r)"
    and malloc: "\<And>n b. malloc n = Ptr b \<Longrightarrow> length b = unat n"
    and geo: "3 \<le> unat (bpp div 8)" "unat w * unat (bpp div 8) < 2 ^ 32" "unat stride * unat h < 2 ^ 32" "stride \<noteq> 0"
  shows "wf_shadow r \<and> geometry r = (stride * h, w, h, stride, bpp div 8) \<and> deref (shadow r) = replicate (unat (stride * h)) 0"
proof -
  have nz: "w \<noteq> 0" "h \<noteq> 0" and row: "w * (bpp div 8) \<le> stride" and frame: "stride * h \<le> 64 * 1024 * 1024"
    using init geo(4) by (auto simp: render_init_def Let_def not_less split: if_splits)
  obtain b where b: "malloc (stride * h) = Ptr b"
    using init geo(4) by (auto simp: render_init_def Let_def split: if_splits ptr.splits)
  have len: "length b = unat (stride * h)" using malloc b by blast
  have "r = \<lparr>shadow = Ptr (replicate (unat (stride * h)) 0), rn_frame_bytes = stride * h, rn_width = w, rn_height = h,
      rn_stride = stride, bytes_per_pixel = bpp div 8, clipped_writes = 0\<rparr>"
    using init geo(4) b len clear_loop[of "unat (stride * h)" b]
    by (auto simp: render_init_def Let_def split: if_splits)
  moreover have "unat w * unat (bpp div 8) \<le> unat stride" "unat (stride * h) = unat stride * unat h" "unat (stride * h) \<le> 67108864"
    using row geo(2,3) frame by (simp_all add: word_le_nat_alt unat_mult_no_wrap)
  ultimately show ?thesis using geo(1) nz by (simp add: wf_shadow_def geometry_def unat_gt_0)
qed

section \<open>Correctness\<close>

text \<open>C15. Functional.  On a well-formed shadow buffer, drawing a string at an integer scale is memory safe, returns its
  advance, gives exactly the on-screen pixels where the reference font has ink the colour, and changes no other
  byte, wherever the string lies relative to the screen.\<close>

theorem text_draws_its_ink:
  assumes "wf_shadow r" "0 < uint scale" "9 * uint scale \<le> INT32_MAX" "in_int32 x"
    "in_int32 (x + 9 * uint scale * int (length str))" "in_int32 (9 * uint scale * int (length str))"
    "in_int32 y" "in_int32 (y + 8 * uint scale)"
  shows "\<exists>s. render_text x y (Ptr str) scale c r = Some (9 * uint scale * int (length str), s)
    \<and> painted_in r (\<lambda>i j. text_ink str (uint scale) (i - x) (j - y)) c s"
  using render_text_painted[OF assms] .

definition tiny_renderer :: dash_renderer where
  "tiny_renderer = \<lparr>shadow = Ptr (replicate 24 0), rn_frame_bytes = 24, rn_width = 2, rn_height = 2, rn_stride = 12,
     bytes_per_pixel = 4, clipped_writes = 0\<rparr>"

theorem text_draws_its_ink_witness:
  "\<exists>s. render_text (- 3) 0 (Ptr ''Hi'') 1 0xE05080FF tiny_renderer = Some (18, s)
    \<and> painted_in tiny_renderer (\<lambda>i j. text_ink ''Hi'' 1 (i + 3) j) 0xE05080FF s"
  using text_draws_its_ink[where r = tiny_renderer and scale = 1 and x = "- 3" and str = "''Hi''" and y = 0 and c = "0xE05080FF"]
  by (simp add: tiny_renderer_def wf_shadow_def in_int32_def)

text \<open>With 8 bits per pixel, which the probe and \<open>render_init\<close> accept, a pixel overruns its buffer.\<close>

lemma narrow_pixel_overruns:
  assumes "malloc 1 = Ptr [v]"
  shows "\<exists>r. render_init malloc 1 1 8 1 = Some (0, r) \<and> put_pixel 0 0 c r = None"
  using assms by (simp add: render_init_def put_pixel_def store_def)

end
