(* ===== verification/Fb_Owner.thy ===== *)
theory Fb_Owner
  imports C_Library
begin

text \<open>
  The framebuffer ownership state machine of the dashboard,
  \<open>toolkit/examples/vita-dashboard/src/fb_owner.c\<close> and \<open>fb_owner.h\<close>.  The owner reads the geometry, takes the
  framebuffer away from the kernel's text console, writes whole frames and gives the console back.  The
  system calls are operations on an abstract world; the locale \<open>fb_platform\<close> states what they do to the
  console and to the screen.  An abstract lease of the console specifies the component: the owner refines
  it, and a successful release puts the console back as the first call found it.
\<close>

section \<open>The operating system\<close>

datatype file_kind = S_IFREG | S_IFCHR | S_OTHER

datatype write_result = Wrote nat | Write_error (write_errno: int)

abbreviation EINTR_errno :: int where "EINTR_errno \<equiv> 4"
abbreviation O_RDONLY_flag :: u32 where "O_RDONLY_flag \<equiv> 0"
abbreviation O_WRONLY_flag :: u32 where "O_WRONLY_flag \<equiv> 1"

record 'w fb_os =
  fo_fopen :: "string \<Rightarrow> string \<Rightarrow> 'w \<Rightarrow> nat ptr \<times> 'w"         \<comment> \<open>path and mode\<close>
  fo_contents :: "nat \<Rightarrow> 'w \<Rightarrow> string \<times> 'w"                 \<comment> \<open>what \<open>fscanf\<close> finds in the stream\<close>
  fo_fprintf :: "nat \<Rightarrow> string \<Rightarrow> 'w \<Rightarrow> int \<times> 'w"
  fo_fclose :: "nat \<Rightarrow> 'w \<Rightarrow> int \<times> 'w"
  fo_open :: "string \<Rightarrow> u32 \<Rightarrow> 'w \<Rightarrow> int \<times> 'w"
  fo_fstat :: "int \<Rightarrow> 'w \<Rightarrow> (file_kind \<times> int) option \<times> 'w"   \<comment> \<open>kind and \<open>st_size\<close>\<close>
  fo_smem_len :: "int \<Rightarrow> 'w \<Rightarrow> u32 option \<times> 'w"             \<comment> \<open>\<open>FBIOGET_FSCREENINFO\<close>\<close>
  fo_lseek :: "int \<Rightarrow> int \<Rightarrow> 'w \<Rightarrow> int \<times> 'w"                \<comment> \<open>\<open>SEEK_SET\<close>\<close>
  fo_write :: "int \<Rightarrow> u8 list \<Rightarrow> 'w \<Rightarrow> write_result \<times> 'w"
  fo_close :: "int \<Rightarrow> 'w \<Rightarrow> int \<times> 'w"

section \<open>State\<close>

datatype fb_owner_state =
  FB_OWNER_IDLE | FB_OWNER_PROBED | FB_OWNER_OWNED | FB_OWNER_RELEASED | FB_OWNER_FAILED

record fb_owner =
  fb_path :: string
  vtcon_bind_path :: string
  sysfs_size_path :: string
  sysfs_bpp_path :: string
  sysfs_stride_path :: string
  ow_width :: u32
  ow_height :: u32
  ow_bpp :: u32
  ow_stride :: u32
  ow_frame_bytes :: size_t
  fbcon_was_bound :: int
  fbcon_unbound_by_us :: bool
  fbcon_restored :: bool
  frames_written :: int
  ow_state :: fb_owner_state
  ow_error :: string

abbreviation FB_OWNER_ERR_LEN :: nat where "FB_OWNER_ERR_LEN \<equiv> 160"
abbreviation FB_MAX_FRAME_BYTES :: size_t where "FB_MAX_FRAME_BYTES \<equiv> 64 * 1024 * 1024"

section \<open>Operations\<close>

text \<open>A character array is the string before its terminator; \<open>cap\<close> is the size of the array.\<close>

definition sset :: "string \<Rightarrow> nat \<Rightarrow> string ptr \<Rightarrow> string" where
  "sset dst cap src = (if cap = 0 then dst else case src of NULL \<Rightarrow> '''' | Ptr s \<Rightarrow> fit cap s)"

definition sappend :: "string \<Rightarrow> nat \<Rightarrow> string ptr \<Rightarrow> string" where
  "sappend dst cap src = (case src of NULL \<Rightarrow> dst | Ptr s \<Rightarrow> dst @ take (cap - 1 - length dst) s)"

definition set_error :: "string \<Rightarrow> fb_owner \<Rightarrow> fb_owner" where
  "set_error message owner = owner\<lparr>ow_error := sset (ow_error owner) FB_OWNER_ERR_LEN (Ptr message),
     ow_state := FB_OWNER_FAILED\<rparr>"

definition refuse :: "string \<Rightarrow> fb_owner \<Rightarrow> fb_owner" where
  "refuse message owner = owner\<lparr>ow_error := sset (ow_error owner) FB_OWNER_ERR_LEN (Ptr message)\<rparr>"

definition join :: "nat \<Rightarrow> string ptr \<Rightarrow> string \<Rightarrow> string" where
  "join cap root tail = sappend (sset '''' cap (case root of NULL \<Rightarrow> Ptr '''' | Ptr r \<Rightarrow> Ptr r)) cap (Ptr tail)"

definition read_uint_file :: "'w fb_os \<Rightarrow> string \<Rightarrow> 'w \<Rightarrow> u32 option \<times> 'w" where
  "read_uint_file os path w = (case fo_fopen os path ''r'' w of
     (NULL, w) \<Rightarrow> (None, w)
   | (Ptr fp, w) \<Rightarrow> (case fo_contents os fp w of (s, w) \<Rightarrow> case fo_fclose os fp w of (_, w) \<Rightarrow>
       (map_option fst (scan_unsigned s), w)))"

definition read_size_file :: "'w fb_os \<Rightarrow> string \<Rightarrow> 'w \<Rightarrow> (u32 \<times> u32) option \<times> 'w" where
  "read_size_file os path w = (case fo_fopen os path ''r'' w of
     (NULL, w) \<Rightarrow> (None, w)
   | (Ptr fp, w) \<Rightarrow> (case fo_contents os fp w of (s, w) \<Rightarrow> case fo_fclose os fp w of (_, w) \<Rightarrow>
       (scan_pair s, w)))"

definition fb_owner_init :: "string ptr \<Rightarrow> fb_owner" where
  "fb_owner_init root = \<lparr>fb_path = join 256 root ''/dev/fb0'',
     vtcon_bind_path = join 256 root ''/sys/class/vtconsole/vtcon1/bind'',
     sysfs_size_path = join 256 root ''/sys/class/graphics/fb0/virtual_size'',
     sysfs_bpp_path = join 256 root ''/sys/class/graphics/fb0/bits_per_pixel'',
     sysfs_stride_path = join 256 root ''/sys/class/graphics/fb0/stride'',
     ow_width = 0, ow_height = 0, ow_bpp = 0, ow_stride = 0, ow_frame_bytes = 0,
     fbcon_was_bound = - 1, fbcon_unbound_by_us = False, fbcon_restored = False, frames_written = 0,
     ow_state = FB_OWNER_IDLE, ow_error = ''''\<rparr>"

text \<open>The framebuffer must exist and hold a frame; the result is the message of the failed check.\<close>

definition check_device :: "'w fb_os \<Rightarrow> fb_owner \<Rightarrow> 'w \<Rightarrow> string option \<times> 'w" where
  "check_device os owner w =
    (case fo_open os (fb_path owner) O_RDONLY_flag w of (fd, w) \<Rightarrow>
     if fd < 0 then (Some ''cannot open framebuffer device'', w)
     else case fo_fstat os fd w of
       (None, w) \<Rightarrow> (case fo_close os fd w of (_, w) \<Rightarrow> (Some ''cannot stat framebuffer device'', w))
     | (Some (S_IFREG, st_size), w) \<Rightarrow> (case fo_close os fd w of (_, w) \<Rightarrow>
         (if (of_int st_size :: size_t) < ow_frame_bytes owner
          then Some ''framebuffer is shorter than one frame'' else None, w))
     | (Some (S_IFCHR, _), w) \<Rightarrow> (case fo_smem_len os fd w of (fix, w) \<Rightarrow> case fo_close os fd w of (_, w) \<Rightarrow>
         (case fix of None \<Rightarrow> None
            | Some smem_len \<Rightarrow> if smem_len \<noteq> 0 \<and> smem_len < ow_frame_bytes owner
                then Some ''framebuffer is shorter than one frame'' else None, w))
     | (Some (S_OTHER, _), w) \<Rightarrow> (case fo_close os fd w of (_, w) \<Rightarrow>
         (Some ''framebuffer path is not a device or regular file'', w)))"

text \<open>The bind state of the console; an absent node means that there is no console to displace.\<close>

definition read_bind :: "'w fb_os \<Rightarrow> fb_owner \<Rightarrow> 'w \<Rightarrow> int \<times> 'w" where
  "read_bind os owner w = (case fo_fopen os (vtcon_bind_path owner) ''r'' w of
     (NULL, w) \<Rightarrow> (0, w)
   | (Ptr fp, w) \<Rightarrow> (case fo_contents os fp w of (s, w) \<Rightarrow> case fo_fclose os fp w of (_, w) \<Rightarrow>
       (case scan_int s of None \<Rightarrow> 0 | Some (value, _) \<Rightarrow> if value \<noteq> 0 then 1 else 0, w)))"

definition fb_owner_probe :: "'w fb_os \<Rightarrow> fb_owner \<Rightarrow> 'w \<Rightarrow> int \<times> fb_owner \<times> 'w" where
  "fb_owner_probe os owner w =
    (if ow_state owner \<noteq> FB_OWNER_IDLE then (- 1, set_error ''probe called from a non-idle state'' owner, w)
     else case read_size_file os (sysfs_size_path owner) w of
       (None, w) \<Rightarrow> (- 1, set_error ''cannot read framebuffer virtual_size'' owner, w)
     | (Some (wd, ht), w) \<Rightarrow> (case read_uint_file os (sysfs_bpp_path owner) w of
       (None, w) \<Rightarrow> (- 1, set_error ''cannot read framebuffer bits_per_pixel'' owner, w)
     | (Some bpp, w) \<Rightarrow>
       if wd = 0 \<or> ht = 0 \<or> bpp = 0 \<or> bpp mod 8 \<noteq> 0
       then (- 1, set_error ''unsupported framebuffer geometry'' owner, w)
       else case read_uint_file os (sysfs_stride_path owner) w of (file_stride, w) \<Rightarrow>
       let stride = (case file_stride of None \<Rightarrow> wd * (bpp div 8)
                       | Some s \<Rightarrow> if s = 0 then wd * (bpp div 8) else s)
       in if stride < wd * (bpp div 8) then (- 1, set_error ''stride smaller than one packed row'' owner, w)
       else let owner = owner\<lparr>ow_width := wd, ow_height := ht, ow_bpp := bpp, ow_stride := stride,
                        ow_frame_bytes := stride * ht\<rparr>
       in if ow_frame_bytes owner = 0 \<or> FB_MAX_FRAME_BYTES < ow_frame_bytes owner
       then (- 1, set_error ''implausible frame size'' owner, w)
       else case check_device os owner w of
         (Some message, w) \<Rightarrow> (- 1, set_error message owner, w)
       | (None, w) \<Rightarrow> (case read_bind os owner w of (was_bound, w) \<Rightarrow>
           (0, owner\<lparr>fbcon_was_bound := was_bound, ow_state := FB_OWNER_PROBED\<rparr>, w))))"

definition write_bind :: "'w fb_os \<Rightarrow> fb_owner \<Rightarrow> nat \<Rightarrow> 'w \<Rightarrow> int \<times> 'w" where
  "write_bind os owner value w = (case fo_fopen os (vtcon_bind_path owner) ''w'' w of
     (NULL, w) \<Rightarrow> (- 1, w)
   | (Ptr fp, w) \<Rightarrow> (case fo_fprintf os fp (show_nat value) w of (n, w) \<Rightarrow>
       case fo_fclose os fp w of (rc, w) \<Rightarrow> (if n < 0 \<or> rc \<noteq> 0 then - 1 else 0, w)))"

definition fb_owner_acquire :: "'w fb_os \<Rightarrow> fb_owner \<Rightarrow> 'w \<Rightarrow> int \<times> fb_owner \<times> 'w" where
  "fb_owner_acquire os owner w =
    (if ow_state owner \<noteq> FB_OWNER_PROBED
     then (- 1, set_error ''acquire called before a successful probe'' owner, w)
     else if fbcon_was_bound owner = 1 then
       (case write_bind os owner 0 w of (rc, w) \<Rightarrow>
          if rc \<noteq> 0 then (- 1, set_error ''cannot unbind fbcon'' owner, w)
          else (0, owner\<lparr>fbcon_unbound_by_us := True, ow_state := FB_OWNER_OWNED\<rparr>, w))
     else (0, owner\<lparr>ow_state := FB_OWNER_OWNED\<rparr>, w))"

text \<open>The write loop: how many bytes were written, or \<open>Inl\<close> after an error.  It tries again as long as a
  signal interrupts the call; a loop that never ends is \<open>None\<close>.\<close>

partial_function (option) write_loop ::
  "'w fb_os \<Rightarrow> int \<Rightarrow> u8 list \<Rightarrow> nat \<Rightarrow> nat \<Rightarrow> 'w \<Rightarrow> ((unit + nat) \<times> 'w) option" where
  "write_loop os fd frame len sent w =
    (if len \<le> sent then Some (Inr sent, w)
     else case fo_write os fd (drop sent (take len frame)) w of
       (Write_error e, w) \<Rightarrow> if e = EINTR_errno then write_loop os fd frame len sent w else Some (Inl (), w)
     | (Wrote chunk, w) \<Rightarrow> if chunk = 0 then Some (Inr sent, w)
                          else write_loop os fd frame len (sent + chunk) w)"

definition fb_owner_write_frame ::
  "'w fb_os \<Rightarrow> fb_owner \<Rightarrow> u8 list ptr \<Rightarrow> size_t \<Rightarrow> 'w \<Rightarrow> (int \<times> fb_owner \<times> 'w) option" where
  "fb_owner_write_frame os owner frame len w =
    (if ow_state owner \<noteq> FB_OWNER_OWNED then Some (- 1, refuse ''write_frame called without ownership'' owner, w)
     else case frame of NULL \<Rightarrow> Some (- 1, refuse ''null frame'' owner, w)
     | Ptr bytes \<Rightarrow>
       if len \<noteq> ow_frame_bytes owner
       then Some (- 1, refuse ''frame length does not match stride*height'' owner, w)
       else case fo_open os (fb_path owner) O_WRONLY_flag w of (fd, w) \<Rightarrow>
       if fd < 0 then Some (- 1, set_error ''cannot open framebuffer for writing'' owner, w)
       else case fo_lseek os fd 0 w of (off, w) \<Rightarrow>
       if off = - 1 then (case fo_close os fd w of (_, w) \<Rightarrow> Some (- 1, set_error ''cannot seek framebuffer'' owner, w))
       else do {
         (r, w) \<leftarrow> write_loop os fd bytes (unat len) 0 w;
         case fo_close os fd w of (_, w) \<Rightarrow>
         (case r of Inl _ \<Rightarrow> Some (- 1, set_error ''framebuffer write failed'' owner, w)
          | Inr sent \<Rightarrow>
              if sent \<noteq> unat len then Some (- 1, set_error ''short framebuffer write'' owner, w)
              else if in_int32 (frames_written owner + 1)
              then Some (0, owner\<lparr>frames_written := frames_written owner + 1\<rparr>, w) else None)
       })"

definition fb_owner_release :: "'w fb_os \<Rightarrow> fb_owner \<Rightarrow> 'w \<Rightarrow> int \<times> fb_owner \<times> 'w" where
  "fb_owner_release os owner w =
    (if ow_state owner = FB_OWNER_RELEASED then (0, owner, w)
     else if fbcon_unbound_by_us owner then
       (case write_bind os owner 1 w of (rc, w) \<Rightarrow>
          if rc \<noteq> 0
          then (- 1, owner\<lparr>ow_error := sset (ow_error owner) FB_OWNER_ERR_LEN (Ptr ''cannot rebind fbcon'')\<rparr>, w)
          else (0, owner\<lparr>fbcon_unbound_by_us := False, fbcon_restored := True, ow_state := FB_OWNER_RELEASED\<rparr>, w))
     else if fbcon_was_bound owner = 0
     then (0, owner\<lparr>fbcon_restored := True, ow_state := FB_OWNER_RELEASED\<rparr>, w)
     else (0, owner\<lparr>ow_state := FB_OWNER_RELEASED\<rparr>, w))"

definition fb_owner_error :: "fb_owner \<Rightarrow> string" where
  "fb_owner_error owner = ow_error owner"

section \<open>Geometry\<close>

lemma set_error_simps [simp]:
  "ow_state (set_error m owner) = FB_OWNER_FAILED"
  "fbcon_unbound_by_us (set_error m owner) = fbcon_unbound_by_us owner"
  "fbcon_was_bound (set_error m owner) = fbcon_was_bound owner"
  "fb_path (set_error m owner) = fb_path owner"
  "vtcon_bind_path (set_error m owner) = vtcon_bind_path owner"
  "frames_written (set_error m owner) = frames_written owner"
  "ow_frame_bytes (set_error m owner) = ow_frame_bytes owner"
  by (simp_all add: set_error_def)

lemma refuse_simps [simp]:
  "ow_state (refuse m owner) = ow_state owner"
  "fbcon_unbound_by_us (refuse m owner) = fbcon_unbound_by_us owner"
  "fbcon_was_bound (refuse m owner) = fbcon_was_bound owner"
  "fb_path (refuse m owner) = fb_path owner"
  "vtcon_bind_path (refuse m owner) = vtcon_bind_path owner"
  "frames_written (refuse m owner) = frames_written owner"
  "ow_frame_bytes (refuse m owner) = ow_frame_bytes owner"
  by (simp_all add: refuse_def)

definition plausible :: "fb_owner \<Rightarrow> bool" where
  "plausible owner \<longleftrightarrow> ow_width owner \<noteq> 0 \<and> ow_height owner \<noteq> 0 \<and> ow_bpp owner \<noteq> 0 \<and> ow_bpp owner mod 8 = 0
     \<and> ow_width owner * (ow_bpp owner div 8) \<le> ow_stride owner
     \<and> ow_frame_bytes owner = ow_stride owner * ow_height owner
     \<and> ow_frame_bytes owner \<noteq> 0 \<and> ow_frame_bytes owner \<le> FB_MAX_FRAME_BYTES"

lemma probe_plausible:
  assumes "fb_owner_probe os owner w = (rc, owner', w')"
  shows "(rc = 0 \<longleftrightarrow> ow_state owner' = FB_OWNER_PROBED) \<and> (rc \<noteq> 0 \<longrightarrow> rc = - 1 \<and> ow_state owner' = FB_OWNER_FAILED)
    \<and> (rc = 0 \<longrightarrow> plausible owner')"
  using assms unfolding fb_owner_probe_def
  by (auto simp: plausible_def Let_def not_less del: mod_0_imp_dvd split: prod.splits option.splits if_splits)

section \<open>The specification: a lease of the console\<close>

text \<open>The console is bound or not, the screen shows a picture, and the lease knows whether it displaced the
  console.  A call may fail without an effect; pictures are drawn, whole or torn by an error, only while
  no console is bound.\<close>

datatype fb_call = Probe | Acquire | Write_frame "u8 list ptr" size_t | Release

record lease =
  console_bound :: bool
  picture :: "u8 list"
  displaced :: bool

inductive lease_step :: "lease \<Rightarrow> fb_call \<Rightarrow> bool \<Rightarrow> lease \<Rightarrow> bool" where
  lease_fail: "lease_step s c False s"
| lease_probe: "lease_step s Probe True s"
| lease_take: "\<not> displaced s \<Longrightarrow>
    lease_step s Acquire True (s\<lparr>console_bound := False, displaced := console_bound s\<rparr>)"
| lease_draw: "\<not> console_bound s \<Longrightarrow> take (unat len) p = take (unat len) bytes \<Longrightarrow>
    drop (unat len) p = drop (unat len) (picture s) \<Longrightarrow> length p = length (picture s) \<Longrightarrow>
    lease_step s (Write_frame (Ptr bytes) len) True (s\<lparr>picture := p\<rparr>)"
| lease_torn: "\<not> console_bound s \<Longrightarrow> drop (unat len) p = drop (unat len) (picture s) \<Longrightarrow>
    length p = length (picture s) \<Longrightarrow> lease_step s (Write_frame f len) False (s\<lparr>picture := p\<rparr>)"
| lease_return: "lease_step s Release True (s\<lparr>console_bound := console_bound s \<or> displaced s, displaced := False\<rparr>)"

inductive_cases lease_step_releaseE: "lease_step s Release True s'"

text \<open>The lease conserves the console: it is bound iff it was and the lease does not hold it displaced.\<close>

lemma lease_step_conserves:
  "lease_step s c ok s' \<Longrightarrow> (console_bound s \<longleftrightarrow> b \<and> \<not> displaced s) \<Longrightarrow> (displaced s \<longrightarrow> b)
    \<Longrightarrow> (console_bound s' \<longleftrightarrow> b \<and> \<not> displaced s') \<and> (displaced s' \<longrightarrow> b)"
  by (induction rule: lease_step.induct) auto

definition owner_lease :: "('w \<Rightarrow> bool) \<Rightarrow> ('w \<Rightarrow> u8 list) \<Rightarrow> fb_owner \<Rightarrow> 'w \<Rightarrow> lease" where
  "owner_lease bound screen owner w =
     \<lparr>console_bound = bound w, picture = screen w, displaced = fbcon_unbound_by_us owner\<rparr>"

definition owner_call :: "'w fb_os \<Rightarrow> fb_call \<Rightarrow> fb_owner \<Rightarrow> 'w \<Rightarrow> (int \<times> fb_owner \<times> 'w) option" where
  "owner_call os c owner w = (case c of Probe \<Rightarrow> Some (fb_owner_probe os owner w)
     | Acquire \<Rightarrow> Some (fb_owner_acquire os owner w)
     | Write_frame frame len \<Rightarrow> fb_owner_write_frame os owner frame len w
     | Release \<Rightarrow> Some (fb_owner_release os owner w))"

fun owner_calls :: "'w fb_os \<Rightarrow> fb_call list \<Rightarrow> fb_owner \<Rightarrow> 'w \<Rightarrow> (fb_owner \<times> 'w) option" where
  "owner_calls os [] owner w = Some (owner, w)"
| "owner_calls os (c # cs) owner w = (case owner_call os c owner w of None \<Rightarrow> None
     | Some (rc, owner, w) \<Rightarrow> owner_calls os cs owner w)"

text \<open>The invariant that ties the owner's flags to the console; \<open>original\<close> is its state before the first call.\<close>

definition owner_ok :: "('w \<Rightarrow> bool) \<Rightarrow> string \<Rightarrow> string \<Rightarrow> bool \<Rightarrow> fb_owner \<Rightarrow> 'w \<Rightarrow> bool" where
  "owner_ok bound bind_path dev_path original owner w \<longleftrightarrow>
     vtcon_bind_path owner = bind_path \<and> fb_path owner = dev_path
     \<and> bound w = (original \<and> \<not> fbcon_unbound_by_us owner) \<and> (fbcon_unbound_by_us owner \<longrightarrow> original)
     \<and> (ow_state owner \<in> {FB_OWNER_IDLE, FB_OWNER_PROBED, FB_OWNER_RELEASED} \<longrightarrow> \<not> fbcon_unbound_by_us owner)
     \<and> (ow_state owner = FB_OWNER_PROBED \<longrightarrow> fbcon_was_bound owner = (if original then 1 else 0))
     \<and> (ow_state owner = FB_OWNER_OWNED \<longrightarrow> fbcon_unbound_by_us owner = original)"

text \<open>A frame buffer has at least the length it is passed with, and the frame counter is not at its end.\<close>

definition frame_call_ok :: "fb_call \<Rightarrow> bool" where
  "frame_call_ok c = (case c of Write_frame (Ptr bytes) len \<Rightarrow> unat len \<le> length bytes | _ \<Rightarrow> True)"

section \<open>What the platform does\<close>

text \<open>
  \<open>bound w\<close>: the text console owns the framebuffer; \<open>screen w\<close>: the contents of the framebuffer; \<open>pos fd w\<close>:
  the offset of a descriptor on the framebuffer; \<open>interrupts w\<close>: how many more system calls a signal will
  interrupt.  Reading files and descriptors changes none of this; the bind node reads as a number that
  is not zero iff the console is bound, and is there if it is bound; a store to it takes effect iff every call that makes it
  succeeds; \<open>write\<close> transfers a prefix of its buffer at the offset, or nothing and reports an error.
\<close>

locale fb_platform =
  fixes os :: "'w fb_os" and bound :: "'w \<Rightarrow> bool" and screen :: "'w \<Rightarrow> u8 list"
    and pos :: "int \<Rightarrow> 'w \<Rightarrow> nat option" and interrupts :: "'w \<Rightarrow> nat"
    and bind_path :: string and dev_path :: string
  assumes no_stream: "fo_fopen os path m w = (NULL, w1) \<Longrightarrow> bound w1 = bound w \<and> screen w1 = screen w"
    and read_stream: "fo_fopen os path ''r'' w = (Ptr fp, w1) \<Longrightarrow> fo_contents os fp w1 = (s, w2) \<Longrightarrow>
          fo_fclose os fp w2 = (rc, w3) \<Longrightarrow> bound w3 = bound w \<and> screen w3 = screen w"
    and bind_absent: "fo_fopen os bind_path ''r'' w = (NULL, w1) \<Longrightarrow> \<not> bound w"
    and bind_text: "fo_fopen os bind_path ''r'' w = (Ptr fp, w1) \<Longrightarrow> fo_contents os fp w1 = (s, w2) \<Longrightarrow>
          (case scan_int s of None \<Rightarrow> False | Some (v, _) \<Rightarrow> v \<noteq> 0) = bound w"
    and bind_store: "fo_fopen os bind_path ''w'' w = (Ptr fp, w1) \<Longrightarrow> fo_fprintf os fp (show_nat v) w1 = (cnt, w2) \<Longrightarrow>
          fo_fclose os fp w2 = (rc, w3) \<Longrightarrow>
          bound w3 = (if cnt < 0 \<or> rc \<noteq> 0 then bound w else v \<noteq> 0) \<and> screen w3 = screen w"
    and open_dev: "fo_open os dev_path flags w = (fd, w1) \<Longrightarrow>
          bound w1 = bound w \<and> screen w1 = screen w \<and> (0 \<le> fd \<longrightarrow> pos fd w1 = Some 0)"
    and fstat_quiet: "fo_fstat os fd w = (st, w1) \<Longrightarrow> bound w1 = bound w \<and> screen w1 = screen w"
    and smem_quiet: "fo_smem_len os fd w = (fix, w1) \<Longrightarrow> bound w1 = bound w \<and> screen w1 = screen w"
    and close_quiet: "fo_close os fd w = (rc, w1) \<Longrightarrow> bound w1 = bound w \<and> screen w1 = screen w"
    and lseek_dev: "fo_lseek os fd 0 w = (off, w1) \<Longrightarrow> pos fd w \<noteq> None \<Longrightarrow>
          bound w1 = bound w \<and> screen w1 = screen w \<and> (off \<noteq> - 1 \<longrightarrow> pos fd w1 = Some 0)"
    and write_some: "fo_write os fd bs w = (Wrote n, w1) \<Longrightarrow> pos fd w = Some p \<Longrightarrow>
          n \<le> length bs \<and> p + n \<le> length (screen w) \<and> bound w1 = bound w \<and> pos fd w1 = Some (p + n)
          \<and> screen w1 = take p (screen w) @ take n bs @ drop (p + n) (screen w)"
    and write_none: "fo_write os fd bs w = (Write_error e, w1) \<Longrightarrow> pos fd w = Some p \<Longrightarrow>
          bound w1 = bound w \<and> screen w1 = screen w \<and> pos fd w1 = Some p
          \<and> (e = EINTR_errno \<longrightarrow> interrupts w1 < interrupts w)"
begin

lemma read_uint_quiet:
  "read_uint_file os p w = (r, w') \<Longrightarrow> bound w' = bound w \<and> screen w' = screen w"
  unfolding read_uint_file_def
  by (auto split: prod.splits ptr.splits dest: no_stream read_stream)

lemma read_size_quiet:
  "read_size_file os p w = (r, w') \<Longrightarrow> bound w' = bound w \<and> screen w' = screen w"
  unfolding read_size_file_def
  by (auto split: prod.splits ptr.splits dest: no_stream read_stream)

lemma read_bind_spec:
  assumes "read_bind os owner w = (r, w')" "vtcon_bind_path owner = bind_path"
  shows "bound w' = bound w \<and> screen w' = screen w \<and> r = (if bound w then 1 else 0)"
proof (cases "fo_fopen os bind_path ''r'' w")
  case (Pair f w1)
  show ?thesis
  proof (cases f)
    case NULL
    then show ?thesis using assms Pair bind_absent no_stream unfolding read_bind_def by force
  next
    case (Ptr fp)
    obtain s w2 where s: "fo_contents os fp w1 = (s, w2)" by fastforce
    obtain rc w3 where c: "fo_fclose os fp w2 = (rc, w3)" by fastforce
    have "bound w3 = bound w \<and> screen w3 = screen w" using read_stream Pair Ptr s c by blast
    moreover have "(case scan_int s of None \<Rightarrow> False | Some (v, _) \<Rightarrow> v \<noteq> 0) = bound w"
      using bind_text Pair Ptr s by blast
    ultimately show ?thesis using assms Pair Ptr s c unfolding read_bind_def
      by (auto split: option.splits prod.splits)
  qed
qed

lemma write_bind_spec:
  assumes "write_bind os owner v w = (rc, w')" "vtcon_bind_path owner = bind_path"
  shows "bound w' = (if rc = 0 then v \<noteq> 0 else bound w) \<and> screen w' = screen w"
  using assms bind_store no_stream unfolding write_bind_def
  by (auto split: prod.splits ptr.splits if_splits)

lemma check_device_quiet:
  assumes "check_device os owner w = (r, w')" "fb_path owner = dev_path"
  shows "bound w' = bound w \<and> screen w' = screen w"
  using assms open_dev fstat_quiet smem_quiet close_quiet unfolding check_device_def
  by (auto split: prod.splits option.splits file_kind.splits if_splits)

lemma write_loop_returns:
  assumes "pos fd w = Some sent" and "sent \<le> len" and "len \<le> length frame"
    and "take sent (screen w) = take sent frame"
  shows "\<exists>r w'. write_loop os fd frame len sent w = Some (r, w') \<and> bound w' = bound w
    \<and> drop len (screen w') = drop len (screen w) \<and> length (screen w') = length (screen w)
    \<and> (\<forall>k. r = Inr k \<longrightarrow> k \<le> len \<and> take k (screen w') = take k frame)" (is "?returns sent w")
  using assms
proof (induction "(len - sent, interrupts w)" arbitrary: sent w
    rule: wf_induct_rule[OF wf_lex_prod[OF wf_less_than wf_less_than]])
  case 1
  let ?bs = "drop sent (take len frame)"
  obtain r w1 where wr: "fo_write os fd ?bs w = (r, w1)" by fastforce
  show ?case
  proof (cases "len \<le> sent")
    case True
    then show ?thesis using "1.prems" by (subst write_loop.simps) auto
  next
    case False
    show ?thesis
    proof (cases r)
      case (Write_error e)
      note none = write_none[OF wr[unfolded Write_error] "1.prems"(1)]
      show ?thesis
      proof (cases "e = EINTR_errno")
        case True
        then have "?returns sent w1"
          using none "1.prems" by (intro "1.hyps") auto
        then show ?thesis using True False wr Write_error none by (subst write_loop.simps) auto
      next
        case no: False
        then show ?thesis using False wr Write_error none by (subst write_loop.simps) auto
      qed
    next
      case (Wrote n)
      note some = write_some[OF wr[unfolded Wrote] "1.prems"(1)]
      show ?thesis
      proof (cases "n = 0")
        case True
        then show ?thesis using False wr Wrote some "1.prems" by (subst write_loop.simps) auto
      next
        case no: False
        have n: "sent + n \<le> len" using some False "1.prems"(3) by auto
        have eq: "screen w1 = take sent (screen w) @ take n ?bs @ drop (sent + n) (screen w)"
          and fits: "sent + n \<le> length (screen w)" using some by blast+
        have "take n ?bs = take n (drop sent frame)" using n by (simp add: drop_take min_absorb1)
        then have grown: "take (sent + n) (screen w1) = take (sent + n) frame"
          unfolding eq using fits "1.prems"(3,4) n by (simp add: take_add)
        have "drop len (screen w1) = drop len (screen w)" "length (screen w1) = length (screen w)"
          unfolding eq using fits n "1.prems"(3) by simp_all
        moreover have "?returns (sent + n) w1"
          using some n no False "1.prems" grown by (intro "1.hyps") auto
        ultimately show ?thesis using no False wr Wrote some by (subst write_loop.simps) auto
      qed
    qed
  qed
qed


lemma probe_quiet_simps:
  "bound (snd (read_uint_file os p w)) = bound w" "screen (snd (read_uint_file os p w)) = screen w"
  "bound (snd (read_size_file os p w)) = bound w" "screen (snd (read_size_file os p w)) = screen w"
  using read_uint_quiet[OF prod.collapse[symmetric]] read_size_quiet[OF prod.collapse[symmetric]] by blast+

lemma check_device_simps:
  "fb_path owner = dev_path \<Longrightarrow> bound (snd (check_device os owner w)) = bound w"
  "fb_path owner = dev_path \<Longrightarrow> screen (snd (check_device os owner w)) = screen w"
  using check_device_quiet[OF prod.collapse[symmetric]] by blast+

lemma read_bind_simps:
  "vtcon_bind_path owner = bind_path \<Longrightarrow> bound (snd (read_bind os owner w)) = bound w"
  "vtcon_bind_path owner = bind_path \<Longrightarrow> screen (snd (read_bind os owner w)) = screen w"
  "vtcon_bind_path owner = bind_path \<Longrightarrow> fst (read_bind os owner w) = (if bound w then 1 else 0)"
  using read_bind_spec[OF prod.collapse[symmetric]] by blast+

lemma probe_spec:
  fixes owner :: fb_owner and w :: 'w
  assumes "vtcon_bind_path owner = bind_path" "fb_path owner = dev_path"
  defines "r \<equiv> fb_owner_probe os owner w"
  shows "bound (snd (snd r)) = bound w" "screen (snd (snd r)) = screen w"
    "fbcon_unbound_by_us (fst (snd r)) = fbcon_unbound_by_us owner"
    "vtcon_bind_path (fst (snd r)) = bind_path" "fb_path (fst (snd r)) = dev_path"
    "frames_written (fst (snd r)) = frames_written owner"
    "fst r = 0 \<longrightarrow> ow_state owner = FB_OWNER_IDLE \<and> fbcon_was_bound (fst (snd r)) = (if bound w then 1 else 0)"
  using assms(1,2) unfolding r_def fb_owner_probe_def
  by (simp_all add: Let_def case_prod_beta probe_quiet_simps check_device_simps read_bind_simps split: option.split)

lemma acquire_refines:
  assumes "owner_ok bound bind_path dev_path original owner w" "fb_owner_acquire os owner w = (rc, owner', w')"
  shows "(rc = 0 \<or> rc = - 1) \<and> owner_ok bound bind_path dev_path original owner' w'
    \<and> frames_written owner' = frames_written owner
    \<and> lease_step (owner_lease bound screen owner w) Acquire (rc = 0) (owner_lease bound screen owner' w')"
proof (cases "ow_state owner = FB_OWNER_PROBED \<and> fbcon_was_bound owner = 1")
  case True
  obtain r w1 where wb: "write_bind os owner 0 w = (r, w1)" by fastforce
  then show ?thesis
    using assms True write_bind_spec[OF wb]
      lease_fail[of "owner_lease bound screen owner w" Acquire] lease_take[of "owner_lease bound screen owner w"]
    unfolding fb_owner_acquire_def owner_ok_def owner_lease_def by (auto split: if_splits)
next
  case False
  then show ?thesis
    using assms lease_fail[of "owner_lease bound screen owner w" Acquire] lease_take[of "owner_lease bound screen owner w"]
    unfolding fb_owner_acquire_def owner_ok_def owner_lease_def by (auto split: if_splits)
qed

lemma release_refines:
  assumes "owner_ok bound bind_path dev_path original owner w" "fb_owner_release os owner w = (rc, owner', w')"
  shows "(rc = 0 \<or> rc = - 1) \<and> owner_ok bound bind_path dev_path original owner' w'
    \<and> frames_written owner' = frames_written owner
    \<and> lease_step (owner_lease bound screen owner w) Release (rc = 0) (owner_lease bound screen owner' w')"
proof -
  obtain r w1 where wb: "write_bind os owner 1 w = (r, w1)" by fastforce
  then show ?thesis
    using assms write_bind_spec[OF wb]
      lease_fail[of "owner_lease bound screen owner w" Release] lease_return[of "owner_lease bound screen owner w"]
    unfolding fb_owner_release_def owner_ok_def owner_lease_def by (auto split: if_splits)
qed


lemma probe_refines:
  assumes ok: "owner_ok bound bind_path dev_path original owner w"
    and call: "fb_owner_probe os owner w = (rc, owner', w')"
  shows "(rc = 0 \<or> rc = - 1) \<and> owner_ok bound bind_path dev_path original owner' w'
    \<and> frames_written owner' = frames_written owner
    \<and> lease_step (owner_lease bound screen owner w) Probe (rc = 0) (owner_lease bound screen owner' w')"
proof -
  have paths: "vtcon_bind_path owner = bind_path" "fb_path owner = dev_path"
    using ok by (simp_all add: owner_ok_def)
  note spec = probe_spec[OF paths, of w, unfolded call fst_conv snd_conv]
  have same: "owner_lease bound screen owner' w' = owner_lease bound screen owner w"
    using spec by (simp add: owner_lease_def)
  have "lease_step (owner_lease bound screen owner w) Probe (rc = 0) (owner_lease bound screen owner' w')"
    unfolding same by (cases "rc = 0") (simp_all add: lease_probe lease_fail)
  moreover have "owner_ok bound bind_path dev_path original owner' w'"
    using ok spec probe_plausible[OF call] by (cases "rc = 0") (auto simp: owner_ok_def)
  ultimately show ?thesis using spec probe_plausible[OF call] by blast
qed

lemma write_refused:
  assumes "\<not> (ow_state owner = FB_OWNER_OWNED \<and> frame \<noteq> NULL \<and> len = ow_frame_bytes owner)"
  shows "\<exists>m. fb_owner_write_frame os owner frame len w = Some (- 1, refuse m owner, w)"
  using assms unfolding fb_owner_write_frame_def by (cases frame) auto

lemma write_attempt:
  assumes own: "ow_state owner = FB_OWNER_OWNED" "len = ow_frame_bytes owner" "fb_path owner = dev_path"
    and long: "unat len \<le> length bytes"
  shows "(in_int32 (frames_written owner + 1) \<longrightarrow> fb_owner_write_frame os owner (Ptr bytes) len w \<noteq> None)
    \<and> (\<forall>rc owner' w'. fb_owner_write_frame os owner (Ptr bytes) len w = Some (rc, owner', w') \<longrightarrow>
      bound w' = bound w \<and> drop (unat len) (screen w') = drop (unat len) (screen w)
      \<and> length (screen w') = length (screen w)
      \<and> (rc = 0 \<and> owner' = owner\<lparr>frames_written := frames_written owner + 1\<rparr>
            \<and> take (unat len) (screen w') = take (unat len) bytes
         \<or> rc = - 1 \<and> (\<exists>m. owner' = set_error m owner)))"
proof -
  obtain fd w1 where fd: "fo_open os dev_path O_WRONLY_flag w = (fd, w1)" by fastforce
  obtain off w2 where seek: "fo_lseek os fd 0 w1 = (off, w2)" by fastforce
  note opened = open_dev[OF fd] and sought = lseek_dev[OF seek]
  note attempt = fb_owner_write_frame_def[of os owner "Ptr bytes" len w]
  consider "fd < 0" | "0 \<le> fd" "off = - 1" | "0 \<le> fd" "off \<noteq> - 1" by linarith
  then show ?thesis
  proof cases
    case 1
    then show ?thesis using own fd opened unfolding attempt by auto
  next
    case 2
    obtain c w3 where close: "fo_close os fd w2 = (c, w3)" by fastforce
    then show ?thesis using 2 own fd opened seek sought close_quiet[OF close] unfolding attempt by auto
  next
    case 3
    then have at: "pos fd w2 = Some 0" and same: "bound w2 = bound w" "screen w2 = screen w"
      using opened sought by auto
    obtain r w3 where loop: "write_loop os fd bytes (unat len) 0 w2 = Some (r, w3)"
      and after: "bound w3 = bound w" "drop (unat len) (screen w3) = drop (unat len) (screen w)"
        "length (screen w3) = length (screen w)"
        "\<And>k. r = Inr k \<Longrightarrow> k \<le> unat len \<and> take k (screen w3) = take k bytes"
      using write_loop_returns[OF at _ long] same by auto
    obtain c w4 where close: "fo_close os fd w3 = (c, w4)" by fastforce
    show ?thesis
      using 3 own fd seek loop close after close_quiet[OF close] unfolding attempt by (cases r) auto
  qed
qed

lemma write_frame_returns:
  assumes ok: "owner_ok bound bind_path dev_path original owner w"
    and frame: "frame_call_ok (Write_frame frame len)" and counter: "in_int32 (frames_written owner + 1)"
  shows "\<exists>rc owner' w'. fb_owner_write_frame os owner frame len w = Some (rc, owner', w')"
proof (cases "ow_state owner = FB_OWNER_OWNED \<and> frame \<noteq> NULL \<and> len = ow_frame_bytes owner")
  case False
  then show ?thesis using write_refused[OF False] by blast
next
  case True
  then obtain bytes where bytes: "frame = Ptr bytes" by (cases frame) auto
  have "fb_owner_write_frame os owner (Ptr bytes) len w \<noteq> None"
    using write_attempt[of owner len bytes w] True ok frame counter bytes by (simp add: owner_ok_def frame_call_ok_def)
  then show ?thesis unfolding bytes by auto
qed

lemma write_frame_refines:
  assumes ok: "owner_ok bound bind_path dev_path original owner w"
    and frame: "frame_call_ok (Write_frame frame len)"
    and call: "fb_owner_write_frame os owner frame len w = Some (rc, owner', w')"
  shows "(rc = 0 \<or> rc = - 1) \<and> owner_ok bound bind_path dev_path original owner' w'
    \<and> frames_written owner' = (if rc = 0 then frames_written owner + 1 else frames_written owner)
    \<and> lease_step (owner_lease bound screen owner w) (Write_frame frame len) (rc = 0)
        (owner_lease bound screen owner' w')"
proof (cases "ow_state owner = FB_OWNER_OWNED \<and> frame \<noteq> NULL \<and> len = ow_frame_bytes owner")
  case False
  from write_refused[OF False] obtain m where m: "fb_owner_write_frame os owner frame len w = Some (- 1, refuse m owner, w)"
    by blast
  have "owner_ok bound bind_path dev_path original (refuse m owner) w" using ok by (auto simp: owner_ok_def)
  moreover have "owner_lease bound screen (refuse m owner) w = owner_lease bound screen owner w"
    by (simp add: owner_lease_def)
  ultimately show ?thesis using m call by (simp add: lease_fail)
next
  case True
  then obtain bytes where bytes: "frame = Ptr bytes" by (cases frame) auto
  have off: "\<not> bound w" and path: "fb_path owner = dev_path" using ok True by (auto simp: owner_ok_def)
  have own: "ow_state owner = FB_OWNER_OWNED" "len = ow_frame_bytes owner" using True by simp_all
  have "unat len \<le> length bytes" using frame bytes by (simp add: frame_call_ok_def)
  from write_attempt[OF own path this, of w, folded bytes, THEN conjunct2, rule_format, OF call]
  have same: "bound w' = bound w" "drop (unat len) (screen w') = drop (unat len) (screen w)"
      "length (screen w') = length (screen w)"
    and res: "rc = 0 \<and> owner' = owner\<lparr>frames_written := frames_written owner + 1\<rparr>
          \<and> take (unat len) (screen w') = take (unat len) bytes \<or> rc = - 1 \<and> (\<exists>m. owner' = set_error m owner)"
    by blast+
  have "owner_ok bound bind_path dev_path original owner' w'"
    using res
  proof (elim disjE conjE exE)
    show ?thesis if "owner' = owner\<lparr>frames_written := frames_written owner + 1\<rparr>"
      using ok unfolding that owner_ok_def same(1) by simp
    show ?thesis if "owner' = set_error m owner" for m
      using ok unfolding that owner_ok_def same(1) by simp
  qed
  moreover have "lease_step (owner_lease bound screen owner w) (Write_frame frame len) (rc = 0)
      (owner_lease bound screen owner' w')"
    using res lease_draw[of "owner_lease bound screen owner w" len "screen w'" bytes]
      lease_torn[of "owner_lease bound screen owner w" len "screen w'" frame] same off bytes
    by (auto simp: owner_lease_def)
  ultimately show ?thesis using res by auto
qed

lemma call_refines:
  assumes "owner_ok bound bind_path dev_path original owner w" "frame_call_ok c" "in_int32 (frames_written owner + 1)"
  shows "\<exists>rc owner' w'. owner_call os c owner w = Some (rc, owner', w')
    \<and> (rc = 0 \<or> rc = - 1) \<and> owner_ok bound bind_path dev_path original owner' w'
    \<and> frames_written owner \<le> frames_written owner' \<and> frames_written owner' \<le> frames_written owner + 1
    \<and> lease_step (owner_lease bound screen owner w) c (rc = 0) (owner_lease bound screen owner' w')"
proof (cases c)
  case Probe
  obtain rc owner' w' where r: "fb_owner_probe os owner w = (rc, owner', w')" by (rule prod_cases3)
  from probe_refines[OF assms(1) r] show ?thesis using r by (simp add: owner_call_def Probe)
next
  case Acquire
  obtain rc owner' w' where r: "fb_owner_acquire os owner w = (rc, owner', w')" by (rule prod_cases3)
  from acquire_refines[OF assms(1) r] show ?thesis using r by (simp add: owner_call_def Acquire)
next
  case Release
  obtain rc owner' w' where r: "fb_owner_release os owner w = (rc, owner', w')" by (rule prod_cases3)
  from release_refines[OF assms(1) r] show ?thesis using r by (simp add: owner_call_def Release)
next
  case (Write_frame frame len)
  with assms(2) have ok: "frame_call_ok (Write_frame frame len)" by simp
  obtain rc owner' w' where r: "fb_owner_write_frame os owner frame len w = Some (rc, owner', w')"
    using write_frame_returns[OF assms(1) ok assms(3)] by blast
  from write_frame_refines[OF assms(1) ok r] show ?thesis using r by (simp add: owner_call_def Write_frame)
qed

lemma calls_refine:
  assumes "owner_ok bound bind_path dev_path original owner w" "list_all frame_call_ok cs"
    and "0 \<le> frames_written owner" "frames_written owner + int (length cs) \<le> INT32_MAX"
  shows "\<exists>owner' w'. owner_calls os cs owner w = Some (owner', w')
    \<and> owner_ok bound bind_path dev_path original owner' w'"
  using assms
proof (induction cs arbitrary: owner w)
  case (Cons c cs)
  from call_refines[OF Cons.prems(1), of c] Cons.prems(2-4) obtain rc owner' w'
    where call: "owner_call os c owner w = Some (rc, owner', w')"
    and ok: "owner_ok bound bind_path dev_path original owner' w'"
    and cnt: "frames_written owner \<le> frames_written owner'" "frames_written owner' \<le> frames_written owner + 1"
    by (auto simp: in_int32_def)
  have "\<exists>owner'' w''. owner_calls os cs owner' w' = Some (owner'', w'')
      \<and> owner_ok bound bind_path dev_path original owner'' w''"
    using ok by (rule Cons.IH) (use Cons.prems cnt in auto)
  then show ?case using call by simp
qed simp

end

lemma frames_written_init [simp]: "frames_written (fb_owner_init root) = 0"
  by (simp add: fb_owner_init_def)

lemma owner_ok_init:
  "owner_ok bound (vtcon_bind_path (fb_owner_init root)) (fb_path (fb_owner_init root)) (bound w)
     (fb_owner_init root) w"
  by (simp add: owner_ok_def fb_owner_init_def)

section \<open>A fixture of the platform\<close>

text \<open>The host fixture: a tree of text files, streams whose output reaches the file when they are closed,
  and a framebuffer that takes at most \<open>fx_chunk\<close> bytes at a time, after the first \<open>fx_interrupts\<close> calls were interrupted.\<close>

record fixture =
  fx_files :: "string \<rightharpoonup> string"
  fx_streams :: "(string \<times> string) list"
  fx_screen :: "u8 list"
  fx_offsets :: "nat list"
  fx_chunk :: nat
  fx_interrupts :: nat

definition fixture_fopen :: "string \<Rightarrow> string \<Rightarrow> fixture \<Rightarrow> nat ptr \<times> fixture" where
  "fixture_fopen path mode w = (case fx_files w path of None \<Rightarrow> (NULL, w)
     | Some _ \<Rightarrow> (Ptr (length (fx_streams w)), w\<lparr>fx_streams := fx_streams w @ [(path, '''')]\<rparr>))"

definition fixture_contents :: "nat \<Rightarrow> fixture \<Rightarrow> string \<times> fixture" where
  "fixture_contents fp w = (case fx_files w (fst (fx_streams w ! fp)) of None \<Rightarrow> '''' | Some s \<Rightarrow> s, w)"

definition fixture_fprintf :: "nat \<Rightarrow> string \<Rightarrow> fixture \<Rightarrow> int \<times> fixture" where
  "fixture_fprintf fp s w = (int (length s),
     w\<lparr>fx_streams := (fx_streams w)[fp := (fst (fx_streams w ! fp), snd (fx_streams w ! fp) @ s)]\<rparr>)"

definition fixture_fclose :: "nat \<Rightarrow> fixture \<Rightarrow> int \<times> fixture" where
  "fixture_fclose fp w = (0, if snd (fx_streams w ! fp) = '''' then w
     else w\<lparr>fx_files := (fx_files w)(fst (fx_streams w ! fp) \<mapsto> snd (fx_streams w ! fp))\<rparr>)"

definition fixture_open :: "string \<Rightarrow> string \<Rightarrow> u32 \<Rightarrow> fixture \<Rightarrow> int \<times> fixture" where
  "fixture_open dev path flags w = (if path \<noteq> dev then (- 1, w)
     else (int (length (fx_offsets w)), w\<lparr>fx_offsets := fx_offsets w @ [0]\<rparr>))"

definition fixture_pos :: "int \<Rightarrow> fixture \<Rightarrow> nat option" where
  "fixture_pos fd w = (if 0 \<le> fd \<and> nat fd < length (fx_offsets w) then Some (fx_offsets w ! nat fd) else None)"

definition fixture_lseek :: "int \<Rightarrow> int \<Rightarrow> fixture \<Rightarrow> int \<times> fixture" where
  "fixture_lseek fd off w = (if fixture_pos fd w = None \<or> off < 0 then (- 1, w)
     else (off, w\<lparr>fx_offsets := (fx_offsets w)[nat fd := nat off]\<rparr>))"

definition fixture_write :: "int \<Rightarrow> u8 list \<Rightarrow> fixture \<Rightarrow> write_result \<times> fixture" where
  "fixture_write fd bs w = (case fixture_pos fd w of None \<Rightarrow> (Write_error 9, w)
     | Some p \<Rightarrow> if 0 < fx_interrupts w then (Write_error EINTR_errno, w\<lparr>fx_interrupts := fx_interrupts w - 1\<rparr>)
       else if length (fx_screen w) < p then (Write_error 27, w)
       else let n = min (fx_chunk w) (min (length bs) (length (fx_screen w) - p))
            in (Wrote n, w\<lparr>fx_screen := take p (fx_screen w) @ take n bs @ drop (p + n) (fx_screen w),
                  fx_offsets := (fx_offsets w)[nat fd := p + n]\<rparr>))"

definition fixture_os :: "string \<Rightarrow> fixture fb_os" where
  "fixture_os dev = \<lparr>fo_fopen = fixture_fopen, fo_contents = fixture_contents, fo_fprintf = fixture_fprintf,
     fo_fclose = fixture_fclose, fo_open = fixture_open dev,
     fo_fstat = (\<lambda>fd w. (Some (S_IFCHR, 0), w)),
     fo_smem_len = (\<lambda>fd w. (Some (of_nat (length (fx_screen w))), w)),
     fo_lseek = fixture_lseek, fo_write = fixture_write, fo_close = (\<lambda>fd w. (0, w))\<rparr>"

definition fixture_bound :: "string \<Rightarrow> fixture \<Rightarrow> bool" where
  "fixture_bound path w = (case fx_files w path of None \<Rightarrow> False
     | Some s \<Rightarrow> (case scan_int s of None \<Rightarrow> False | Some (v, _) \<Rightarrow> v \<noteq> 0))"

lemma show_nat_nonempty [simp]: "show_nat v \<noteq> []"
  using show_nat_digits by blast

lemmas fixture_defs = fixture_os_def fixture_fopen_def fixture_contents_def fixture_fprintf_def fixture_fclose_def
  fixture_open_def fixture_pos_def fixture_lseek_def fixture_write_def fixture_bound_def

interpretation fixture: fb_platform "fixture_os dev" "fixture_bound node" fx_screen fixture_pos fx_interrupts node dev
  for dev node
proof (unfold_locales, goal_cases)
  case 1
  then show ?case by (auto simp: fixture_defs split: option.splits if_splits)
next
  case 2
  then show ?case by (auto simp: fixture_defs split: option.splits if_splits)
next
  case 3
  then show ?case by (auto simp: fixture_defs split: option.splits if_splits)
next
  case 4
  then show ?case by (auto simp: fixture_defs split: option.splits if_splits)
next
  case 5
  then show ?case by (auto simp: fixture_defs scan_int_show_nat split: option.splits if_splits)
next
  case 6
  then show ?case by (auto simp: fixture_defs split: option.splits if_splits)
next
  case 7
  then show ?case by (auto simp: fixture_defs split: option.splits if_splits)
next
  case 8
  then show ?case by (auto simp: fixture_defs split: option.splits if_splits)
next
  case 9
  then show ?case by (auto simp: fixture_defs split: option.splits if_splits)
next
  case 10
  then show ?case by (auto simp: fixture_defs Let_def split: option.splits if_splits)
next
  case (11 fd bs w n w1 p)
  have fd: "0 \<le> fd" "nat fd < length (fx_offsets w)" "fx_offsets w ! nat fd = p"
    using 11(2) by (auto simp: fixture_pos_def split: if_splits)
  have w: "fx_interrupts w = 0" "p \<le> length (fx_screen w)"
      "n = min (fx_chunk w) (min (length bs) (length (fx_screen w) - p))"
      "w1 = w\<lparr>fx_screen := take p (fx_screen w) @ take n bs @ drop (p + n) (fx_screen w),
                fx_offsets := (fx_offsets w)[nat fd := p + n]\<rparr>"
    using 11 by (auto simp: fixture_os_def fixture_write_def Let_def split: if_splits)
  have "n \<le> length bs" "p + n \<le> length (fx_screen w)" using w(2,3) by linarith+
  then show ?case unfolding w(4) using fd by (simp add: fixture_bound_def fixture_pos_def)
next
  case 12
  then show ?case by (auto simp: fixture_os_def fixture_write_def fixture_bound_def fixture_pos_def Let_def split: option.splits if_splits)
qed

section \<open>Correctness\<close>

text \<open>C6. Refinement.  On every platform, each call of the owner returns 0 or -1, keeps the owner's invariant
  and is a step of the console lease with that success: a successful frame shows all of its bytes, a torn
  one changes nothing behind it, and both happen only while no console is bound.\<close>

theorem fb_owner_refines_lease:
  assumes "fb_platform os bound screen pos interrupts bind_path dev_path"
    and "owner_ok bound bind_path dev_path original owner w"
    and "frame_call_ok c" and "in_int32 (frames_written owner + 1)"
  shows "\<exists>rc owner' w'. owner_call os c owner w = Some (rc, owner', w')
    \<and> (rc = 0 \<or> rc = - 1) \<and> owner_ok bound bind_path dev_path original owner' w'
    \<and> lease_step (owner_lease bound screen owner w) c (rc = 0) (owner_lease bound screen owner' w')"
  using fb_platform.call_refines[OF assms] by blast

text \<open>A vtconsole that is bound, and a framebuffer of two by one pixels that takes three bytes at a time
  after one interrupted call.\<close>

definition demo_fixture :: fixture where
  "demo_fixture = \<lparr>fx_files = [''/sys/class/vtconsole/vtcon1/bind'' \<mapsto> ''1'', ''/sys/class/graphics/fb0/virtual_size'' \<mapsto> ''2,1'',
      ''/sys/class/graphics/fb0/bits_per_pixel'' \<mapsto> ''32''],
     fx_streams = [], fx_screen = replicate 8 0, fx_offsets = [], fx_chunk = 3, fx_interrupts = 1\<rparr>"

definition demo_frame :: "u8 list" where
  "demo_frame = [1, 2, 3, 4, 5, 6, 7, 8]"

lemma demo_node: "vtcon_bind_path (fb_owner_init (Ptr '''')) = ''/sys/class/vtconsole/vtcon1/bind''"
  by (simp add: fb_owner_init_def join_def sset_def sappend_def fit_def)

lemma demo_dev: "fb_path (fb_owner_init (Ptr '''')) = ''/dev/fb0''"
  by (simp add: fb_owner_init_def join_def sset_def sappend_def fit_def)

theorem fb_owner_refines_lease_witness:
  "\<exists>rc owner' w'. owner_call (fixture_os ''/dev/fb0'') Probe (fb_owner_init (Ptr '''')) demo_fixture = Some (rc, owner', w')
    \<and> (rc = 0 \<or> rc = - 1)
    \<and> owner_ok (fixture_bound ''/sys/class/vtconsole/vtcon1/bind'') ''/sys/class/vtconsole/vtcon1/bind'' ''/dev/fb0''
        (fixture_bound ''/sys/class/vtconsole/vtcon1/bind'' demo_fixture) owner' w'
    \<and> lease_step (owner_lease (fixture_bound ''/sys/class/vtconsole/vtcon1/bind'') fx_screen (fb_owner_init (Ptr '''')) demo_fixture)
        Probe (rc = 0) (owner_lease (fixture_bound ''/sys/class/vtconsole/vtcon1/bind'') fx_screen owner' w')"
proof (rule fb_owner_refines_lease[OF fixture.fb_platform_axioms])
  show "owner_ok (fixture_bound ''/sys/class/vtconsole/vtcon1/bind'') ''/sys/class/vtconsole/vtcon1/bind'' ''/dev/fb0''
      (fixture_bound ''/sys/class/vtconsole/vtcon1/bind'' demo_fixture) (fb_owner_init (Ptr '''')) demo_fixture"
    using owner_ok_init[of "fixture_bound ''/sys/class/vtconsole/vtcon1/bind''" "Ptr ''''" demo_fixture]
    unfolding demo_node demo_dev .
qed (simp_all add: frame_call_ok_def fb_owner_init_def in_int32_def)

text \<open>C12. Safety.  After any sequence of calls on a fresh owner, whatever failed in between, a release that
  returns 0 leaves the console as it was before the first call; one that fails keeps the flag that makes the next
  release try again, and the console is unbound only in that case.\<close>

theorem release_restores_console:
  assumes "fb_platform os bound screen pos interrupts (vtcon_bind_path (fb_owner_init root)) (fb_path (fb_owner_init root))"
    and "list_all frame_call_ok cs" and "int (length cs) \<le> INT32_MAX"
  shows "\<exists>owner w1 rc owner' w2. owner_calls os cs (fb_owner_init root) w = Some (owner, w1)
    \<and> fb_owner_release os owner w1 = (rc, owner', w2)
    \<and> (rc = 0 \<longrightarrow> bound w2 = bound w \<and> ow_state owner' = FB_OWNER_RELEASED)
    \<and> (rc \<noteq> 0 \<longrightarrow> rc = - 1 \<and> fbcon_unbound_by_us owner' \<and> bound w \<and> \<not> bound w2)"
proof -
  let ?node = "vtcon_bind_path (fb_owner_init root)" and ?dev = "fb_path (fb_owner_init root)"
  obtain owner w1 where run: "owner_calls os cs (fb_owner_init root) w = Some (owner, w1)"
    and ok: "owner_ok bound ?node ?dev (bound w) owner w1"
    using fb_platform.calls_refine[OF assms(1) owner_ok_init[of bound root w] assms(2)] assms(3) by auto
  obtain rc owner' w2 where rel: "fb_owner_release os owner w1 = (rc, owner', w2)" by (rule prod_cases3)
  have ok': "rc = 0 \<or> rc = - 1" "owner_ok bound ?node ?dev (bound w) owner' w2"
    using fb_platform.release_refines[OF assms(1) ok rel] by blast+
  have "(rc = 0 \<longrightarrow> ow_state owner' = FB_OWNER_RELEASED) \<and> (rc \<noteq> 0 \<longrightarrow> fbcon_unbound_by_us owner')"
    using rel unfolding fb_owner_release_def by (auto split: if_splits prod.splits)
  then show ?thesis using run rel ok' by (auto simp: owner_ok_def)
qed

theorem release_restores_console_witness:
  "\<exists>owner w1 rc owner' w2.
     owner_calls (fixture_os (fb_path (fb_owner_init (Ptr ''''))))
       [Probe, Acquire, Write_frame (Ptr demo_frame) 8, Acquire] (fb_owner_init (Ptr '''')) demo_fixture = Some (owner, w1)
    \<and> fb_owner_release (fixture_os (fb_path (fb_owner_init (Ptr '''')))) owner w1 = (rc, owner', w2)
    \<and> (rc = 0 \<longrightarrow> fixture_bound (vtcon_bind_path (fb_owner_init (Ptr ''''))) w2
          = fixture_bound (vtcon_bind_path (fb_owner_init (Ptr ''''))) demo_fixture \<and> ow_state owner' = FB_OWNER_RELEASED)
    \<and> (rc \<noteq> 0 \<longrightarrow> rc = - 1 \<and> fbcon_unbound_by_us owner'
          \<and> fixture_bound (vtcon_bind_path (fb_owner_init (Ptr ''''))) demo_fixture
          \<and> \<not> fixture_bound (vtcon_bind_path (fb_owner_init (Ptr ''''))) w2)"
  by (rule release_restores_console[OF fixture.fb_platform_axioms]) (simp_all add: frame_call_ok_def demo_frame_def)

end
