(* ===== verification/Dash_Input.thy ===== *)
theory Dash_Input
  imports Fb_Owner Input_Poll
begin

text \<open>
  The identity-selected evdev input of the dashboard, \<open>toolkit/examples/vita-dashboard/src/input.c\<close> and
  \<open>input.h\<close>.  A device is chosen by the exact text of its sysfs \<open>phys\<close> node; a poll drains the events that are
  there, and the last key that means something decides.  The operations of the world are those of the
  framebuffer owner, reading, polling, the clock and the stop flag that the signal handlers set.
\<close>

section \<open>The operating system\<close>

datatype poll_result = Poll_error errno | Poll_timeout | Poll_ready u16

record 'w dash_os =
  ds_files :: "'w fb_os"
  ds_read :: "int \<Rightarrow> nat \<Rightarrow> 'w \<Rightarrow> read_result \<times> 'w"
  ds_poll :: "int \<Rightarrow> int \<Rightarrow> 'w \<Rightarrow> poll_result \<times> 'w"
  ds_clock :: "'w \<Rightarrow> (u32 \<times> u32) option \<times> 'w"       \<comment> \<open>seconds and nanoseconds\<close>
  ds_stop :: "'w \<Rightarrow> bool \<times> 'w"                    \<comment> \<open>\<open>stop_requested\<close>\<close>
  ds_print :: "string \<Rightarrow> 'w \<Rightarrow> bool \<times> 'w"           \<comment> \<open>a report on \<open>stdout\<close>, and whether it could be flushed\<close>

section \<open>State\<close>

datatype dashboard_action = DASHBOARD_ACTION_NONE | DASHBOARD_ACTION_NEXT | DASHBOARD_ACTION_EXIT

record dashboard_input =
  di_fd :: int
  di_number :: nat
  di_name :: string
  di_phys :: string
  di_path :: string
  events_seen :: u32
  malformed :: u32

abbreviation INPUT_TEXT :: nat where "INPUT_TEXT \<equiv> 256"

section \<open>Operations\<close>

text \<open>A buffer of \<open>cap\<close> characters filled by one \<open>read\<close>, without the line ends at its end; the text ends at
  the first NUL.\<close>

definition read_text :: "'w dash_os \<Rightarrow> string \<Rightarrow> nat \<Rightarrow> 'w \<Rightarrow> string option \<times> 'w" where
  "read_text os path cap w =
    (if cap \<le> 1 then (None, w)
     else case fo_open (ds_files os) path O_RDONLY_flag w of (fd, w) \<Rightarrow>
     if fd < 0 then (None, w)
     else case ds_read os fd (cap - 1) w of (r, w) \<Rightarrow> case fo_close (ds_files os) fd w of (_, w) \<Rightarrow>
     (case r of Failed _ \<Rightarrow> None
        | Got bs \<Rightarrow> let s = trim_end (map (\<lambda>b. char_of (unat b)) bs) in if bs = [] \<or> s = [] then None else Some (c_str s), w))"

definition blank_input :: dashboard_input where
  "blank_input = \<lparr>di_fd = - 1, di_number = 0, di_name = '''', di_phys = '''', di_path = '''', events_seen = 0, malformed = 0\<rparr>"

definition event_path :: "string \<Rightarrow> nat \<Rightarrow> string \<Rightarrow> string" where
  "event_path sysroot number leaf = fit INPUT_TEXT (sysroot @ ''/sys/class/input/event'' @ show_nat number @ ''/device/'' @ leaf)"

definition node_path :: "string \<Rightarrow> nat \<Rightarrow> string" where
  "node_path devroot number = fit INPUT_TEXT (devroot @ ''/event'' @ show_nat number)"

text \<open>One candidate: \<open>None\<close> to continue with the next number.\<close>

definition try_device ::
  "'w dash_os \<Rightarrow> string \<Rightarrow> string \<Rightarrow> string \<Rightarrow> nat \<Rightarrow> 'w \<Rightarrow> dashboard_input option \<times> 'w" where
  "try_device os sysroot devroot wanted number w =
    (case read_text os (event_path sysroot number ''phys'') INPUT_TEXT w of
       (None, w) \<Rightarrow> (None, w)
     | (Some phys, w) \<Rightarrow>
       if phys \<noteq> wanted then (None, w)
       else case fo_open (ds_files os) (node_path devroot number) 0x800 w of (fd, w) \<Rightarrow>
       if fd < 0 then (None, w)
       else case read_text os (event_path sysroot number ''name'') INPUT_TEXT w of (name, w) \<Rightarrow>
         (Some (blank_input\<lparr>di_fd := fd, di_number := number, di_phys := sset '''' INPUT_TEXT (Ptr phys),
            di_path := sset '''' INPUT_TEXT (Ptr (node_path devroot number)),
            di_name := (case name of None \<Rightarrow> sset '''' INPUT_TEXT (Ptr ''UNKNOWN'') | Some n \<Rightarrow> n)\<rparr>), w))"

fun try_devices ::
  "'w dash_os \<Rightarrow> string \<Rightarrow> string \<Rightarrow> string \<Rightarrow> nat list \<Rightarrow> 'w \<Rightarrow> (int \<times> dashboard_input) \<times> 'w" where
  "try_devices os sysroot devroot wanted [] w = ((- 1, blank_input), w)"
| "try_devices os sysroot devroot wanted (n # ns) w = (case try_device os sysroot devroot wanted n w of
     (None, w) \<Rightarrow> try_devices os sysroot devroot wanted ns w
   | (Some inp, w) \<Rightarrow> ((0, inp), w))"

definition input_open ::
  "'w dash_os \<Rightarrow> string ptr \<Rightarrow> string ptr \<Rightarrow> string ptr \<Rightarrow> 'w \<Rightarrow> (int \<times> dashboard_input) \<times> 'w" where
  "input_open os sysroot devroot wanted w = (case wanted of NULL \<Rightarrow> ((- 1, blank_input), w)
     | Ptr phys \<Rightarrow> if phys = '''' then ((- 1, blank_input), w)
       else try_devices os (case sysroot of NULL \<Rightarrow> '''' | Ptr s \<Rightarrow> s)
              (case devroot of NULL \<Rightarrow> ''/dev/input'' | Ptr d \<Rightarrow> d) phys [0..<128] w)"

definition action_for :: "u16 \<Rightarrow> dashboard_action" where
  "action_for code =
    (if code = 0x131 \<or> code = 1 \<or> code = 16 then DASHBOARD_ACTION_EXIT
     else if code = 0x130 \<or> code = 108 \<or> code = 57 \<or> code = 28 \<or> code = 15 then DASHBOARD_ACTION_NEXT
     else DASHBOARD_ACTION_NONE)"

definition take_event :: "input_event \<Rightarrow> dashboard_action \<Rightarrow> dashboard_action" where
  "take_event ev action =
    (if ev_type ev = 1 \<and> (ev_value ev = 1 \<or> ev_value ev = 2) \<and> action_for (ev_code ev) \<noteq> DASHBOARD_ACTION_NONE
     then action_for (ev_code ev) else action)"

partial_function (option) drain ::
  "'w dash_os \<Rightarrow> dashboard_input \<Rightarrow> dashboard_action \<Rightarrow> 'w \<Rightarrow> (dashboard_input \<times> dashboard_action \<times> 'w) option" where
  "drain os inp action w = (case ds_read os (di_fd inp) 16 w of
     (Failed _, w) \<Rightarrow> Some (inp, action, w)
   | (Got bs, w) \<Rightarrow>
       if bs = [] then Some (inp, action, w)
       else if length bs \<noteq> 16 then Some (inp\<lparr>malformed := malformed inp + 1\<rparr>, action, w)
       else drain os (inp\<lparr>events_seen := events_seen inp + 1\<rparr>) (take_event (decode_event bs) action) w)"

definition input_poll ::
  "'w dash_os \<Rightarrow> dashboard_input \<Rightarrow> int \<Rightarrow> 'w \<Rightarrow> (int \<times> dashboard_input \<times> dashboard_action \<times> 'w) option" where
  "input_poll os inp timeout_ms w =
    (if di_fd inp < 0 then Some (- 1, inp, DASHBOARD_ACTION_NONE, w)
     else case ds_poll os (di_fd inp) (if timeout_ms < 0 then 0 else timeout_ms) w of
       (Poll_error e, w) \<Rightarrow> Some (if e = EINTR then 0 else - 1, inp, DASHBOARD_ACTION_NONE, w)
     | (Poll_timeout, w) \<Rightarrow> Some (0, inp, DASHBOARD_ACTION_NONE, w)
     | (Poll_ready revents, w) \<Rightarrow>
         if revents AND 1 = 0 then Some (0, inp, DASHBOARD_ACTION_NONE, w)
         else do { (inp, action, w) \<leftarrow> drain os inp DASHBOARD_ACTION_NONE w; Some (0, inp, action, w) })"

definition input_close :: "'w dash_os \<Rightarrow> dashboard_input \<Rightarrow> 'w \<Rightarrow> dashboard_input \<times> 'w" where
  "input_close os inp w = (if 0 \<le> di_fd inp
     then case fo_close (ds_files os) (di_fd inp) w of (_, w) \<Rightarrow> (inp\<lparr>di_fd := - 1\<rparr>, w) else (inp, w))"

section \<open>Draining a device\<close>

text \<open>What evdev promises: a read gives the next whole event of the queue, and no bytes when it is empty.\<close>

locale event_queue =
  fixes os :: "'w dash_os" and queue :: "int \<Rightarrow> 'w \<Rightarrow> u8 list list"
  assumes next_event: "queue fd w = e # es \<Longrightarrow> ds_read os fd 16 w = (r, w') \<Longrightarrow> r = Got e \<and> queue fd w' = es"
    and no_event: "queue fd w = [] \<Longrightarrow> ds_read os fd 16 w = (r, w') \<Longrightarrow> r = Got [] \<or> (\<exists>e. r = Failed e)"
    and whole_events: "e \<in> set (queue fd w) \<Longrightarrow> length e = 16"
begin

lemma drain_returns:
  "\<exists>w'. drain os inp action w = Some (inp\<lparr>events_seen := events_seen inp + of_nat (length (queue (di_fd inp) w))\<rparr>,
      fold take_event (map decode_event (queue (di_fd inp) w)) action, w')"
proof (induction "queue (di_fd inp) w" arbitrary: inp action w)
  case Nil
  obtain r w' where r: "ds_read os (di_fd inp) 16 w = (r, w')" by fastforce
  from no_event[OF Nil(1)[symmetric] r] show ?case
    using r Nil by (subst drain.simps) auto
next
  case (Cons e es)
  obtain r w1 where r: "ds_read os (di_fd inp) 16 w = (r, w1)" by fastforce
  from next_event[OF Cons(2)[symmetric] r] have e: "r = Got e" "queue (di_fd inp) w1 = es" by simp_all
  have len: "length e = 16" using whole_events[of e "di_fd inp" w] Cons(2) by (metis list.set_intros(1))
  then have "e \<noteq> []" by auto
  let ?inp = "inp\<lparr>events_seen := events_seen inp + 1\<rparr>"
  obtain w' where "drain os ?inp (take_event (decode_event e) action) w1
      = Some (?inp\<lparr>events_seen := events_seen ?inp + of_nat (length es)\<rparr>, fold take_event (map decode_event es)
          (take_event (decode_event e) action), w')"
    using Cons(1)[of ?inp w1] e(2) by auto
  then show ?case using r e len \<open>e \<noteq> []\<close> Cons(2)[symmetric] by (subst drain.simps) (simp add: add.assoc)
qed

lemma poll_returns:
  assumes "0 \<le> di_fd inp" "ds_poll os (di_fd inp) (max 0 timeout_ms) w = (p, w1)"
  shows "\<exists>rc inp' action w'. input_poll os inp timeout_ms w = Some (rc, inp', action, w')
    \<and> (rc = - 1 \<longleftrightarrow> (\<exists>e. p = Poll_error e \<and> e \<noteq> EINTR)) \<and> (rc = 0 \<or> rc = - 1)
    \<and> (if \<exists>revents. p = Poll_ready revents \<and> revents AND 1 \<noteq> 0
       then action = fold take_event (map decode_event (queue (di_fd inp) w1)) DASHBOARD_ACTION_NONE
         \<and> inp' = inp\<lparr>events_seen := events_seen inp + of_nat (length (queue (di_fd inp) w1))\<rparr>
       else action = DASHBOARD_ACTION_NONE \<and> inp' = inp)"
proof -
  have t: "(if timeout_ms < 0 then 0 else timeout_ms) = max 0 timeout_ms" by simp
  obtain w2 where "drain os inp DASHBOARD_ACTION_NONE w1
      = Some (inp\<lparr>events_seen := events_seen inp + of_nat (length (queue (di_fd inp) w1))\<rparr>,
          fold take_event (map decode_event (queue (di_fd inp) w1)) DASHBOARD_ACTION_NONE, w2)"
    using drain_returns by blast
  then show ?thesis using assms unfolding input_poll_def t by (cases p) auto
qed

end

text \<open>The last press or repeat of a mapped key decides.\<close>

definition actionable :: "input_event \<Rightarrow> bool" where
  "actionable ev \<longleftrightarrow> ev_type ev = 1 \<and> (ev_value ev = 1 \<or> ev_value ev = 2) \<and> action_for (ev_code ev) \<noteq> DASHBOARD_ACTION_NONE"

lemma take_event_actionable: "take_event ev a = (if actionable ev then action_for (ev_code ev) else a)"
  by (simp add: take_event_def actionable_def)

lemma fold_take_event:
  "fold take_event evs a = (if filter actionable evs = [] then a else action_for (ev_code (last (filter actionable evs))))"
  by (induction evs rule: rev_induct) (simp_all add: take_event_actionable)

section \<open>Correctness\<close>

text \<open>C22. Functional.  A poll that finds the device readable consumes every queued event and returns the action of the last
  press or repeat of a mapped key, or none; a timeout, an interrupted poll or another event changes nothing, and only a
  real poll error is reported.\<close>

theorem last_key_wins:
  assumes "event_queue os queue" and "0 \<le> di_fd inp" and "ds_poll os (di_fd inp) (max 0 timeout_ms) w = (p, w1)"
  shows "\<exists>rc inp' action w'. input_poll os inp timeout_ms w = Some (rc, inp', action, w')
    \<and> (rc = - 1 \<longleftrightarrow> (\<exists>e. p = Poll_error e \<and> e \<noteq> EINTR)) \<and> (rc = 0 \<or> rc = - 1)
    \<and> (if \<exists>revents. p = Poll_ready revents \<and> revents AND 1 \<noteq> 0
       then let keys = filter actionable (map decode_event (queue (di_fd inp) w1))
            in action = (if keys = [] then DASHBOARD_ACTION_NONE else action_for (ev_code (last keys)))
              \<and> inp' = inp\<lparr>events_seen := events_seen inp + of_nat (length (queue (di_fd inp) w1))\<rparr>
       else action = DASHBOARD_ACTION_NONE \<and> inp' = inp)"
  using event_queue.poll_returns[OF assms] unfolding fold_take_event Let_def .

text \<open>A world that is a queue of events of one device.\<close>

definition queue_os :: "u8 list list dash_os" where
  "queue_os = \<lparr>ds_files = \<lparr>fo_fopen = (\<lambda>_ _ w. (NULL, w)), fo_contents = (\<lambda>_ w. ('''', w)), fo_fprintf = (\<lambda>_ _ w. (- 1, w)),
       fo_fclose = (\<lambda>_ w. (0, w)), fo_open = (\<lambda>_ _ w. (3, w)), fo_fstat = (\<lambda>_ w. (None, w)), fo_smem_len = (\<lambda>_ w. (None, w)),
       fo_lseek = (\<lambda>_ _ w. (- 1, w)), fo_write = (\<lambda>_ _ w. (Write_error 9, w)), fo_close = (\<lambda>_ w. (0, w))\<rparr>,
     ds_read = (\<lambda>fd n w. case filter (\<lambda>e. length e = 16) w of [] \<Rightarrow> (Got [], w) | e # es \<Rightarrow> (Got e, es)),
     ds_poll = (\<lambda>fd t w. (if w = [] then Poll_timeout else Poll_ready 1, w)),
     ds_clock = (\<lambda>w. (None, w)), ds_stop = (\<lambda>w. (False, w)), ds_print = (\<lambda>_ w. (True, w))\<rparr>"

interpretation queue_device: event_queue queue_os "\<lambda>fd w. filter (\<lambda>e. length e = 16) w"
proof
  fix fd :: int and w es :: "u8 list list" and e r w'
  assume q: "filter (\<lambda>e. length e = 16) w = e # es" and r: "ds_read queue_os fd 16 w = (r, w')"
  have "\<forall>x \<in> set es. length x = 16" using arg_cong[OF q, of set] by auto
  then have "filter (\<lambda>e. length e = 16) es = es" by (simp add: filter_id_conv)
  then show "r = Got e \<and> filter (\<lambda>e. length e = 16) w' = es" using q r by (simp add: queue_os_def)
qed (auto simp: queue_os_def)

text \<open>A press of space (57) after a press of escape (1): two events of 16 bytes.\<close>

definition demo_events :: "u8 list list" where
  "demo_events = [[0, 0, 0, 0, 0, 0, 0, 0, 1, 0, 1, 0, 1, 0, 0, 0], [0, 0, 0, 0, 0, 0, 0, 0, 1, 0, 57, 0, 1, 0, 0, 0]]"

theorem last_key_wins_witness:
  "\<exists>rc inp' action w'. input_poll queue_os (blank_input\<lparr>di_fd := 3\<rparr>) 120 demo_events = Some (rc, inp', action, w')
    \<and> rc = 0 \<and> action = DASHBOARD_ACTION_NEXT \<and> events_seen inp' = 2"
proof -
  let ?inp = "blank_input\<lparr>di_fd := 3\<rparr>"
  let ?keys = "filter actionable (map decode_event (filter (\<lambda>e. length e = 16) demo_events))"
  have keys: "?keys \<noteq> []" "action_for (ev_code (last ?keys)) = DASHBOARD_ACTION_NEXT"
    by (simp_all add: demo_events_def decode_event_def actionable_def action_for_def le_u16_def le_s32_def)
  have len: "length (filter (\<lambda>e. length e = 16) demo_events) = 2" by (simp add: demo_events_def)
  have poll: "0 \<le> di_fd ?inp" "ds_poll queue_os (di_fd ?inp) (max 0 120) demo_events = (Poll_ready 1, demo_events)"
    by (simp_all add: queue_os_def demo_events_def)
  show ?thesis
    using last_key_wins[OF queue_device.event_queue_axioms poll] keys len by (auto simp: Let_def blank_input_def)
qed

end
