(* ===== verification/Dash_Status.thy ===== *)
theory Dash_Status
  imports Fb_Owner "HOL-Library.Sublist"
begin

text \<open>
  The read-only status providers of the dashboard, \<open>toolkit/examples/vita-dashboard/src/status.c\<close> and
  \<open>status.h\<close>: system facts from \<open>/proc\<close> and \<open>/sys\<close> as texts of fewer than 96 characters, with \<open>UNKNOWN\<close> for what
  is not there.  Files are read through the stream operations of the framebuffer owner's world.  The
  conversion of a decimal fraction to \<open>double\<close> and back to \<open>unsigned long\<close> is the parameter \<open>seconds_of\<close>.
\<close>

section \<open>State\<close>

record dashboard_status =
  st_kernel :: string
  st_arch :: string
  st_cpus_online :: string
  st_memory_available :: string
  st_uptime :: string
  st_interface :: string
  st_address :: string
  st_storage :: string
  st_toolkit :: string
  st_compiler :: string
  st_workspace :: string

abbreviation STATUS_FIELD :: nat where "STATUS_FIELD \<equiv> 96"

section \<open>Reading\<close>

definition unknown :: string where
  "unknown = sset '''' STATUS_FIELD (Ptr ''UNKNOWN'')"

definition path_join :: "nat \<Rightarrow> string \<Rightarrow> string \<Rightarrow> string" where
  "path_join cap root tail = take (cap - 1) (root @ tail)"

text \<open>The text of a file, read through one stream.\<close>

definition slurp :: "'w fb_os \<Rightarrow> string \<Rightarrow> 'w \<Rightarrow> string option \<times> 'w" where
  "slurp os path w = (case fo_fopen os path ''r'' w of
     (NULL, w) \<Rightarrow> (None, w)
   | (Ptr fp, w) \<Rightarrow> (case fo_contents os fp w of (s, w) \<Rightarrow> case fo_fclose os fp w of (_, w) \<Rightarrow> (Some s, w)))"

definition cut_line :: "string \<Rightarrow> string" where
  "cut_line s = takeWhile (\<lambda>c. c \<noteq> CHR 0x0D \<and> c \<noteq> CHR 0x0A) s"

definition read_first_line :: "'w fb_os \<Rightarrow> string \<Rightarrow> nat \<Rightarrow> 'w \<Rightarrow> string option \<times> 'w" where
  "read_first_line os path cap w = (case slurp os path w of
     (None, w) \<Rightarrow> (None, w)
   | (Some s, w) \<Rightarrow> (let out = cut_line (c_str (fst (fgets cap s)))
                    in if s = [] \<or> out = [] then None else Some out, w))"

definition read_or_unknown :: "'w fb_os \<Rightarrow> string \<Rightarrow> string \<Rightarrow> 'w \<Rightarrow> string \<times> 'w" where
  "read_or_unknown os root tail w = (case read_first_line os (path_join 256 root tail) STATUS_FIELD w of
     (None, w) \<Rightarrow> (unknown, w) | (Some s, w) \<Rightarrow> (s, w))"

text \<open>The lines that a loop of \<open>fgets\<close> with a buffer of \<open>cap\<close> characters sees.\<close>

lemma fgets_shrinks: "fgets cap s = (l, rest) \<Longrightarrow> s \<noteq> [] \<Longrightarrow> 1 < cap \<Longrightarrow> length rest < length s"
proof (induction cap s arbitrary: l rest rule: fgets.induct)
  case (3 n c cs)
  show ?case
  proof (cases "c = CHR 0x0A")
    case False
    obtain l' where f: "fgets n cs = (l', rest)" using 3 False by (auto split: prod.splits if_splits)
    have "length rest \<le> length cs"
    proof (cases "cs = [] \<or> n = 1")
      case True
      then show ?thesis using f "3.prems" by (cases n; cases cs) (auto split: if_splits)
    next
      case no: False
      then have "length rest < length cs" using "3.IH"[OF _ False f] "3.prems" by simp
      then show ?thesis by simp
    qed
    then show ?thesis by simp
  qed (use 3 in auto)
qed auto

function lines_of :: "nat \<Rightarrow> string \<Rightarrow> string list" where
  "lines_of cap s = (if s = [] \<or> cap \<le> 1 then [] else case fgets cap s of (l, rest) \<Rightarrow> c_str l # lines_of cap rest)"
  by pat_completeness auto
termination
  by (relation "measure (\<lambda>(cap, s). length s)") (auto dest!: sym[of _ "fgets _ _"] simp: fgets_shrinks)

declare lines_of.simps [simp del]

section \<open>Providers\<close>

text \<open>The first line that begins with \<open>CPU a\<close> ends the search; the value is what follows its colon and blanks.\<close>

fun cpu_architecture :: "string list \<Rightarrow> string option" where
  "cpu_architecture [] = None"
| "cpu_architecture (line # lines) =
    (if prefix ''CPU a'' line then
       (case dropWhile (\<lambda>c. c \<noteq> CHR '':'') line of [] \<Rightarrow> None
        | _ # p \<Rightarrow> Some (cut_line (sset '''' STATUS_FIELD (Ptr (dropWhile (\<lambda>c. c = CHR '' '') p)))))
     else cpu_architecture lines)"

definition collect_uname :: "'w fb_os \<Rightarrow> string \<Rightarrow> dashboard_status \<Rightarrow> 'w \<Rightarrow> dashboard_status \<times> 'w" where
  "collect_uname os root st w =
    (case read_first_line os (path_join 256 root ''/proc/sys/kernel/osrelease'') STATUS_FIELD w of (osrelease, w) \<Rightarrow>
     let st = st\<lparr>st_kernel := (case osrelease of None \<Rightarrow> unknown | Some s \<Rightarrow> s)\<rparr>
     in case read_first_line os (path_join 256 root ''/proc/sys/kernel/arch'') STATUS_FIELD w of
       (Some s, w) \<Rightarrow> (st\<lparr>st_arch := s\<rparr>, w)
     | (None, w) \<Rightarrow> (case slurp os (path_join 256 root ''/proc/cpuinfo'') w of (text, w) \<Rightarrow>
         (st\<lparr>st_arch := (case text of None \<Rightarrow> unknown
            | Some s \<Rightarrow> (case cpu_architecture (lines_of 256 s) of None \<Rightarrow> unknown | Some a \<Rightarrow> a))\<rparr>, w)))"

text \<open>\<open>sscanf\<close> with \<open>MemAvailable: %lu kB\<close>: the literal, white space, a number; the unit does not matter.\<close>

fun mem_available :: "string list \<Rightarrow> u32 option" where
  "mem_available [] = None"
| "mem_available (line # lines) =
    (if prefix ''MemAvailable:'' line \<and> scan_unsigned (drop 13 line) \<noteq> None
     then map_option fst (scan_unsigned (drop 13 line)) else mem_available lines)"

definition collect_memory :: "'w fb_os \<Rightarrow> string \<Rightarrow> dashboard_status \<Rightarrow> 'w \<Rightarrow> dashboard_status \<times> 'w" where
  "collect_memory os root st w = (case slurp os (path_join 256 root ''/proc/meminfo'') w of (text, w) \<Rightarrow>
     (st\<lparr>st_memory_available := (case text of None \<Rightarrow> unknown
        | Some s \<Rightarrow> (case mem_available (lines_of 256 s) of None \<Rightarrow> unknown
            | Some value \<Rightarrow> fit STATUS_FIELD (show_nat (unat (value div 1024)) @ '' MiB'')))\<rparr>, w))"

definition collect_uptime ::
  "(string \<Rightarrow> u32 option) \<Rightarrow> 'w fb_os \<Rightarrow> string \<Rightarrow> dashboard_status \<Rightarrow> 'w \<Rightarrow> dashboard_status \<times> 'w" where
  "collect_uptime seconds_of os root st w = (case slurp os (path_join 256 root ''/proc/uptime'') w of (text, w) \<Rightarrow>
     (st\<lparr>st_uptime := (case text of None \<Rightarrow> unknown
        | Some s \<Rightarrow> (case seconds_of s of None \<Rightarrow> unknown
            | Some secs \<Rightarrow> fit STATUS_FIELD (show_nat (unat (secs div 3600)) @ ''h '' @ show_nat (unat (secs mod 3600 div 60))
                @ ''m '' @ show_nat (unat (secs mod 60)) @ ''s'')))\<rparr>, w))"

definition net_candidates :: "string list" where
  "net_candidates = [''mlan0'', ''eth0'', ''wlan0'', ''usb0'']"

fun find_interface :: "'w fb_os \<Rightarrow> string \<Rightarrow> string list \<Rightarrow> 'w \<Rightarrow> string option \<times> 'w" where
  "find_interface os root [] w = (None, w)"
| "find_interface os root (c # cs) w =
    (case read_first_line os (fit 256 (root @ ''/sys/class/net/'' @ c @ ''/operstate'')) STATUS_FIELD w of
       (None, w) \<Rightarrow> find_interface os root cs w
     | (Some state, w) \<Rightarrow> if prefix ''up'' state then (Some c, w) else find_interface os root cs w)"

definition collect_network :: "'w fb_os \<Rightarrow> string \<Rightarrow> dashboard_status \<Rightarrow> 'w \<Rightarrow> dashboard_status \<times> 'w" where
  "collect_network os root st w =
    (let st = st\<lparr>st_interface := unknown, st_address := unknown\<rparr>
     in case find_interface os root net_candidates w of (found, w) \<Rightarrow>
     let st = (case found of None \<Rightarrow> st | Some c \<Rightarrow> st\<lparr>st_interface := sset '''' STATUS_FIELD (Ptr c)\<rparr>)
     in if prefix ''U'' (st_interface st) then (st, w)
     else case read_first_line os (fit 256 (root @ ''/sys/class/net/'' @ st_interface st @ ''/address'')) STATUS_FIELD w of
       (address, w) \<Rightarrow> (st\<lparr>st_address := (case address of None \<Rightarrow> unknown | Some a \<Rightarrow> a)\<rparr>, w))"

definition scan_mount :: "string \<Rightarrow> (string \<times> string \<times> string) option" where
  "scan_mount line = do {
     (device, rest) \<leftarrow> scan_word 127 line;
     (mountpoint, rest) \<leftarrow> scan_word 127 rest;
     (fstype, rest) \<leftarrow> scan_word 63 rest;
     (options, rest) \<leftarrow> scan_word 127 rest;
     Some (mountpoint, fstype, options)
   }"

definition mount_line :: "string \<Rightarrow> dashboard_status \<Rightarrow> dashboard_status" where
  "mount_line line st = (case scan_mount line of None \<Rightarrow> st
     | Some (mountpoint, fstype, options) \<Rightarrow>
         let descr = fit STATUS_FIELD (take 20 fstype @ '' '' @ take 60 options);
             st = (if prefix ''mnt'' (drop 1 mountpoint) then st\<lparr>st_storage := descr\<rparr> else st)
         in if prefix ''opt'' (drop 1 mountpoint) then st\<lparr>st_toolkit := descr\<rparr> else st)"

definition collect_mounts :: "'w fb_os \<Rightarrow> string \<Rightarrow> dashboard_status \<Rightarrow> 'w \<Rightarrow> dashboard_status \<times> 'w" where
  "collect_mounts os root st w =
    (let st = st\<lparr>st_storage := unknown, st_toolkit := unknown\<rparr>
     in case slurp os (path_join 256 root ''/proc/mounts'') w of (text, w) \<Rightarrow>
     (case text of None \<Rightarrow> st | Some s \<Rightarrow> fold mount_line (lines_of 512 s) st, w))"

definition status_collect ::
  "(string \<Rightarrow> u32 option) \<Rightarrow> 'w fb_os \<Rightarrow> string ptr \<Rightarrow> dashboard_status \<Rightarrow> 'w \<Rightarrow> dashboard_status \<times> 'w" where
  "status_collect seconds_of os root_ptr st w =
    (let root = (case root_ptr of NULL \<Rightarrow> '''' | Ptr s \<Rightarrow> s)
     in case collect_uname os root st w of (st, w) \<Rightarrow>
     case read_or_unknown os root ''/sys/devices/system/cpu/online'' w of (cpus, w) \<Rightarrow>
     case collect_memory os root (st\<lparr>st_cpus_online := cpus\<rparr>) w of (st, w) \<Rightarrow>
     case collect_uptime seconds_of os root st w of (st, w) \<Rightarrow>
     case collect_network os root st w of (st, w) \<Rightarrow>
     case collect_mounts os root st w of (st, w) \<Rightarrow>
     case read_first_line os (path_join 256 root ''/opt/vita-toolkit/VERSION'') STATUS_FIELD w of (version, w) \<Rightarrow>
     let st = st\<lparr>st_compiler := (case version of None \<Rightarrow> unknown
                  | Some v \<Rightarrow> fit STATUS_FIELD (''tcc (toolkit '' @ take 60 (sset '''' STATUS_FIELD (Ptr v)) @ '')''))\<rparr>
     in case read_first_line os (path_join 256 root ''/mnt/vita-storage/vita-workbench/WORKSPACE-INFO'') STATUS_FIELD w of (info, w) \<Rightarrow>
     (st\<lparr>st_workspace := (case info of None \<Rightarrow> unknown
        | Some _ \<Rightarrow> sset '''' STATUS_FIELD (Ptr ''/mnt/vita-storage/vita-workbench''))\<rparr>, w))"

section \<open>Well-formed status\<close>

text \<open>A field holds a text that fits its array, and one that is filled is not empty.\<close>

definition field_ok :: "string \<Rightarrow> bool" where
  "field_ok s \<longleftrightarrow> s \<noteq> '''' \<and> length s < STATUS_FIELD"

named_theorems fields \<open>texts that fill a status field\<close>

lemma field_unknown [fields]: "field_ok unknown"
  by (simp add: field_ok_def unknown_def sset_def fit_def)

lemma field_fit [fields]: "s \<noteq> '''' \<Longrightarrow> field_ok (fit STATUS_FIELD s)"
  by (simp add: field_ok_def fit_def)

lemma fgets_length: "length (fst (fgets cap s)) \<le> cap - 1"
  by (induction cap s rule: fgets.induct) (auto split: prod.splits)

lemma first_line_field [fields]:
  assumes "fst (read_first_line os path STATUS_FIELD w) = Some s"
  shows "field_ok s"
proof -
  obtain t where t: "s = cut_line (c_str (fst (fgets STATUS_FIELD t)))" "s \<noteq> []"
    using assms by (auto simp: read_first_line_def Let_def split: prod.splits option.splits if_splits)
  have "length s \<le> length (fst (fgets STATUS_FIELD t))"
    unfolding t(1) cut_line_def c_str_def by (meson le_trans length_takeWhile_le)
  then show ?thesis using fgets_length[of STATUS_FIELD t] t(2) by (simp add: field_ok_def)
qed

lemma cpu_architecture_short: "cpu_architecture ls = Some a \<Longrightarrow> length a < STATUS_FIELD"
proof (induction ls)
  case (Cons l ls)
  have "length (cut_line (sset '''' STATUS_FIELD (Ptr p))) < STATUS_FIELD" for p
    unfolding cut_line_def sset_def fit_def
    by (rule le_less_trans[OF length_takeWhile_le]) simp
  then show ?case using Cons by (auto split: if_splits list.splits)
qed simp

lemma collect_uname_fields:
  defines "s \<equiv> \<lambda>os root st w. fst (collect_uname os root st w)"
  shows "field_ok (st_kernel (s os root st w))" "length (st_arch (s os root st w)) < STATUS_FIELD"
  unfolding s_def collect_uname_def
  by (auto simp: Let_def case_prod_beta first_line_field field_unknown
      field_unknown[unfolded field_ok_def] first_line_field[unfolded field_ok_def] dest: cpu_architecture_short
      split: option.splits)

lemma collect_memory_fields:
  "\<exists>m. fst (collect_memory os root st w) = st\<lparr>st_memory_available := m\<rparr> \<and> field_ok m"
  unfolding collect_memory_def by (auto simp: case_prod_beta fields split: option.split intro!: exI)

lemma collect_uptime_fields:
  "\<exists>m. fst (collect_uptime f os root st w) = st\<lparr>st_uptime := m\<rparr> \<and> field_ok m"
  unfolding collect_uptime_def by (auto simp: case_prod_beta fields split: option.split intro!: exI)

lemma find_interface_candidate: "fst (find_interface os root cs w) = Some c \<Longrightarrow> c \<in> set cs"
  by (induction cs arbitrary: w) (auto split: prod.splits option.splits if_splits)

lemma collect_network_fields:
  "\<exists>i a. fst (collect_network os root st w) = st\<lparr>st_interface := i, st_address := a\<rparr> \<and> field_ok i \<and> field_ok a"
proof -
  have c: "field_ok (sset '''' STATUS_FIELD (Ptr c))" if "fst (find_interface os root net_candidates w) = Some c" for c
    using find_interface_candidate[OF that] by (auto simp: net_candidates_def sset_def field_ok_def fit_def)
  show ?thesis
    by (intro exI[of _ "st_interface (fst (collect_network os root st w))"]
        exI[of _ "st_address (fst (collect_network os root st w))"],
      cases "fst (find_interface os root net_candidates w)")
      (simp_all add: collect_network_def Let_def case_prod_beta fields c split: option.split)
qed

lemma mount_line_fields:
  "\<exists>s t. mount_line l st = st\<lparr>st_storage := s, st_toolkit := t\<rparr> \<and> (field_ok (st_storage st) \<longrightarrow> field_ok s) \<and> (field_ok (st_toolkit st) \<longrightarrow> field_ok t)"
proof (cases "scan_mount l")
  case None
  then show ?thesis by (intro exI[of _ "st_storage st"] exI[of _ "st_toolkit st"]) (simp add: mount_line_def)
next
  case (Some m)
  obtain mp fs op where m: "m = (mp, fs, op)" by (rule prod_cases3)
  let ?d = "fit STATUS_FIELD (take 20 fs @ '' '' @ take 60 op)"
  have "field_ok ?d" by (rule field_fit) simp
  then show ?thesis using Some m
    by (intro exI[of _ "if prefix ''mnt'' (drop 1 mp) then ?d else st_storage st"]
        exI[of _ "if prefix ''opt'' (drop 1 mp) then ?d else st_toolkit st"]) (simp add: mount_line_def Let_def)
qed

lemma mounts_fields:
  "\<exists>s t. fold mount_line ls st = st\<lparr>st_storage := s, st_toolkit := t\<rparr> \<and> (field_ok (st_storage st) \<longrightarrow> field_ok s) \<and> (field_ok (st_toolkit st) \<longrightarrow> field_ok t)"
proof (induction ls arbitrary: st)
  case Nil
  show ?case by (intro exI[of _ "st_storage st"] exI[of _ "st_toolkit st"]) simp
next
  case (Cons l ls)
  obtain s t where 1: "mount_line l st = st\<lparr>st_storage := s, st_toolkit := t\<rparr>"
      "field_ok (st_storage st) \<longrightarrow> field_ok s" "field_ok (st_toolkit st) \<longrightarrow> field_ok t"
    using mount_line_fields by blast
  show ?case using Cons.IH[of "st\<lparr>st_storage := s, st_toolkit := t\<rparr>"] 1 by auto
qed

lemma collect_mounts_fields:
  "\<exists>s t. fst (collect_mounts os root st w) = st\<lparr>st_storage := s, st_toolkit := t\<rparr> \<and> field_ok s \<and> field_ok t"
proof (cases "fst (slurp os (path_join 256 root ''/proc/mounts'') w)")
  case None
  then show ?thesis by (auto simp: collect_mounts_def Let_def case_prod_beta fields intro!: exI)
next
  case (Some c)
  then show ?thesis
    using mounts_fields[of "lines_of 512 c" "st\<lparr>st_storage := unknown, st_toolkit := unknown\<rparr>"]
    by (auto simp: collect_mounts_def Let_def case_prod_beta fields)
qed

text \<open>The architecture may be empty: a \<open>CPU architecture:\<close> line without a value is taken as it is.\<close>

definition status_ok :: "dashboard_status \<Rightarrow> bool" where
  "status_ok st \<longleftrightarrow> list_all field_ok [st_kernel st, st_cpus_online st, st_memory_available st, st_uptime st, st_interface st,
      st_address st, st_storage st, st_toolkit st, st_compiler st, st_workspace st] \<and> length (st_arch st) < STATUS_FIELD"

lemma status_collect_ok: "status_ok (fst (status_collect seconds_of os root st w))"
proof -
  let ?root = "case root of NULL \<Rightarrow> '''' | Ptr s \<Rightarrow> s"
  obtain st1 w1 where 1: "collect_uname os ?root st w = (st1, w1)" by fastforce
  obtain cpus w2 where 2: "read_or_unknown os ?root ''/sys/devices/system/cpu/online'' w1 = (cpus, w2)" by fastforce
  obtain st3 w3 where 3: "collect_memory os ?root (st1\<lparr>st_cpus_online := cpus\<rparr>) w2 = (st3, w3)" by fastforce
  obtain st4 w4 where 4: "collect_uptime seconds_of os ?root st3 w3 = (st4, w4)" by fastforce
  obtain st5 w5 where 5: "collect_network os ?root st4 w4 = (st5, w5)" by fastforce
  obtain st6 w6 where 6: "collect_mounts os ?root st5 w5 = (st6, w6)" by fastforce
  have k: "field_ok (st_kernel st1)" "length (st_arch st1) < STATUS_FIELD"
    using collect_uname_fields[where os = os and root = ?root and st = st and w = w] 1 by simp_all
  have c: "field_ok cpus"
    using 2 first_line_field field_unknown unfolding read_or_unknown_def
    by (auto simp: case_prod_beta split: option.splits)
  obtain m where m: "st3 = st1\<lparr>st_cpus_online := cpus, st_memory_available := m\<rparr>" "field_ok m"
    using collect_memory_fields[of os ?root "st1\<lparr>st_cpus_online := cpus\<rparr>" w2] 3 by auto
  obtain u where u: "st4 = st3\<lparr>st_uptime := u\<rparr>" "field_ok u"
    using collect_uptime_fields[of seconds_of os ?root st3 w3] 4 by auto
  obtain i a where i: "st5 = st4\<lparr>st_interface := i, st_address := a\<rparr>" "field_ok i" "field_ok a"
    using collect_network_fields[of os ?root st4 w4] 5 by auto
  obtain s t where s: "st6 = st5\<lparr>st_storage := s, st_toolkit := t\<rparr>" "field_ok s" "field_ok t"
    using collect_mounts_fields[of os ?root st5 w5] 6 by auto
  have "field_ok (sset '''' STATUS_FIELD (Ptr ''/mnt/vita-storage/vita-workbench''))"
    by (simp add: sset_def field_ok_def fit_def)
  then show ?thesis
    using k c m u i s 1 2 3 4 5 6 unfolding status_collect_def Let_def status_ok_def
    by (simp add: case_prod_beta fields split: option.split)
qed

section \<open>Correctness\<close>

text \<open>C40. Type.  Whatever the files hold, and whichever are missing, collecting the status returns, fills every field except
  possibly the architecture with a non-empty string, and every one fits its array of 96 characters.\<close>

theorem status_is_well_formed:
  "status_ok (fst (status_collect seconds_of os root st w))"
  by (rule status_collect_ok)

end
