(* ===== verification/Dashboard.thy ===== *)
theory Dashboard
  imports Dash_Render Dash_Input Dash_Status
begin

text \<open>
  The dashboard program, \<open>toolkit/examples/vita-dashboard/src/main.c\<close>: options, screens, the main loop and the shutdown.
  It composes the framebuffer owner, the renderer, the input and the status providers.  The results are
  that every way out of the program gives the console back, and that a run with a bounded number of
  frames ends.
\<close>

section \<open>Options\<close>

record dash_options =
  op_root :: string
  op_phys :: string
  op_duration :: u32
  op_frames_max :: u32
  op_machine :: bool
  op_forever :: bool

definition default_options :: dash_options where
  "default_options = \<lparr>op_root = '''', op_phys = ''vita_syscon_buttons'', op_duration = 60000, op_frames_max = 0,
     op_machine = False, op_forever = False\<rparr>"

text \<open>\<open>atol\<close> of the C library: \<open>strtol\<close>, which saturates, and 0 without digits.\<close>

definition atol :: "string \<Rightarrow> int" where
  "atol s = (case scan_int s of None \<Rightarrow> 0 | Some (v, _) \<Rightarrow> v)"

text \<open>The exit code of a refused command line, or the options.\<close>

fun parse_options :: "string list \<Rightarrow> dash_options \<Rightarrow> int + dash_options" where
  "parse_options [] o1 = Inr o1"
| "parse_options (arg # args) o1 =
    (if arg = ''--machine'' then parse_options args (o1\<lparr>op_machine := True\<rparr>)
     else if arg = ''--forever'' then parse_options args (o1\<lparr>op_forever := True\<rparr>)
     else if arg = ''--input-phys'' \<and> args \<noteq> [] then parse_options (tl args) (o1\<lparr>op_phys := hd args\<rparr>)
     else if arg = ''--root'' \<and> args \<noteq> [] then parse_options (tl args) (o1\<lparr>op_root := hd args\<rparr>)
     else if arg = ''--duration-ms'' \<and> args \<noteq> [] then
       (let value = atol (hd args)
        in if value \<le> 0 \<or> 600000 < value then Inl 2 else parse_options (tl args) (o1\<lparr>op_duration := of_int value\<rparr>))
     else if arg = ''--frames-max'' \<and> args \<noteq> [] then
       (let value = atol (hd args)
        in if value \<le> 0 then Inl 2 else parse_options (tl args) (o1\<lparr>op_frames_max := of_int value\<rparr>))
     else if arg = ''--help'' \<or> arg = ''-h'' then Inl 0
     else Inl 2)"

section \<open>Screens\<close>

abbreviation COL_BG :: u32 where "COL_BG \<equiv> 0x101018FF"
abbreviation COL_HEADER :: u32 where "COL_HEADER \<equiv> 0x30E0C0FF"
abbreviation COL_LABEL :: u32 where "COL_LABEL \<equiv> 0x8090A0FF"
abbreviation COL_VALUE :: u32 where "COL_VALUE \<equiv> 0xF0F0F0FF"
abbreviation COL_ACCENT :: u32 where "COL_ACCENT \<equiv> 0xE05080FF"

definition screen_title :: "int \<Rightarrow> string" where
  "screen_title screen = (if screen = 0 then ''OVERVIEW'' else if screen = 1 then ''NETWORK / STORAGE''
     else if screen = 2 then ''BUILD'' else ''INPUT'')"

definition screen_rows ::
  "int \<Rightarrow> dash_renderer \<Rightarrow> dashboard_status \<Rightarrow> dashboard_input \<Rightarrow> u32 \<Rightarrow> (string \<times> string) list" where
  "screen_rows screen r st inp frames =
    (if screen = 0 then
       [(''kernel'', st_kernel st), (''arch'', st_arch st), (''cpus online'', st_cpus_online st),
        (''memory free'', st_memory_available st), (''uptime'', st_uptime st)]
     else if screen = 1 then
       [(''interface'', st_interface st), (''address'', st_address st), (''storage'', st_storage st), (''toolkit'', st_toolkit st)]
     else if screen = 2 then
       [(''compiler'', st_compiler st), (''workspace'', st_workspace st),
        (''framebuffer'', fit 128 (show_nat (unat (rn_width r)) @ ''x'' @ show_nat (unat (rn_height r)) @ '' stride '' @ show_nat (unat (rn_stride r)))),
        (''frames written'', fit 128 (show_nat (unat frames)))]
     else
       [(''input device'', di_path inp), (''identity'', di_phys inp), (''name'', di_name inp),
        (''events seen'', fit 128 (show_nat (unat (events_seen inp))))])"

fun draw_rows :: "int \<Rightarrow> int \<Rightarrow> int \<Rightarrow> u32 \<Rightarrow> (string \<times> string) list \<Rightarrow> dash_renderer \<Rightarrow> dash_renderer option" where
  "draw_rows x y step scale [] r = Some r"
| "draw_rows x y step scale ((lbl, val) # rows) r = do {
     r \<leftarrow> render_row x y (Ptr lbl) (Ptr val) scale COL_LABEL COL_VALUE r;
     draw_rows x (y + step) step scale rows r
   }"

definition footer :: "int \<Rightarrow> u32 \<Rightarrow> string" where
  "footer screen runtime_ms = fit 128 (''screen '' @ show_nat (nat (screen + 1)) @ ''/4   runtime '' @ show_nat (unat (runtime_ms div 1000)) @ ''s'')"

definition draw_screen ::
  "int \<Rightarrow> dashboard_status \<Rightarrow> dashboard_input \<Rightarrow> u32 \<Rightarrow> u32 \<Rightarrow> dash_renderer \<Rightarrow> dash_renderer option" where
  "draw_screen screen st inp runtime_ms frames r = do {
     let scale = (if 1024 \<le> rn_width r then 3 else 2 :: u32);
     let x = 40;
     let step = 9 * sint scale + 10;
     r \<leftarrow> render_clear COL_BG r;
     (_, r) \<leftarrow> render_text x 40 (Ptr ''VITA LINUX WORKBENCH'') scale COL_HEADER r;
     (_, r) \<leftarrow> render_text x (40 + step) (Ptr (screen_title screen)) scale COL_ACCENT r;
     let y = 40 + step + step + 10;
     rule_w \<leftarrow> int_add (sint (rn_width r)) (- 80);
     r \<leftarrow> render_rect x (y - 8) rule_w 2 COL_LABEL r;
     r \<leftarrow> draw_rows x (y + 8) step scale (screen_rows screen r st inp frames) r;
     fy \<leftarrow> int_add (sint (rn_height r)) (- 58);
     (_, r) \<leftarrow> render_text x fy (Ptr (footer screen runtime_ms)) 2 COL_LABEL r;
     gy \<leftarrow> int_add (sint (rn_height r)) (- 40);
     (_, r) \<leftarrow> render_text x gy (Ptr ''CROSS/SPACE next    CIRCLE/ESC exit'') 2 COL_ACCENT r;
     Some r
   }"

section \<open>The main loop\<close>

definition now_ms :: "'w dash_os \<Rightarrow> 'w \<Rightarrow> u32 \<times> 'w" where
  "now_ms os w = (case ds_clock os w of (None, w) \<Rightarrow> (0, w)
     | (Some (sec, nsec), w) \<Rightarrow> (sec * 1000 + nsec div 1000000, w))"

record dash_state =
  da_owner :: fb_owner
  da_renderer :: dash_renderer
  da_status :: dashboard_status
  da_input :: dashboard_input
  da_screen :: int
  screens_visited :: int

text \<open>Why the loop ends before its next frame, and the runtime.\<close>

definition stop_reason ::
  "'w dash_os \<Rightarrow> dash_options \<Rightarrow> u32 \<Rightarrow> dash_state \<Rightarrow> 'w \<Rightarrow> string option \<times> u32 \<times> 'w" where
  "stop_reason os opts started d w =
    (case now_ms os w of (now, w) \<Rightarrow>
     let runtime = now - started
     in case ds_stop os w of (stop, w) \<Rightarrow>
     (if stop then Some ''signal''
      else if \<not> op_forever opts \<and> op_duration opts \<le> runtime then Some ''duration_reached''
      else if op_frames_max opts \<noteq> 0 \<and> op_frames_max opts \<le> of_int (frames_written (da_owner d)) then Some ''frames_reached''
      else None, runtime, w))"

text \<open>The input of an iteration: the exit code and the status of a \<open>break\<close>, or \<open>None\<close> to go on.\<close>

definition dash_action ::
  "(string \<Rightarrow> u32 option) \<Rightarrow> 'w dash_os \<Rightarrow> dash_options \<Rightarrow> dash_state \<Rightarrow> 'w \<Rightarrow> ((int \<times> string) option \<times> dash_state \<times> 'w) option" where
  "dash_action seconds_of os opts d w = do {
     (prc, inp, action, w) \<leftarrow> input_poll os (da_input d) 120 w;
     let d = d\<lparr>da_input := inp\<rparr>;
     (if prc \<noteq> 0 then Some (Some (8, ''input_error''), d, w)
      else case action of
        DASHBOARD_ACTION_EXIT \<Rightarrow> Some (Some (0, ''user_exit''), d, w)
      | DASHBOARD_ACTION_NONE \<Rightarrow> Some (None, d, w)
      | DASHBOARD_ACTION_NEXT \<Rightarrow>
          if in_int32 (screens_visited d + 1) then
            (case status_collect seconds_of (ds_files os) (Ptr (op_root opts)) (da_status d) w of (st, w) \<Rightarrow>
               Some (None, d\<lparr>da_screen := (da_screen d + 1) mod 4, screens_visited := screens_visited d + 1, da_status := st\<rparr>, w))
          else None)
   }"

definition dash_step ::
  "(string \<Rightarrow> u32 option) \<Rightarrow> 'w dash_os \<Rightarrow> dash_options \<Rightarrow> u32 \<Rightarrow> dash_state \<Rightarrow> 'w
     \<Rightarrow> ((int \<times> string) option \<times> dash_state \<times> 'w) option" where
  "dash_step seconds_of os opts started d w =
    (case stop_reason os opts started d w of
       (Some reason, _, w) \<Rightarrow> Some (Some (0, reason), d, w)
     | (None, runtime, w) \<Rightarrow> do {
         r \<leftarrow> draw_screen (da_screen d) (da_status d) (da_input d) runtime (of_int (frames_written (da_owner d))) (da_renderer d);
         (wrc, owner, w) \<leftarrow> fb_owner_write_frame (ds_files os) (da_owner d) (shadow r) (rn_frame_bytes r) w;
         let d = d\<lparr>da_renderer := r, da_owner := owner\<rparr>;
         (if wrc \<noteq> 0 then Some (Some (7, ''frame_write_failed''), d, w) else dash_action seconds_of os opts d w)
       })"

partial_function (option) dash_loop ::
  "(string \<Rightarrow> u32 option) \<Rightarrow> 'w dash_os \<Rightarrow> dash_options \<Rightarrow> u32 \<Rightarrow> dash_state \<Rightarrow> 'w
     \<Rightarrow> ((int \<times> string) \<times> dash_state \<times> 'w) option" where
  "dash_loop seconds_of os opts started d w = (case dash_step seconds_of os opts started d w of
     None \<Rightarrow> None
   | Some (None, d, w) \<Rightarrow> dash_loop seconds_of os opts started d w
   | Some (Some ex, d, w) \<Rightarrow> Some (ex, d, w))"

section \<open>The program\<close>

definition nl :: string where "nl = [CHR 0x0A]"

definition flag_text :: "bool \<Rightarrow> string" where
  "flag_text b = (if b then ''1'' else ''0'')"

definition final_report :: "dash_options \<Rightarrow> string \<Rightarrow> u32 \<Rightarrow> dash_state \<Rightarrow> string" where
  "final_report opts status_text runtime d =
    (let ow = da_owner d; inp = da_input d in
     if op_machine opts then
       ''schema=1'' @ nl @ ''application=vita-dashboard'' @ nl
       @ ''framebuffer='' @ show_nat (unat (ow_width ow)) @ ''x'' @ show_nat (unat (ow_height ow)) @ ''x'' @ show_nat (unat (ow_bpp ow)) @ nl
       @ ''stride='' @ show_nat (unat (ow_stride ow)) @ nl @ ''frame_bytes='' @ show_nat (unat (ow_frame_bytes ow)) @ nl
       @ ''input_identity='' @ di_phys inp @ nl @ ''input_device='' @ di_path inp @ nl @ ''input_name='' @ di_name inp @ nl
       @ ''fbcon_was_bound='' @ show_int (fbcon_was_bound ow) @ nl @ ''fbcon_restored='' @ flag_text (fbcon_restored ow) @ nl
       @ ''frames_written='' @ show_int (frames_written ow) @ nl @ ''screens_visited='' @ show_int (screens_visited d) @ nl
       @ ''input_events='' @ show_nat (unat (events_seen inp)) @ nl @ ''clipped_writes='' @ show_nat (unat (clipped_writes (da_renderer d))) @ nl
       @ ''runtime_ms='' @ show_nat (unat runtime) @ nl
       @ ''runtime_bounded='' @ (if op_forever opts \<or> runtime \<le> op_duration opts + 5000 then ''PASS'' else ''FAIL'') @ nl
       @ ''status='' @ status_text @ nl
     else ''vita-dashboard: '' @ status_text @ '' after '' @ show_nat (unat runtime) @ '' ms, '' @ show_int (frames_written ow)
       @ '' frames, fbcon_restored='' @ flag_text (fbcon_restored ow) @ nl)"

definition dash_finish ::
  "'w dash_os \<Rightarrow> dash_options \<Rightarrow> u32 \<Rightarrow> int \<times> string \<Rightarrow> dash_state \<Rightarrow> 'w \<Rightarrow> int \<times> 'w" where
  "dash_finish os opts started ex d w =
    (case now_ms os w of (now, w) \<Rightarrow>
     case fb_owner_release (ds_files os) (da_owner d) w of (rel, owner, w) \<Rightarrow>
     let rc = (if rel \<noteq> 0 \<and> fst ex = 0 then 9 else fst ex);
         d = d\<lparr>da_owner := owner, da_renderer := render_free (da_renderer d)\<rparr>
     in case input_close os (da_input d) w of (inp, w) \<Rightarrow>
     case ds_print os (final_report opts (snd ex) (now - started) (d\<lparr>da_input := inp\<rparr>)) w of (flushed, w) \<Rightarrow>
     (if \<not> flushed then 10 else rc, w))"

definition refused :: "'w dash_os \<Rightarrow> dashboard_input \<Rightarrow> int \<Rightarrow> 'w \<Rightarrow> int \<times> 'w" where
  "refused os inp code w = (case input_close os inp w of (_, w) \<Rightarrow> (code, w))"

definition dash_input :: "'w dash_os \<Rightarrow> dash_options \<Rightarrow> 'w \<Rightarrow> (int \<times> dashboard_input) \<times> 'w" where
  "dash_input os opts w =
     input_open os (Ptr (op_root opts)) (Ptr (fit 256 (op_root opts @ ''/dev/input''))) (Ptr (op_phys opts)) w"

definition dash_run ::
  "(string \<Rightarrow> u32 option) \<Rightarrow> (size_t \<Rightarrow> u8 list ptr) \<Rightarrow> 'w dash_os \<Rightarrow> dash_options \<Rightarrow> dashboard_status \<Rightarrow> 'w \<Rightarrow> (int \<times> 'w) option" where
  "dash_run seconds_of malloc os opts st0 w =
    (case dash_input os opts w of ((irc, inp), w) \<Rightarrow>
     if irc \<noteq> 0 then Some (3, w)
     else case fb_owner_probe (ds_files os) (fb_owner_init (Ptr (op_root opts))) w of (prc, owner, w) \<Rightarrow>
     if prc \<noteq> 0 then Some (refused os inp 4 w)
     else do {
       (rrc, r) \<leftarrow> render_init malloc (ow_width owner) (ow_height owner) (ow_bpp owner) (ow_stride owner);
       if rrc \<noteq> 0 then Some (refused os inp 5 w)
       else case fb_owner_acquire (ds_files os) owner w of (arc, owner, w) \<Rightarrow>
       if arc \<noteq> 0 then Some (refused os inp 6 w)
       else case status_collect seconds_of (ds_files os) (Ptr (op_root opts)) st0 w of (st, w) \<Rightarrow>
       case now_ms os w of (started, w) \<Rightarrow> do {
         (ex, d, w) \<leftarrow> dash_loop seconds_of os opts started
            \<lparr>da_owner = owner, da_renderer = r, da_status = st, da_input = inp, da_screen = 0, screens_visited = 1\<rparr> w;
         Some (dash_finish os opts started ex d w)
       }
     })"

text \<open>\<open>main\<close>; \<open>st0\<close> is the uninitialised status structure.\<close>

definition dash_main ::
  "(string \<Rightarrow> u32 option) \<Rightarrow> (size_t \<Rightarrow> u8 list ptr) \<Rightarrow> 'w dash_os \<Rightarrow> string list \<Rightarrow> dashboard_status \<Rightarrow> 'w \<Rightarrow> (int \<times> 'w) option" where
  "dash_main seconds_of malloc os args st0 w = (case parse_options args default_options of
     Inl code \<Rightarrow> Some (code, w)
   | Inr opts \<Rightarrow> dash_run seconds_of malloc os opts st0 w)"

section \<open>Drawing is safe\<close>

definition steady :: "dash_renderer \<Rightarrow> dash_renderer \<Rightarrow> bool" where
  "steady r s \<longleftrightarrow> wf_shadow s \<and> geometry s = geometry r"

lemma steady_trans: "steady r s \<Longrightarrow> steady s t \<Longrightarrow> steady r t"
  by (simp add: steady_def)

lemma painted_steady: "painted_in r P c s \<Longrightarrow> steady r s"
  using painted_in_wf by (simp add: steady_def)

lemma small_screen:
  assumes "wf_shadow r"
  shows "0 < uint (rn_width r)" "uint (rn_width r) \<le> 67108864" "0 < uint (rn_height r)" "uint (rn_height r) \<le> 67108864"
    "sint (rn_width r) = uint (rn_width r)" "sint (rn_height r) = uint (rn_height r)"
proof -
  let ?w = "unat (rn_width r)" and ?h = "unat (rn_height r)" and ?s = "unat (rn_stride r)"
  have g: "?w * unat (bytes_per_pixel r) \<le> ?s" "3 \<le> unat (bytes_per_pixel r)" "?s * ?h \<le> 67108864" "0 < ?w" "0 < ?h"
    using assms by (simp_all add: wf_shadow_def)
  have "?w * 3 \<le> ?s" using g(1,2) by (meson le_trans mult_le_mono2)
  moreover have "?s * 1 \<le> ?s * ?h" "1 * ?h \<le> ?s * ?h" using g \<open>?w * 3 \<le> ?s\<close> by (intro mult_le_mono; simp)+
  ultimately have n: "?w \<le> 67108864" "?h \<le> 67108864" using g by linarith+
  then show w: "0 < uint (rn_width r)" "uint (rn_width r) \<le> 67108864"
    and h: "0 < uint (rn_height r)" "uint (rn_height r) \<le> 67108864"
    using g(4,5) unfolding uint_nat by linarith+
  show "sint (rn_width r) = uint (rn_width r)" "sint (rn_height r) = uint (rn_height r)"
    using scaled(2)[of "rn_width r" 0] scaled(2)[of "rn_height r" 0] w h by simp_all
qed

lemma text_steady:
  assumes "wf_shadow r" "scale = 2 \<or> scale = (3 :: u32)" "0 \<le> x" "x \<le> 1000" "- 1000 \<le> y" "y \<le> 100000000" "length str < 300"
  shows "\<exists>adv s. render_text x y (Ptr str) scale c r = Some (adv, s) \<and> steady r s"
proof -
  have s: "0 < uint scale" "uint scale \<le> 3" using assms(2) by auto
  have "uint scale * int (length str) \<le> 3 * 300" using s assms(7) by (intro mult_mono) simp_all
  then have len: "9 * uint scale * int (length str) \<le> 8100" "0 \<le> 9 * uint scale * int (length str)" by simp_all
  have "\<exists>s. render_text x y (Ptr str) scale c r = Some (9 * uint scale * int (length str), s)
    \<and> painted_in r (\<lambda>i j. text_ink str (uint scale) (i - x) (j - y)) c s"
    using assms(1) s(1)
    by (rule render_text_painted) (use s len assms(3-6) in \<open>unfold in_int32_def, linarith+\<close>)
  then show ?thesis using painted_steady by blast
qed

lemma row_steady:
  assumes "wf_shadow r" "scale = 2 \<or> scale = (3 :: u32)" "0 \<le> y" "y \<le> 1000" "length lbl < 300" "length val < 300"
  shows "\<exists>s. render_row 40 y (Ptr lbl) (Ptr val) scale c1 c2 r = Some s \<and> steady r s"
proof -
  obtain a s where s: "render_text 40 y (Ptr lbl) scale c1 r = Some (a, s)" "steady r s"
    using text_steady[OF assms(1,2), of 40 y lbl c1] assms by auto
  have vx: "int_add 40 (sint (18 * 9 * scale)) = Some (40 + 162 * uint scale)" "0 \<le> 40 + 162 * uint scale" "40 + 162 * uint scale \<le> 1000"
    using assms(2) by (auto simp: int_add_def in_int32_def)
  obtain b t where t: "render_text (40 + 162 * uint scale) y (Ptr val) scale c2 s = Some (b, t)" "steady s t"
    using text_steady[of s scale "40 + 162 * uint scale" y val c2] s assms vx by (auto simp: steady_def)
  have "scale \<noteq> 0" using assms(2) by auto
  then have "render_row 40 y (Ptr lbl) (Ptr val) scale c1 c2 r = Some t"
    using s(1) vx(1) t(1) by (simp add: render_row_def)
  then show ?thesis using steady_trans[OF s(2) t(2)] by blast
qed

lemma rows_steady:
  assumes "wf_shadow r" "scale = 2 \<or> scale = (3 :: u32)" "0 \<le> y" "0 \<le> step" "step \<le> 37" "y + 37 * int (length rows) \<le> 1000"
    and "list_all (\<lambda>(lbl, val). length lbl < 300 \<and> length val < 300) rows"
  shows "\<exists>s. draw_rows 40 y step scale rows r = Some s \<and> steady r s"
  using assms
proof (induction rows arbitrary: y r)
  case Nil
  then show ?case by (simp add: steady_def)
next
  case (Cons row rows)
  obtain lbl val where row: "row = (lbl, val)" by fastforce
  obtain s where s: "render_row 40 y (Ptr lbl) (Ptr val) scale COL_LABEL COL_VALUE r = Some s" "steady r s"
    using row_steady[OF Cons.prems(1,2), of y lbl val] Cons.prems row by fastforce
  have "\<exists>t. draw_rows 40 (y + step) step scale rows s = Some t \<and> steady s t"
    using s(2) Cons.prems by (intro Cons.IH) (simp_all add: steady_def)
  then show ?case using s row steady_trans by auto
qed

definition input_ok :: "dashboard_input \<Rightarrow> bool" where
  "input_ok inp \<longleftrightarrow> length (di_path inp) < 256 \<and> length (di_phys inp) < 256 \<and> length (di_name inp) < 256"

lemma screen_rows_short:
  assumes "status_ok st" "input_ok inp"
  shows "list_all (\<lambda>(lbl, val). length lbl < 300 \<and> length val < 300) (screen_rows screen r st inp frames)"
    "length (screen_rows screen r st inp frames) \<le> 5"
  using assms by (auto simp: screen_rows_def status_ok_def field_ok_def input_ok_def fit_def)

lemma title_short: "length (screen_title screen) < 300"
  by (simp add: screen_title_def)

lemma footer_short: "length (footer screen runtime_ms) < 300"
  by (simp add: footer_def fit_def)

lemma draw_screen_steady:
  assumes wf: "wf_shadow r" and ok: "status_ok st" "input_ok inp"
  shows "\<exists>s. draw_screen screen st inp runtime_ms frames r = Some s \<and> steady r s"
proof -
  define scale :: u32 where "scale = (if 1024 \<le> rn_width r then 3 else 2)"
  define step where "step = 9 * sint scale + 10"
  have sc: "scale = 2 \<or> scale = 3" and step: "28 \<le> step" "step \<le> 37" by (auto simp: scale_def step_def)
  note small = small_screen[OF wf]
  obtain r1 where r1: "render_clear COL_BG r = Some r1" "steady r r1"
    using render_rect_painted[OF wf, of 0 0 "sint (rn_width r)" "sint (rn_height r)" COL_BG] small painted_steady
    by (auto simp: render_clear_def in_int32_def)
  obtain a r2 where r2: "render_text 40 40 (Ptr ''VITA LINUX WORKBENCH'') scale COL_HEADER r1 = Some (a, r2)" "steady r1 r2"
    using text_steady[of r1 scale 40 40 "''VITA LINUX WORKBENCH''" COL_HEADER] r1(2) sc by (auto simp: steady_def)
  obtain b r3 where r3: "render_text 40 (40 + step) (Ptr (screen_title screen)) scale COL_ACCENT r2 = Some (b, r3)" "steady r2 r3"
    using text_steady[of r2 scale 40 "40 + step" "screen_title screen" COL_ACCENT] r2(2) sc step title_short
    by (auto simp: steady_def)
  have geo: "steady r r3" using r1(2) r2(2) r3(2) by (simp add: steady_def)
  then have wh: "rn_width r3 = rn_width r" "rn_height r3 = rn_height r" by (simp_all add: steady_def geometry_def)
  let ?y = "40 + step + step + 10"
  obtain r4 where r4: "render_rect 40 (?y - 8) (uint (rn_width r) - 80) 2 COL_LABEL r3 = Some r4" "steady r3 r4"
    using render_rect_painted[of r3 40 "?y - 8" "uint (rn_width r) - 80" 2 COL_LABEL] geo small step painted_steady
    by (auto simp: steady_def in_int32_def)
  let ?rows = "screen_rows screen r4 st inp frames"
  note rows = screen_rows_short[OF ok, of screen r4 frames]
  obtain r5 where r5: "draw_rows 40 (?y + 8) step scale ?rows r4 = Some r5" "steady r4 r5"
    using rows_steady[of r4 scale "?y + 8" step ?rows] r4(2) sc step rows by (auto simp: steady_def)
  have h: "rn_height r5 = rn_height r" using geo r4(2) r5(2) by (simp add: steady_def geometry_def)
  obtain c r6 where r6: "render_text 40 (uint (rn_height r) - 58) (Ptr (footer screen runtime_ms)) 2 COL_LABEL r5 = Some (c, r6)" "steady r5 r6"
    using text_steady[of r5 2 40 "uint (rn_height r) - 58" "footer screen runtime_ms" COL_LABEL] r5(2) small footer_short
    by (auto simp: steady_def)
  have h6: "rn_height r6 = rn_height r" using h r6(2) by (simp add: steady_def geometry_def)
  obtain d r7 where r7: "render_text 40 (uint (rn_height r) - 40) (Ptr ''CROSS/SPACE next    CIRCLE/ESC exit'') 2 COL_ACCENT r6 = Some (d, r7)" "steady r6 r7"
    using text_steady[of r6 2 40 "uint (rn_height r) - 40" "''CROSS/SPACE next    CIRCLE/ESC exit''" COL_ACCENT] r6(2) small
    by (auto simp: steady_def)
  have adds: "int_add (sint (rn_width r3)) (- 80) = Some (uint (rn_width r) - 80)"
    "int_add (sint (rn_height r5)) (- 58) = Some (uint (rn_height r) - 58)"
    "int_add (sint (rn_height r6)) (- 40) = Some (uint (rn_height r) - 40)"
    using small wh h h6 by (simp_all add: int_add_def in_int32_def)
  have "draw_screen screen st inp runtime_ms frames r = Some r7"
    unfolding draw_screen_def Let_def scale_def[symmetric] step_def[symmetric]
    using r1(1) r2(1) r3(1) r4(1) r5(1) r6(1) r7(1) adds by simp
  moreover have "steady r r7" using geo r4(2) r5(2) r6(2) r7(2) by (simp add: steady_def)
  ultimately show ?thesis by blast
qed

section \<open>The platform of the program\<close>

definition dash_inv :: "('w \<Rightarrow> bool) \<Rightarrow> string \<Rightarrow> string \<Rightarrow> bool \<Rightarrow> dash_state \<Rightarrow> 'w \<Rightarrow> bool" where
  "dash_inv bound node dev original d w \<longleftrightarrow> owner_ok bound node dev original (da_owner d) w \<and> wf_shadow (da_renderer d)
     \<and> status_ok (da_status d) \<and> input_ok (da_input d)"

lemma inv_draws:
  assumes "dash_inv bound node dev original d w"
  shows "\<exists>s. draw_screen (da_screen d) (da_status d) (da_input d) runtime frames (da_renderer d) = Some s \<and> steady (da_renderer d) s"
  using assms by (intro draw_screen_steady) (simp_all add: dash_inv_def)

lemma owner_ok_same_bound: "bound w' = bound w \<Longrightarrow> owner_ok bound node dev original owner w' = owner_ok bound node dev original owner w"
  by (simp add: owner_ok_def)

text \<open>The rule for the loop: an invariant of the step holds at the exit.\<close>

lemma dash_loop_invariant:
  assumes loop: "dash_loop seconds_of os opts started d w = Some (ex, d', w')" and init: "I d w"
    and step: "\<And>d w ex d' w'. I d w \<Longrightarrow> dash_step seconds_of os opts started d w = Some (ex, d', w') \<Longrightarrow>
      I d' w' \<and> (\<forall>e. ex = Some e \<longrightarrow> E e)"
  shows "I d' w' \<and> E ex"
proof -
  let ?P = "\<lambda>s o1 p st d w y. s = seconds_of \<longrightarrow> o1 = os \<longrightarrow> p = opts \<longrightarrow> st = started \<longrightarrow> I d w \<longrightarrow>
      I (fst (snd y)) (snd (snd y)) \<and> E (fst y)"
  have "?P seconds_of os opts started d w (ex, d', w')"
  proof (rule dash_loop.raw_induct[where P = ?P, OF _ loop], goal_cases)
    case (1 loop s o1 p st d w y)
    show ?case
    proof (intro impI)
      assume eq: "s = seconds_of" "o1 = os" "p = opts" "st = started" and I: "I d w"
      obtain e d1 w1 where e: "dash_step seconds_of os opts started d w = Some (e, d1, w1)"
        using 1(2) eq by (auto split: option.splits)
      note next_I = step[OF I e]
      show "I (fst (snd y)) (snd (snd y)) \<and> E (fst y)"
      proof (cases e)
        case None
        then have "loop s o1 p st d1 w1 = Some y" using 1(2) e eq by simp
        from 1(1)[OF this] show ?thesis using eq next_I by blast
      next
        case (Some a)
        then have "y = (a, d1, w1)" using 1(2) e eq by simp
        then show ?thesis using next_I Some by simp
      qed
    qed
  qed
  then show ?thesis using init by simp
qed

text \<open>What is asked of the framebuffer: at least three bytes per pixel, and products below \<open>2 ^ 32\<close>.\<close>

definition proper :: "fb_owner \<Rightarrow> bool" where
  "proper owner \<longleftrightarrow> 3 \<le> unat (ow_bpp owner div 8) \<and> unat (ow_width owner) * unat (ow_bpp owner div 8) < 2 ^ 32
     \<and> unat (ow_stride owner) * unat (ow_height owner) < 2 ^ 32"

definition geometry_ok :: "'w dash_os \<Rightarrow> dash_options \<Rightarrow> 'w \<Rightarrow> bool" where
  "geometry_ok os opts w \<longleftrightarrow> (\<forall>owner w'. fb_owner_probe (ds_files os) (fb_owner_init (Ptr (op_root opts)))
     (snd (dash_input os opts w)) = (0, owner, w') \<longrightarrow> proper owner)"

text \<open>\<open>malloc\<close> returns NULL or a block of the size it was asked for.\<close>

definition malloc_ok :: "(size_t \<Rightarrow> u8 list ptr) \<Rightarrow> bool" where
  "malloc_ok malloc \<longleftrightarrow> (\<forall>n b. malloc n = Ptr b \<longrightarrow> length b = unat n)"

lemma render_init_total:
  assumes "\<And>n b. malloc n = Ptr b \<Longrightarrow> length b = unat n"
  shows "\<exists>rc r. render_init malloc w h bpp stride = Some (rc, r)"
  using assms by (auto simp: render_init_def Let_def clear_loop split: ptr.split)

locale dash_platform = fb_platform "ds_files os" bound screen pos interrupts bind_path dev_path + event_queue os queue
  for os :: "'w dash_os" and bound screen pos interrupts bind_path dev_path queue +
  assumes open_quiet: "fo_open (ds_files os) path flags w = (fd, w1) \<Longrightarrow> bound w1 = bound w"
    and read_quiet: "ds_read os fd n w = (r, w1) \<Longrightarrow> bound w1 = bound w"
    and read_bound: "ds_read os fd n w = (Got bs, w1) \<Longrightarrow> length bs \<le> n"
    and poll_quiet: "ds_poll os fd t w = (p, w1) \<Longrightarrow> bound w1 = bound w"
    and clock_quiet: "ds_clock os w = (ts, w1) \<Longrightarrow> bound w1 = bound w"
    and stop_quiet: "ds_stop os w = (stop, w1) \<Longrightarrow> bound w1 = bound w"
    and print_quiet: "ds_print os line w = (flushed, w1) \<Longrightarrow> bound w1 = bound w"
begin

lemma read_text_quiet: "bound (snd (read_text os path cap w)) = bound w"
  unfolding read_text_def
  by (auto split: prod.splits dest!: open_quiet read_quiet close_quiet)

lemma read_text_short:
  assumes "fst (read_text os path 256 w) = Some s"
  shows "length s < 256"
proof -
  obtain fd n bs w1 w2 where r: "ds_read os fd 255 w1 = (Got bs, w2)"
      and s: "s = c_str (trim_end (map (\<lambda>b. char_of (unat b)) bs))"
    using assms unfolding read_text_def by (auto simp: Let_def split: prod.splits read_result.splits if_splits)
  have "length s \<le> length (trim_end (map (\<lambda>b. char_of (unat b) :: char) bs))"
    unfolding s c_str_def by (rule length_takeWhile_le)
  also have "\<dots> \<le> length bs"
    unfolding trim_end_def using length_dropWhile_le[of _ "rev (map (\<lambda>b. char_of (unat b) :: char) bs)"] by simp
  finally show ?thesis using read_bound[OF r] by simp
qed

lemma open_quiet_snd: "bound (snd (fo_open (ds_files os) path flags w)) = bound w"
  using open_quiet[OF prod.collapse[symmetric]] by blast

lemma try_device_quiet: "bound (snd (try_device os sysroot devroot wanted n w)) = bound w"
  unfolding try_device_def by (simp add: case_prod_beta read_text_quiet open_quiet_snd split: option.split)

lemma try_device_input_ok:
  assumes "fst (try_device os sysroot devroot wanted n w) = Some inp"
  shows "input_ok inp"
  using assms unfolding try_device_def
  by (auto simp: case_prod_beta input_ok_def sset_def fit_def blank_input_def node_path_def dest: read_text_short
      split: option.splits if_splits)

lemma try_devices_spec:
  "bound (snd (try_devices os sysroot devroot wanted ns w)) = bound w \<and>
   (fst (fst (try_devices os sysroot devroot wanted ns w)) = 0 \<longrightarrow> input_ok (snd (fst (try_devices os sysroot devroot wanted ns w))))"
proof (induction ns arbitrary: w)
  case (Cons n ns)
  obtain r w1 where r: "try_device os sysroot devroot wanted n w = (r, w1)" by fastforce
  then show ?case using Cons[of w1] try_device_quiet[of sysroot devroot wanted n w] try_device_input_ok[of sysroot devroot wanted n w]
    by (cases r) auto
qed simp

lemma input_open_spec:
  assumes "input_open os sysroot devroot wanted w = ((rc, inp), w1)"
  shows "bound w1 = bound w" "rc = 0 \<Longrightarrow> input_ok inp"
  using assms try_devices_spec unfolding input_open_def by (auto split: ptr.splits if_splits) (metis fst_conv snd_conv)+

lemma drain_quiet:
  "\<exists>inp' action' w'. drain os inp action w = Some (inp', action', w') \<and> bound w' = bound w \<and> (input_ok inp \<longrightarrow> input_ok inp')"
proof (induction "queue (di_fd inp) w" arbitrary: inp action w)
  case Nil
  obtain r w' where r: "ds_read os (di_fd inp) 16 w = (r, w')" by fastforce
  from no_event[OF Nil(1)[symmetric] r] show ?case
    using r read_quiet[OF r] by (subst drain.simps) auto
next
  case (Cons e es)
  obtain r w1 where r: "ds_read os (di_fd inp) 16 w = (r, w1)" by fastforce
  from next_event[OF Cons(2)[symmetric] r] have e: "r = Got e" "queue (di_fd inp) w1 = es" by simp_all
  have len: "length e = 16" using whole_events[of e "di_fd inp" w] Cons(2) by (metis list.set_intros(1))
  then have "e \<noteq> []" by auto
  then show ?case
    using Cons(1)[of "inp\<lparr>events_seen := events_seen inp + 1\<rparr>" w1 "take_event (decode_event e) action"] r e len read_quiet[OF r]
    by (subst drain.simps) (auto simp: input_ok_def)
qed

lemma input_poll_quiet:
  "\<exists>rc inp' action w'. input_poll os inp t w = Some (rc, inp', action, w') \<and> bound w' = bound w \<and> (input_ok inp \<longrightarrow> input_ok inp')
     \<and> (rc = 0 \<or> rc = - 1)"
proof -
  obtain p w1 where p: "ds_poll os (di_fd inp) (if t < 0 then 0 else t) w = (p, w1)" by fastforce
  show ?thesis
    using p poll_quiet[OF p] drain_quiet[of inp DASHBOARD_ACTION_NONE w1] unfolding input_poll_def by (cases p) auto
qed

lemma slurp_quiet: "bound (snd (slurp (ds_files os) path w)) = bound w"
  unfolding slurp_def by (auto split: prod.splits ptr.splits dest: no_stream read_stream)

lemma first_line_quiet: "bound (snd (read_first_line (ds_files os) path cap w)) = bound w"
  unfolding read_first_line_def using slurp_quiet[of path w] by (auto simp: case_prod_beta split: option.split)

lemma find_interface_quiet: "bound (snd (find_interface (ds_files os) root cs w)) = bound w"
  by (induction cs arbitrary: w) (simp_all add: case_prod_beta first_line_quiet split: option.split)

lemma status_quiet: "bound (snd (status_collect seconds_of (ds_files os) root st w)) = bound w"
  unfolding status_collect_def collect_uname_def read_or_unknown_def collect_memory_def collect_uptime_def collect_network_def
    collect_mounts_def
  by (simp add: Let_def case_prod_beta slurp_quiet first_line_quiet find_interface_quiet split: option.split)

lemma now_quiet: "bound (snd (now_ms os w)) = bound w"
  unfolding now_ms_def using clock_quiet by (auto split: prod.splits option.splits)

lemma input_close_quiet: "bound (snd (input_close os inp w)) = bound w"
  unfolding input_close_def using close_quiet by (auto split: prod.splits)

lemma stop_quiet_snd: "bound (snd (ds_stop os w)) = bound w"
  using stop_quiet[OF prod.collapse[symmetric]] by blast

lemma stop_reason_quiet: "bound (snd (snd (stop_reason os opts started d w))) = bound w"
  unfolding stop_reason_def Let_def by (simp add: case_prod_beta now_quiet stop_quiet_snd)

lemma stop_reason_frames:
  "fst (stop_reason os opts started d w) = None \<Longrightarrow>
     op_frames_max opts = 0 \<or> of_int (frames_written (da_owner d)) < op_frames_max opts"
  unfolding stop_reason_def Let_def by (auto simp: case_prod_beta not_le split: if_splits)

lemma action_keeps:
  assumes inv: "dash_inv bound bind_path dev_path original d w"
    and step: "dash_action seconds_of os opts d w = Some (ex, d', w')"
  shows "dash_inv bound bind_path dev_path original d' w' \<and> da_owner d' = da_owner d
    \<and> screens_visited d' \<le> screens_visited d + 1 \<and> screens_visited d \<le> screens_visited d' \<and> (ex = None \<or> fst (the ex) \<in> {0, 8})"
proof -
  obtain rc inp a w1 where p: "input_poll os (da_input d) 120 w = Some (rc, inp, a, w1)" "bound w1 = bound w" "input_ok inp"
    using input_poll_quiet[of "da_input d" 120 w] inv by (auto simp: dash_inv_def)
  obtain st w2 where st: "status_collect seconds_of (ds_files os) (Ptr (op_root opts)) (da_status d) w1 = (st, w2)" by fastforce
  have ok: "status_ok st" "bound w2 = bound w"
    using status_collect_ok[of seconds_of "ds_files os" "Ptr (op_root opts)" "da_status d" w1]
      status_quiet[of seconds_of "Ptr (op_root opts)" "da_status d" w1] st p(2) by simp_all
  have same: "owner_ok bound bind_path dev_path original (da_owner d) w1" "owner_ok bound bind_path dev_path original (da_owner d) w2"
    using inv owner_ok_same_bound[of bound, OF p(2)] owner_ok_same_bound[of bound, OF ok(2)] by (simp_all add: dash_inv_def)
  show ?thesis
  proof (cases "rc = 0")
    case False
    then show ?thesis using step p(1,3) same inv by (auto simp: dash_action_def Let_def dash_inv_def)
  next
    case True
    then show ?thesis using step p(1,3) st ok(1) same inv
      by (cases a) (auto simp: dash_action_def Let_def dash_inv_def split: if_splits)
  qed
qed

lemma action_returns:
  assumes "in_int32 (screens_visited d + 1)"
  shows "\<exists>ex d' w'. dash_action seconds_of os opts d w = Some (ex, d', w')"
proof -
  obtain rc inp a w1 where p: "input_poll os (da_input d) 120 w = Some (rc, inp, a, w1)"
    using input_poll_quiet[of "da_input d" 120 w] by auto
  then show ?thesis using assms by (cases a) (auto simp: dash_action_def Let_def split: prod.split)
qed

lemma frame_call: "wf_shadow r \<Longrightarrow> frame_call_ok (Write_frame (shadow r) (rn_frame_bytes r))"
  by (cases "shadow r") (auto simp: wf_shadow_def frame_call_ok_def)

lemma step_keeps:
  assumes inv: "dash_inv bound bind_path dev_path original d w"
    and step: "dash_step seconds_of os opts started d w = Some (ex, d', w')"
  shows "dash_inv bound bind_path dev_path original d' w' \<and> (ex = None \<or> fst (the ex) \<in> {0, 7, 8})
    \<and> screens_visited d \<le> screens_visited d' \<and> screens_visited d' \<le> screens_visited d + 1
    \<and> (ex = None \<longrightarrow> frames_written (da_owner d') = frames_written (da_owner d) + 1)"
proof -
  obtain reason runtime w1 where r: "stop_reason os opts started d w = (reason, runtime, w1)" by (rule prod_cases3)
  have b: "bound w1 = bound w" using stop_reason_quiet[of opts started d w] r by simp
  then have inv1: "dash_inv bound bind_path dev_path original d w1"
    using inv owner_ok_same_bound[of bound, OF b] by (simp add: dash_inv_def)
  show ?thesis
  proof (cases reason)
    case (Some s)
    then show ?thesis using step r inv1 by (auto simp: dash_step_def Let_def)
  next
    case None
    obtain s where s: "draw_screen (da_screen d) (da_status d) (da_input d) runtime (of_int (frames_written (da_owner d))) (da_renderer d) = Some s"
        "steady (da_renderer d) s"
      using inv_draws[OF inv] by blast
    have wf: "wf_shadow s" using s(2) by (simp add: steady_def)
    obtain wrc owner w2 where wr: "fb_owner_write_frame (ds_files os) (da_owner d) (shadow s) (rn_frame_bytes s) w1 = Some (wrc, owner, w2)"
      using step r None s(1) by (auto simp: dash_step_def Let_def split: Option.bind_splits)
    note ref = write_frame_refines[OF _ frame_call[OF wf] wr, of original]
    let ?d = "d\<lparr>da_renderer := s, da_owner := owner\<rparr>"
    have inv2: "dash_inv bound bind_path dev_path original ?d w2"
      using ref inv1 wf by (simp add: dash_inv_def)
    have cnt: "wrc = 0 \<Longrightarrow> frames_written owner = frames_written (da_owner d) + 1"
      using ref inv1 by (simp add: dash_inv_def)
    show ?thesis
    proof (cases "wrc = 0")
      case True
      then have "dash_action seconds_of os opts ?d w2 = Some (ex, d', w')"
        using step r None s(1) wr by (simp add: dash_step_def Let_def)
      from action_keeps[OF inv2 this] show ?thesis using cnt[OF True] by auto
    next
      case False
      then show ?thesis using step r None s(1) wr inv2 by (auto simp: dash_step_def Let_def)
    qed
  qed
qed

lemma step_returns:
  assumes inv: "dash_inv bound bind_path dev_path original d w"
    and counters: "in_int32 (frames_written (da_owner d) + 1)" "in_int32 (screens_visited d + 1)"
  shows "\<exists>ex d' w'. dash_step seconds_of os opts started d w = Some (ex, d', w')
    \<and> (ex = None \<longrightarrow> op_frames_max opts = 0 \<or> of_int (frames_written (da_owner d)) < op_frames_max opts)"
proof -
  obtain reason runtime w1 where r: "stop_reason os opts started d w = (reason, runtime, w1)" by (rule prod_cases3)
  have b: "bound w1 = bound w" using stop_reason_quiet[of opts started d w] r by simp
  show ?thesis
  proof (cases reason)
    case (Some s)
    then show ?thesis using r by (simp add: dash_step_def Let_def)
  next
    case None
    obtain s where s: "draw_screen (da_screen d) (da_status d) (da_input d) runtime (of_int (frames_written (da_owner d))) (da_renderer d) = Some s"
        "steady (da_renderer d) s"
      using inv_draws[OF inv] by blast
    have wf: "wf_shadow s" using s(2) by (simp add: steady_def)
    have "owner_ok bound bind_path dev_path original (da_owner d) w1"
      using inv owner_ok_same_bound[of bound, OF b] by (simp add: dash_inv_def)
    then obtain wrc owner w2
      where wr: "fb_owner_write_frame (ds_files os) (da_owner d) (shadow s) (rn_frame_bytes s) w1 = Some (wrc, owner, w2)"
      using write_frame_returns[OF _ frame_call[OF wf] counters(1)] by blast
    obtain ex d' w' where "dash_action seconds_of os opts (d\<lparr>da_renderer := s, da_owner := owner\<rparr>) w2 = Some (ex, d', w')"
      using action_returns[of "d\<lparr>da_renderer := s, da_owner := owner\<rparr>" seconds_of opts w2] counters(2) by auto
    then have "\<exists>ex d' w'. dash_step seconds_of os opts started d w = Some (ex, d', w')"
      using r None s(1) wr by (simp add: dash_step_def Let_def)
    then show ?thesis using stop_reason_frames[of opts started d w] r None by auto
  qed
qed

lemma loop_returns:
  assumes "dash_inv bound bind_path dev_path original d w"
    and "op_frames_max opts \<noteq> 0" "uint (op_frames_max opts) < INT32_MAX - 1" "0 \<le> frames_written (da_owner d)" "frames_written (da_owner d) \<le> uint (op_frames_max opts)"
    "0 \<le> screens_visited d" "screens_visited d \<le> frames_written (da_owner d) + 1"
  shows "\<exists>ex d' w'. dash_loop seconds_of os opts started d w = Some (ex, d', w')"
  using assms
proof (induction "nat (uint (op_frames_max opts) - frames_written (da_owner d))" arbitrary: d w rule: less_induct)
  case less
  let ?n = "frames_written (da_owner d)"
  have "in_int32 (?n + 1)" "in_int32 (screens_visited d + 1)" using less.prems(3-7) by (auto simp: in_int32_def)
  from step_returns[OF less.prems(1) this] obtain ex d1 w1
    where step: "dash_step seconds_of os opts started d w = Some (ex, d1, w1)"
    and go: "ex = None \<Longrightarrow> of_int ?n < op_frames_max opts" using less.prems(2) by blast
  show ?case
  proof (cases ex)
    case (Some e)
    then show ?thesis using step by (subst dash_loop.simps) simp
  next
    case None
    have "uint (of_int ?n :: u32) = ?n"
      using less.prems(3-5) by (simp add: uint_word_of_int take_bit_int_eq_self)
    then have lt: "?n < uint (op_frames_max opts)" using go[OF None] by (simp add: word_less_def)
    note keeps = step_keeps[OF less.prems(1) step]
    have "\<exists>ex d' w'. dash_loop seconds_of os opts started d1 w1 = Some (ex, d', w')"
      using keeps None lt less.prems by (intro less.hyps) auto
    then show ?thesis using step None by (subst dash_loop.simps) simp
  qed
qed

lemma finish_restores:
  assumes "owner_ok bound bind_path dev_path original (da_owner d) w" "dash_finish os opts started ex d w = (rc, w')"
    and "fst ex \<in> {0, 7, 8}"
  shows "rc \<in> {0, 7, 8, 9, 10} \<and> (bound w' = original \<or> rc \<noteq> 0 \<and> original \<and> \<not> bound w')"
proof -
  obtain now w1 where n: "now_ms os w = (now, w1)" by fastforce
  have b1: "bound w1 = bound w" using now_quiet[of w] n by simp
  obtain rel owner w2 where r: "fb_owner_release (ds_files os) (da_owner d) w1 = (rel, owner, w2)" by (rule prod_cases3)
  have ok: "owner_ok bound bind_path dev_path original owner w2" "rel = 0 \<or> rel = - 1"
    using release_refines[OF _ r] assms(1) owner_ok_same_bound[of bound, OF b1] by blast+
  have "rel = 0 \<longrightarrow> \<not> fbcon_unbound_by_us owner"
    using ok(1) r unfolding fb_owner_release_def by (auto simp: owner_ok_def split: if_splits prod.splits)
  then have res: "rel = 0 \<Longrightarrow> bound w2 = original" "bound w2 = original \<or> original \<and> \<not> bound w2"
    using ok(1) by (auto simp: owner_ok_def)
  obtain inp w3 where c: "input_close os (da_input d) w2 = (inp, w3)" by fastforce
  have b3: "bound w3 = bound w2" using input_close_quiet[of "da_input d" w2] c by simp
  obtain line fl w4 where p: "ds_print os line w3 = (fl, w4)"
      "(rc, w') = (if \<not> fl then 10 else if rel \<noteq> 0 \<and> fst ex = 0 then 9 else fst ex, w4)"
    using assms(2) n r c by (auto simp: dash_finish_def Let_def split: prod.splits)
  have "bound w' = bound w2" using print_quiet[OF p(1)] b3 p(2) by simp
  then show ?thesis using p(2) res assms(3) ok(2) by (cases "rel = 0") auto
qed

lemma refused_quiet: "\<exists>v'. refused os inp code v = (code, v') \<and> bound v' = bound v"
  using input_close_quiet[of inp v] by (auto simp: refused_def split: prod.split)

lemma run_start:
  fixes opts :: dash_options
  defines "fresh \<equiv> fb_owner_init (Ptr (op_root opts))"
  assumes paths: "bind_path = vtcon_bind_path fresh" "dev_path = fb_path fresh"
    and "malloc_ok malloc" and geo: "geometry_ok os opts w"
  shows "(\<exists>code w1. dash_run seconds_of malloc os opts st0 w = Some (code, w1) \<and> code \<in> {3, 4, 5, 6} \<and> bound w1 = bound w)
    \<or> (\<exists>started d w1. dash_run seconds_of malloc os opts st0 w = do {
           (ex, d, w) \<leftarrow> dash_loop seconds_of os opts started d w1; Some (dash_finish os opts started ex d w) }
         \<and> dash_inv bound bind_path dev_path (bound w) d w1 \<and> frames_written (da_owner d) = 0 \<and> screens_visited d = 1)"
proof -
  have malloc: "\<And>n b. malloc n = Ptr b \<Longrightarrow> length b = unat n" using assms(4) by (simp add: malloc_ok_def)
  obtain irc inp w1 where io: "dash_input os opts w = ((irc, inp), w1)"
    by (metis prod.collapse)
  note io_spec = input_open_spec[OF io[unfolded dash_input_def]]
  obtain prc owner w2 where pr: "fb_owner_probe (ds_files os) fresh w1 = (prc, owner, w2)" by (rule prod_cases3)
  have init: "owner_ok bound bind_path dev_path (bound w) fresh w1"
    using owner_ok_init[of bound "Ptr (op_root opts)" w1] io_spec(1) by (simp add: paths fresh_def)
  note pref = probe_refines[OF init pr] and pplaus = probe_plausible[OF pr]
  have b2: "bound w2 = bound w" using probe_spec(1)[of fresh w1] pr io_spec(1) paths by simp
  obtain rrc r where ri: "render_init malloc (ow_width owner) (ow_height owner) (ow_bpp owner) (ow_stride owner) = Some (rrc, r)"
    using render_init_total[OF malloc] by blast
  obtain arc owner3 w3 where ac: "fb_owner_acquire (ds_files os) owner w2 = (arc, owner3, w3)" by (rule prod_cases3)
  note aref = acquire_refines[OF _ ac, of "bound w"]
  obtain st w4 where stc: "status_collect seconds_of (ds_files os) (Ptr (op_root opts)) st0 w3 = (st, w4)" by fastforce
  have b4: "bound w4 = bound w3" using status_quiet[of seconds_of "Ptr (op_root opts)" st0 w3] stc by simp
  obtain started w5 where nw: "now_ms os w4 = (started, w5)" by fastforce
  have b5: "bound w5 = bound w3" using now_quiet[of w4] nw b4 by simp
  note run = dash_run_def[of seconds_of malloc os opts st0 w]
  consider "irc \<noteq> 0" | "irc = 0" "prc \<noteq> 0" | "irc = 0" "prc = 0" "rrc \<noteq> 0" | "irc = 0" "prc = 0" "rrc = 0" "arc \<noteq> 0"
    | "irc = 0" "prc = 0" "rrc = 0" "arc = 0" by blast
  then show ?thesis
  proof cases
    case 1
    then show ?thesis using io io_spec(1) unfolding run by simp
  next
    case 2
    then show ?thesis
      using io pr b2 refused_quiet[of inp 4 w2] unfolding run fresh_def by (intro disjI1) auto
  next
    case 3
    then show ?thesis
      using io pr ri b2 refused_quiet[of inp 5 w2] unfolding run fresh_def by (intro disjI1) auto
  next
    case 4
    have "bound w3 = bound w"
      using ac 4(4) b2 aref pref unfolding fb_owner_acquire_def owner_ok_def by (auto split: if_splits prod.splits)
    then show ?thesis
      using 4 io pr ri ac refused_quiet[of inp 6 w3] unfolding run fresh_def by (intro disjI1) auto
  next
    case 5
    have geos: "plausible owner" "proper owner" using pplaus geo pr io 5(2) by (simp_all add: geometry_ok_def fresh_def)
    then have "ow_stride owner \<noteq> 0" by (auto simp: plausible_def)
    then have "wf_shadow r"
      using render_init_wf[OF ri[unfolded 5(3)] malloc] geos(2) by (simp add: proper_def)
    moreover have "status_ok st" using status_collect_ok[of seconds_of "ds_files os" "Ptr (op_root opts)" st0 w3] stc by simp
    moreover have "owner_ok bound bind_path dev_path (bound w) owner3 w5"
      using aref pref owner_ok_same_bound[of bound, OF b5] by blast
    moreover have "frames_written owner3 = 0" using aref pref by (simp add: fresh_def)
    ultimately show ?thesis
      using 5 io pr ri ac stc nw io_spec(2) unfolding run fresh_def
      by (intro disjI2 exI[of _ started] exI[of _ w5]
          exI[of _ "\<lparr>da_owner = owner3, da_renderer = r, da_status = st, da_input = inp, da_screen = 0, screens_visited = 1\<rparr>"])
        (simp add: dash_inv_def)
  qed
qed

lemma main_restores:
  fixes opts :: dash_options
  assumes parse: "parse_options args default_options = Inr opts"
    and paths: "bind_path = vtcon_bind_path (fb_owner_init (Ptr (op_root opts)))" "dev_path = fb_path (fb_owner_init (Ptr (op_root opts)))"
    and malloc: "malloc_ok malloc" and geo: "geometry_ok os opts w"
    and run: "dash_main seconds_of malloc os args st0 w = Some (rc, w')"
  shows "rc \<in> {0, 3, 4, 5, 6, 7, 8, 9, 10} \<and> (bound w' = bound w \<or> rc \<in> {7, 8, 9, 10} \<and> bound w \<and> \<not> bound w')"
  using run_start[OF paths malloc geo, where seconds_of = seconds_of and ?st0.0 = st0]
proof (elim disjE exE conjE)
  fix code w1
  assume "dash_run seconds_of malloc os opts st0 w = Some (code, w1)" "code \<in> {3, 4, 5, 6}" "bound w1 = bound w"
  then show ?thesis using run parse by (auto simp: dash_main_def)
next
  fix started d w1
  assume eq: "dash_run seconds_of malloc os opts st0 w = do {
      (ex, d, w) \<leftarrow> dash_loop seconds_of os opts started d w1; Some (dash_finish os opts started ex d w) }"
    and inv: "dash_inv bound bind_path dev_path (bound w) d w1"
  obtain ex d2 w2 where loop: "dash_loop seconds_of os opts started d w1 = Some (ex, d2, w2)"
      and fin: "dash_finish os opts started ex d2 w2 = (rc, w')"
    using run parse eq by (auto simp: dash_main_def split: Option.bind_splits)
  have "dash_inv bound bind_path dev_path (bound w) d2 w2 \<and> fst ex \<in> {0, 7, 8}"
    using loop inv by (rule dash_loop_invariant) (metis option.sel option.distinct(1) step_keeps)
  then show ?thesis using finish_restores[OF _ fin, of "bound w"] by (auto simp: dash_inv_def)
qed

lemma main_returns:
  fixes opts :: dash_options
  assumes parse: "parse_options args default_options = Inr opts"
    and paths: "bind_path = vtcon_bind_path (fb_owner_init (Ptr (op_root opts)))" "dev_path = fb_path (fb_owner_init (Ptr (op_root opts)))"
    and malloc: "malloc_ok malloc" and geo: "geometry_ok os opts w"
    and bounded: "op_frames_max opts \<noteq> 0" "uint (op_frames_max opts) < INT32_MAX - 1"
  shows "\<exists>rc w'. dash_main seconds_of malloc os args st0 w = Some (rc, w')"
  using run_start[OF paths malloc geo, where seconds_of = seconds_of and ?st0.0 = st0]
proof (elim disjE exE conjE)
  fix started d w1
  assume eq: "dash_run seconds_of malloc os opts st0 w = do {
      (ex, d, w) \<leftarrow> dash_loop seconds_of os opts started d w1; Some (dash_finish os opts started ex d w) }"
    and inv: "dash_inv bound bind_path dev_path (bound w) d w1" and cnt: "frames_written (da_owner d) = 0" "screens_visited d = 1"
  obtain ex d2 w2 where "dash_loop seconds_of os opts started d w1 = Some (ex, d2, w2)"
    using loop_returns[OF inv bounded, of seconds_of started] cnt by auto
  then show ?thesis using eq parse by (simp add: dash_main_def)
qed (use parse in \<open>simp add: dash_main_def\<close>)

end

section \<open>A fixture of the program's platform\<close>

text \<open>The owner's fixture, where every other path opens too: the metadata of every device reads as the wanted identity, and the
  device itself is silent.\<close>

definition bench_open :: "string \<Rightarrow> u32 \<Rightarrow> fixture \<Rightarrow> int \<times> fixture" where
  "bench_open path flags w = (if path = ''/dev/fb0'' then fixture_open ''/dev/fb0'' path flags w else (1000, w))"

definition bench_os :: "fixture dash_os" where
  "bench_os = \<lparr>ds_files = (fixture_os ''/dev/fb0'')\<lparr>fo_open := bench_open\<rparr>,
     ds_read = (\<lambda>fd n w. (if n = 16 then Got [] else Got (take n (bytes_of ''vita_syscon_buttons'')), w)),
     ds_poll = (\<lambda>fd t w. (Poll_timeout, w)), ds_clock = (\<lambda>w. (Some (7, 0), w)), ds_stop = (\<lambda>w. (False, w)),
     ds_print = (\<lambda>line w. (True, w))\<rparr>"

lemma fb_platform_reopen:
  assumes "fb_platform os bound screen pos interrupts node dev"
    and "\<And>flags w fd w1. op dev flags w = (fd, w1) \<Longrightarrow> bound w1 = bound w \<and> screen w1 = screen w \<and> (0 \<le> fd \<longrightarrow> pos fd w1 = Some 0)"
  shows "fb_platform (os\<lparr>fo_open := op\<rparr>) bound screen pos interrupts node dev"
  using assms unfolding fb_platform_def by simp

interpretation bench: dash_platform bench_os "fixture_bound ''/sys/class/vtconsole/vtcon1/bind''" fx_screen fixture_pos fx_interrupts
  "''/sys/class/vtconsole/vtcon1/bind''" "''/dev/fb0''" "\<lambda>fd w. []"
proof (intro dash_platform.intro)
  let ?bound = "fixture_bound ''/sys/class/vtconsole/vtcon1/bind''"
  have files: "ds_files bench_os = (fixture_os ''/dev/fb0'')\<lparr>fo_open := bench_open\<rparr>" by (simp add: bench_os_def)
  show "fb_platform (ds_files bench_os) ?bound fx_screen fixture_pos fx_interrupts ''/sys/class/vtconsole/vtcon1/bind'' ''/dev/fb0''"
    unfolding files
  proof (rule fb_platform_reopen[OF fixture.fb_platform_axioms])
    fix flags w fd w1
    assume "bench_open ''/dev/fb0'' flags w = (fd, w1)"
    then show "?bound w1 = ?bound w \<and> fx_screen w1 = fx_screen w \<and> (0 \<le> fd \<longrightarrow> fixture_pos fd w1 = Some 0)"
      using fixture.open_dev[of "''/dev/fb0''" flags w fd w1 "''/sys/class/vtconsole/vtcon1/bind''"]
      by (simp add: bench_open_def fixture_os_def)
  qed
  show "event_queue bench_os (\<lambda>fd w. [])" by unfold_locales (auto simp: bench_os_def)
  show "dash_platform_axioms bench_os ?bound"
    by unfold_locales
      (auto simp: bench_os_def bench_open_def fixture_open_def fixture_bound_def split: if_splits)
qed

section \<open>Correctness\<close>

text \<open>C5. Safety.  Whenever the dashboard ends, by a signal, at the end of its time or frames, on request or by any error, the
  console is bound as it was before the start; the only exception is a rebind that the kernel refused, and then the
  exit code is not 0.\<close>

theorem dashboard_gives_console_back:
  assumes "dash_platform os bound screen pos interrupts (vtcon_bind_path (fb_owner_init (Ptr (op_root opts))))
      (fb_path (fb_owner_init (Ptr (op_root opts)))) queue"
    and "parse_options args default_options = Inr opts" and "malloc_ok malloc" and "geometry_ok os opts w"
  shows "\<forall>rc w'. dash_main seconds_of malloc os args st0 w = Some (rc, w') \<longrightarrow>
    rc \<in> {0, 3, 4, 5, 6, 7, 8, 9, 10} \<and> (bound w' = bound w \<or> rc \<in> {7, 8, 9, 10} \<and> bound w \<and> \<not> bound w')"
  using dash_platform.main_restores[OF assms(1,2) refl refl assms(3,4)] by blast


definition bench_args :: "string list" where
  "bench_args = [''--forever'', ''--frames-max'', ''3'']"

definition bench_options :: dash_options where
  "bench_options = default_options\<lparr>op_forever := True, op_frames_max := 3\<rparr>"

lemma bench_parse: "parse_options bench_args default_options = Inr bench_options"
  by (simp add: bench_args_def bench_options_def default_options_def atol_def scan_int_def scan_sign_def isspace_def isdigit_def
      digits_value_def digit_value_def)

lemma bench_platform:
  "dash_platform bench_os (fixture_bound ''/sys/class/vtconsole/vtcon1/bind'') fx_screen fixture_pos fx_interrupts
     (vtcon_bind_path (fb_owner_init (Ptr (op_root bench_options)))) (fb_path (fb_owner_init (Ptr (op_root bench_options)))) (\<lambda>fd w. [])"
  using bench.dash_platform_axioms by (simp add: bench_options_def default_options_def demo_node demo_dev)

lemma bench_text_world: "snd (read_text bench_os path cap w) = w" if "path \<noteq> ''/dev/fb0''"
  using that by (simp add: read_text_def bench_os_def bench_open_def fixture_os_def case_prod_beta)

lemma demo_sysfs:
  "sysfs_size_path (fb_owner_init (Ptr '''')) = ''/sys/class/graphics/fb0/virtual_size''"
  "sysfs_bpp_path (fb_owner_init (Ptr '''')) = ''/sys/class/graphics/fb0/bits_per_pixel''"
  "sysfs_stride_path (fb_owner_init (Ptr '''')) = ''/sys/class/graphics/fb0/stride''"
  by (simp_all add: fb_owner_init_def join_def sset_def sappend_def fit_def)

lemma event_path_not_dev: "event_path '''' n leaf \<noteq> ''/dev/fb0''" "node_path ''/dev/input'' n \<noteq> ''/dev/fb0''"
  by (simp_all add: event_path_def node_path_def fit_def)

lemma bench_input_world: "snd (dash_input bench_os bench_options w) = w"
proof -
  have dev: "snd (try_device bench_os '''' ''/dev/input'' wanted n w) = w" for wanted n w
    unfolding try_device_def
    by (simp add: case_prod_beta bench_text_world event_path_not_dev bench_os_def[THEN arg_cong, of ds_files]
        bench_open_def split: option.split)
  have "snd (try_devices bench_os '''' ''/dev/input'' wanted ns w) = w" for wanted ns w
  proof (induction ns arbitrary: w)
    case (Cons n ns)
    then show ?case using dev[of wanted n w] by (auto split: prod.splits option.splits)
  qed simp
  then show ?thesis
    by (simp add: dash_input_def input_open_def bench_options_def default_options_def fit_def)
qed

lemma demo_scan: "scan_pair ''2,1'' = Some (2, 1)" "scan_unsigned ''32'' = Some (32, '''')"
  by (simp_all add: scan_pair_def scan_unsigned_def scan_sign_def isspace_def isdigit_def digits_value_def digit_value_def)

lemma bench_geometry: "geometry_ok bench_os bench_options demo_fixture"
proof -
  let ?os = "(fixture_os ''/dev/fb0'')\<lparr>fo_open := bench_open\<rparr>" and ?fresh = "fb_owner_init (Ptr '''')"
  have files: "ds_files bench_os = ?os" by (simp add: bench_os_def)
  have size: "fst (read_size_file ?os (sysfs_size_path ?fresh) demo_fixture) = Some (2, 1)"
    by (simp add: read_size_file_def demo_sysfs demo_fixture_def fixture_os_def fixture_fopen_def fixture_contents_def fixture_fclose_def demo_scan)
  have same: "fx_files (snd (read_size_file ?os p w)) = fx_files w" "fx_files (snd (read_uint_file ?os p w)) = fx_files w" for p w
    by (simp_all add: read_size_file_def read_uint_file_def fixture_os_def fixture_fopen_def fixture_contents_def fixture_fclose_def split: option.split)
  have uint: "fst (read_uint_file ?os p w) = (case fx_files w p of None \<Rightarrow> None | Some s \<Rightarrow> map_option fst (scan_unsigned s))" for p w
    by (simp add: read_uint_file_def fixture_os_def fixture_fopen_def fixture_contents_def fixture_fclose_def split: option.split)
  have "proper owner" if "fb_owner_probe ?os ?fresh demo_fixture = (0, owner, w')" for owner w'
  proof -
    have "ow_width owner = 2 \<and> ow_height owner = 1 \<and> ow_bpp owner = 32 \<and> ow_stride owner = 8"
      using that size unfolding fb_owner_probe_def
      by (auto simp: case_prod_beta Let_def uint same demo_sysfs demo_fixture_def demo_scan split: option.splits if_splits)
    then show ?thesis by (simp add: proper_def)
  qed
  moreover have "op_root bench_options = []" by (simp add: bench_options_def default_options_def)
  ultimately show ?thesis unfolding geometry_ok_def bench_input_world files by simp
qed

definition bench_malloc :: "size_t \<Rightarrow> u8 list ptr" where
  "bench_malloc n = Ptr (replicate (unat n) 255)"

definition bench_status :: dashboard_status where
  "bench_status = \<lparr>st_kernel = '''', st_arch = '''', st_cpus_online = '''', st_memory_available = '''', st_uptime = '''',
     st_interface = '''', st_address = '''', st_storage = '''', st_toolkit = '''', st_compiler = '''', st_workspace = ''''\<rparr>"

lemma bench_malloc_ok: "malloc_ok bench_malloc"
  by (simp add: malloc_ok_def bench_malloc_def)

theorem dashboard_gives_console_back_witness:
  "\<exists>rc w'. dash_main (\<lambda>s. None) bench_malloc bench_os bench_args bench_status demo_fixture = Some (rc, w')
    \<and> rc \<in> {0, 3, 4, 5, 6, 7, 8, 9, 10}
    \<and> (fixture_bound ''/sys/class/vtconsole/vtcon1/bind'' w' = fixture_bound ''/sys/class/vtconsole/vtcon1/bind'' demo_fixture
       \<or> rc \<in> {7, 8, 9, 10} \<and> fixture_bound ''/sys/class/vtconsole/vtcon1/bind'' demo_fixture
         \<and> \<not> fixture_bound ''/sys/class/vtconsole/vtcon1/bind'' w')"
proof -
  have "op_frames_max bench_options \<noteq> 0" "uint (op_frames_max bench_options) < INT32_MAX - 1"
    by (simp_all add: bench_options_def)
  then obtain rc w' where "dash_main (\<lambda>s. None) bench_malloc bench_os bench_args bench_status demo_fixture = Some (rc, w')"
    using dash_platform.main_returns[OF bench_platform bench_parse refl refl bench_malloc_ok bench_geometry] by blast
  then show ?thesis
    using dashboard_gives_console_back[OF bench_platform bench_parse bench_malloc_ok bench_geometry] by blast
qed


end
