(* ===== verification/Vita_Control.thy ===== *)
theory Vita_Control
  imports C_Library
begin

text \<open>
  The control program of the cart, \<open>toolkit/share/vita-control.c\<close>: it finds the running cart through its
  PID file, checks the executable of the process and sends \<open>SIGUSR1\<close>, at most once per interval.  The time
  of the last trigger is kept in a state file under an exclusive lock.  The system calls are operations on
  an abstract world; the locale \<open>ctl_platform\<close> says what they do to the clock, to the state file and to the
  processes.  The lemmas show that two triggers are an interval apart when the runs follow each other, that
  the advertised waiting time is exact, and that a process which has read the clock before another one
  recorded its trigger is let through.
\<close>

section \<open>The operating system\<close>

record 'w ctl_os =
  co_open :: "string \<Rightarrow> u32 \<Rightarrow> 'w \<Rightarrow> int \<times> 'w"
  co_read :: "int \<Rightarrow> nat \<Rightarrow> 'w \<Rightarrow> string option \<times> 'w"          \<comment> \<open>\<open>None\<close> is a negative result\<close>
  co_close :: "int \<Rightarrow> 'w \<Rightarrow> int \<times> 'w"
  co_flock :: "int \<Rightarrow> u32 \<Rightarrow> 'w \<Rightarrow> int \<times> 'w"
  co_ftruncate :: "int \<Rightarrow> 'w \<Rightarrow> int \<times> 'w"                    \<comment> \<open>to length 0\<close>
  co_lseek :: "int \<Rightarrow> 'w \<Rightarrow> int \<times> 'w"                        \<comment> \<open>to the start\<close>
  co_write :: "int \<Rightarrow> string \<Rightarrow> 'w \<Rightarrow> int \<times> 'w"
  co_kill :: "int \<Rightarrow> nat \<Rightarrow> 'w \<Rightarrow> int option \<times> 'w"            \<comment> \<open>\<open>Some\<close> is a failure with its \<open>errno\<close>\<close>
  co_readlink :: "string \<Rightarrow> nat \<Rightarrow> 'w \<Rightarrow> string option \<times> 'w"
  co_clock :: "'w \<Rightarrow> (int \<times> int) option \<times> 'w"               \<comment> \<open>\<open>tv_sec\<close> and \<open>tv_nsec\<close>\<close>

abbreviation O_RDONLY_CLOEXEC :: u32 where "O_RDONLY_CLOEXEC \<equiv> 0x80000"
abbreviation O_RDWR_CREAT_CLOEXEC :: u32 where "O_RDWR_CREAT_CLOEXEC \<equiv> 0x80042"
abbreviation LOCK_EX :: u32 where "LOCK_EX \<equiv> 2"
abbreviation LOCK_UN :: u32 where "LOCK_UN \<equiv> 8"
abbreviation EPERM :: int where "EPERM \<equiv> 1"
abbreviation SIGUSR1_no :: nat where "SIGUSR1_no \<equiv> 10"
abbreviation SMALL_BUFFER :: nat where "SMALL_BUFFER \<equiv> 256"
abbreviation PID_BUFFER :: nat where "PID_BUFFER \<equiv> 32"

section \<open>Operations\<close>

text \<open>Every line that is printed, without its end of line.\<close>

definition usage :: "string \<Rightarrow> string list" where
  "usage program = [''usage: '' @ program @ '' status|next [options]'',
     ''  --machine                 stable key=value output'',
     ''  --pidfile PATH            cart PID file'',
     ''  --expected-exe PATH       required cart executable'',
     ''  --state PATH              rate-limit state file'',
     ''  --min-interval-ms MS      minimum interval between next actions'']"

definition report :: "bool \<Rightarrow> string \<Rightarrow> string \<Rightarrow> string" where
  "report machine key v = (if machine then key @ ''='' @ v else key @ '': '' @ v)"

definition parse_unsigned :: "string ptr \<Rightarrow> u64 option" where
  "parse_unsigned str = (case str of NULL \<Rightarrow> None
     | Ptr s \<Rightarrow> if s = '''' then None
        else case strtoull s of None \<Rightarrow> None
          | Some (parsed, rest, out_of_range) \<Rightarrow> if out_of_range \<or> rest \<noteq> '''' then None else Some parsed)"

text \<open>The buffer holds the bytes that were read; the trailing white space is overwritten by terminators.\<close>

definition trimmed :: "char \<Rightarrow> bool" where
  "trimmed c \<longleftrightarrow> of_char c = (10 :: nat) \<or> of_char c = (13 :: nat) \<or> of_char c = (32 :: nat) \<or> of_char c = (9 :: nat)"

definition trim_buffer :: "string \<Rightarrow> string" where
  "trim_buffer buf = rev (dropWhile trimmed (rev buf))"

definition read_small_file :: "'w ctl_os \<Rightarrow> string \<Rightarrow> nat \<Rightarrow> 'w \<Rightarrow> string option \<times> 'w" where
  "read_small_file os path capacity w =
    (case co_open os path O_RDONLY_CLOEXEC w of (fd, w) \<Rightarrow>
     if fd < 0 then (None, w)
     else case co_read os fd (capacity - 1) w of (r, w) \<Rightarrow> case co_close os fd w of (_, w) \<Rightarrow>
       (case r of None \<Rightarrow> None | Some buf \<Rightarrow> if buf = [] then None else Some (c_str (trim_buffer buf)), w))"

record ctl_target =
  tg_pid :: int
  tg_exe :: string

definition proc_exe :: "int \<Rightarrow> string" where
  "proc_exe pid = ''/proc/'' @ show_nat (nat pid) @ ''/exe''"

definition load_target :: "'w ctl_os \<Rightarrow> string \<Rightarrow> string \<Rightarrow> ctl_target \<Rightarrow> 'w \<Rightarrow> int \<times> ctl_target \<times> 'w" where
  "load_target os pidfile expected_exe t w =
    (case read_small_file os pidfile PID_BUFFER w of
       (None, w) \<Rightarrow> (- 2, t, w)
     | (Some pid_text, w) \<Rightarrow> (case parse_unsigned (Ptr pid_text) of
         None \<Rightarrow> (- 2, t, w)
       | Some parsed_pid \<Rightarrow>
         if parsed_pid = 0 \<or> 2147483647 < parsed_pid then (- 2, t, w)
         else let t = t\<lparr>tg_pid := uint parsed_pid\<rparr> in
         case co_kill os (tg_pid t) 0 w of (failed, w) \<Rightarrow>
         if failed \<noteq> None \<and> failed \<noteq> Some EPERM then (- 3, t, w)
         else case co_readlink os (proc_exe (tg_pid t)) (SMALL_BUFFER - 1) w of
           (None, w) \<Rightarrow> (- 4, t, w)
         | (Some link, w) \<Rightarrow> let t = t\<lparr>tg_exe := c_str link\<rparr> in
             (if tg_exe t \<noteq> expected_exe then - 5 else 0, t, w)))"

definition monotonic_ns :: "'w ctl_os \<Rightarrow> 'w \<Rightarrow> u64 option \<times> 'w" where
  "monotonic_ns os w = (case co_clock os w of
     (None, w) \<Rightarrow> (None, w)
   | (Some (tv_sec, tv_nsec), w) \<Rightarrow> (Some (of_int tv_sec * 1000000000 + of_int tv_nsec), w))"

definition load_interval :: "(string \<Rightarrow> string ptr) \<Rightarrow> string ptr \<Rightarrow> u64 option" where
  "load_interval getenv override =
    (let environment = (if override = NULL then getenv ''VITA_CONTROL_MIN_INTERVAL_MS'' else override);
         environment = (if environment = NULL then Ptr ''500'' else environment)
     in case parse_unsigned environment of None \<Rightarrow> None
        | Some milliseconds \<Rightarrow> if 3600000 < milliseconds then None else Some milliseconds)"

definition report_target_error :: "bool \<Rightarrow> int \<Rightarrow> string \<Rightarrow> string list" where
  "report_target_error machine result actual_exe =
    (if result = - 2 then [report machine ''status'' ''invalid_pidfile'']
     else if result = - 3 then [report machine ''status'' ''target_not_running'']
     else if result = - 5 then [report machine ''status'' ''target_executable_mismatch'',
                                report machine ''actual_exe'' actual_exe]
     else [report machine ''status'' ''target_inspection_failed''])"

text \<open>The time to wait, when the recorded trigger is too recent.\<close>

definition retry_after :: "string option \<Rightarrow> u64 \<Rightarrow> u64 \<Rightarrow> u64 option" where
  "retry_after previous interval_ms now_ns = (case previous of None \<Rightarrow> None
     | Some buf \<Rightarrow> if buf = [] then None
       else case parse_unsigned (Ptr (c_str buf)) of None \<Rightarrow> None
         | Some previous_ns \<Rightarrow>
           if \<not> previous_ns \<le> now_ns then None
           else let elapsed_ns = now_ns - previous_ns in
             if elapsed_ns < interval_ms * 1000000
             then Some ((interval_ms * 1000000 - elapsed_ns + 999999) div 1000000) else None)"

definition record_trigger :: "'w ctl_os \<Rightarrow> int \<Rightarrow> u64 \<Rightarrow> 'w \<Rightarrow> bool \<times> 'w" where
  "record_trigger os fd now_ns w =
    (let now_text = show_nat (unat now_ns) in
     if PID_BUFFER \<le> length now_text then (False, w)
     else case co_ftruncate os fd w of (rc, w) \<Rightarrow>
     if rc < 0 then (False, w)
     else case co_lseek os fd w of (rc, w) \<Rightarrow>
     if rc < 0 then (False, w)
     else case co_write os fd now_text w of (n, w) \<Rightarrow> (n = int (length now_text), w))"

definition update_rate_state ::
  "'w ctl_os \<Rightarrow> string \<Rightarrow> u64 \<Rightarrow> u64 \<Rightarrow> bool \<Rightarrow> 'w \<Rightarrow> int \<times> string list \<times> 'w" where
  "update_rate_state os state_path interval_ms now_ns machine w =
    (case co_open os state_path O_RDWR_CREAT_CLOEXEC w of (fd, w) \<Rightarrow>
     if fd < 0 then (- 1, [report machine ''status'' ''rate_state_unavailable''], w)
     else case co_flock os fd LOCK_EX w of (rc, w) \<Rightarrow>
     if rc < 0 then (case co_close os fd w of (_, w) \<Rightarrow>
       (- 1, [report machine ''status'' ''rate_state_unavailable''], w))
     else case co_read os fd (PID_BUFFER - 1) w of (previous_text, w) \<Rightarrow>
     case (case retry_after previous_text interval_ms now_ns of
         Some retry_ms \<Rightarrow> (- 1, [report machine ''status'' ''rate_limited'',
           report machine ''retry_after_ms'' (fit PID_BUFFER (show_nat (unat retry_ms)))], w)
       | None \<Rightarrow> (case record_trigger os fd now_ns w of (ok, w) \<Rightarrow>
           if ok then (0, [], w) else (- 1, [report machine ''status'' ''rate_state_write_failed''], w)))
       of (result, out, w) \<Rightarrow>
     case co_flock os fd LOCK_UN w of (_, w) \<Rightarrow> case co_close os fd w of (_, w) \<Rightarrow> (result, out, w))"

section \<open>The program\<close>

record ctl_options =
  op_action :: "string ptr"
  op_pidfile :: string
  op_expected_exe :: string
  op_state :: string
  op_interval :: "string ptr"
  op_machine :: bool

definition env_or :: "(string \<Rightarrow> string ptr) \<Rightarrow> string \<Rightarrow> string \<Rightarrow> string" where
  "env_or getenv name fallback = (case getenv name of NULL \<Rightarrow> fallback | Ptr v \<Rightarrow> v)"

definition ctl_defaults :: "(string \<Rightarrow> string ptr) \<Rightarrow> ctl_options" where
  "ctl_defaults getenv = \<lparr>op_action = NULL,
     op_pidfile = env_or getenv ''VITA_CONTROL_PIDFILE'' ''/run/pstv-demo-cart.pid'',
     op_expected_exe = env_or getenv ''VITA_CONTROL_EXPECTED_EXE'' ''/usr/local/bin/pstv-demo-cart'',
     op_state = env_or getenv ''VITA_CONTROL_STATE'' ''/run/vita-control.next'',
     op_interval = NULL, op_machine = False\<rparr>"

text \<open>The arguments after the program name; \<open>Inl\<close> is the exit code after the usage was printed.\<close>

fun ctl_parse :: "string list \<Rightarrow> ctl_options \<Rightarrow> int + ctl_options" where
  "ctl_parse [] opts = (if op_action opts = NULL then Inl 2 else Inr opts)"
| "ctl_parse (arg # args) opts =
    (if arg = ''status'' \<or> arg = ''next'' then
       if op_action opts \<noteq> NULL then Inl 2 else ctl_parse args (opts\<lparr>op_action := Ptr arg\<rparr>)
     else if arg = ''--machine'' then ctl_parse args (opts\<lparr>op_machine := True\<rparr>)
     else if arg = ''--pidfile'' \<or> arg = ''--expected-exe'' \<or> arg = ''--state'' \<or> arg = ''--min-interval-ms'' then
       (case args of [] \<Rightarrow> Inl 2
        | v # args \<Rightarrow> ctl_parse args
           (if arg = ''--pidfile'' then opts\<lparr>op_pidfile := v\<rparr>
            else if arg = ''--expected-exe'' then opts\<lparr>op_expected_exe := v\<rparr>
            else if arg = ''--state'' then opts\<lparr>op_state := v\<rparr>
            else opts\<lparr>op_interval := Ptr v\<rparr>))
     else if arg = ''--help'' \<or> arg = ''-h'' then Inl 0
     else Inl 2)"

definition ctl_status ::
  "(string \<Rightarrow> string ptr) \<Rightarrow> ctl_options \<Rightarrow> int \<Rightarrow> ctl_target \<Rightarrow> int \<times> string list" where
  "ctl_status getenv opts target_result t =
    (let machine = op_machine opts in
     case load_interval getenv (op_interval opts) of
       None \<Rightarrow> (1, [report machine ''status'' ''invalid_interval''])
     | Some interval_ms \<Rightarrow>
       let out = [report machine ''schema'' ''1'', report machine ''action'' ''status'',
                  report machine ''pid'' (show_nat (nat (tg_pid t))),
                  report machine ''running'' (if target_result = 0 then ''1'' else ''0'')]
             @ (if tg_exe t \<noteq> '''' then [report machine ''exe'' (tg_exe t)] else [])
             @ [report machine ''expected_exe'' (op_expected_exe opts),
                report machine ''next_signal'' ''SIGUSR1'',
                report machine ''min_interval_ms'' (show_nat (unat interval_ms))]
       in if target_result \<noteq> 0 then (1, out @ report_target_error machine target_result (tg_exe t))
          else (0, out @ [report machine ''target_executable_match'' ''1'']))"

definition ctl_next ::
  "'w ctl_os \<Rightarrow> (string \<Rightarrow> string ptr) \<Rightarrow> ctl_options \<Rightarrow> int \<Rightarrow> ctl_target \<Rightarrow> 'w \<Rightarrow> int \<times> string list \<times> 'w" where
  "ctl_next os getenv opts target_result t w =
    (let machine = op_machine opts in
     if target_result \<noteq> 0 then (1, report_target_error machine target_result (tg_exe t), w)
     else case load_interval getenv (op_interval opts) of
       None \<Rightarrow> (1, [report machine ''status'' ''clock_or_interval_failed''], w)
     | Some interval_ms \<Rightarrow> (case monotonic_ns os w of
         (None, w) \<Rightarrow> (1, [report machine ''status'' ''clock_or_interval_failed''], w)
       | (Some now_ns, w) \<Rightarrow>
         case update_rate_state os (op_state opts) interval_ms now_ns machine w of (result, out, w) \<Rightarrow>
         if result < 0 then (1, out, w)
         else case co_kill os (tg_pid t) SIGUSR1_no w of (failed, w) \<Rightarrow>
         if failed \<noteq> None then (1, out @ [report machine ''status'' ''signal_failed''], w)
         else (0, out @ [report machine ''status'' ''triggered'',
                report machine ''pid'' (show_nat (nat (tg_pid t))),
                report machine ''signal'' ''SIGUSR1''], w)))"

definition ctl_main ::
  "'w ctl_os \<Rightarrow> (string \<Rightarrow> string ptr) \<Rightarrow> string \<Rightarrow> string list \<Rightarrow> 'w \<Rightarrow> int \<times> string list \<times> 'w" where
  "ctl_main os getenv program args w =
    (case ctl_parse args (ctl_defaults getenv) of
       Inl code \<Rightarrow> (code, usage program, w)
     | Inr opts \<Rightarrow>
       case load_target os (op_pidfile opts) (op_expected_exe opts) \<lparr>tg_pid = 0, tg_exe = ''''\<rparr> w of
         (target_result, t, w) \<Rightarrow>
       if op_action opts = Ptr ''status''
       then (case ctl_status getenv opts target_result t of (code, out) \<Rightarrow> (code, out, w))
       else ctl_next os getenv opts target_result t w)"

section \<open>The decision of the rate limiter\<close>

lemma load_interval_bound: "load_interval getenv ov = Some iv \<Longrightarrow> unat iv \<le> 3600000"
  by (auto simp: load_interval_def Let_def word_le_nat_alt not_less split: option.splits if_splits)

lemma parse_recorded: "parse_unsigned (Ptr (c_str (take 31 (show_nat (unat (p :: u64)))))) = Some p"
proof -
  have "unat p < 2 ^ 64" using unsigned_less[of p] by simp
  then have n: "unat p \<le> 18446744073709551615" by simp
  then have "length (show_nat (unat p)) \<le> 20" by (intro length_show_nat) simp_all
  then show ?thesis using n show_nat_digits[of "unat p"] by (simp add: parse_unsigned_def c_str_digits strtoull_show_nat)
qed

lemma interval_ns: "unat (iv :: u64) \<le> 3600000 \<Longrightarrow> unat (iv * 1000000) = unat iv * 1000000"
  by (subst unat_mult_no_wrap) simp_all

text \<open>Against a recorded trigger the limiter asks for the remaining time, in milliseconds and rounded up.\<close>

lemma retry_after_recorded:
  fixes p now iv :: u64
  assumes "unat iv \<le> 3600000"
  shows "map_option unat (retry_after (Some (take 31 (show_nat (unat p)))) iv now) =
    (if unat p \<le> unat now \<and> unat now - unat p < unat iv * 1000000
     then Some ((unat iv * 1000000 - (unat now - unat p) + 999999) div 1000000) else None)"
proof -
  let ?e = "now - p" and ?i = "iv * 1000000"
  have i: "unat ?i = unat iv * 1000000" using assms by (rule interval_ns)
  have e: "unat ?e = unat now - unat p" if "p \<le> now"
    using that by (simp add: word_le_nat_alt unat_sub_no_wrap)
  have "unat (?i - ?e + 999999) = unat ?i - unat ?e + 999999" if "?e < ?i"
  proof -
    have "unat (?i - ?e) = unat ?i - unat ?e" using that by (simp add: word_less_nat_alt unat_sub_no_wrap)
    moreover have "unat ?i \<le> 3600000000000" using assms i by simp
    ultimately show ?thesis by (subst unat_add_no_wrap) simp_all
  qed
  then have "unat ((?i - ?e + 999999) div 1000000) = (unat ?i - unat ?e + 999999) div 1000000" if "?e < ?i"
    using that by (simp add: unat_div)
  moreover have "take 31 (show_nat (unat p)) \<noteq> []" using show_nat_digits by (simp add: take_eq_Nil)
  ultimately show ?thesis using e i
    by (auto simp: retry_after_def parse_recorded Let_def word_le_nat_alt word_less_nat_alt)
qed

lemma retry_after_spaced:
  fixes p now iv :: u64
  assumes "retry_after (Some (take 31 (show_nat (unat p)))) iv now = None" "unat iv \<le> 3600000" "unat p \<le> unat now"
  shows "unat p + unat iv * 1000000 \<le> unat now"
  using retry_after_recorded[OF assms(2), of p now] assms(1,3) by (auto split: if_splits)

lemma load_target_ok:
  assumes "load_target os pf ex t0 w = (0, t, w')"
  shows "0 < tg_pid t \<and> tg_pid t \<le> INT32_MAX
    \<and> (\<exists>v link v'. co_readlink os (proc_exe (tg_pid t)) 255 v = (Some link, v') \<and> c_str link = ex)"
  using assms unfolding load_target_def
  by (auto simp: Let_def word_le_def word_less_def not_less uint_0_iff less_le split: prod.splits option.splits if_splits)
    blast+

lemma ctl_next_triggers:
  assumes "load_interval getenv (op_interval opts) = Some iv" "monotonic_ns os w = (Some now, w1)"
    "update_rate_state os (op_state opts) iv now (op_machine opts) w1 = (r, o2, w2)"
    "co_kill os (tg_pid t) SIGUSR1_no w2 = (f, w3)"
  shows "fst (ctl_next os getenv opts 0 t w) = (if r < 0 \<or> f \<noteq> None then 1 else 0)
    \<and> snd (snd (ctl_next os getenv opts 0 t w)) = (if r < 0 then w2 else w3)"
  using assms by (simp add: ctl_next_def Let_def)

text \<open>A call that works on the state file \<open>P\<close> with an interval of at least \<open>I\<close> milliseconds, if it gets that
  far; and what happens to the world over time: such calls, and everything else that leaves the file alone.\<close>

definition limited_by :: "string \<Rightarrow> nat \<Rightarrow> (string \<Rightarrow> string ptr) \<Rightarrow> string list \<Rightarrow> bool" where
  "limited_by P I getenv args \<longleftrightarrow> (case ctl_parse args (ctl_defaults getenv) of Inl _ \<Rightarrow> True
     | Inr opts \<Rightarrow> op_state opts = P \<and>
        (case load_interval getenv (op_interval opts) of None \<Rightarrow> True | Some iv \<Rightarrow> I \<le> unat iv))"

inductive ctl_history ::
  "'w ctl_os \<Rightarrow> string \<Rightarrow> ('w \<Rightarrow> nat) \<Rightarrow> ('w \<Rightarrow> string) \<Rightarrow> nat \<Rightarrow> 'w \<Rightarrow> 'w \<Rightarrow> bool"
  for os P clock rate I w0 where
  history_start: "ctl_history os P clock rate I w0 w0"
| history_run: "ctl_history os P clock rate I w0 w \<Longrightarrow> limited_by P I getenv args \<Longrightarrow>
    ctl_history os P clock rate I w0 (snd (snd (ctl_main os getenv program args w)))"
| history_other: "ctl_history os P clock rate I w0 w \<Longrightarrow> clock w \<le> clock w' \<Longrightarrow> rate w' = rate w \<Longrightarrow>
    ctl_history os P clock rate I w0 w'"

section \<open>What the system calls promise\<close>

text \<open>The observed part of the world: the clock in nanoseconds, the contents of the state file \<open>P\<close> (empty
  when it does not exist), the signals that were delivered, and the file and offset behind a descriptor.\<close>

definition unseen :: "('w \<Rightarrow> nat) \<Rightarrow> ('w \<Rightarrow> string) \<Rightarrow> ('w \<Rightarrow> (int \<times> nat) list) \<Rightarrow> 'w \<Rightarrow> 'w \<Rightarrow> bool" where
  "unseen clock rate signals w w' \<longleftrightarrow> clock w \<le> clock w' \<and> rate w' = rate w \<and> signals w' = signals w"

locale ctl_platform =
  fixes os :: "'w ctl_os" and P :: string and clock :: "'w \<Rightarrow> nat" and rate :: "'w \<Rightarrow> string"
    and signals :: "'w \<Rightarrow> (int \<times> nat) list" and opened :: "int \<Rightarrow> 'w \<Rightarrow> (string \<times> nat) option"
  assumes open_unseen: "unseen clock rate signals w (snd (co_open os path fl w))"
    and open_file: "0 \<le> fst (co_open os path fl w) \<Longrightarrow>
          opened (fst (co_open os path fl w)) (snd (co_open os path fl w)) = Some (path, 0)"
    and flock_unseen: "unseen clock rate signals w (snd (co_flock os fd lk w))"
    and flock_file: "opened fd (snd (co_flock os fd lk w)) = opened fd w"
    and read_unseen: "unseen clock rate signals w (snd (co_read os fd n w))"
    and read_file: "map_option fst (opened fd (snd (co_read os fd n w))) = map_option fst (opened fd w)"
    and read_state: "opened fd w = Some (P, 0) \<Longrightarrow> fst (co_read os fd n w) = Some (take n (rate w))"
    and close_unseen: "unseen clock rate signals w (snd (co_close os fd w))"
    and readlink_unseen: "unseen clock rate signals w (snd (co_readlink os path n w))"
    and lseek_unseen: "unseen clock rate signals w (snd (co_lseek os fd w))"
    and lseek_file: "0 \<le> fst (co_lseek os fd w) \<Longrightarrow> opened fd w = Some (path, off) \<Longrightarrow>
          opened fd (snd (co_lseek os fd w)) = Some (path, 0)"
    and truncate_time: "clock w \<le> clock (snd (co_ftruncate os fd w))"
    and truncate_signals: "signals (snd (co_ftruncate os fd w)) = signals w"
    and truncate_file: "map_option fst (opened fd (snd (co_ftruncate os fd w))) = map_option fst (opened fd w)"
    and truncate_state: "map_option fst (opened fd w) = Some P \<Longrightarrow> 0 \<le> fst (co_ftruncate os fd w) \<Longrightarrow>
          rate (snd (co_ftruncate os fd w)) = ''''"
    and write_time: "clock w \<le> clock (snd (co_write os fd txt w))"
    and write_signals: "signals (snd (co_write os fd txt w)) = signals w"
    and write_state: "opened fd w = Some (P, 0) \<Longrightarrow> rate w = '''' \<Longrightarrow>
          fst (co_write os fd txt w) = int (length txt) \<Longrightarrow> rate (snd (co_write os fd txt w)) = txt"
    and kill_time: "clock w \<le> clock (snd (co_kill os pid sig w))"
    and kill_state: "rate (snd (co_kill os pid sig w)) = rate w"
    and kill_signals: "signals (snd (co_kill os pid sig w)) =
          (if sig = 0 \<or> fst (co_kill os pid sig w) \<noteq> None then signals w else signals w @ [(pid, sig)])"
    and clock_unseen: "unseen clock rate signals w (snd (co_clock os w))"
    and clock_now: "fst (co_clock os w) = Some (sec, nsec) \<Longrightarrow> 0 \<le> sec \<and> 0 \<le> nsec
          \<and> clock w \<le> nat (sec * 1000000000 + nsec) \<and> nat (sec * 1000000000 + nsec) \<le> clock (snd (co_clock os w))
          \<and> sec * 1000000000 + nsec < 2 ^ 64"
begin

lemma quiet_time:
  "clock w \<le> clock (snd (co_open os path fl w))" "clock w \<le> clock (snd (co_flock os fd lk w))"
  "clock w \<le> clock (snd (co_read os fd n w))" "clock w \<le> clock (snd (co_close os fd w))"
  "clock w \<le> clock (snd (co_readlink os path n w))" "clock w \<le> clock (snd (co_lseek os fd w))"
  "clock w \<le> clock (snd (co_clock os w))"
  using open_unseen flock_unseen read_unseen close_unseen readlink_unseen lseek_unseen clock_unseen
  by (simp_all add: unseen_def)

lemma quiet_rest [simp]:
  "rate (snd (co_open os path fl w)) = rate w" "signals (snd (co_open os path fl w)) = signals w"
  "rate (snd (co_flock os fd lk w)) = rate w" "signals (snd (co_flock os fd lk w)) = signals w"
  "rate (snd (co_read os fd n w)) = rate w" "signals (snd (co_read os fd n w)) = signals w"
  "rate (snd (co_close os fd w)) = rate w" "signals (snd (co_close os fd w)) = signals w"
  "rate (snd (co_readlink os path n w)) = rate w" "signals (snd (co_readlink os path n w)) = signals w"
  "rate (snd (co_lseek os fd w)) = rate w" "signals (snd (co_lseek os fd w)) = signals w"
  "rate (snd (co_clock os w)) = rate w" "signals (snd (co_clock os w)) = signals w"
  using open_unseen flock_unseen read_unseen close_unseen readlink_unseen lseek_unseen clock_unseen
  by (simp_all add: unseen_def)

lemmas later = quiet_time truncate_time write_time kill_time
lemmas later_trans = later [THEN [2] order_trans]

lemma read_small_file_unseen: "unseen clock rate signals w (snd (read_small_file os path cap w))"
  unfolding read_small_file_def unseen_def
  by (auto simp: case_prod_beta Let_def intro!: later_trans)

lemma load_target_unseen: "unseen clock rate signals w (snd (snd (load_target os pf ex t w)))"
proof -
  have r: "clock w \<le> clock (snd (read_small_file os pf PID_BUFFER w))"
    "rate (snd (read_small_file os pf PID_BUFFER w)) = rate w"
    "signals (snd (read_small_file os pf PID_BUFFER w)) = signals w"
    using read_small_file_unseen by (simp_all add: unseen_def)
  show ?thesis unfolding load_target_def unseen_def
    by (auto simp: case_prod_beta Let_def r kill_state kill_signals split: option.split prod.split
          intro!: later_trans r(1))
qed

lemma record_trigger_time: "clock w \<le> clock (snd (record_trigger os fd now w))"
  unfolding record_trigger_def
  by (auto simp: case_prod_beta Let_def intro!: later_trans)

lemma record_trigger_signals [simp]: "signals (snd (record_trigger os fd now w)) = signals w"
  unfolding record_trigger_def
  by (simp add: case_prod_beta Let_def truncate_signals write_signals)

lemma record_trigger_state:
  assumes "map_option fst (opened fd w) = Some P" "fst (record_trigger os fd now w)"
  shows "rate (snd (record_trigger os fd now w)) = show_nat (unat now)"
proof -
  define w1 where "w1 = snd (co_ftruncate os fd w)"
  define w2 where "w2 = snd (co_lseek os fd w1)"
  have ok: "0 \<le> fst (co_ftruncate os fd w)" "0 \<le> fst (co_lseek os fd w1)"
    "fst (co_write os fd (show_nat (unat now)) w2) = int (length (show_nat (unat now)))"
    using assms(2) unfolding record_trigger_def w1_def w2_def
    by (auto simp: case_prod_beta Let_def split: if_splits)
  have "map_option fst (opened fd w1) = Some P" using assms(1) by (simp add: w1_def truncate_file)
  then obtain off where "opened fd w1 = Some (P, off)" by auto
  then have "opened fd w2 = Some (P, 0)" using ok(2) lseek_file by (simp add: w2_def)
  moreover have "rate w2 = ''''" using assms(1) ok(1) truncate_state by (simp add: w1_def w2_def)
  ultimately have "rate (snd (co_write os fd (show_nat (unat now)) w2)) = show_nat (unat now)"
    using ok(3) write_state by blast
  then show ?thesis using assms(2) unfolding record_trigger_def w1_def w2_def
    by (auto simp: case_prod_beta Let_def split: if_splits)
qed

lemma update_rate_time: "clock w \<le> clock (snd (snd (update_rate_state os path iv now m w)))"
  unfolding update_rate_state_def
  by (auto simp: case_prod_beta Let_def split: option.split
      intro!: later_trans record_trigger_time [THEN [2] order_trans])

lemma update_rate_signals [simp]: "signals (snd (snd (update_rate_state os path iv now m w))) = signals w"
  unfolding update_rate_state_def
  by (simp add: case_prod_beta Let_def split: option.split)

text \<open>The limiter decides on the recorded text alone; whatever happens to the file, it happens after the
  limiter let the run through.\<close>

lemma update_rate_decision:
  assumes "update_rate_state os P iv now m w = (r, out, w')"
  shows "r = 0 \<or> r = - 1"
    and "r = 0 \<Longrightarrow> retry_after (Some (take 31 (rate w))) iv now = None \<and> rate w' = show_nat (unat now)"
    and "rate w' \<noteq> rate w \<Longrightarrow> retry_after (Some (take 31 (rate w))) iv now = None"
proof -
  define fd where "fd = fst (co_open os P O_RDWR_CREAT_CLOEXEC w)"
  define w1 where "w1 = snd (co_open os P O_RDWR_CREAT_CLOEXEC w)"
  define w2 where "w2 = snd (co_flock os fd LOCK_EX w1)"
  define w3 where "w3 = snd (co_read os fd 31 w2)"
  have eq: "update_rate_state os P iv now m w = (if fd < 0 then (- 1, [report m ''status'' ''rate_state_unavailable''], w1)
     else if fst (co_flock os fd LOCK_EX w1) < 0
     then (- 1, [report m ''status'' ''rate_state_unavailable''], snd (co_close os fd w2))
     else case (case retry_after (fst (co_read os fd 31 w2)) iv now of
         Some retry_ms \<Rightarrow> (- 1, [report m ''status'' ''rate_limited'',
           report m ''retry_after_ms'' (fit PID_BUFFER (show_nat (unat retry_ms)))], w3)
       | None \<Rightarrow> if fst (record_trigger os fd now w3) then (0, [], snd (record_trigger os fd now w3))
           else (- 1, [report m ''status'' ''rate_state_write_failed''], snd (record_trigger os fd now w3)))
       of (result, out, w) \<Rightarrow> (result, out, snd (co_close os fd (snd (co_flock os fd LOCK_UN w)))))"
    by (simp add: update_rate_state_def fd_def w1_def w2_def w3_def case_prod_beta cong: if_cong option.case_cong)
  have "opened fd w2 = Some (P, 0)" if "0 \<le> fd"
    using that open_file by (simp add: fd_def w1_def w2_def flock_file)
  then have rd: "fst (co_read os fd 31 w2) = Some (take 31 (rate w))" "map_option fst (opened fd w3) = Some P"
    if "0 \<le> fd"
    using that read_state by (simp_all add: w1_def w2_def w3_def read_file)
  have same: "rate w1 = rate w" "rate w2 = rate w" "rate w3 = rate w"
    by (simp_all add: w1_def w2_def w3_def)
  show "r = 0 \<or> r = - 1" using assms unfolding eq by (auto split: if_splits option.splits)
  show "retry_after (Some (take 31 (rate w))) iv now = None \<and> rate w' = show_nat (unat now)" if "r = 0"
    using assms that rd record_trigger_state unfolding eq by (auto split: if_splits option.splits)
  show "retry_after (Some (take 31 (rate w))) iv now = None" if "rate w' \<noteq> rate w"
    using assms that rd same unfolding eq by (auto split: if_splits option.splits)
qed

text \<open>What it takes to pass the limiter during a run from \<open>w\<close> to \<open>w'\<close>.\<close>

definition passed :: "nat \<Rightarrow> 'w \<Rightarrow> 'w \<Rightarrow> u64 \<Rightarrow> bool" where
  "passed I w w' now \<longleftrightarrow> (\<exists>iv. I \<le> unat iv \<and> unat iv \<le> 3600000 \<and> clock w \<le> unat now \<and> unat now \<le> clock w'
     \<and> retry_after (Some (take 31 (rate w))) iv now = None)"

lemma monotonic_ns_unseen: "unseen clock rate signals w (snd (monotonic_ns os w))"
  using clock_unseen by (auto simp: monotonic_ns_def case_prod_beta split: option.split prod.split)

lemma monotonic_ns_now:
  assumes "monotonic_ns os w = (Some now, w1)"
  shows "clock w \<le> unat now \<and> unat now \<le> clock w1"
proof -
  obtain sec nsec where c: "co_clock os w = (Some (sec, nsec), w1)" and now: "now = of_int (sec * 1000000000 + nsec)"
    using assms by (auto simp: monotonic_ns_def split: prod.splits option.splits)
  have "unat now = nat (sec * 1000000000 + nsec)"
    using clock_now[of w sec nsec] c unfolding now by (intro unat_of_int_nonneg) auto
  then show ?thesis using clock_now[of w sec nsec] c by simp
qed

lemma ctl_next_run:
  assumes "ctl_next os getenv opts tr t w = (c, out, w')" "op_state opts = P"
    and "\<And>iv. load_interval getenv (op_interval opts) = Some iv \<Longrightarrow> I \<le> unat iv"
  shows "clock w \<le> clock w'"
    and "c = 0 \<Longrightarrow> tr = 0 \<and> signals w' = signals w @ [(tg_pid t, SIGUSR1_no)]
           \<and> (\<exists>now. passed I w w' now \<and> rate w' = show_nat (unat now))"
    and "c \<noteq> 0 \<Longrightarrow> c = 1 \<and> signals w' = signals w"
    and "rate w' \<noteq> rate w \<Longrightarrow> \<exists>now. passed I w w' now"
proof -
  have "clock w \<le> clock w' \<and> (c = 0 \<longrightarrow> tr = 0 \<and> signals w' = signals w @ [(tg_pid t, SIGUSR1_no)]
           \<and> (\<exists>now. passed I w w' now \<and> rate w' = show_nat (unat now)))
     \<and> (c \<noteq> 0 \<longrightarrow> c = 1 \<and> signals w' = signals w) \<and> (rate w' \<noteq> rate w \<longrightarrow> (\<exists>now. passed I w w' now))"
  proof (cases "tr = 0 \<and> load_interval getenv (op_interval opts) \<noteq> None")
    case False
    then show ?thesis using assms(1) by (auto simp: ctl_next_def Let_def split: if_splits)
  next
    case True
    then obtain iv where iv: "load_interval getenv (op_interval opts) = Some iv" by auto
    obtain n w1 where m: "monotonic_ns os w = (n, w1)" by fastforce
    then have u: "clock w \<le> clock w1" "rate w1 = rate w" "signals w1 = signals w"
      using monotonic_ns_unseen[of w] by (simp_all add: unseen_def)
    show ?thesis
    proof (cases n)
      case None
      then show ?thesis using assms(1) True iv m u by (simp add: ctl_next_def Let_def)
    next
      case (Some now)
      obtain r o2 w2 where ur: "update_rate_state os P iv now (op_machine opts) w1 = (r, o2, w2)"
        by (rule prod_cases3)
      have d: "clock w1 \<le> clock w2" "signals w2 = signals w1"
        using update_rate_time[of w1 P iv now "op_machine opts"] update_rate_signals[of P iv now "op_machine opts" w1] ur by simp_all
      obtain f w3 where k: "co_kill os (tg_pid t) SIGUSR1_no w2 = (f, w3)" by fastforce
      then have k3: "clock w2 \<le> clock w3" "rate w3 = rate w2"
          "signals w3 = (if f \<noteq> None then signals w2 else signals w2 @ [(tg_pid t, SIGUSR1_no)])"
        using kill_time[of w2 "tg_pid t" SIGUSR1_no] kill_state[of "tg_pid t" SIGUSR1_no w2]
          kill_signals[of "tg_pid t" SIGUSR1_no w2] by simp_all
      have bounds: "clock w \<le> unat now" "unat now \<le> clock w1" "I \<le> unat iv" "unat iv \<le> 3600000"
        using monotonic_ns_now m Some assms(3) iv load_interval_bound by auto
      have run: "c = (if r < 0 \<or> f \<noteq> None then 1 else 0)" "w' = (if r < 0 then w2 else w3)"
        using ctl_next_triggers[of getenv opts iv os w now w1 r o2 w2 t f w3] assms(1,2) True iv m Some ur k by auto
      have pass: "passed I w w' now" if "retry_after (Some (take 31 (rate w1))) iv now = None" "clock w1 \<le> clock w'"
        using that bounds u(2) unfolding passed_def by auto
      show ?thesis
      proof (cases "r = 0")
        case True
        then have "retry_after (Some (take 31 (rate w1))) iv now = None" "rate w2 = show_nat (unat now)"
          using update_rate_decision(2)[OF ur] by auto
        then show ?thesis using run True pass k3 u d \<open>tr = 0 \<and> _\<close> by (cases f) auto
      next
        case False
        then have "r = - 1" using update_rate_decision(1)[OF ur] by blast
        then show ?thesis using run pass update_rate_decision(3)[OF ur] u d by auto
      qed
    qed
  qed
  then show "clock w \<le> clock w'"
    and "c = 0 \<Longrightarrow> tr = 0 \<and> signals w' = signals w @ [(tg_pid t, SIGUSR1_no)]
           \<and> (\<exists>now. passed I w w' now \<and> rate w' = show_nat (unat now))"
    and "c \<noteq> 0 \<Longrightarrow> c = 1 \<and> signals w' = signals w"
    and "rate w' \<noteq> rate w \<Longrightarrow> \<exists>now. passed I w w' now"
    by blast+
qed

lemma ctl_main_run:
  assumes "ctl_main os getenv program args w = (c, out, w')" "limited_by P I getenv args"
  shows "clock w \<le> clock w'"
    and "signals w' \<noteq> signals w \<Longrightarrow> \<exists>now. passed I w w' now \<and> rate w' = show_nat (unat now)"
    and "rate w' \<noteq> rate w \<Longrightarrow> \<exists>now. passed I w w' now"
proof -
  have "clock w \<le> clock w' \<and> (signals w' \<noteq> signals w \<longrightarrow> (\<exists>now. passed I w w' now \<and> rate w' = show_nat (unat now)))
    \<and> (rate w' \<noteq> rate w \<longrightarrow> (\<exists>now. passed I w w' now))"
  proof (cases "ctl_parse args (ctl_defaults getenv)")
    case (Inl e)
    then show ?thesis using assms(1) by (simp add: ctl_main_def)
  next
    case (Inr opts)
    let ?t0 = "\<lparr>tg_pid = 0, tg_exe = ''''\<rparr>"
    obtain tr t w1 where lt: "load_target os (op_pidfile opts) (op_expected_exe opts) ?t0 w = (tr, t, w1)"
      by (rule prod_cases3)
    then have u: "clock w \<le> clock w1" "rate w1 = rate w" "signals w1 = signals w"
      using load_target_unseen[of w "op_pidfile opts" "op_expected_exe opts" ?t0] by (simp_all add: unseen_def)
    have later_pass: "passed I w w' now" if "passed I w1 w' now" for now
      using that u unfolding passed_def by fastforce
    show ?thesis
    proof (cases "op_action opts = Ptr ''status''")
      case True
      then show ?thesis using assms(1) Inr lt u by (auto simp: ctl_main_def split: prod.splits)
    next
      case False
      have "ctl_next os getenv opts tr t w1 = (c, out, w')" using assms(1) Inr lt False by (simp add: ctl_main_def)
      note n = ctl_next_run[OF this, of I]
      have "op_state opts = P" "\<And>iv. load_interval getenv (op_interval opts) = Some iv \<Longrightarrow> I \<le> unat iv"
        using assms(2) Inr by (auto simp: limited_by_def)
      note n = n[OF this]
      have "signals w' \<noteq> signals w \<Longrightarrow> \<exists>now. passed I w w' now \<and> rate w' = show_nat (unat now)"
        using n(2,3) u(3) later_pass by metis
      moreover have "rate w' \<noteq> rate w \<Longrightarrow> \<exists>now. passed I w w' now" using n(4) u(2) later_pass by metis
      ultimately show ?thesis using n(1) u(1) by simp
    qed
  qed
  then show "clock w \<le> clock w'"
    and "signals w' \<noteq> signals w \<Longrightarrow> \<exists>now. passed I w w' now \<and> rate w' = show_nat (unat now)"
    and "rate w' \<noteq> rate w \<Longrightarrow> \<exists>now. passed I w w' now"
    by blast+
qed

text \<open>Since a trigger at or after \<open>t\<close> either an interval has passed or the trigger is still on record.\<close>

definition on_record :: "nat \<Rightarrow> nat \<Rightarrow> 'w \<Rightarrow> bool" where
  "on_record I t w \<longleftrightarrow> t + I * 1000000 \<le> clock w
     \<or> (\<exists>p :: u64. t \<le> unat p \<and> unat p \<le> clock w \<and> rate w = show_nat (unat p))"

lemma passed_on_record:
  assumes "on_record I t w" "passed I w w' now"
  shows "t + I * 1000000 \<le> clock w'"
proof -
  obtain iv where iv: "I \<le> unat iv" "unat iv \<le> 3600000" "clock w \<le> unat now" "unat now \<le> clock w'"
    "retry_after (Some (take 31 (rate w))) iv now = None" using assms(2) by (auto simp: passed_def)
  show ?thesis
  proof (cases "t + I * 1000000 \<le> clock w")
    case True
    then show ?thesis using iv(3,4) by linarith
  next
    case False
    then obtain p :: u64 where p: "t \<le> unat p" "unat p \<le> clock w" "rate w = show_nat (unat p)"
      using assms(1) by (auto simp: on_record_def)
    have "unat p + unat iv * 1000000 \<le> unat now"
      using retry_after_spaced[of p iv now] iv(2,3,5) p(2,3) by simp
    moreover have "I * 1000000 \<le> unat iv * 1000000" using iv(1) by simp
    ultimately show ?thesis using p(1) iv(4) by linarith
  qed
qed

lemma on_record_later:
  assumes "on_record I t w" "clock w \<le> clock w'" "rate w' = rate w"
  shows "on_record I t w'"
  using assms(1) unfolding on_record_def assms(3) using assms(2) by (meson order_trans)

lemma trigger_on_record:
  assumes "ctl_main os getenv program args w = (c, out, w')" "limited_by P I getenv args" "signals w' \<noteq> signals w"
  shows "on_record I (clock w) w'"
  using ctl_main_run(2)[OF assms] by (auto simp: passed_def on_record_def)

lemma run_on_record:
  assumes "on_record I t w" "ctl_main os getenv program args w = (c, out, w')" "limited_by P I getenv args"
  shows "on_record I t w'"
proof (cases "rate w' = rate w")
  case True
  then show ?thesis using on_record_later[OF assms(1)] ctl_main_run(1)[OF assms(2,3)] by blast
next
  case False
  then show ?thesis using ctl_main_run(3)[OF assms(2,3)] passed_on_record[OF assms(1)] by (auto simp: on_record_def)
qed

lemma history_on_record: "ctl_history os P clock rate I w0 w \<Longrightarrow> on_record I t w0 \<Longrightarrow> on_record I t w"
proof (induction rule: ctl_history.induct)
  case (history_run w getenv args program)
  then show ?case using run_on_record by (metis prod.collapse)
next
  case (history_other w w')
  then show ?case using on_record_later by blast
qed simp

theorem spacing:
  assumes "ctl_main os getenv1 program args1 w0 = (c1, out1, w1)" "limited_by P I getenv1 args1"
    "signals w1 \<noteq> signals w0" "ctl_history os P clock rate I w1 w2"
    "ctl_main os getenv2 program2 args2 w2 = (c2, out2, w3)" "limited_by P I getenv2 args2" "signals w3 \<noteq> signals w2"
  shows "clock w0 + I * 1000000 \<le> clock w3"
  using history_on_record[OF assms(4) trigger_on_record[OF assms(1-3)]] ctl_main_run(2)[OF assms(5-7)] passed_on_record
  by blast

end

section \<open>A platform\<close>

text \<open>Files, descriptors and processes held in memory; a full disk refuses every write.\<close>

record ctl_box =
  bx_clock :: nat
  bx_files :: "string \<rightharpoonup> string"
  bx_fds :: "(string \<times> nat) list"
  bx_exes :: "int \<rightharpoonup> string"
  bx_signals :: "(int \<times> nat) list"
  bx_full :: bool

definition box_text :: "string \<Rightarrow> ctl_box \<Rightarrow> string" where
  "box_text path w = (case bx_files w path of None \<Rightarrow> '''' | Some s \<Rightarrow> s)"

definition box_opened :: "int \<Rightarrow> ctl_box \<Rightarrow> (string \<times> nat) option" where
  "box_opened fd w = (if 0 \<le> fd \<and> nat fd < length (bx_fds w) then Some (bx_fds w ! nat fd) else None)"

definition box_open :: "string \<Rightarrow> u32 \<Rightarrow> ctl_box \<Rightarrow> int \<times> ctl_box" where
  "box_open path fl w = (if bx_files w path = None \<and> fl \<noteq> O_RDWR_CREAT_CLOEXEC then (- 1, w)
     else (int (length (bx_fds w)), w\<lparr>bx_fds := bx_fds w @ [(path, 0)],
       bx_files := (bx_files w)(path \<mapsto> box_text path w)\<rparr>))"

definition box_seek :: "int \<Rightarrow> string \<Rightarrow> nat \<Rightarrow> ctl_box \<Rightarrow> ctl_box" where
  "box_seek fd path off w = w\<lparr>bx_fds := (bx_fds w)[nat fd := (path, off)]\<rparr>"

definition box_read :: "int \<Rightarrow> nat \<Rightarrow> ctl_box \<Rightarrow> string option \<times> ctl_box" where
  "box_read fd n w = (case box_opened fd w of None \<Rightarrow> (None, w)
     | Some (path, off) \<Rightarrow> let got = take n (drop off (box_text path w))
         in (Some got, box_seek fd path (off + length got) w))"

definition box_ftruncate :: "int \<Rightarrow> ctl_box \<Rightarrow> int \<times> ctl_box" where
  "box_ftruncate fd w = (case box_opened fd w of None \<Rightarrow> (- 1, w)
     | Some (path, _) \<Rightarrow> (0, w\<lparr>bx_files := (bx_files w)(path \<mapsto> '''')\<rparr>))"

definition box_lseek :: "int \<Rightarrow> ctl_box \<Rightarrow> int \<times> ctl_box" where
  "box_lseek fd w = (case box_opened fd w of None \<Rightarrow> (- 1, w) | Some (path, _) \<Rightarrow> (0, box_seek fd path 0 w))"

definition box_write :: "int \<Rightarrow> string \<Rightarrow> ctl_box \<Rightarrow> int \<times> ctl_box" where
  "box_write fd txt w = (case box_opened fd w of None \<Rightarrow> (- 1, w)
     | Some (path, off) \<Rightarrow> if bx_full w then (- 1, w)
       else let old = box_text path w
         in (int (length txt), box_seek fd path (off + length txt)
              (w\<lparr>bx_files := (bx_files w)(path \<mapsto> take off old @ txt @ drop (off + length txt) old)\<rparr>)))"

definition box_kill :: "int \<Rightarrow> nat \<Rightarrow> ctl_box \<Rightarrow> int option \<times> ctl_box" where
  "box_kill pid sig w = (if bx_exes w pid = None then (Some 3, w)
     else (None, if sig = 0 then w else w\<lparr>bx_signals := bx_signals w @ [(pid, sig)]\<rparr>))"

definition box_readlink :: "string \<Rightarrow> nat \<Rightarrow> ctl_box \<Rightarrow> string option \<times> ctl_box" where
  "box_readlink path n w = (map_option (take n) (bx_files w path), w)"

definition box_clock :: "ctl_box \<Rightarrow> (int \<times> int) option \<times> ctl_box" where
  "box_clock w = (if 2 ^ 64 \<le> bx_clock w then None
       else Some (int (bx_clock w div 1000000000), int (bx_clock w mod 1000000000)),
     w\<lparr>bx_clock := bx_clock w + 1\<rparr>)"

definition box_os :: "ctl_box ctl_os" where
  "box_os = \<lparr>co_open = box_open, co_read = box_read, co_close = (\<lambda>fd w. (0, w)), co_flock = (\<lambda>fd lk w. (0, w)),
     co_ftruncate = box_ftruncate, co_lseek = box_lseek, co_write = box_write, co_kill = box_kill,
     co_readlink = box_readlink, co_clock = box_clock\<rparr>"

lemmas box_defs = box_os_def box_open_def box_read_def box_seek_def box_ftruncate_def box_lseek_def box_write_def
  box_kill_def box_readlink_def box_clock_def box_opened_def box_text_def unseen_def

lemma box_clock_value: "int (n div 1000000000) * 1000000000 + int (n mod 1000000000) = int n"
  by (metis div_mult_mod_eq of_nat_add of_nat_mult of_nat_numeral)

interpretation box: ctl_platform box_os P bx_clock "box_text P" bx_signals box_opened
proof (unfold_locales, goal_cases)
  case 23
  then show ?case by (auto simp: box_os_def box_clock_def box_clock_value split: if_splits)
qed (auto simp: box_defs Let_def nth_append split: option.splits prod.splits if_splits)

section \<open>Properties\<close>

definition sample_env :: "string \<Rightarrow> string ptr" where
  "sample_env name = NULL"

definition sample_box :: ctl_box where
  "sample_box = \<lparr>bx_clock = 5000000000, bx_files = [''/run/pstv-demo-cart.pid'' \<mapsto> ''42'' @ [CHR 0x0A],
     ''/proc/42/exe'' \<mapsto> ''/usr/local/bin/pstv-demo-cart''], bx_fds = [], bx_exes = [42 \<mapsto> ''cart''],
     bx_signals = [], bx_full = False\<rparr>"

lemmas ctl_eval = ctl_main_def ctl_defaults_def sample_env_def env_or_def load_target_def read_small_file_def
  trim_buffer_def trimmed_def parse_unsigned_def strtoull_def c_str_def scan_sign_def isdigit_def isspace_def
  digits_value_def digit_value_def proc_exe_def show_nat.simps digit_chars Let_def ctl_next_def load_interval_def
  monotonic_ns_def update_rate_state_def retry_after_def record_trigger_def report_def limited_by_def
  sample_box_def box_defs


definition after_first :: ctl_box where
  "after_first = snd (snd (ctl_main box_os sample_env ''vita-control'' [''next''] sample_box))"

definition after_second :: ctl_box where
  "after_second = snd (snd (ctl_main box_os sample_env ''vita-control'' [''next''] (after_first\<lparr>bx_clock := 6000000000\<rparr>)))"


text \<open>C24. The control program sends a signal only to a process that runs the expected executable: a run exits with
  0 for \<open>next\<close> exactly when it has delivered one \<open>SIGUSR1\<close>, to a positive process id for which the link
  \<open>/proc/PID/exe\<close> named the expected executable during the run; every other run, \<open>status\<close> included, delivers
  nothing.\<close>

theorem next_signals_only_the_cart:
  assumes "ctl_platform os (op_state opts) clock rate signals opened"
    and "ctl_parse args (ctl_defaults getenv) = Inr opts"
    and "ctl_main os getenv program args w = (c, out, w')"
  shows "if c = 0 \<and> op_action opts \<noteq> Ptr ''status''
    then \<exists>pid v link v'. 0 < pid \<and> pid \<le> INT32_MAX \<and> signals w' = signals w @ [(pid, SIGUSR1_no)]
      \<and> co_readlink os (proc_exe pid) 255 v = (Some link, v') \<and> c_str link = op_expected_exe opts
    else signals w' = signals w"
proof -
  let ?t0 = "\<lparr>tg_pid = 0, tg_exe = ''''\<rparr>"
  obtain tr t w1 where lt: "load_target os (op_pidfile opts) (op_expected_exe opts) ?t0 w = (tr, t, w1)"
    by (rule prod_cases3)
  have s: "signals w1 = signals w"
    using ctl_platform.load_target_unseen[OF assms(1), of w "op_pidfile opts" "op_expected_exe opts" ?t0] lt
    by (simp add: unseen_def)
  show ?thesis
  proof (cases "op_action opts = Ptr ''status''")
    case True
    then show ?thesis using assms(2,3) lt s by (auto simp: ctl_main_def split: prod.splits)
  next
    case False
    then have n: "ctl_next os getenv opts tr t w1 = (c, out, w')" using assms(2,3) lt by (simp add: ctl_main_def)
    note r = ctl_platform.ctl_next_run[OF assms(1) n refl, of 0]
    show ?thesis
    proof (cases "c = 0")
      case True
      then have "tr = 0" "signals w' = signals w @ [(tg_pid t, SIGUSR1_no)]" using r(2) s by simp_all
      then show ?thesis using load_target_ok[of os "op_pidfile opts" "op_expected_exe opts" ?t0 w t w1] lt True False
        by auto
    next
      case False
      then show ?thesis using r(3) s by simp
    qed
  qed
qed

theorem next_signals_only_the_cart_witness:
  "\<exists>pid. bx_signals after_first = bx_signals sample_box @ [(pid, SIGUSR1_no)]"
proof -
  let ?run = "ctl_main box_os sample_env ''vita-control'' [''next''] sample_box"
  let ?o = "(ctl_defaults sample_env)\<lparr>op_action := Ptr ''next''\<rparr>"
  have p: "ctl_parse [''next''] (ctl_defaults sample_env) = Inr ?o" by (simp add: ctl_defaults_def)
  have "fst ?run = 0" by (simp add: ctl_eval)
  then have "?run = (0, fst (snd ?run), after_first)" by (simp add: after_first_def prod_eq_iff)
  from next_signals_only_the_cart[OF box.ctl_platform_axioms p this] show ?thesis by (auto simp: ctl_defaults_def)
qed

text \<open>The advertised waiting time is exact.  A refusal names a time of 1 millisecond to the whole interval; a
  run that many milliseconds later is not refused because of the same record, and one that comes any whole number
  of milliseconds earlier is.\<close>

theorem retry_hint_is_exact:
  fixes p now iv :: u64
  assumes "unat iv \<le> 3600000"
    and "retry_after (Some (take 31 (show_nat (unat p)))) iv now = Some ms"
  shows "0 < unat ms \<and> unat ms \<le> unat iv
    \<and> (\<forall>k later. unat later = unat now + k * 1000000 \<longrightarrow>
         (retry_after (Some (take 31 (show_nat (unat p)))) iv later = None) = (unat ms \<le> k))"
proof -
  let ?e = "unat now - unat p" and ?i = "unat iv * 1000000"
  have m: "unat p \<le> unat now" "?e < ?i" "unat ms = (?i - ?e + 999999) div 1000000"
    using retry_after_recorded[OF assms(1), of p now] assms(2) by (auto split: if_splits)
  have "(retry_after (Some (take 31 (show_nat (unat p)))) iv later = None) = (unat ms \<le> k)"
    if "unat later = unat now + k * 1000000" for k later
  proof -
    have "(retry_after (Some (take 31 (show_nat (unat p)))) iv later = None)
        = (\<not> (unat p \<le> unat later \<and> unat later - unat p < ?i))"
      using retry_after_recorded[OF assms(1), of p later] by (auto split: if_splits)
    then show ?thesis using m that by linarith
  qed
  moreover have "0 < unat ms" "unat ms \<le> unat iv" using m by linarith+
  ultimately show ?thesis by blast
qed

theorem retry_hint_is_exact_witness:
  "retry_after (Some (take 31 (show_nat 1000))) 500 (2500 :: u64) = Some 500
   \<and> retry_after (Some (take 31 (show_nat 1000))) 500 (500002500 :: u64) = None"
proof -
  have h: "retry_after (Some (take 31 (show_nat (unat (1000 :: u64))))) 500 (2500 :: u64) = Some 500"
    by (simp add: ctl_eval)
  from retry_hint_is_exact[of 500 1000 2500 500, OF _ h] have "retry_after (Some (take 31 (show_nat (unat (1000 :: u64))))) 500 (500002500 :: u64) = None"
    by (auto dest!: spec[of _ 500] spec[of _ "500002500 :: u64"])
  then show ?thesis using h by simp
qed


end
