(* ===== verification/Vita_Fbserve.thy ===== *)
theory Vita_Fbserve
  imports C_Library "HOL-Library.Sublist"
begin

text \<open>
  The framebuffer server, \<open>toolkit/share/vita-fbserve.c\<close>: a small HTTP server that answers \<open>GET /frame.bmp\<close> with
  a quarter-size bitmap of the screen.  The static arrays are fields of a state; a store outside an array is
  \<open>None\<close>, and so is a loop that never ends.  Sockets and files are operations on an abstract world with the
  laws of the locale \<open>srv_platform\<close>.  The lemmas show that the bitmap decodes to the sampled pixels and that a
  request gets exactly the answer of a reference definition, however the bytes are cut into pieces.
\<close>

section \<open>The operating system\<close>

record 'w srv_os =
  so_open :: "string \<Rightarrow> 'w \<Rightarrow> int \<times> 'w"                          \<comment> \<open>\<open>O_RDONLY | O_CLOEXEC\<close>\<close>
  so_read :: "int \<Rightarrow> nat \<Rightarrow> 'w \<Rightarrow> (int + u8 list) \<times> 'w"
  so_close :: "int \<Rightarrow> 'w \<Rightarrow> int \<times> 'w"
  so_recv :: "int \<Rightarrow> nat \<Rightarrow> 'w \<Rightarrow> (int + string) \<times> 'w"
  so_send :: "int \<Rightarrow> u8 list \<Rightarrow> 'w \<Rightarrow> (int + nat) \<times> 'w"         \<comment> \<open>\<open>MSG_NOSIGNAL\<close>\<close>
  so_socket :: "'w \<Rightarrow> int \<times> 'w"
  so_setsockopt :: "int \<Rightarrow> 'w \<Rightarrow> int \<times> 'w"                      \<comment> \<open>\<open>SO_REUSEADDR\<close>\<close>
  so_inet_pton :: "string \<Rightarrow> u32 option"
  so_bind :: "int \<Rightarrow> u32 \<Rightarrow> u16 \<Rightarrow> 'w \<Rightarrow> int \<times> 'w"
  so_listen :: "int \<Rightarrow> nat \<Rightarrow> 'w \<Rightarrow> int \<times> 'w"
  so_accept :: "int \<Rightarrow> 'w \<Rightarrow> (int + int) \<times> 'w"

abbreviation EINTR :: int where "EINTR \<equiv> 4"

section \<open>State\<close>

abbreviation FB_WIDTH :: nat where "FB_WIDTH \<equiv> 1280"
abbreviation FB_HEIGHT :: nat where "FB_HEIGHT \<equiv> 720"
abbreviation FB_BPP :: nat where "FB_BPP \<equiv> 4"
abbreviation FB_SCALE :: nat where "FB_SCALE \<equiv> 4"
abbreviation IMAGE_WIDTH :: nat where "IMAGE_WIDTH \<equiv> 320"
abbreviation IMAGE_HEIGHT :: nat where "IMAGE_HEIGHT \<equiv> 180"
abbreviation FB_BYTES :: nat where "FB_BYTES \<equiv> 3686400"
abbreviation BMP_ROW_BYTES :: nat where "BMP_ROW_BYTES \<equiv> 960"
abbreviation BMP_BYTES :: nat where "BMP_BYTES \<equiv> 172854"
abbreviation REQUEST_BYTES :: nat where "REQUEST_BYTES \<equiv> 4096"

record srv_state =
  framebuffer :: "u8 list"
  bitmap :: "u8 list"

definition srv_init :: srv_state where
  "srv_init = \<lparr>framebuffer = replicate FB_BYTES 0, bitmap = replicate BMP_BYTES 0\<rparr>"

definition srv_wf :: "srv_state \<Rightarrow> bool" where
  "srv_wf s \<longleftrightarrow> length (framebuffer s) = FB_BYTES \<and> length (bitmap s) = BMP_BYTES"

section \<open>Operations\<close>

definition srv_usage :: "string \<Rightarrow> string list" where
  "srv_usage program = [''usage: '' @ program @ '' [--device PATH] [--bind ADDRESS] [--port PORT] [--machine] [--once]'',
     ''  --device PATH   framebuffer device (default /dev/fb0)'',
     ''  --bind ADDRESS  listen address (default 127.0.0.1)'',
     ''  --listen ADDR   alias for --bind'',
     ''  --port PORT     TCP port (default 8080)'',
     ''  --machine       print stable startup key=value lines'',
     ''  --once          serve one valid request, then exit'']"

definition parse_port :: "string \<Rightarrow> u16 option" where
  "parse_port s = (case strtoul s of None \<Rightarrow> None
     | Some (v, rest, out_of_range) \<Rightarrow>
         if out_of_range \<or> rest \<noteq> '''' \<or> v = 0 \<or> 65535 < v then None else Some (ucast v))"

partial_function (option) send_loop ::
  "'w srv_os \<Rightarrow> int \<Rightarrow> u8 list \<Rightarrow> nat \<Rightarrow> 'w \<Rightarrow> (int \<times> 'w) option" where
  "send_loop os fd bytes sent w =
    (if \<not> sent < length bytes then Some (0, w)
     else case so_send os fd (drop sent bytes) w of
       (Inl e, w) \<Rightarrow> if e = EINTR then send_loop os fd bytes sent w else Some (- 1, w)
     | (Inr n, w) \<Rightarrow> if n = 0 then Some (- 1, w) else send_loop os fd bytes (sent + n) w)"

definition send_all :: "'w srv_os \<Rightarrow> int \<Rightarrow> u8 list \<Rightarrow> 'w \<Rightarrow> (int \<times> 'w) option" where
  "send_all os fd bytes w = send_loop os fd bytes 0 w"

definition put_u16 :: "nat \<Rightarrow> u16 \<Rightarrow> u8 list \<Rightarrow> u8 list option" where
  "put_u16 at v buf = do {
     buf \<leftarrow> store buf at (ucast (v AND 0xff));
     store buf (at + 1) (ucast (drop_bit 8 v))
   }"

definition put_u32 :: "nat \<Rightarrow> u32 \<Rightarrow> u8 list \<Rightarrow> u8 list option" where
  "put_u32 at v buf = do {
     buf \<leftarrow> store buf at (ucast (v AND 0xff));
     buf \<leftarrow> store buf (at + 1) (ucast (drop_bit 8 v AND 0xff));
     buf \<leftarrow> store buf (at + 2) (ucast (drop_bit 16 v AND 0xff));
     store buf (at + 3) (ucast (drop_bit 24 v))
   }"

text \<open>The read loop stores what \<open>read\<close> hands_over at the current offset.\<close>

partial_function (option) read_loop ::
  "'w srv_os \<Rightarrow> int \<Rightarrow> nat \<Rightarrow> u8 list \<Rightarrow> 'w \<Rightarrow> (int \<times> u8 list \<times> 'w) option" where
  "read_loop os fd offset fb w =
    (if \<not> offset < FB_BYTES then Some (0, fb, w)
     else case so_read os fd (FB_BYTES - offset) w of
       (Inl e, w) \<Rightarrow> if e = EINTR then read_loop os fd offset fb w else Some (- 1, fb, w)
     | (Inr got, w) \<Rightarrow> if got = [] then Some (- 1, fb, w)
         else case memcpy_at fb offset got (length got) of None \<Rightarrow> None
           | Some fb \<Rightarrow> read_loop os fd (offset + length got) fb w)"

definition read_frame :: "'w srv_os \<Rightarrow> string \<Rightarrow> srv_state \<Rightarrow> 'w \<Rightarrow> (int \<times> srv_state \<times> 'w) option" where
  "read_frame os device s w =
    (case so_open os device w of (fd, w) \<Rightarrow>
     if fd < 0 then Some (- 1, s, w)
     else do {
       (rc, fb, w) \<leftarrow> read_loop os fd 0 (framebuffer s) w;
       case so_close os fd w of (_, w) \<Rightarrow> Some (rc, s\<lparr>framebuffer := fb\<rparr>, w)
     })"

definition bitmap_header :: "u8 list \<Rightarrow> u8 list option" where
  "bitmap_header buf = do {
     buf \<leftarrow> store buf 0 (of_char (CHR ''B''));
     buf \<leftarrow> store buf 1 (of_char (CHR ''M''));
     buf \<leftarrow> put_u32 2 (of_nat BMP_BYTES) buf;
     buf \<leftarrow> put_u32 10 54 buf;
     buf \<leftarrow> put_u32 14 40 buf;
     buf \<leftarrow> put_u32 18 (of_nat IMAGE_WIDTH) buf;
     buf \<leftarrow> put_u32 22 (of_nat IMAGE_HEIGHT) buf;
     buf \<leftarrow> put_u16 26 1 buf;
     buf \<leftarrow> put_u16 28 24 buf;
     buf \<leftarrow> put_u32 34 (of_nat (BMP_ROW_BYTES * IMAGE_HEIGHT)) buf;
     buf \<leftarrow> put_u32 38 2835 buf;
     put_u32 42 2835 buf
   }"

text \<open>One pixel: the three channels from the corner of its square of the screen, blue first.\<close>

definition sample_pixel :: "u8 list \<Rightarrow> nat \<Rightarrow> nat \<Rightarrow> nat \<times> u8 list \<Rightarrow> (nat \<times> u8 list) option" where
  "sample_pixel fb source_y x = (\<lambda>(destination, buf). do {
     let source = (source_y * FB_SCALE * FB_WIDTH + x * FB_SCALE) * FB_BPP;
     b \<leftarrow> load fb (source + 2);
     buf \<leftarrow> store buf destination b;
     g \<leftarrow> load fb (source + 1);
     buf \<leftarrow> store buf (destination + 1) g;
     r \<leftarrow> load fb source;
     buf \<leftarrow> store buf (destination + 2) r;
     Some (destination + 3, buf)
   })"

definition sample_row :: "u8 list \<Rightarrow> nat \<Rightarrow> u8 list \<Rightarrow> u8 list option" where
  "sample_row fb y buf = map_option snd
     (mfold (sample_pixel fb (IMAGE_HEIGHT - 1 - y)) [0..<IMAGE_WIDTH] (54 + y * BMP_ROW_BYTES, buf))"

definition build_bitmap :: "srv_state \<Rightarrow> srv_state option" where
  "build_bitmap s = do {
     buf \<leftarrow> bitmap_header (replicate (length (bitmap s)) 0);
     buf \<leftarrow> mfold (sample_row (framebuffer s)) [0..<IMAGE_HEIGHT] buf;
     Some (s\<lparr>bitmap := buf\<rparr>)
   }"

text \<open>The end of a line in HTTP.\<close>

abbreviation CR :: char where "CR \<equiv> CHR 0x0D"
abbreviation LF :: char where "LF \<equiv> CHR 0x0A"

definition response_header :: "nat \<Rightarrow> string \<Rightarrow> string \<Rightarrow> nat \<Rightarrow> string" where
  "response_header status reason content_type body_length =
     ''HTTP/1.0 '' @ show_nat status @ '' '' @ reason @ [CR, LF]
     @ ''Content-Type: '' @ content_type @ [CR, LF]
     @ ''Content-Length: '' @ show_nat body_length @ [CR, LF]
     @ ''Connection: close'' @ [CR, LF, CR, LF]"

definition send_response ::
  "'w srv_os \<Rightarrow> int \<Rightarrow> nat \<Rightarrow> string \<Rightarrow> string \<Rightarrow> u8 list \<Rightarrow> 'w \<Rightarrow> (int \<times> 'w) option" where
  "send_response os client status reason content_type body w =
    (let header = response_header status reason content_type (length body) in
     if 512 \<le> length header then Some (- 1, w)
     else do {
       (rc, w) \<leftarrow> send_all os client (bytes_of header) w;
       if rc < 0 then Some (- 1, w) else send_all os client body w
     })"

definition send_plain :: "'w srv_os \<Rightarrow> int \<Rightarrow> nat \<Rightarrow> string \<Rightarrow> string \<Rightarrow> 'w \<Rightarrow> (int \<times> 'w) option" where
  "send_plain os client status reason body w =
     send_response os client status reason ''text/plain; charset=utf-8'' (bytes_of body) w"

fun strstr :: "string \<Rightarrow> string \<Rightarrow> bool" where
  "strstr s pat = (take (length pat) s = pat \<or> (case s of [] \<Rightarrow> False | _ # s \<Rightarrow> strstr s pat))"

declare strstr.simps [simp del]

definition complete :: "string \<Rightarrow> bool" where
  "complete request \<longleftrightarrow> strstr (c_str request) [CR, LF, CR, LF] \<or> strstr (c_str request) [LF, LF]"

text \<open>The receive loop: \<open>None\<close> inside the result when the connection failed or was closed.  More bytes than
  were asked for would overrun the buffer.\<close>

partial_function (option) recv_loop ::
  "'w srv_os \<Rightarrow> int \<Rightarrow> string \<Rightarrow> 'w \<Rightarrow> (string option \<times> 'w) option" where
  "recv_loop os client request w =
    (if \<not> length request < REQUEST_BYTES then Some (Some request, w)
     else case so_recv os client (REQUEST_BYTES - length request) w of
       (Inl e, w) \<Rightarrow> if e = EINTR then recv_loop os client request w else Some (None, w)
     | (Inr got, w) \<Rightarrow>
         if got = [] then Some (None, w)
         else if REQUEST_BYTES < length (request @ got) then None
         else if complete (request @ got) then Some (Some (request @ got), w)
         else recv_loop os client (request @ got) w)"

definition scan_request :: "string \<Rightarrow> (string \<times> string \<times> string) option" where
  "scan_request request = do {
     (meth, rest) \<leftarrow> scan_word 15 (c_str request);
     (path, rest) \<leftarrow> scan_word 127 rest;
     (version, rest) \<leftarrow> scan_word 15 rest;
     Some (meth, path, version)
   }"

definition handle_request ::
  "'w srv_os \<Rightarrow> int \<Rightarrow> string \<Rightarrow> srv_state \<Rightarrow> 'w \<Rightarrow> (bool \<times> srv_state \<times> 'w) option" where
  "handle_request os client device s w = do {
     (request, w) \<leftarrow> recv_loop os client '''' w;
     case request of None \<Rightarrow> Some (False, s, w)
     | Some request \<Rightarrow>
       if length request = REQUEST_BYTES then do {
         (_, w) \<leftarrow> send_plain os client 413 ''Payload Too Large'' (''request too large'' @ [LF]) w;
         Some (True, s, w)
       } else case scan_request request of None \<Rightarrow> do {
         (_, w) \<leftarrow> send_plain os client 400 ''Bad Request'' (''bad request'' @ [LF]) w;
         Some (True, s, w)
       } | Some (meth, path, version) \<Rightarrow>
       if meth \<noteq> ''GET'' then do {
         (_, w) \<leftarrow> send_plain os client 405 ''Method Not Allowed'' (''GET only'' @ [LF]) w;
         Some (True, s, w)
       } else if path = ''/health'' then do {
         (_, w) \<leftarrow> send_plain os client 200 ''OK'' (''status=ok'' @ [LF] @ ''read_only=1'' @ [LF]) w;
         Some (True, s, w)
       } else if path \<noteq> ''/'' \<and> path \<noteq> ''/frame.bmp'' then do {
         (_, w) \<leftarrow> send_plain os client 404 ''Not Found'' (''not found'' @ [LF]) w;
         Some (True, s, w)
       } else do {
         (rc, s, w) \<leftarrow> read_frame os device s w;
         if rc < 0 then do {
           (_, w) \<leftarrow> send_plain os client 503 ''Service Unavailable'' (''framebuffer read failed'' @ [LF]) w;
           Some (True, s, w)
         } else do {
           s \<leftarrow> build_bitmap s;
           (_, w) \<leftarrow> send_response os client 200 ''OK'' ''image/bmp'' (bitmap s) w;
           Some (True, s, w)
         }
       }
   }"

section \<open>The program\<close>

record srv_options =
  sv_device :: string
  sv_bind :: string
  sv_port :: u16
  sv_machine :: bool
  sv_once :: bool

definition srv_defaults :: srv_options where
  "srv_defaults = \<lparr>sv_device = ''/dev/fb0'', sv_bind = ''127.0.0.1'', sv_port = 8080, sv_machine = False, sv_once = False\<rparr>"

text \<open>\<open>Inl\<close> is the exit code and whether the usage is printed.\<close>

fun srv_parse :: "string list \<Rightarrow> srv_options \<Rightarrow> int \<times> bool + srv_options" where
  "srv_parse [] opts = Inr opts"
| "srv_parse (arg # args) opts =
    (if arg = ''--device'' \<or> arg = ''--bind'' \<or> arg = ''--listen'' \<or> arg = ''--port'' then
       (case args of [] \<Rightarrow> Inl (2, True)
        | v # args \<Rightarrow>
          if arg = ''--device'' then srv_parse args (opts\<lparr>sv_device := v\<rparr>)
          else if arg = ''--port'' then
            (case parse_port v of None \<Rightarrow> Inl (2, False) | Some port \<Rightarrow> srv_parse args (opts\<lparr>sv_port := port\<rparr>))
          else srv_parse args (opts\<lparr>sv_bind := v\<rparr>))
     else if arg = ''--machine'' then srv_parse args (opts\<lparr>sv_machine := True\<rparr>)
     else if arg = ''--once'' then srv_parse args (opts\<lparr>sv_once := True\<rparr>)
     else if arg = ''--help'' \<or> arg = ''-h'' then Inl (0, True)
     else Inl (2, True))"

definition machine_lines :: "srv_options \<Rightarrow> string list" where
  "machine_lines opts = (if sv_machine opts
     then [''schema=1'', ''bind='' @ sv_bind opts, ''port='' @ show_nat (unat (sv_port opts)), ''device='' @ sv_device opts,
       ''width='' @ show_nat IMAGE_WIDTH, ''height='' @ show_nat IMAGE_HEIGHT, ''scale='' @ show_nat FB_SCALE, ''read_only=1'']
     else [])"

partial_function (option) accept_loop ::
  "'w srv_os \<Rightarrow> int \<Rightarrow> srv_options \<Rightarrow> srv_state \<Rightarrow> 'w \<Rightarrow> (int \<times> srv_state \<times> 'w) option" where
  "accept_loop os server opts s w =
    (case so_accept os server w of
       (Inl e, w) \<Rightarrow> if e = EINTR then accept_loop os server opts s w
           else (case so_close os server w of (_, w) \<Rightarrow> Some (1, s, w))
     | (Inr client, w) \<Rightarrow> (case handle_request os client (sv_device opts) s w of None \<Rightarrow> None
       | Some (served, s, w) \<Rightarrow> (case so_close os client w of (_, w) \<Rightarrow>
         if served \<and> sv_once opts then (case so_close os server w of (_, w) \<Rightarrow> Some (0, s, w))
         else accept_loop os server opts s w)))"

definition srv_main ::
  "'w srv_os \<Rightarrow> string \<Rightarrow> string list \<Rightarrow> srv_state \<Rightarrow> 'w \<Rightarrow> (int \<times> string list \<times> srv_state \<times> 'w) option" where
  "srv_main os program args s w =
    (case srv_parse args srv_defaults of
       Inl (code, help) \<Rightarrow> Some (code, if help then srv_usage program else [], s, w)
     | Inr opts \<Rightarrow> case so_socket os w of (server, w) \<Rightarrow>
       if server < 0 then Some (1, [], s, w)
       else case so_setsockopt os server w of (rc, w) \<Rightarrow>
       if rc < 0 then (case so_close os server w of (_, w) \<Rightarrow> Some (1, [], s, w))
       else case so_inet_pton os (sv_bind opts) of
         None \<Rightarrow> (case so_close os server w of (_, w) \<Rightarrow> Some (2, [], s, w))
       | Some sin_addr \<Rightarrow> (case so_bind os server sin_addr (sv_port opts) w of (rc, w) \<Rightarrow>
         case (if rc < 0 then (rc, w) else so_listen os server 4 w) of (rc, w) \<Rightarrow>
         if rc < 0 then (case so_close os server w of (_, w) \<Rightarrow> Some (1, [], s, w))
         else do {
           (code, s, w) \<leftarrow> accept_loop os server opts s w;
           Some (code, machine_lines opts, s, w)
         }))"

section \<open>The bitmap\<close>

text \<open>A reader of uncompressed bitmaps with 24 bits per pixel: the fields are little endian, the rows are stored
  from the bottom to the top and padded to a multiple of four bytes, the channels are blue, green and red.\<close>

definition get_u16 :: "u8 list \<Rightarrow> nat \<Rightarrow> nat" where
  "get_u16 buf at = unat (buf ! at) + 256 * unat (buf ! (at + 1))"

definition get_u32 :: "u8 list \<Rightarrow> nat \<Rightarrow> nat" where
  "get_u32 buf at = get_u16 buf at + 65536 * get_u16 buf (at + 2)"

definition bmp_size :: "u8 list \<Rightarrow> nat \<times> nat" where
  "bmp_size buf = (get_u32 buf 18, get_u32 buf 22)"

definition bmp_stride :: "u8 list \<Rightarrow> nat" where
  "bmp_stride buf = (get_u16 buf 28 * get_u32 buf 18 + 31) div 32 * 4"

definition bmp_valid :: "u8 list \<Rightarrow> bool" where
  "bmp_valid buf \<longleftrightarrow> buf ! 0 = of_char (CHR ''B'') \<and> buf ! 1 = of_char (CHR ''M'') \<and> get_u32 buf 2 = length buf
     \<and> get_u32 buf 14 = 40 \<and> get_u16 buf 26 = 1 \<and> get_u16 buf 28 = 24 \<and> get_u32 buf 30 = 0
     \<and> get_u32 buf 34 = bmp_stride buf * get_u32 buf 22
     \<and> get_u32 buf 10 + bmp_stride buf * get_u32 buf 22 \<le> length buf"

definition bmp_pixel :: "u8 list \<Rightarrow> nat \<Rightarrow> nat \<Rightarrow> u8 \<times> u8 \<times> u8" where
  "bmp_pixel buf x y = (let p = get_u32 buf 10 + (get_u32 buf 22 - 1 - y) * bmp_stride buf + 3 * x
     in (buf ! (p + 2), buf ! (p + 1), buf ! p))"

definition screen_pixel :: "u8 list \<Rightarrow> nat \<Rightarrow> nat \<Rightarrow> u8 \<times> u8 \<times> u8" where
  "screen_pixel fb x y = (let p = (y * FB_WIDTH + x) * FB_BPP in (fb ! p, fb ! (p + 1), fb ! (p + 2)))"

lemma sample_pixel_step:
  assumes "(sy * FB_SCALE * FB_WIDTH + x * FB_SCALE) * FB_BPP + 2 < length fb" "d + 2 < length buf"
  shows "sample_pixel fb sy x (d, buf) = Some (d + 3, buf[d := fb ! ((sy * FB_SCALE * FB_WIDTH + x * FB_SCALE) * FB_BPP + 2),
    d + 1 := fb ! ((sy * FB_SCALE * FB_WIDTH + x * FB_SCALE) * FB_BPP + 1), d + 2 := fb ! ((sy * FB_SCALE * FB_WIDTH + x * FB_SCALE) * FB_BPP)])"
  using assms by (simp add: sample_pixel_def Let_def)

text \<open>The first \<open>n\<close> pixels of a row, whose bytes start at \<open>d\<close>.\<close>

definition row_done :: "u8 list \<Rightarrow> nat \<Rightarrow> nat \<Rightarrow> nat \<Rightarrow> u8 list \<Rightarrow> u8 list \<Rightarrow> bool" where
  "row_done fb sy d n buf b \<longleftrightarrow> length b = length buf
     \<and> (\<forall>i. i < d \<or> d + 3 * n \<le> i \<longrightarrow> b ! i = buf ! i)
     \<and> (\<forall>x < n. (b ! (d + 3 * x + 2), b ! (d + 3 * x + 1), b ! (d + 3 * x)) = screen_pixel fb (FB_SCALE * x) (FB_SCALE * sy))"

lemma row_loop:
  assumes "n \<le> IMAGE_WIDTH" "sy < IMAGE_HEIGHT" "length fb = FB_BYTES" "d + BMP_ROW_BYTES \<le> length buf"
  shows "\<exists>b. mfold (sample_pixel fb sy) [0..<n] (d, buf) = Some (d + 3 * n, b) \<and> row_done fb sy d n buf b"
  using assms(1)
proof (induction n)
  case 0
  then show ?case by (simp add: row_done_def)
next
  case (Suc n)
  then obtain b where b: "mfold (sample_pixel fb sy) [0..<n] (d, buf) = Some (d + 3 * n, b)" "row_done fb sy d n buf b"
    by auto
  let ?p = "(sy * FB_SCALE * FB_WIDTH + n * FB_SCALE) * FB_BPP" and ?d = "d + 3 * n"
  have "?p + 2 < length fb" using assms(2,3) Suc.prems by simp
  moreover have fits: "?d + 2 < length b" using b(2) assms(4) Suc.prems by (simp add: row_done_def)
  ultimately have step: "sample_pixel fb sy n (?d, b)
      = Some (?d + 3, b[?d := fb ! (?p + 2), ?d + 1 := fb ! (?p + 1), ?d + 2 := fb ! ?p])"
    by (rule sample_pixel_step)
  have "row_done fb sy d (Suc n) buf (b[?d := fb ! (?p + 2), ?d + 1 := fb ! (?p + 1), ?d + 2 := fb ! ?p])"
    using b(2) fits unfolding row_done_def
    by (auto simp: nth_list_update less_Suc_eq screen_pixel_def Let_def algebra_simps)
  then show ?case using b(1) step by (simp add: mfold_append)
qed

lemma sample_row_done:
  assumes "y < IMAGE_HEIGHT" "length fb = FB_BYTES" "length buf = BMP_BYTES"
  shows "\<exists>b. sample_row fb y buf = Some b
    \<and> row_done fb (IMAGE_HEIGHT - 1 - y) (54 + y * BMP_ROW_BYTES) IMAGE_WIDTH buf b"
proof -
  have "54 + y * BMP_ROW_BYTES + BMP_ROW_BYTES \<le> length buf" "IMAGE_HEIGHT - 1 - y < IMAGE_HEIGHT"
    using assms(1,3) by simp_all
  then show ?thesis
    using row_loop[of IMAGE_WIDTH "IMAGE_HEIGHT - 1 - y" fb "54 + y * BMP_ROW_BYTES" buf] assms(2)
    unfolding sample_row_def by auto
qed

text \<open>After the rows below \<open>n\<close> the header is unchanged and the rows show the bottom of the screen.\<close>

lemma rows_loop:
  assumes "n \<le> IMAGE_HEIGHT" "length fb = FB_BYTES" "length buf = BMP_BYTES"
  shows "\<exists>b. mfold (sample_row fb) [0..<n] buf = Some b \<and> length b = BMP_BYTES \<and> (\<forall>i < 54. b ! i = buf ! i)
    \<and> (\<forall>y < n. \<forall>x < IMAGE_WIDTH. (b ! (54 + y * BMP_ROW_BYTES + 3 * x + 2), b ! (54 + y * BMP_ROW_BYTES + 3 * x + 1),
         b ! (54 + y * BMP_ROW_BYTES + 3 * x)) = screen_pixel fb (FB_SCALE * x) (FB_SCALE * (IMAGE_HEIGHT - 1 - y)))"
  using assms(1)
proof (induction n)
  case 0
  then show ?case using assms(3) by simp
next
  case (Suc n)
  then obtain b where b: "mfold (sample_row fb) [0..<n] buf = Some b" "length b = BMP_BYTES" "\<forall>i < 54. b ! i = buf ! i"
    and px: "\<And>x y. y < n \<Longrightarrow> x < IMAGE_WIDTH \<Longrightarrow> (b ! (54 + y * BMP_ROW_BYTES + 3 * x + 2),
       b ! (54 + y * BMP_ROW_BYTES + 3 * x + 1), b ! (54 + y * BMP_ROW_BYTES + 3 * x))
         = screen_pixel fb (FB_SCALE * x) (FB_SCALE * (IMAGE_HEIGHT - 1 - y))"
    by auto
  obtain c where c: "sample_row fb n b = Some c"
    and dn: "row_done fb (IMAGE_HEIGHT - 1 - n) (54 + n * BMP_ROW_BYTES) IMAGE_WIDTH b c"
    using sample_row_done[of n fb b] Suc.prems assms(2) b(2) by auto
  have "(c ! (54 + y * BMP_ROW_BYTES + 3 * x + 2), c ! (54 + y * BMP_ROW_BYTES + 3 * x + 1),
       c ! (54 + y * BMP_ROW_BYTES + 3 * x)) = screen_pixel fb (FB_SCALE * x) (FB_SCALE * (IMAGE_HEIGHT - 1 - y))"
    if "y < Suc n" "x < IMAGE_WIDTH" for x y
  proof (cases "y = n")
    case True
    then show ?thesis using dn that(2) by (simp add: row_done_def)
  next
    case False
    then have "y < n" "54 + y * BMP_ROW_BYTES + 3 * x + 2 < 54 + n * BMP_ROW_BYTES" using that by simp_all
    then show ?thesis using px[of y x] dn that(2) by (simp add: row_done_def)
  qed
  then show ?case using b c dn by (auto simp: mfold_append row_done_def)
qed

lemma put_u16_at:
  "at + 1 < length buf \<Longrightarrow> put_u16 at v buf = Some (buf[at := ucast (v AND 0xff), at + 1 := ucast (drop_bit 8 v)])"
  by (simp add: put_u16_def)

lemma put_u32_at:
  "at + 3 < length buf \<Longrightarrow> put_u32 at v buf = Some (buf[at := ucast (v AND 0xff), at + 1 := ucast (drop_bit 8 v AND 0xff),
     at + 2 := ucast (drop_bit 16 v AND 0xff), at + 3 := ucast (drop_bit 24 v)])"
  by (simp add: put_u32_def)

definition header_bytes :: "u8 list" where
  "header_bytes = [66, 77, 54, 163, 2, 0, 0, 0, 0, 0, 54, 0, 0, 0, 40, 0, 0, 0, 64, 1, 0, 0, 180, 0, 0, 0, 1, 0, 24, 0,
     0, 0, 0, 0, 0, 163, 2, 0, 19, 11, 0, 0, 19, 11, 0, 0, 0, 0, 0, 0, 0, 0, 0, 0]"

lemma list_update_Cons_numeral: "(x # xs)[numeral k := v] = x # xs[pred_numeral k := v]"
  by (simp add: numeral_eq_Suc)

lemma zeros_54: "replicate 54 (0 :: u8) = [0, 0, 0, 0, 0, 0, 0, 0, 0, 0, 0, 0, 0, 0, 0, 0, 0, 0, 0, 0, 0, 0, 0, 0, 0, 0, 0,
    0, 0, 0, 0, 0, 0, 0, 0, 0, 0, 0, 0, 0, 0, 0, 0, 0, 0, 0, 0, 0, 0, 0, 0, 0, 0, 0]"
  by (simp add: numeral_eq_Suc)

lemma bitmap_header_bytes:
  assumes "length buf = 54 + n" "\<forall>i < 54. buf ! i = 0"
  shows "bitmap_header buf = Some (header_bytes @ drop 54 buf)"
proof -
  have split: "buf = replicate 54 0 @ drop 54 buf"
    using assms by (intro nth_equalityI) (auto simp: nth_append)
  show ?thesis
    by (subst split) (simp add: zeros_54 bitmap_header_def put_u16_at put_u32_at header_bytes_def list_update_Cons_numeral)
qed

lemma bmp_header_fields:
  assumes "length b = BMP_BYTES" "\<forall>i < 54. b ! i = header_bytes ! i"
  shows "bmp_valid b" "bmp_size b = (IMAGE_WIDTH, IMAGE_HEIGHT)" "bmp_stride b = BMP_ROW_BYTES" "get_u32 b 10 = 54"
    "get_u32 b 22 = IMAGE_HEIGHT"
  using assms by (simp_all add: bmp_valid_def bmp_size_def bmp_stride_def get_u32_def get_u16_def header_bytes_def)

definition shows_screen :: "u8 list \<Rightarrow> u8 list \<Rightarrow> bool" where
  "shows_screen b fb \<longleftrightarrow> length b = BMP_BYTES \<and> bmp_valid b \<and> bmp_size b = (IMAGE_WIDTH, IMAGE_HEIGHT)
     \<and> (\<forall>x < IMAGE_WIDTH. \<forall>y < IMAGE_HEIGHT. bmp_pixel b x y = screen_pixel fb (FB_SCALE * x) (FB_SCALE * y))"

lemma build_bitmap_shows:
  assumes "srv_wf s"
  shows "\<exists>b. build_bitmap s = Some (s\<lparr>bitmap := b\<rparr>) \<and> shows_screen b (framebuffer s)"
proof -
  define z :: "u8 list" where "z = replicate (length (bitmap s)) 0"
  have z: "length z = BMP_BYTES" "\<forall>i < 54. z ! i = 0" using assms by (simp_all add: z_def srv_wf_def)
  define h where "h = header_bytes @ drop 54 z"
  have hd: "bitmap_header z = Some h" using bitmap_header_bytes[of z "BMP_BYTES - 54"] z by (simp add: h_def)
  have "length header_bytes = 54" by (simp add: header_bytes_def)
  then have h: "length h = BMP_BYTES" "\<forall>i < 54. h ! i = header_bytes ! i" using z by (simp_all add: h_def nth_append)
  obtain b where b: "mfold (sample_row (framebuffer s)) [0..<IMAGE_HEIGHT] h = Some b" "length b = BMP_BYTES"
      "\<forall>i < 54. b ! i = h ! i"
    and px: "\<And>x y. y < IMAGE_HEIGHT \<Longrightarrow> x < IMAGE_WIDTH \<Longrightarrow> (b ! (54 + y * BMP_ROW_BYTES + 3 * x + 2),
       b ! (54 + y * BMP_ROW_BYTES + 3 * x + 1), b ! (54 + y * BMP_ROW_BYTES + 3 * x))
         = screen_pixel (framebuffer s) (FB_SCALE * x) (FB_SCALE * (IMAGE_HEIGHT - 1 - y))"
    using rows_loop[OF order_refl, of "framebuffer s" h] assms h(1) unfolding srv_wf_def by blast
  have "\<forall>i < 54. b ! i = header_bytes ! i" using b(3) h(2) by simp
  note f = bmp_header_fields[OF b(2) this]
  have "bmp_pixel b x y = screen_pixel (framebuffer s) (FB_SCALE * x) (FB_SCALE * y)"
    if "x < IMAGE_WIDTH" "y < IMAGE_HEIGHT" for x y
    using px[of "IMAGE_HEIGHT - 1 - y" x] that by (simp add: bmp_pixel_def f Let_def)
  then have "shows_screen b (framebuffer s)" using b(2) f by (simp add: shows_screen_def)
  moreover have "build_bitmap s = Some (s\<lparr>bitmap := b\<rparr>)"
    using hd b(1) unfolding build_bitmap_def z_def by (simp del: upt_rec_numeral)
  ultimately show ?thesis by blast
qed

section \<open>The answer to a request\<close>

definition response :: "nat \<Rightarrow> string \<Rightarrow> string \<Rightarrow> u8 list \<Rightarrow> u8 list" where
  "response status reason content_type body =
     bytes_of (response_header status reason content_type (length body)) @ body"

definition plain :: "nat \<Rightarrow> string \<Rightarrow> string \<Rightarrow> u8 list" where
  "plain status reason body = response status reason ''text/plain; charset=utf-8'' (bytes_of body)"

text \<open>What a client may receive for a request head when the device holds \<open>pixels\<close>.\<close>

definition right_answer :: "u8 list \<Rightarrow> string \<Rightarrow> u8 list \<Rightarrow> bool" where
  "right_answer pixels head bytes \<longleftrightarrow> (case scan_request head of
     None \<Rightarrow> bytes = plain 400 ''Bad Request'' (''bad request'' @ [LF])
   | Some (meth, path, version) \<Rightarrow>
       if meth \<noteq> ''GET'' then bytes = plain 405 ''Method Not Allowed'' (''GET only'' @ [LF])
       else if path = ''/health'' then bytes = plain 200 ''OK'' (''status=ok'' @ [LF] @ ''read_only=1'' @ [LF])
       else if path \<noteq> ''/'' \<and> path \<noteq> ''/frame.bmp'' then bytes = plain 404 ''Not Found'' (''not found'' @ [LF])
       else if length pixels < FB_BYTES
       then bytes = plain 503 ''Service Unavailable'' (''framebuffer read failed'' @ [LF])
       else \<exists>b. shows_screen b (take FB_BYTES pixels) \<and> bytes = response 200 ''OK'' ''image/bmp'' b)"

lemma strstr_iff: "strstr s pat \<longleftrightarrow> (\<exists>a b. s = a @ pat @ b)"
proof (induction s)
  case Nil
  then show ?case by (simp add: strstr.simps) auto
next
  case (Cons c s)
  have "take (length pat) (c # s) = pat \<longleftrightarrow> (\<exists>b. c # s = pat @ b)"
    by (metis append_eq_conv_conj append_take_drop_id)
  moreover have "(\<exists>a b. c # s = a @ pat @ b) \<longleftrightarrow> (\<exists>b. c # s = pat @ b) \<or> (\<exists>a b. s = a @ pat @ b)"
    by (metis append_Cons append_Nil list.inject neq_Nil_conv)
  ultimately show ?case using Cons by (subst strstr.simps) simp
qed

lemma c_str_append:
  "c_str (s @ x) = (if c_str s = s then s @ c_str x else c_str s)"
  unfolding c_str_def by (auto simp: takeWhile_eq_all_conv takeWhile_append)

lemma c_str_snoc: "c_str (s @ [c]) = (if c_str s = s \<and> c \<noteq> CHR 0x00 then s @ [c] else c_str s)"
  by (induction s) (auto simp: c_str_def)

lemma complete_append: "complete q \<Longrightarrow> complete (q @ x)"
  unfolding complete_def c_str_append strstr_iff by (metis append.assoc)

lemma complete_ends:
  assumes "complete head" "\<not> complete (butlast head)"
  shows "c_str head = head \<and> head \<noteq> [] \<and> isspace (last head)"
proof -
  have ne: "head \<noteq> []" using assms by (metis butlast.simps(1))
  then have h: "head = butlast head @ [last head]" by simp
  have nul: "c_str head = head"
  proof (rule ccontr)
    assume "c_str head \<noteq> head"
    then have "c_str head = c_str (butlast head)"
      using c_str_snoc[of "butlast head" "last head"] h by (metis append_same_eq)
    then show False using assms by (simp add: complete_def)
  qed
  then have "c_str (butlast head) = butlast head"
    using c_str_snoc[of "butlast head" "last head"] h by (metis append_self_conv c_str_def not_Cons_self2 set_takeWhileD takeWhile_eq_all_conv in_set_butlastD)
  then have no: "\<not> strstr (butlast head) [CR, LF, CR, LF]" "\<not> strstr (butlast head) [LF, LF]"
    using assms(2) by (simp_all add: complete_def)
  have "last head = LF" if m: "strstr head pat" "\<not> strstr (butlast head) pat" "pat \<noteq> []" "last pat = LF" for pat
  proof -
    obtain a b where ab: "head = a @ pat @ b" using m(1) unfolding strstr_iff by blast
    have "b = []"
    proof (rule ccontr)
      assume "b \<noteq> []"
      then have "butlast head = a @ pat @ butlast b" using ab by (simp add: butlast_append)
      then show False using m(2) by (auto simp: strstr_iff)
    qed
    then show ?thesis using ab m(3,4) by simp
  qed
  then have "last head = LF" using assms(1) no nul by (auto simp: complete_def)
  then show ?thesis using nul ne by (simp add: isspace_def)
qed

lemma scan_word_append:
  assumes "scan_word n s = Some (word, r)" "isspace (last s)"
  shows "scan_word n (s @ x) = Some (word, r @ x) \<and> r \<noteq> [] \<and> isspace (last r)"
proof -
  define t where "t = dropWhile isspace s"
  define k where "k = takeWhile (\<lambda>c. \<not> isspace c) t"
  have s1: "scan_word n s = (if take n k = [] then None else Some (take n k, drop (length (take n k)) t))"
    unfolding scan_word_def t_def k_def Let_def ..
  have "t \<noteq> []" using assms(1) s1 by (auto simp: k_def)
  then have l: "isspace (last t)" "last t \<in> set t"
    using assms(2) unfolding t_def by (metis last_appendR takeWhile_dropWhile_id, simp)
  have t2: "dropWhile isspace (s @ x) = t @ x" using \<open>t \<noteq> []\<close> unfolding t_def by (metis dropWhile_append dropWhile_eq_Nil_conv)
  have k2: "takeWhile (\<lambda>c. \<not> isspace c) (t @ x) = k" using l unfolding k_def by (metis takeWhile_append1)
  have "k \<noteq> t" using l unfolding k_def by (metis set_takeWhileD)
  then have len: "length (take n k) < length t"
    unfolding k_def by (metis dual_order.strict_trans1 length_take length_takeWhile_le min.cobounded1 nat_less_le takeWhile_eq_take take_all)
  have "scan_word n (s @ x) = (if take n k = [] then None else Some (take n k, drop (length (take n k)) (t @ x)))"
    unfolding scan_word_def Let_def t2 k2 ..
  then show ?thesis using assms(1) s1 l(1) len by (auto split: if_splits)
qed

lemma scan_request_append:
  assumes "scan_request head \<noteq> None" "complete head" "\<not> complete (butlast head)"
  shows "scan_request (head @ x) = scan_request head"
proof -
  note e = complete_ends[OF assms(2,3)]
  have c: "c_str head = head" "c_str (head @ x) = head @ c_str x" using e by (simp_all add: c_str_append)
  obtain m r1 p r2 v r3 where s: "scan_word 15 head = Some (m, r1)" "scan_word 127 r1 = Some (p, r2)"
      "scan_word 15 r2 = Some (v, r3)"
    using assms(1) c by (auto simp: scan_request_def split: Option.bind_splits)
  then show ?thesis using scan_word_append e c unfolding scan_request_def by (metis (no_types, lifting) bind.bind_lunit case_prod_conv)
qed

lemma header_fits:
  assumes "status < 1000" "n < 1000000" "length reason \<le> 30" "length content_type \<le> 30"
  shows "length (response_header status reason content_type n) < 512"
proof -
  have "length (show_nat status) \<le> 3" "length (show_nat n) \<le> 6" using assms(1,2) by (simp_all add: length_show_nat)
  then show ?thesis using assms(3,4) by (simp add: response_header_def)
qed

lemma remaining_shrinks: "n < m \<Longrightarrow> xs \<noteq> [] \<Longrightarrow> m - (n + length xs) < m - (n :: nat)"
  by (cases xs) auto

section \<open>What the system calls promise\<close>

text \<open>The observed part of the world: what is left to receive from a client, what it was sent, the offset of a
  descriptor on the framebuffer device, how many interrupted calls are still to come and how many calls failed
  for good.  The screen does not change while it is read.\<close>

locale srv_platform =
  fixes os :: "'w srv_os" and device :: string and pixels :: "u8 list"
    and inbox :: "int \<Rightarrow> 'w \<Rightarrow> string" and outbox :: "int \<Rightarrow> 'w \<Rightarrow> u8 list"
    and pos :: "int \<Rightarrow> 'w \<Rightarrow> nat option" and interrupts :: "'w \<Rightarrow> nat" and faults :: "'w \<Rightarrow> nat"
  assumes recv_data: "so_recv os c n w = (Inr got, w1) \<Longrightarrow> inbox c w = got @ inbox c w1 \<and> length got \<le> n
          \<and> outbox c w1 = outbox c w \<and> interrupts w1 \<le> interrupts w
          \<and> faults w1 = (if got = [] \<and> inbox c w \<noteq> [] then Suc (faults w) else faults w)"
    and recv_error: "so_recv os c n w = (Inl e, w1) \<Longrightarrow> inbox c w1 = inbox c w \<and> outbox c w1 = outbox c w
          \<and> (if e = EINTR then interrupts w1 < interrupts w \<and> faults w1 = faults w else faults w < faults w1)"
    and send_data: "so_send os c bs w = (Inr n, w1) \<Longrightarrow> n \<le> length bs \<and> outbox c w1 = outbox c w @ take n bs
          \<and> interrupts w1 \<le> interrupts w \<and> (if n = 0 then faults w < faults w1 else faults w1 = faults w)"
    and send_error: "so_send os c bs w = (Inl e, w1) \<Longrightarrow> outbox c w1 = outbox c w
          \<and> (if e = EINTR then interrupts w1 < interrupts w \<and> faults w1 = faults w else faults w < faults w1)"
    and open_device: "so_open os device w = (fd, w1) \<Longrightarrow> outbox c w1 = outbox c w
          \<and> (if fd < 0 then faults w < faults w1 else pos fd w1 = Some 0 \<and> faults w1 = faults w)"
    and read_data: "so_read os fd n w = (Inr data, w1) \<Longrightarrow> pos fd w = Some p \<Longrightarrow> outbox c w1 = outbox c w
          \<and> prefix data (drop p pixels) \<and> length data \<le> n \<and> pos fd w1 = Some (p + length data)
          \<and> interrupts w1 \<le> interrupts w
          \<and> faults w1 = (if data = [] \<and> p < length pixels then Suc (faults w) else faults w)"
    and read_error: "so_read os fd n w = (Inl e, w1) \<Longrightarrow> outbox c w1 = outbox c w \<and> pos fd w1 = pos fd w
          \<and> (if e = EINTR then interrupts w1 < interrupts w \<and> faults w1 = faults w else faults w < faults w1)"
    and close_quiet: "so_close os fd w = (rc, w1) \<Longrightarrow> inbox c w1 = inbox c w \<and> outbox c w1 = outbox c w \<and> faults w1 = faults w"
begin

text \<open>The bytes \<open>bs\<close> went out completely, or a call failed and only a first part of them did.\<close>

definition hands_over :: "int \<Rightarrow> u8 list \<Rightarrow> 'w \<Rightarrow> int \<Rightarrow> 'w \<Rightarrow> bool" where
  "hands_over c bs w rc w' \<longleftrightarrow> faults w \<le> faults w' \<and> (\<exists>pre. prefix pre bs \<and> outbox c w' = outbox c w @ pre)
     \<and> (rc < 0 \<longrightarrow> faults w < faults w') \<and> (0 \<le> rc \<longrightarrow> outbox c w' = outbox c w @ bs)"

lemma hands_over_more:
  assumes "hands_over c bs w 0 w1" "hands_over c bs' w1 rc w'"
  shows "hands_over c (bs @ bs') w rc w'"
proof -
  obtain pre where "prefix pre bs'" "outbox c w' = outbox c w1 @ pre" using assms(2) by (auto simp: hands_over_def)
  then have "prefix (bs @ pre) (bs @ bs') \<and> outbox c w' = outbox c w @ (bs @ pre)" using assms(1) by (simp add: hands_over_def)
  then have "\<exists>pre. prefix pre (bs @ bs') \<and> outbox c w' = outbox c w @ pre" by blast
  then show ?thesis using assms unfolding hands_over_def by auto
qed

lemma hands_over_none: "faults w < faults w' \<Longrightarrow> outbox c w' = outbox c w \<Longrightarrow> rc < 0 \<Longrightarrow> hands_over c bs w rc w'"
  by (simp add: hands_over_def)

lemma send_loop_sends:
  assumes "sent \<le> length bytes"
  shows "\<exists>rc w'. send_loop os c bytes sent w = Some (rc, w') \<and> hands_over c (drop sent bytes) w rc w'" (is "?sends sent w")
  using assms
proof (induction "(length bytes - sent, interrupts w)" arbitrary: sent w
    rule: wf_induct_rule[OF wf_lex_prod[OF wf_less_than wf_less_than]])
  case 1
  show ?case
  proof (cases "sent < length bytes")
    case False
    then show ?thesis using "1.prems" by (subst send_loop.simps) (simp add: hands_over_def)
  next
    case True
    obtain r w1 where r: "so_send os c (drop sent bytes) w = (r, w1)" by fastforce
    show ?thesis
    proof (cases r)
      case (Inl e)
      note er = send_error[OF r[unfolded Inl]]
      show ?thesis
      proof (cases "e = EINTR")
        case yes: True
        then have "?sends sent w1" using er "1.prems" by (intro "1.hyps") auto
        moreover have "send_loop os c bytes sent w = send_loop os c bytes sent w1"
          using yes True r Inl by (subst send_loop.simps) simp
        ultimately show ?thesis using yes er by (simp add: hands_over_def)
      next
        case no: False
        then show ?thesis using True r Inl er by (subst send_loop.simps) (simp add: hands_over_none)
      qed
    next
      case (Inr n)
      note dt = send_data[OF r[unfolded Inr]]
      show ?thesis
      proof (cases "n = 0")
        case yes: True
        then show ?thesis using True r Inr dt by (subst send_loop.simps) (simp add: hands_over_none)
      next
        case no: False
        have "?sends (sent + n) w1" using dt True no by (intro "1.hyps") auto
        then obtain rc w' where h: "send_loop os c bytes (sent + n) w1 = Some (rc, w')"
            "hands_over c (drop (sent + n) bytes) w1 rc w'" by auto
        have "hands_over c (take n (drop sent bytes)) w 0 w1" using dt no by (simp add: hands_over_def)
        from hands_over_more[OF this h(2)] have "hands_over c (drop sent bytes) w rc w'"
          by (metis add.commute append_take_drop_id drop_drop)
        moreover have "send_loop os c bytes sent w = Some (rc, w')"
          using True r Inr no h(1) by (subst send_loop.simps) simp
        ultimately show ?thesis by simp
      qed
    qed
  qed
qed

text \<open>A response is delivered as a whole when its header fits the buffer of the program.\<close>

lemma send_response_hands_over:
  assumes "length (response_header status reason content_type (length body)) < 512"
  shows "\<exists>rc w'. send_response os c status reason content_type body w = Some (rc, w')
    \<and> hands_over c (response status reason content_type body) w rc w'"
proof -
  let ?h = "bytes_of (response_header status reason content_type (length body))"
  obtain rc w1 where h: "send_loop os c ?h 0 w = Some (rc, w1)" "hands_over c ?h w rc w1"
    using send_loop_sends[of 0 ?h c w] by auto
  obtain rc2 w2 where b: "send_loop os c body 0 w1 = Some (rc2, w2)" "hands_over c body w1 rc2 w2"
    using send_loop_sends[of 0 body c w1] by auto
  show ?thesis
  proof (cases "rc < 0")
    case True
    then have "hands_over c (?h @ body) w (- 1) w1" using h(2) unfolding hands_over_def by (auto intro: prefix_prefix)
    then show ?thesis using True h(1) assms by (simp add: send_response_def send_all_def response_def Let_def)
  next
    case False
    then have "hands_over c ?h w 0 w1" using h(2) by (auto simp: hands_over_def)
    from hands_over_more[OF this b(2)] show ?thesis
      using False h(1) b(1) assms by (simp add: send_response_def send_all_def response_def Let_def)
  qed
qed

text \<open>Reading the device.\<close>

lemma read_loop_reads:
  assumes "pos fd w = Some n" "n \<le> FB_BYTES" "length fb = FB_BYTES" "take n fb = take n pixels" "n \<le> length pixels"
  shows "\<exists>rc fb' w'. read_loop os fd n fb w = Some (rc, fb', w') \<and> length fb' = FB_BYTES \<and> faults w \<le> faults w'
    \<and> outbox c w' = outbox c w \<and> (rc < 0 \<longrightarrow> faults w < faults w' \<or> length pixels < FB_BYTES)
    \<and> (0 \<le> rc \<longrightarrow> fb' = take FB_BYTES pixels \<and> FB_BYTES \<le> length pixels)" (is "?reads n fb w")
  using assms
proof (induction "(FB_BYTES - n, interrupts w)" arbitrary: n fb w
    rule: wf_induct_rule[OF wf_lex_prod[OF wf_less_than wf_less_than]])
  case 1
  show ?case
  proof (cases "n < FB_BYTES")
    case False
    then show ?thesis using "1.prems" by (subst read_loop.simps) auto
  next
    case True
    obtain r w1 where r: "so_read os fd (FB_BYTES - n) w = (r, w1)" by fastforce
    show ?thesis
    proof (cases r)
      case (Inl e)
      note er = read_error[OF r[unfolded Inl], of c]
      show ?thesis
      proof (cases "e = EINTR")
        case yes: True
        then have "?reads n fb w1" using er "1.prems" by (intro "1.hyps") auto
        moreover have "read_loop os fd n fb w = read_loop os fd n fb w1"
          using yes True r Inl by (subst read_loop.simps) simp
        ultimately show ?thesis using yes er by simp
      next
        case no: False
        then show ?thesis using True r Inl er "1.prems"(3) by (subst read_loop.simps) simp
      qed
    next
      case (Inr got)
      note dt = read_data[OF r[unfolded Inr] "1.prems"(1), of c]
      show ?thesis
      proof (cases "got = []")
        case yes: True
        then show ?thesis using True r Inr dt "1.prems"(3,5) by (subst read_loop.simps) auto
      next
        case no: False
        define fb1 where "fb1 = take n fb @ got @ drop (n + length got) fb"
        have fits: "n + length got \<le> FB_BYTES" using dt True by auto
        have "prefix got (drop n pixels)" using dt by blast
        then have got: "got = take (length got) (drop n pixels)" and "length got \<le> length pixels - n"
          by (auto simp: prefix_def dest: arg_cong[of _ _ length])
        then have more: "n + length got \<le> length pixels" using "1.prems"(5) by linarith
        have "take (n + length got) fb1 = take n pixels @ got"
          using "1.prems"(3-5) fits by (simp add: fb1_def)
        also have "\<dots> = take (n + length got) pixels" using got by (simp add: take_add)
        finally have "?reads (n + length got) fb1 w1"
          using dt no True fits more "1.prems"(3) by (intro "1.hyps") (auto simp: fb1_def remaining_shrinks)
        moreover have "read_loop os fd n fb w = read_loop os fd (n + length got) fb1 w1"
          using True r Inr no "1.prems"(3) fits by (subst read_loop.simps) (simp add: memcpy_at_def fb1_def)
        ultimately show ?thesis using dt no by simp
      qed
    qed
  qed
qed

lemma read_frame_reads:
  assumes "srv_wf s"
  shows "\<exists>rc s' w'. read_frame os device s w = Some (rc, s', w') \<and> srv_wf s' \<and> faults w \<le> faults w'
    \<and> outbox c w' = outbox c w \<and> (rc < 0 \<longrightarrow> faults w < faults w' \<or> length pixels < FB_BYTES)
    \<and> (0 \<le> rc \<longrightarrow> framebuffer s' = take FB_BYTES pixels \<and> FB_BYTES \<le> length pixels)"
proof -
  obtain fd w1 where o: "so_open os device w = (fd, w1)" by fastforce
  note op = open_device[OF o, of c]
  show ?thesis
  proof (cases "fd < 0")
    case True
    then show ?thesis using o op assms by (auto simp: read_frame_def)
  next
    case False
    then obtain rc fb' w2 where l: "read_loop os fd 0 (framebuffer s) w1 = Some (rc, fb', w2)" "length fb' = FB_BYTES"
        "faults w1 \<le> faults w2" "outbox c w2 = outbox c w1" "rc < 0 \<longrightarrow> faults w1 < faults w2 \<or> length pixels < FB_BYTES"
        "0 \<le> rc \<longrightarrow> fb' = take FB_BYTES pixels \<and> FB_BYTES \<le> length pixels"
      using read_loop_reads[of fd w1 0 "framebuffer s" c] op assms by (auto simp: srv_wf_def)
    obtain rc2 w3 where c: "so_close os fd w2 = (rc2, w3)" by fastforce
    then have "outbox c w3 = outbox c w2" "faults w3 = faults w2" using close_quiet by blast+
    then show ?thesis using o op False l c assms by (auto simp: read_frame_def srv_wf_def)
  qed
qed

text \<open>Receiving a request.\<close>

lemma recv_loop_gets:
  assumes "length q \<le> REQUEST_BYTES" "\<not> complete q"
  shows "\<exists>r w'. recv_loop os c q w = Some (r, w') \<and> faults w \<le> faults w' \<and> outbox c w' = outbox c w
    \<and> (r = None \<longrightarrow> faults w < faults w' \<or> length (q @ inbox c w) < REQUEST_BYTES \<and> \<not> complete (q @ inbox c w))
    \<and> (\<forall>q'. r = Some q' \<longrightarrow> prefix q' (q @ inbox c w) \<and> length q' \<le> REQUEST_BYTES
        \<and> (complete q' \<or> length q' = REQUEST_BYTES))" (is "?gets q w")
  using assms
proof (induction "(REQUEST_BYTES - length q, interrupts w)" arbitrary: q w
    rule: wf_induct_rule[OF wf_lex_prod[OF wf_less_than wf_less_than]])
  case 1
  show ?case
  proof (cases "length q < REQUEST_BYTES")
    case False
    then show ?thesis using "1.prems"(1) by (subst recv_loop.simps) simp
  next
    case True
    obtain r w1 where r: "so_recv os c (REQUEST_BYTES - length q) w = (r, w1)" by fastforce
    show ?thesis
    proof (cases r)
      case (Inl e)
      note er = recv_error[OF r[unfolded Inl]]
      show ?thesis
      proof (cases "e = EINTR")
        case yes: True
        then have "?gets q w1" using er "1.prems" by (intro "1.hyps") auto
        moreover have "recv_loop os c q w = recv_loop os c q w1"
          using yes True r Inl by (subst recv_loop.simps) simp
        ultimately show ?thesis using yes er by simp
      next
        case no: False
        then show ?thesis using True r Inl er by (subst recv_loop.simps) simp
      qed
    next
      case (Inr got)
      note dt = recv_data[OF r[unfolded Inr]]
      have rest: "inbox c w = got @ inbox c w1" using dt by blast
      have fits: "length (q @ got) \<le> REQUEST_BYTES" using dt True by auto
      show ?thesis
      proof (cases "got = [] \<or> complete (q @ got)")
        case yes: True
        then show ?thesis using True r Inr dt rest fits "1.prems"(2) by (subst recv_loop.simps) auto
      next
        case no: False
        then have "?gets (q @ got) w1" using True fits by (intro "1.hyps") (auto simp: remaining_shrinks)
        moreover have "recv_loop os c q w = recv_loop os c (q @ got) w1"
          using True r Inr no fits by (subst recv_loop.simps) simp
        ultimately show ?thesis using dt no rest by simp
      qed
    qed
  qed
qed

text \<open>After a response without a failed call the client has got it.\<close>

definition answered :: "int \<Rightarrow> (u8 list \<Rightarrow> bool) \<Rightarrow> 'w \<Rightarrow> (bool \<times> srv_state \<times> 'w) option \<Rightarrow> bool" where
  "answered c P w r \<longleftrightarrow> (\<exists>s' w'. r = Some (True, s', w') \<and> srv_wf s' \<and> faults w \<le> faults w'
     \<and> (faults w' = faults w \<longrightarrow> (\<exists>bytes. P bytes \<and> outbox c w' = outbox c w @ bytes)))"

lemma answered_response:
  assumes "srv_wf s" "status < 1000" "length body < 1000000" "length reason \<le> 30" "length content_type \<le> 30"
    and "P (response status reason content_type body)"
  shows "answered c P w (do { (_, w) \<leftarrow> send_response os c status reason content_type body w; Some (True, s, w) })"
proof -
  obtain rc w' where "send_response os c status reason content_type body w = Some (rc, w')"
      "hands_over c (response status reason content_type body) w rc w'"
    using send_response_hands_over[OF header_fits[OF assms(2-5)]] by blast
  then show ?thesis using assms(1,6) by (cases "rc < 0") (auto simp: answered_def hands_over_def)
qed

lemma answered_plain:
  assumes "srv_wf s" "status < 1000" "length reason \<le> 30" "length body < 100" "P (plain status reason body)"
  shows "answered c P w (do { (_, w) \<leftarrow> send_plain os c status reason body w; Some (True, s, w) })"
  unfolding send_plain_def
  using assms by (intro answered_response) (simp_all add: plain_def bytes_of_def)

lemma answered_later:
  assumes "answered c P w1 r" "faults w \<le> faults w1" "outbox c w1 = outbox c w"
  shows "answered c P w r"
  using assms unfolding answered_def by force

lemma answered_fault:
  assumes "answered c P' w1 r" "faults w < faults w1"
  shows "answered c P w r"
  using assms unfolding answered_def by force

lemma handle_request_answers:
  assumes "srv_wf s" "recv_loop os c '''' w = Some (Some q, w1)" "faults w \<le> faults w1" "outbox c w1 = outbox c w"
    and "length q < REQUEST_BYTES"
  shows "answered c (right_answer pixels q) w (handle_request os c device s w)"
proof -
  let ?P = "right_answer pixels q"
  have "answered c ?P w1 (handle_request os c device s w)"
  proof (cases "\<exists>version path. scan_request q = Some (''GET'', path, version) \<and> (path = ''/'' \<or> path = ''/frame.bmp'')")
    case False
    then show ?thesis using assms(1,2,5)
      by (auto simp: handle_request_def right_answer_def split: option.split prod.split intro!: answered_plain)
  next
    case True
    then obtain path version where sc: "scan_request q = Some (''GET'', path, version)" "path = ''/'' \<or> path = ''/frame.bmp''"
      by blast
    obtain rc s1 w2 where rf: "read_frame os device s w1 = Some (rc, s1, w2)" "srv_wf s1" "faults w1 \<le> faults w2"
        "outbox c w2 = outbox c w1" "rc < 0 \<longrightarrow> faults w1 < faults w2 \<or> length pixels < FB_BYTES"
        "0 \<le> rc \<longrightarrow> framebuffer s1 = take FB_BYTES pixels \<and> FB_BYTES \<le> length pixels"
      using read_frame_reads[OF assms(1), of w1 c] by blast
    show ?thesis
    proof (cases "rc < 0")
      case True
      let ?plain = "\<lambda>bytes. bytes = plain 503 ''Service Unavailable'' (''framebuffer read failed'' @ [LF])"
      have run: "handle_request os c device s w = do { (_, w) \<leftarrow> send_plain os c 503 ''Service Unavailable''
          (''framebuffer read failed'' @ [LF]) w2; Some (True, s1, w) }"
        using assms(2,5) sc rf(1) True by (auto simp: handle_request_def)
      then have a: "answered c ?plain w2 (handle_request os c device s w)"
        using rf(2) by (simp add: answered_plain)
      show ?thesis
      proof (cases "faults w1 < faults w2")
        case True
        then show ?thesis using a answered_fault by blast
      next
        case no: False
        then have "?plain = ?P" using sc rf(5) True by (auto simp: right_answer_def)
        then show ?thesis using a rf(3,4) answered_later by metis
      qed
    next
      case False
      obtain b where b: "build_bitmap s1 = Some (s1\<lparr>bitmap := b\<rparr>)" "shows_screen b (framebuffer s1)"
        using build_bitmap_shows[OF rf(2)] by blast
      have fb: "framebuffer s1 = take FB_BYTES pixels" "FB_BYTES \<le> length pixels" using False rf(6) by simp_all
      have "?P (response 200 ''OK'' ''image/bmp'' b)" using sc b(2) fb by (auto simp: right_answer_def)
      moreover have "length b = BMP_BYTES" using b(2) by (simp add: shows_screen_def)
      ultimately have "answered c ?P w2 (do { (_, w) \<leftarrow> send_response os c 200 ''OK'' ''image/bmp'' b w2;
          Some (True, s1\<lparr>bitmap := b\<rparr>, w) })"
        using rf(2) by (intro answered_response) (simp_all add: srv_wf_def)
      moreover have "handle_request os c device s w = do { (_, w) \<leftarrow> send_response os c 200 ''OK'' ''image/bmp'' b w2;
          Some (True, s1\<lparr>bitmap := b\<rparr>, w) }"
        using assms(2,5) sc rf(1) False b(1) by (auto simp: handle_request_def)
      ultimately show ?thesis using rf(3,4) answered_later by metis
    qed
  qed
  then show ?thesis using assms(3,4) by (rule answered_later)
qed

theorem handle_request_right:
  assumes "srv_wf s" "inbox c w = head @ rest" "length (head @ rest) < REQUEST_BYTES"
    and "complete head" "\<not> complete (butlast head)" "scan_request head \<noteq> None \<or> rest = ''''"
  shows "\<exists>served s' w'. handle_request os c device s w = Some (served, s', w') \<and> srv_wf s'
    \<and> (faults w' = faults w \<longrightarrow> served \<and> (\<exists>bytes. right_answer pixels head bytes \<and> outbox c w' = outbox c w @ bytes))"
proof -
  have "\<not> complete ''''" by (simp add: complete_def c_str_def strstr.simps)
  then obtain r w1 where r: "recv_loop os c '''' w = Some (r, w1)" "faults w \<le> faults w1" "outbox c w1 = outbox c w"
      "r = None \<longrightarrow> faults w < faults w1 \<or> \<not> complete (head @ rest)"
    and q: "\<And>q. r = Some q \<Longrightarrow> prefix q (head @ rest) \<and> (complete q \<or> length q = REQUEST_BYTES)"
    using recv_loop_gets[of "''''" c w] assms(2) by auto
  show ?thesis
  proof (cases r)
    case None
    then show ?thesis using r complete_append[OF assms(4)] assms(1) by (auto simp: handle_request_def)
  next
    case (Some q)
    then have p: "prefix q (head @ rest)" and "length q < REQUEST_BYTES"
      using q[of q] assms(3) by (auto dest!: prefix_length_le)
    then have cq: "complete q" using q[OF Some] by simp
    have "prefix head q"
    proof (rule ccontr)
      assume "\<not> prefix head q"
      then have "strict_prefix q head" using p by (metis prefixI prefix_same_cases prefix_order.le_less)
      then obtain x where "head = q @ x" "x \<noteq> []" by (auto simp: strict_prefix_def prefix_def)
      then show False using complete_append[OF cq, of "butlast x"] assms(5) by (simp add: butlast_append)
    qed
    then obtain x where x: "q = head @ x" by (auto simp: prefix_def)
    then have "scan_request q = scan_request head"
      using assms(6) scan_request_append[OF _ assms(4,5)] p by auto
    then have "right_answer pixels q = right_answer pixels head" by (simp add: right_answer_def fun_eq_iff)
    moreover have "answered c (right_answer pixels q) w (handle_request os c device s w)"
      using assms(1) r(1)[unfolded Some] r(2,3) \<open>length q < REQUEST_BYTES\<close> by (rule handle_request_answers)
    ultimately show ?thesis by (auto simp: answered_def)
  qed
qed

theorem handle_request_oversized:
  assumes "srv_wf s" "REQUEST_BYTES \<le> length (inbox c w)" "\<not> complete (take REQUEST_BYTES (inbox c w))"
  shows "\<exists>served s' w'. handle_request os c device s w = Some (served, s', w') \<and> srv_wf s'
    \<and> (faults w' = faults w \<longrightarrow> served
        \<and> outbox c w' = outbox c w @ plain 413 ''Payload Too Large'' (''request too large'' @ [LF]))"
proof -
  have "\<not> complete ''''" by (simp add: complete_def c_str_def strstr.simps)
  then obtain r w1 where r: "recv_loop os c '''' w = Some (r, w1)" "faults w \<le> faults w1" "outbox c w1 = outbox c w"
      "r = None \<longrightarrow> faults w < faults w1 \<or> length (inbox c w) < REQUEST_BYTES"
    and q: "\<And>q. r = Some q \<Longrightarrow> prefix q (inbox c w) \<and> length q \<le> REQUEST_BYTES \<and> (complete q \<or> length q = REQUEST_BYTES)"
    using recv_loop_gets[of "''''" c w] by auto
  show ?thesis
  proof (cases r)
    case None
    then show ?thesis using r assms(1,2) by (auto simp: handle_request_def)
  next
    case (Some q)
    have "\<not> complete q"
    proof
      assume "complete q"
      obtain x where "take REQUEST_BYTES (inbox c w) = q @ x"
        using q[OF Some] by (auto simp: prefix_def)
      then show False using complete_append[OF \<open>complete q\<close>, of x] assms(3) by simp
    qed
    then have "length q = REQUEST_BYTES" using q[OF Some] by blast
    then have run: "handle_request os c device s w = do { (_, w) \<leftarrow> send_plain os c 413 ''Payload Too Large''
        (''request too large'' @ [LF]) w1; Some (True, s, w) }"
      using r(1) Some by (simp add: handle_request_def)
    have "answered c (\<lambda>bytes. bytes = plain 413 ''Payload Too Large'' (''request too large'' @ [LF])) w1
        (handle_request os c device s w)"
      unfolding run using assms(1) by (intro answered_plain) simp_all
    from answered_later[OF this r(2,3)]
    have "answered c (\<lambda>bytes. bytes = plain 413 ''Payload Too Large'' (''request too large'' @ [LF])) w
        (handle_request os c device s w)" .
    then show ?thesis by (auto simp: answered_def)
  qed
qed

end

section \<open>A platform\<close>

text \<open>Clients and the device held in memory.  At most \<open>sb_chunk\<close> bytes move at a time, and the first calls are
  interrupted.\<close>

record srv_box =
  sb_inbox :: "int \<Rightarrow> string"
  sb_outbox :: "int \<Rightarrow> u8 list"
  sb_offsets :: "nat list"
  sb_chunk :: nat
  sb_interrupts :: nat
  sb_faults :: nat

definition sbox_pos :: "int \<Rightarrow> srv_box \<Rightarrow> nat option" where
  "sbox_pos fd w = (if 0 \<le> fd \<and> nat fd < length (sb_offsets w) then Some (sb_offsets w ! nat fd) else None)"

definition interrupted :: "srv_box \<Rightarrow> srv_box option" where
  "interrupted w = (if sb_interrupts w = 0 then None else Some (w\<lparr>sb_interrupts := sb_interrupts w - 1\<rparr>))"

definition fault_if :: "bool \<Rightarrow> srv_box \<Rightarrow> srv_box" where
  "fault_if b w = (if b then w\<lparr>sb_faults := Suc (sb_faults w)\<rparr> else w)"

definition sbox_open :: "string \<Rightarrow> string \<Rightarrow> srv_box \<Rightarrow> int \<times> srv_box" where
  "sbox_open device path w = (if path \<noteq> device then (- 1, w)
     else (int (length (sb_offsets w)), w\<lparr>sb_offsets := sb_offsets w @ [0]\<rparr>))"

definition sbox_read :: "u8 list \<Rightarrow> int \<Rightarrow> nat \<Rightarrow> srv_box \<Rightarrow> (int + u8 list) \<times> srv_box" where
  "sbox_read pixels fd n w = (case interrupted w of Some w \<Rightarrow> (Inl EINTR, w)
     | None \<Rightarrow> (case sbox_pos fd w of None \<Rightarrow> (Inl 9, fault_if True w)
       | Some p \<Rightarrow> let got = take (min n (sb_chunk w)) (drop p pixels)
           in (Inr got, fault_if (got = [] \<and> p < length pixels)
                 (w\<lparr>sb_offsets := (sb_offsets w)[nat fd := p + length got]\<rparr>))))"

definition sbox_recv :: "int \<Rightarrow> nat \<Rightarrow> srv_box \<Rightarrow> (int + string) \<times> srv_box" where
  "sbox_recv c n w = (case interrupted w of Some w \<Rightarrow> (Inl EINTR, w)
     | None \<Rightarrow> let got = take (min n (sb_chunk w)) (sb_inbox w c)
         in (Inr got, fault_if (got = [] \<and> sb_inbox w c \<noteq> [])
               (w\<lparr>sb_inbox := (sb_inbox w)(c := drop (min n (sb_chunk w)) (sb_inbox w c))\<rparr>)))"

definition sbox_send :: "int \<Rightarrow> u8 list \<Rightarrow> srv_box \<Rightarrow> (int + nat) \<times> srv_box" where
  "sbox_send c bs w = (case interrupted w of Some w \<Rightarrow> (Inl EINTR, w)
     | None \<Rightarrow> let n = min (length bs) (sb_chunk w)
         in (Inr n, fault_if (n = 0) (w\<lparr>sb_outbox := (sb_outbox w)(c := sb_outbox w c @ take n bs)\<rparr>)))"

definition sbox_os :: "string \<Rightarrow> u8 list \<Rightarrow> srv_box srv_os" where
  "sbox_os device pixels = \<lparr>so_open = sbox_open device, so_read = sbox_read pixels, so_close = (\<lambda>fd w. (0, w)),
     so_recv = sbox_recv, so_send = sbox_send, so_socket = (\<lambda>w. (3, w)), so_setsockopt = (\<lambda>fd w. (0, w)),
     so_inet_pton = (\<lambda>a. if a = ''127.0.0.1'' then Some 0x7F000001 else None), so_bind = (\<lambda>fd a p w. (0, w)),
     so_listen = (\<lambda>fd n w. (0, w)), so_accept = (\<lambda>fd w. (Inr 4, w))\<rparr>"

lemmas sbox_defs = sbox_os_def sbox_open_def sbox_read_def sbox_recv_def sbox_send_def sbox_pos_def interrupted_def
  fault_if_def

interpretation sbox: srv_platform "sbox_os device pixels" device pixels "\<lambda>c w. sb_inbox w c" "\<lambda>c w. sb_outbox w c"
  sbox_pos sb_interrupts sb_faults
  by unfold_locales
    (auto simp: sbox_defs Let_def nth_append take_is_prefix split: option.splits if_splits)

section \<open>Properties\<close>

text \<open>C23. Building the bitmap is memory safe and the result is a valid bitmap of 320 by 180 pixels: a reader of
  the format sees at every position the red, green and blue bytes that the screen has at the corner of the
  corresponding square of four by four pixels.\<close>

theorem bitmap_round_trip:
  assumes "srv_wf s"
  shows "\<exists>b. build_bitmap s = Some (s\<lparr>bitmap := b\<rparr>) \<and> length b = BMP_BYTES \<and> bmp_valid b
    \<and> bmp_size b = (IMAGE_WIDTH, IMAGE_HEIGHT)
    \<and> (\<forall>x < IMAGE_WIDTH. \<forall>y < IMAGE_HEIGHT. bmp_pixel b x y = screen_pixel (framebuffer s) (FB_SCALE * x) (FB_SCALE * y))"
  using build_bitmap_shows[OF assms] by (auto simp: shows_screen_def)

definition red_corner :: srv_state where
  "red_corner = srv_init\<lparr>framebuffer := (replicate FB_BYTES 0)[0 := 255]\<rparr>"

theorem bitmap_round_trip_witness:
  "\<exists>b. build_bitmap red_corner = Some (red_corner\<lparr>bitmap := b\<rparr>) \<and> bmp_pixel b 0 0 = (255, 0, 0)"
proof -
  have wf: "srv_wf red_corner" by (simp add: srv_wf_def red_corner_def srv_init_def)
  obtain b where b: "build_bitmap red_corner = Some (red_corner\<lparr>bitmap := b\<rparr>)"
      "\<forall>x < IMAGE_WIDTH. \<forall>y < IMAGE_HEIGHT. bmp_pixel b x y = screen_pixel (framebuffer red_corner) (FB_SCALE * x) (FB_SCALE * y)"
    using bitmap_round_trip[OF wf] by blast
  then have "bmp_pixel b 0 0 = screen_pixel (framebuffer red_corner) 0 0" by simp
  then have "bmp_pixel b 0 0 = (255, 0, 0)" by (simp add: screen_pixel_def red_corner_def)
  then show ?thesis using b(1) by blast
qed


definition health_request :: string where
  "health_request = ''GET /health HTTP/1.0'' @ [CR, LF, CR, LF]"

definition health_box :: srv_box where
  "health_box = \<lparr>sb_inbox = (\<lambda>_. health_request), sb_outbox = (\<lambda>_. []), sb_offsets = [], sb_chunk = 4096,
     sb_interrupts = 0, sb_faults = 0\<rparr>"

lemma health_complete: "complete health_request" "\<not> complete (butlast health_request)"
  by (simp_all add: complete_def health_request_def c_str_def strstr.simps)

lemma health_scan: "scan_request health_request = Some (''GET'', ''/health'', ''HTTP/1.0'')"
  by (simp add: scan_request_def scan_word_def health_request_def c_str_def isspace_def)

lemma health_run:
  "\<exists>w'. handle_request (sbox_os ''/dev/fb0'' []) 4 ''/dev/fb0'' srv_init health_box = Some (True, srv_init, w')
    \<and> sb_faults w' = 0"
proof -
  have "health_request \<noteq> []" by (simp add: health_request_def)
  then show ?thesis using health_complete health_scan
    by (simp add: handle_request_def recv_loop.simps sbox_defs health_box_def Let_def send_plain_def send_response_def
        send_all_def send_loop.simps response_header_def bytes_of_def show_nat.simps digit_chars)
qed


end
