(* ===== verification/Vita_Inputwatch.thy ===== *)
theory Vita_Inputwatch
  imports Input_Read_Loop
begin

text \<open>
  The event counter, \<open>toolkit/share/vita-inputwatch.c\<close>: it selects an input device by its \<open>phys\<close> text, reads
  events for a limited time or number, prints each and reports the counts.  A record may arrive in pieces.
  The system calls are operations on an abstract world with the laws of the locale \<open>watch_platform\<close>.  The lemmas
  show that the loop ends and that the counts are those of the whole events of the byte stream.
\<close>

section \<open>The operating system\<close>

datatype watch_result = Watch_error errno | Watch_timeout | Watch_ready u16

record 'w watch_os =
  wo_open :: "string \<Rightarrow> u32 \<Rightarrow> 'w \<Rightarrow> int \<times> 'w"
  wo_read :: "int \<Rightarrow> nat \<Rightarrow> 'w \<Rightarrow> read_result \<times> 'w"
  wo_close :: "int \<Rightarrow> 'w \<Rightarrow> int \<times> 'w"
  wo_access :: "string \<Rightarrow> 'w \<Rightarrow> bool \<times> 'w"                     \<comment> \<open>\<open>F_OK\<close>\<close>
  wo_clock :: "'w \<Rightarrow> (int \<times> int) option \<times> 'w"                \<comment> \<open>\<open>tv_sec\<close> and \<open>tv_nsec\<close>\<close>
  wo_poll :: "int \<Rightarrow> int \<Rightarrow> 'w \<Rightarrow> watch_result \<times> 'w"           \<comment> \<open>\<open>POLLIN\<close>, with a timeout\<close>

abbreviation PATH_SIZE :: nat where "PATH_SIZE \<equiv> 512"
abbreviation TEXT_SIZE :: nat where "TEXT_SIZE \<equiv> 256"
abbreviation POLLIN_bit :: u16 where "POLLIN_bit \<equiv> 1"
abbreviation POLL_BAD :: u16 where "POLL_BAD \<equiv> 0x38"             \<comment> \<open>\<open>POLLERR | POLLHUP | POLLNVAL\<close>\<close>

section \<open>State\<close>

record watch_device =
  wd_number :: nat
  wd_name :: string
  wd_phys :: string
  wd_path :: string

record watch_counts =
  wc_events_seen :: u32
  wc_key_presses :: u32
  wc_key_releases :: u32
  wc_key_repeats :: u32
  wc_abs_events :: u32
  wc_syn_reports :: u32

definition no_counts :: watch_counts where
  "no_counts = \<lparr>wc_events_seen = 0, wc_key_presses = 0, wc_key_releases = 0, wc_key_repeats = 0, wc_abs_events = 0, wc_syn_reports = 0\<rparr>"

section \<open>Operations\<close>

definition watch_join :: "nat \<Rightarrow> string \<Rightarrow> string \<Rightarrow> string option" where
  "watch_join cap root suffix = (if length (root @ suffix) < cap then Some (root @ suffix) else None)"

definition watch_read_text :: "'w watch_os \<Rightarrow> string \<Rightarrow> nat \<Rightarrow> 'w \<Rightarrow> string option \<times> 'w" where
  "watch_read_text os path cap w =
    (if cap = 0 then (None, w)
     else case wo_open os path 0x80000 w of (fd, w) \<Rightarrow>
     if fd < 0 then (None, w)
     else case wo_read os fd (cap - 1) w of (r, w) \<Rightarrow> case wo_close os fd w of (_, w) \<Rightarrow>
     (case r of Failed _ \<Rightarrow> None
        | Got bs \<Rightarrow> let out = trim_end (map (\<lambda>b. char_of (unat b)) bs) in if out = [] then None else Some (c_str out), w))"

definition parse_positive :: "string \<Rightarrow> u32 option" where
  "parse_positive txt = (if txt = '''' then None
     else case strtoul txt of None \<Rightarrow> None
       | Some (parsed, rest, out_of_range) \<Rightarrow> if out_of_range \<or> rest \<noteq> '''' then None else Some parsed)"

text \<open>The search among the numbers that are left; an overlong path ends it.\<close>

fun find_device :: "'w watch_os \<Rightarrow> string \<Rightarrow> string \<Rightarrow> string \<Rightarrow> nat list \<Rightarrow> 'w \<Rightarrow> watch_device option \<times> 'w" where
  "find_device os sysroot devroot wanted [] w = (None, w)"
| "find_device os sysroot devroot wanted (n # ns) w =
    (case watch_join PATH_SIZE sysroot (''/class/input/event'' @ show_nat n) of
       None \<Rightarrow> (None, w)
     | Some sys_event \<Rightarrow> (case wo_access os sys_event w of (found, w) \<Rightarrow>
       if \<not> found then find_device os sysroot devroot wanted ns w
       else case (case watch_join PATH_SIZE sys_event ''/device/phys'' of None \<Rightarrow> (None, w)
                  | Some phys_path \<Rightarrow> watch_read_text os phys_path TEXT_SIZE w) of (phys, w) \<Rightarrow>
       if phys \<noteq> Some wanted then find_device os sysroot devroot wanted ns w
       else case watch_join PATH_SIZE sys_event ''/device/name'' of
         None \<Rightarrow> (None, w)
       | Some name_path \<Rightarrow> (case watch_read_text os name_path TEXT_SIZE w of (name, w) \<Rightarrow>
           (Some \<lparr>wd_number = n, wd_name = (case name of None \<Rightarrow> ''UNKNOWN'' | Some s \<Rightarrow> s), wd_phys = wanted,
              wd_path = fit PATH_SIZE (devroot @ ''/input/event'' @ show_nat n)\<rparr>, w))))"

definition elapsed_ms :: "'w watch_os \<Rightarrow> int \<times> int \<Rightarrow> 'w \<Rightarrow> int \<times> 'w" where
  "elapsed_ms os start w = (case wo_clock os w of
     (None, w) \<Rightarrow> (0, w)
   | (Some (tv_sec, tv_nsec), w) \<Rightarrow>
       (let seconds = tv_sec - fst start; nanoseconds = tv_nsec - snd start
        in sint (word_of_int (seconds * 1000 + nanoseconds sdiv 1000000) :: 32 word), w))"

definition print_event :: "u32 \<Rightarrow> input_event \<Rightarrow> bool \<Rightarrow> string list" where
  "print_event index event machine =
    (let i = show_nat (unat index); t = show_nat (unat (ev_type event)); c = show_nat (unat (ev_code event));
         v = show_int (ev_value event)
     in if machine then [''event_'' @ i @ ''_type='' @ t, ''event_'' @ i @ ''_code='' @ c, ''event_'' @ i @ ''_value='' @ v]
        else [''event '' @ i @ '': type='' @ t @ '' code='' @ c @ '' value='' @ v])"

definition count_event :: "input_event \<Rightarrow> watch_counts \<Rightarrow> watch_counts" where
  "count_event event counts =
    (let counts = counts\<lparr>wc_events_seen := wc_events_seen counts + 1\<rparr> in
     if ev_type event = 1 then
       if ev_value event = 1 then counts\<lparr>wc_key_presses := wc_key_presses counts + 1\<rparr>
       else if ev_value event = 0 then counts\<lparr>wc_key_releases := wc_key_releases counts + 1\<rparr>
       else if ev_value event = 2 then counts\<lparr>wc_key_repeats := wc_key_repeats counts + 1\<rparr>
       else counts
     else if ev_type event = 3 then counts\<lparr>wc_abs_events := wc_abs_events counts + 1\<rparr>
     else if ev_type event = 0 \<and> ev_code event = 0 then counts\<lparr>wc_syn_reports := wc_syn_reports counts + 1\<rparr>
     else counts)"

section \<open>The program\<close>

record watch_options =
  wp_phys :: string
  wp_duration_ms :: u32
  wp_max_events :: u32
  wp_machine :: bool

definition watch_defaults :: watch_options where
  "watch_defaults = \<lparr>wp_phys = ''vita_syscon_buttons'', wp_duration_ms = 1000, wp_max_events = 0, wp_machine = False\<rparr>"

text \<open>\<open>Inl\<close> is the exit code and whether the usage is printed.\<close>

fun watch_parse :: "string list \<Rightarrow> watch_options \<Rightarrow> int \<times> bool + watch_options" where
  "watch_parse [] opts = Inr opts"
| "watch_parse (arg # args) opts =
    (if arg = ''--machine'' then watch_parse args (opts\<lparr>wp_machine := True\<rparr>)
     else case args of [] \<Rightarrow> if arg = ''--help'' \<or> arg = ''-h'' then Inl (0, True) else Inl (2, True)
     | v # rest \<Rightarrow>
       if arg = ''--phys'' then watch_parse rest (opts\<lparr>wp_phys := v\<rparr>)
       else if arg = ''--duration-ms'' then
         (case parse_positive v of None \<Rightarrow> Inl (2, False) | Some n \<Rightarrow> watch_parse rest (opts\<lparr>wp_duration_ms := n\<rparr>))
       else if arg = ''--max-events'' then
         (case parse_positive v of None \<Rightarrow> Inl (2, False) | Some n \<Rightarrow> watch_parse rest (opts\<lparr>wp_max_events := n\<rparr>))
       else if arg = ''--help'' \<or> arg = ''-h'' then Inl (0, True)
       else Inl (2, True))"

text \<open>The state of the loop: the incomplete record, the counts and what was printed.\<close>

record watch_state =
  ws_pending :: "u8 list"
  ws_counts :: watch_counts
  ws_printed :: "string list"

definition max_reached :: "watch_options \<Rightarrow> watch_state \<Rightarrow> bool" where
  "max_reached opts st \<longleftrightarrow> 0 < wp_max_events opts \<and> wp_max_events opts \<le> wc_events_seen (ws_counts st)"

text \<open>A complete record is counted and printed.  More bytes than were asked for would overrun the buffer.\<close>

definition take_record :: "watch_options \<Rightarrow> watch_state \<Rightarrow> watch_state option" where
  "take_record opts st =
    (if EVENT_BYTES < length (ws_pending st) then None
     else if length (ws_pending st) = EVENT_BYTES then
       let event = decode_event (ws_pending st); counts = count_event event (ws_counts st)
       in Some (st\<lparr>ws_pending := [], ws_counts := counts,
            ws_printed := ws_printed st @ print_event (wc_events_seen counts) event (wp_machine opts)\<rparr>)
     else Some st)"

text \<open>One iteration: \<open>Inl\<close> is the status with which the loop ends, \<open>Inr\<close> the next state.  The subtraction must stay
  inside \<open>int\<close>.\<close>

definition watch_step ::
  "'w watch_os \<Rightarrow> watch_options \<Rightarrow> int \<Rightarrow> int \<times> int \<Rightarrow> watch_state \<Rightarrow> 'w \<Rightarrow> ((int + watch_state) \<times> 'w) option" where
  "watch_step os opts fd started st w =
    (case elapsed_ms os started w of (elapsed, w) \<Rightarrow>
     let remaining = sint (wp_duration_ms opts) - elapsed in
     if \<not> in_int32 remaining then None
     else if max_reached opts st then Some (Inl 0, w)
     else if remaining \<le> 0 then Some (Inl 1, w)
     else case wo_poll os fd remaining w of
       (Watch_error e, w) \<Rightarrow> Some (if e = EINTR then Inr st else Inl 1, w)
     | (Watch_timeout, w) \<Rightarrow> Some (Inl 1, w)
     | (Watch_ready revents, w) \<Rightarrow>
       if revents AND POLL_BAD \<noteq> 0 \<and> revents AND POLLIN_bit = 0 then Some (Inl 1, w)
       else case wo_read os fd (EVENT_BYTES - length (ws_pending st)) w of
         (Got bs, w) \<Rightarrow>
           if bs = [] then Some (Inl (if ws_pending st = [] then 0 else 1), w)
           else map_option (\<lambda>st. (Inr st, w)) (take_record opts (st\<lparr>ws_pending := ws_pending st @ bs\<rparr>))
       | (Failed e, w) \<Rightarrow> Some (if e = EAGAIN then Inr st else Inl 1, w))"

partial_function (option) watch_loop ::
  "'w watch_os \<Rightarrow> watch_options \<Rightarrow> int \<Rightarrow> int \<times> int \<Rightarrow> watch_state \<Rightarrow> 'w \<Rightarrow> (int \<times> watch_state \<times> 'w) option" where
  "watch_loop os opts fd started st w = (case watch_step os opts fd started st w of
     None \<Rightarrow> None
   | Some (Inl status, w) \<Rightarrow> Some (status, st, w)
   | Some (Inr st, w) \<Rightarrow> watch_loop os opts fd started st w)"

definition watch_banner :: "watch_options \<Rightarrow> watch_device \<Rightarrow> string list" where
  "watch_banner opts d = (let n = show_nat (wd_number d) in
     if wp_machine opts then [''schema=1'', ''input_read_only=1'', ''selected_event=event'' @ n,
       ''selected_device=/dev/input/event'' @ n, ''selected_name='' @ wd_name d, ''selected_phys='' @ wd_phys d,
       ''duration_ms='' @ show_nat (unat (wp_duration_ms opts)), ''max_events='' @ show_nat (unat (wp_max_events opts))]
     else [''watching event'' @ n @ '' ('' @ wd_name d @ '', phys='' @ wd_phys d @ '')''])"

definition watch_summary :: "watch_options \<Rightarrow> int \<Rightarrow> watch_counts \<Rightarrow> string list" where
  "watch_summary opts status counts =
    (let word = (if status = 0 then ''complete'' else ''timeout'');
         seen = show_nat (unat (wc_events_seen counts)); presses = show_nat (unat (wc_key_presses counts));
         releases = show_nat (unat (wc_key_releases counts)); repeats = show_nat (unat (wc_key_repeats counts));
         axes = show_nat (unat (wc_abs_events counts)); reports = show_nat (unat (wc_syn_reports counts))
     in if wp_machine opts then [''status='' @ word, ''events_seen='' @ seen, ''key_presses='' @ presses,
          ''key_releases='' @ releases, ''key_repeats='' @ repeats, ''abs_events='' @ axes, ''syn_reports='' @ reports]
        else [''status='' @ word @ '' events='' @ seen @ '' key_presses='' @ presses @ '' key_releases='' @ releases
          @ '' key_repeats='' @ repeats @ '' abs_events='' @ axes @ '' syn_reports='' @ reports])"

definition watch_usage :: "string list" where
  "watch_usage = [''usage: vita-inputwatch [--machine] [--phys ID] [--duration-ms N] [--max-events N]'']"

definition watch_main ::
  "'w watch_os \<Rightarrow> (string \<Rightarrow> string ptr) \<Rightarrow> string list \<Rightarrow> 'w \<Rightarrow> (int \<times> string list \<times> 'w) option" where
  "watch_main os getenv args w =
    (let sysroot = (case getenv ''VITA_INPUTWATCH_SYSFS_ROOT'' of NULL \<Rightarrow> ''/sys'' | Ptr s \<Rightarrow> s);
         devroot = (case getenv ''VITA_INPUTWATCH_DEV_ROOT'' of NULL \<Rightarrow> ''/dev'' | Ptr s \<Rightarrow> s)
     in case watch_parse args watch_defaults of
       Inl (code, help) \<Rightarrow> Some (code, if help then watch_usage else [], w)
     | Inr opts \<Rightarrow> (case find_device os sysroot devroot (wp_phys opts) [0..<128] w of
         (None, w) \<Rightarrow> Some (1, [], w)
       | (Some device, w) \<Rightarrow> case wo_open os (wd_path device) 0x80800 w of (descriptor, w) \<Rightarrow>
         if descriptor < 0 then Some (1, [], w)
         else case wo_clock os w of (clock, w) \<Rightarrow>
           let started = (case clock of None \<Rightarrow> (0, 0) | Some t \<Rightarrow> t) in do {
             (status, st, w) \<leftarrow> watch_loop os opts descriptor started
                \<lparr>ws_pending = [], ws_counts = no_counts, ws_printed = []\<rparr> w;
             case wo_close os descriptor w of (_, w) \<Rightarrow>
             Some (if status = 0 then 0 else 1,
               watch_banner opts device @ ws_printed st @ watch_summary opts status (ws_counts st), w)
           }))"

text \<open>The lines for a sequence of events.\<close>

fun event_lines :: "bool \<Rightarrow> watch_counts \<Rightarrow> input_event list \<Rightarrow> string list" where
  "event_lines machine counts [] = []"
| "event_lines machine counts (ev # evs) = print_event (wc_events_seen (count_event ev counts)) ev machine
     @ event_lines machine (count_event ev counts) evs"

lemma drop_record: "length q = n \<Longrightarrow> drop (n * Suc k) (q @ x) = drop (n * k) x"
  by simp

lemma split_events_length: "EVENT_BYTES * length (fst (split_events bs)) \<le> length bs"
proof (induction bs rule: split_events.induct)
  case (1 bs)
  show ?case
  proof (cases "length bs < EVENT_BYTES")
    case True
    then show ?thesis by (simp add: split_events_short)
  next
    case False
    then show ?thesis using 1 split_events_step[of bs] by simp
  qed
qed

section \<open>The clock\<close>

lemma elapsed_range:
  fixes s0 n0 s n :: int
  assumes "0 \<le> n0" "n0 < 1000000000" "0 \<le> n" "n < 1000000000" "s0 * 1000000000 + n0 \<le> s * 1000000000 + n"
    and "0 \<le> s0" "s * 1000000000 + n < 2147483 * 1000000000"
  shows "0 \<le> (s - s0) * 1000 + (n - n0) sdiv 1000000 \<and> (s - s0) * 1000 + (n - n0) sdiv 1000000 < 2147483648"
proof -
  have s: "s0 \<le> s" "s \<le> 2147482" using assms by linarith+
  have strict: "s0 < s" if "n < n0" using assms(5) that by linarith
  have q: "0 \<le> (n - n0) div 1000000 \<and> (n - n0) div 1000000 \<le> 999" if "n0 \<le> n" using assms that by linarith
  have r: "0 \<le> (n0 - n) div 1000000 \<and> (n0 - n) div 1000000 \<le> 999" if "n < n0" using assms that by linarith
  have "(n - n0) sdiv 1000000 = (if n0 \<le> n then (n - n0) div 1000000 else - ((n0 - n) div 1000000))"
    by (simp add: signed_divide_int_def sgn_if)
  then show ?thesis using s q r strict assms(6) by (cases "n0 \<le> n") auto
qed

lemma sint_small: "0 \<le> v \<Longrightarrow> v < 2147483648 \<Longrightarrow> sint (word_of_int v :: 32 word) = v"
  by (simp add: sint_sbintrunc' signed_take_bit_int_eq_self)

section \<open>What the system calls promise\<close>

text \<open>The observed part of the world: the bytes that the device still has, how many interrupted or empty-handed
  calls are to come, and the clock in nanoseconds, whose milliseconds fit an \<open>int\<close>.\<close>

locale watch_platform =
  fixes os :: "'w watch_os" and fd :: int and stream :: "'w \<Rightarrow> u8 list" and interrupts :: "'w \<Rightarrow> nat"
    and clock :: "'w \<Rightarrow> int"
  assumes clock_bound: "0 \<le> clock w \<and> clock w < 2147483 * 1000000000"
    and clock_call: "wo_clock os w = (t, w1) \<Longrightarrow> stream w1 = stream w \<and> interrupts w1 \<le> interrupts w \<and> clock w \<le> clock w1"
    and clock_value: "wo_clock os w = (Some (s, n), w1) \<Longrightarrow> 0 \<le> n \<and> n < 1000000000 \<and> clock w \<le> s * 1000000000 + n
          \<and> s * 1000000000 + n \<le> clock w1"
    and poll_call: "wo_poll os fd ms w = (p, w1) \<Longrightarrow> stream w1 = stream w \<and> clock w \<le> clock w1
          \<and> (if p = Watch_error EINTR then interrupts w1 < interrupts w else interrupts w1 \<le> interrupts w)"
    and read_data: "wo_read os fd cnt w = (Got bs, w1) \<Longrightarrow> stream w = bs @ stream w1 \<and> length bs \<le> cnt
          \<and> (bs = [] \<and> 0 < cnt \<longrightarrow> stream w = []) \<and> clock w \<le> clock w1"
    and read_error: "wo_read os fd cnt w = (Failed e, w1) \<Longrightarrow> stream w1 = stream w \<and> clock w \<le> clock w1
          \<and> (e = EAGAIN \<longrightarrow> interrupts w1 < interrupts w)"
begin

definition started_ok :: "int \<times> int \<Rightarrow> 'w \<Rightarrow> bool" where
  "started_ok t w \<longleftrightarrow> 0 \<le> fst t \<and> 0 \<le> snd t \<and> snd t < 1000000000 \<and> fst t * 1000000000 + snd t \<le> clock w"

lemma elapsed_ok:
  assumes "started_ok t w" "elapsed_ms os t w = (e, w1)"
  shows "0 \<le> e \<and> e < 2147483648 \<and> stream w1 = stream w \<and> interrupts w1 \<le> interrupts w \<and> clock w \<le> clock w1"
proof -
  obtain c where c: "wo_clock os w = (c, w1)"
    using assms(2) by (auto simp: elapsed_ms_def Let_def split: prod.splits option.splits)
  note q = clock_call[OF c]
  show ?thesis
  proof (cases c)
    case None
    then show ?thesis using assms(2) c q by (simp add: elapsed_ms_def)
  next
    case (Some sn)
    obtain s n where sn: "sn = (s, n)" by fastforce
    let ?v = "(s - fst t) * 1000 + (n - snd t) sdiv 1000000"
    have v: "0 \<le> n \<and> n < 1000000000 \<and> clock w \<le> s * 1000000000 + n \<and> s * 1000000000 + n \<le> clock w1"
      using clock_value c Some sn by blast
    have "0 \<le> ?v \<and> ?v < 2147483648"
      using v assms(1) clock_bound[of w1] by (intro elapsed_range) (auto simp: started_ok_def)
    moreover have "e = sint (word_of_int ?v :: 32 word)"
      using assms(2) c Some sn by (simp add: elapsed_ms_def Let_def)
    ultimately show ?thesis using q by (metis sint_small)
  qed
qed

lemma started_later: "started_ok t w \<Longrightarrow> clock w \<le> clock w1 \<Longrightarrow> started_ok t w1"
  by (simp add: started_ok_def)

text \<open>One iteration either ends the loop, or is spent on an interruption, or takes at least one byte.\<close>

definition progress :: "watch_options \<Rightarrow> watch_state \<Rightarrow> 'w \<Rightarrow> (int + watch_state) \<times> 'w \<Rightarrow> bool" where
  "progress opts st w r \<longleftrightarrow> (case r of
     (Inl status, w1) \<Rightarrow> stream w1 = stream w \<and> (status = 0 \<or> status = 1)
       \<and> (status = 0 \<longrightarrow> max_reached opts st \<or> ws_pending st = [] \<and> stream w1 = [])
   | (Inr st1, w1) \<Rightarrow> clock w \<le> clock w1 \<and>
       (st1 = st \<and> stream w1 = stream w \<and> interrupts w1 < interrupts w
        \<or> \<not> max_reached opts st \<and> (\<exists>bs. bs \<noteq> [] \<and> stream w = bs @ stream w1 \<and> length (ws_pending st @ bs) \<le> EVENT_BYTES
            \<and> take_record opts (st\<lparr>ws_pending := ws_pending st @ bs\<rparr>) = Some st1)))"

lemma watch_step_progress:
  assumes "started_ok t w" "length (ws_pending st) < EVENT_BYTES" "0 \<le> sint (wp_duration_ms opts)"
  shows "\<exists>r. watch_step os opts fd t st w = Some r \<and> progress opts st w r"
proof -
  obtain e w1 where e: "elapsed_ms os t w = (e, w1)" by fastforce
  note el = elapsed_ok[OF assms(1) e]
  let ?rem = "sint (wp_duration_ms opts) - e"
  have "sint (wp_duration_ms opts) < 2147483648" using sint_lt[of "wp_duration_ms opts"] by simp
  then have int: "in_int32 ?rem" using el assms(3) by (simp add: in_int32_def)
  obtain p w2 where p: "wo_poll os fd ?rem w1 = (p, w2)" by fastforce
  note pl = poll_call[OF p]
  show ?thesis
  proof (cases "max_reached opts st \<or> ?rem \<le> 0")
    case True
    then show ?thesis using e el int by (auto simp: watch_step_def progress_def Let_def)
  next
    case go: False
    show ?thesis
    proof (cases "\<exists>revents. p = Watch_ready revents \<and> \<not> (revents AND POLL_BAD \<noteq> 0 \<and> revents AND POLLIN_bit = 0)")
      case False
      then show ?thesis using e el int go p pl
        by (cases p) (auto simp: watch_step_def progress_def Let_def)
    next
      case True
      then obtain revents where rv: "p = Watch_ready revents" "\<not> (revents AND POLL_BAD \<noteq> 0 \<and> revents AND POLLIN_bit = 0)"
        by blast
      obtain rd w3 where rd: "wo_read os fd (EVENT_BYTES - length (ws_pending st)) w2 = (rd, w3)" by fastforce
      have run: "watch_step os opts fd t st w = (case rd of
          Got bs \<Rightarrow> if bs = [] then Some (Inl (if ws_pending st = [] then 0 else 1), w3)
            else map_option (\<lambda>st. (Inr st, w3)) (take_record opts (st\<lparr>ws_pending := ws_pending st @ bs\<rparr>))
        | Failed e \<Rightarrow> Some (if e = EAGAIN then Inr st else Inl 1, w3))"
        using e int go p rv rd by (auto simp: watch_step_def Let_def split: read_result.split)
      show ?thesis
      proof (cases rd)
        case (Failed er)
        then show ?thesis using run read_error[OF rd[unfolded Failed]] el pl rv by (auto simp: progress_def)
      next
        case (Got bs)
        note dt = read_data[OF rd[unfolded Got]]
        have "length (ws_pending st @ bs) \<le> EVENT_BYTES" using dt assms(2) by auto
        moreover from this have "\<exists>st1. take_record opts (st\<lparr>ws_pending := ws_pending st @ bs\<rparr>) = Some st1"
          by (simp add: take_record_def Let_def)
        ultimately show ?thesis using run Got dt el pl go assms(2) by (auto simp: progress_def)
      qed
    qed
  qed
qed

text \<open>What the loop has to show for itself: the first \<open>k\<close> events of the stream are counted and printed in order.\<close>

definition outcome :: "watch_options \<Rightarrow> watch_state \<Rightarrow> 'w \<Rightarrow> nat \<Rightarrow> int \<Rightarrow> watch_state \<Rightarrow> 'w \<Rightarrow> bool" where
  "outcome opts st w k status st' w' \<longleftrightarrow> (status = 0 \<or> status = 1)
     \<and> k \<le> length (fst (split_events (ws_pending st @ stream w)))
     \<and> ws_counts st' = fold count_event (take k (fst (split_events (ws_pending st @ stream w)))) (ws_counts st)
     \<and> ws_printed st' = ws_printed st @ event_lines (wp_machine opts) (ws_counts st)
          (take k (fst (split_events (ws_pending st @ stream w))))
     \<and> ws_pending st' @ stream w' = drop (EVENT_BYTES * k) (ws_pending st @ stream w)
     \<and> (0 < wp_max_events opts \<and> wc_events_seen (ws_counts st) \<le> wp_max_events opts
          \<longrightarrow> wc_events_seen (ws_counts st') \<le> wp_max_events opts)
     \<and> (status = 0 \<longrightarrow> max_reached opts st' \<or> ws_pending st' = [] \<and> stream w' = [])"

lemma events_seen_count: "wc_events_seen (count_event ev c) = wc_events_seen c + 1"
  by (simp add: count_event_def Let_def)

lemma take_record_cases:
  assumes "take_record opts (st\<lparr>ws_pending := q\<rparr>) = Some st1" "length q \<le> EVENT_BYTES"
  shows "length q < EVENT_BYTES \<and> st1 = st\<lparr>ws_pending := q\<rparr>
    \<or> length q = EVENT_BYTES \<and> ws_pending st1 = [] \<and> ws_counts st1 = count_event (decode_event q) (ws_counts st)
      \<and> ws_printed st1 = ws_printed st @ print_event (wc_events_seen (ws_counts st1)) (decode_event q) (wp_machine opts)"
  using assms by (auto simp: take_record_def Let_def split: if_splits)

lemma outcome_more:
  assumes "stream w = bs @ stream w1" "length (ws_pending st @ bs) \<le> EVENT_BYTES" "\<not> max_reached opts st"
    and "take_record opts (st\<lparr>ws_pending := ws_pending st @ bs\<rparr>) = Some st1" "outcome opts st1 w1 k status st' w'"
  shows "\<exists>k. outcome opts st w k status st' w'"
  using take_record_cases[OF assms(4,2)]
proof
  assume "length (ws_pending st @ bs) < EVENT_BYTES \<and> st1 = st\<lparr>ws_pending := ws_pending st @ bs\<rparr>"
  then have "outcome opts st w k status st' w'" using assms(1,5) unfolding outcome_def by auto
  then show ?thesis by blast
next
  let ?q = "ws_pending st @ bs"
  assume q: "length ?q = EVENT_BYTES \<and> ws_pending st1 = [] \<and> ws_counts st1 = count_event (decode_event ?q) (ws_counts st)
    \<and> ws_printed st1 = ws_printed st @ print_event (wc_events_seen (ws_counts st1)) (decode_event ?q) (wp_machine opts)"
  have "split_events (?q @ stream w1) = (decode_event ?q # fst (split_events (stream w1)), snd (split_events (stream w1)))"
    using q by (subst split_events_step) auto
  moreover have "drop (EVENT_BYTES * Suc k) (?q @ stream w1) = drop (EVENT_BYTES * k) (stream w1)"
    using q by (intro drop_record) blast
  moreover have "wc_events_seen (ws_counts st1) \<le> wp_max_events opts" if "0 < wp_max_events opts"
    using assms(3) q that by (simp add: max_reached_def events_seen_count inc_le not_le)
  ultimately have "outcome opts st w (Suc k) status st' w'"
    using assms(1,5) q unfolding outcome_def by auto
  then show ?thesis by blast
qed

lemma watch_loop_outcome:
  assumes "started_ok t w" "length (ws_pending st) < EVENT_BYTES" "0 \<le> sint (wp_duration_ms opts)"
  shows "\<exists>status st' w' k. watch_loop os opts fd t st w = Some (status, st', w') \<and> outcome opts st w k status st' w'"
    (is "?done st w")
  using assms(1,2)
proof (induction "(length (stream w), interrupts w)" arbitrary: st w
    rule: wf_induct_rule[OF wf_lex_prod[OF wf_less_than wf_less_than]])
  case 1
  obtain r w1 where r: "watch_step os opts fd t st w = Some (r, w1)" "progress opts st w (r, w1)"
    using watch_step_progress[OF "1.prems" assms(3)] by auto
  show ?case
  proof (cases r)
    case (Inl status)
    then have "watch_loop os opts fd t st w = Some (status, st, w1)" using r(1) by (subst watch_loop.simps) simp
    moreover have "outcome opts st w 0 status st w1" using r(2) Inl by (auto simp: progress_def outcome_def)
    ultimately show ?thesis by blast
  next
    case (Inr st1)
    have run: "watch_loop os opts fd t st w = watch_loop os opts fd t st1 w1"
      using r(1) Inr by (subst watch_loop.simps) simp
    have st1: "started_ok t w1" using "1.prems"(1) r(2) Inr started_later by (auto simp: progress_def)
    consider "st1 = st" "stream w1 = stream w" "interrupts w1 < interrupts w"
      | bs where "\<not> max_reached opts st" "bs \<noteq> []" "stream w = bs @ stream w1" "length (ws_pending st @ bs) \<le> EVENT_BYTES"
          "take_record opts (st\<lparr>ws_pending := ws_pending st @ bs\<rparr>) = Some st1"
      using r(2) Inr by (auto simp: progress_def)
    then show ?thesis
    proof cases
      case 1
      then have "?done st1 w1" using st1 "1.prems"(2) by (intro "1.hyps") auto
      then show ?thesis using run 1 by (simp add: outcome_def)
    next
      case 2
      have "length (ws_pending st1) < EVENT_BYTES" using take_record_cases[OF 2(5,4)] by auto
      then have "?done st1 w1" using st1 2(2,3) by (intro "1.hyps") auto
      then show ?thesis using run outcome_more[OF 2(3,4,1,5)] by metis
    qed
  qed
qed

end

section \<open>A device on a tape\<close>

record tape =
  tp_stream :: "u8 list"
  tp_interrupts :: nat
  tp_chunk :: nat
  tp_clock :: nat
  tp_tick :: nat

definition tape_time :: "tape \<Rightarrow> int" where
  "tape_time w = int (min (tp_clock w) 2147482999999999)"

definition tape_clock :: "tape \<Rightarrow> (int \<times> int) option \<times> tape" where
  "tape_clock w = (let w = w\<lparr>tp_clock := tp_clock w + tp_tick w\<rparr>
     in (Some (tape_time w div 1000000000, tape_time w mod 1000000000), w))"

definition tape_poll :: "int \<Rightarrow> int \<Rightarrow> tape \<Rightarrow> watch_result \<times> tape" where
  "tape_poll fd ms w = (if tp_interrupts w = 0 then (Watch_ready POLLIN_bit, w)
     else (Watch_error EINTR, w\<lparr>tp_interrupts := tp_interrupts w - 1\<rparr>))"

definition tape_read :: "int \<Rightarrow> nat \<Rightarrow> tape \<Rightarrow> read_result \<times> tape" where
  "tape_read fd n w = (let k = min n (Suc (tp_chunk w))
     in (Got (take k (tp_stream w)), w\<lparr>tp_stream := drop k (tp_stream w)\<rparr>))"

definition tape_os :: "tape watch_os" where
  "tape_os = \<lparr>wo_open = (\<lambda>path fl w. (3, w)), wo_read = tape_read, wo_close = (\<lambda>fd w. (0, w)),
     wo_access = (\<lambda>path w. (True, w)), wo_clock = tape_clock, wo_poll = tape_poll\<rparr>"

lemmas tape_defs = tape_os_def tape_clock_def tape_poll_def tape_read_def Let_def

lemma tape_time_bounds: "0 \<le> tape_time w" "tape_time w < 2147483000000000"
  by (simp_all add: tape_time_def)

lemma tape_time_mono: "tp_clock w \<le> tp_clock v \<Longrightarrow> tape_time w \<le> tape_time v"
  by (simp add: tape_time_def)

interpretation tape: watch_platform tape_os fd tp_stream tp_interrupts tape_time
  by unfold_locales
    (auto simp: tape_defs tape_time_bounds tape_time_mono split: if_splits)

section \<open>Properties\<close>

text \<open>The counts of a sequence of events.\<close>

definition tally :: "input_event list \<Rightarrow> watch_counts" where
  "tally evs = \<lparr>wc_events_seen = of_nat (length evs),
     wc_key_presses = of_nat (length (filter (\<lambda>e. ev_type e = 1 \<and> ev_value e = 1) evs)),
     wc_key_releases = of_nat (length (filter (\<lambda>e. ev_type e = 1 \<and> ev_value e = 0) evs)),
     wc_key_repeats = of_nat (length (filter (\<lambda>e. ev_type e = 1 \<and> ev_value e = 2) evs)),
     wc_abs_events = of_nat (length (filter (\<lambda>e. ev_type e = 3) evs)),
     wc_syn_reports = of_nat (length (filter (\<lambda>e. ev_type e = 0 \<and> ev_code e = 0) evs))\<rparr>"

lemma seen_none: "wc_events_seen no_counts = 0"
  by (simp add: no_counts_def)

lemma fold_count_event: "fold count_event evs no_counts = tally evs"
proof (induction evs rule: rev_induct)
  case Nil
  then show ?case by (simp add: tally_def no_counts_def)
next
  case (snoc e evs)
  then show ?case by (simp add: count_event_def Let_def) (simp add: tally_def)
qed

text \<open>C26. Watching a device ends, whatever pieces the records arrive in and however often the calls are
  interrupted or come back empty-handed: the first \<open>k\<close> whole events of the byte stream are printed in order, the
  counts are exactly those of these events, nothing of the stream is lost, a limit on the number of events is never
  exceeded, and the run is reported as complete only if the limit was reached or the stream ended after a
  whole record.\<close>

theorem watch_counts_the_stream:
  assumes "watch_platform os fd stream interrupts clock" and "wo_clock os w0 = (Some started, w)"
    and "unat (wp_duration_ms opts) < 2147483648"
  shows "\<exists>status st w' k. watch_loop os opts fd started \<lparr>ws_pending = [], ws_counts = no_counts, ws_printed = []\<rparr> w
      = Some (status, st, w')
    \<and> k \<le> length (fst (split_events (stream w)))
    \<and> ws_counts st = tally (take k (fst (split_events (stream w))))
    \<and> ws_printed st = event_lines (wp_machine opts) no_counts (take k (fst (split_events (stream w))))
    \<and> ws_pending st @ stream w' = drop (EVENT_BYTES * k) (stream w)
    \<and> (0 < wp_max_events opts \<longrightarrow> wc_events_seen (ws_counts st) \<le> wp_max_events opts)
    \<and> (status = 0 \<longrightarrow> max_reached opts st \<or> stream w' = [] \<and> length (stream w) = EVENT_BYTES * k)"
proof -
  let ?st = "\<lparr>ws_pending = [], ws_counts = no_counts, ws_printed = []\<rparr>"
  obtain s n where sn: "started = (s, n)" by fastforce
  have c: "0 \<le> n" "n < 1000000000" "clock w0 \<le> s * 1000000000 + n" "s * 1000000000 + n \<le> clock w" "0 \<le> clock w0"
    using watch_platform.clock_value[OF assms(1)] watch_platform.clock_bound[OF assms(1), of w0] assms(2) sn by blast+
  then have "0 \<le> s" by linarith
  then have ok: "watch_platform.started_ok clock started w"
    using c sn by (simp add: watch_platform.started_ok_def[OF assms(1)])
  have "uint (wp_duration_ms opts) < 2147483648" using assms(3) unfolding uint_nat by linarith
  then have "0 \<le> sint (wp_duration_ms opts)" using sint_small[of "uint (wp_duration_ms opts)"] by simp
  then obtain status st' w' k where l: "watch_loop os opts fd started ?st w = Some (status, st', w')"
      "watch_platform.outcome stream opts ?st w k status st' w'"
    using watch_platform.watch_loop_outcome[OF assms(1) ok, of ?st opts] by auto
  then have o: "k \<le> length (fst (split_events (stream w)))" "ws_counts st' = tally (take k (fst (split_events (stream w))))"
    "ws_printed st' = event_lines (wp_machine opts) no_counts (take k (fst (split_events (stream w))))"
    "ws_pending st' @ stream w' = drop (EVENT_BYTES * k) (stream w)"
    "0 < wp_max_events opts \<longrightarrow> wc_events_seen (ws_counts st') \<le> wp_max_events opts"
    "status = 0 \<longrightarrow> max_reached opts st' \<or> ws_pending st' = [] \<and> stream w' = []"
    unfolding watch_platform.outcome_def[OF assms(1)] by (auto simp: fold_count_event seen_none)
  have "length (stream w) = EVENT_BYTES * k" if "ws_pending st' = []" "stream w' = []"
    using o(1,4) that split_events_length[of "stream w"] by simp
  then show ?thesis using l(1) o by blast
qed

definition sample_tape :: tape where
  "sample_tape = \<lparr>tp_stream = [0, 0, 0, 0, 0, 0, 0, 0, 1, 0, 48, 1, 1, 0, 0, 0, 0, 0, 0, 0, 0, 0, 0, 0, 0, 0, 0, 0, 0, 0, 0, 0],
     tp_interrupts = 2, tp_chunk = 4, tp_clock = 0, tp_tick = 1000\<rparr>"

theorem watch_counts_the_stream_witness:
  "\<exists>status st w' k. watch_loop tape_os (watch_defaults\<lparr>wp_max_events := 1\<rparr>) 3 (0, 1000)
      \<lparr>ws_pending = [], ws_counts = no_counts, ws_printed = []\<rparr> (snd (tape_clock sample_tape)) = Some (status, st, w')
    \<and> ws_counts st = tally (take k (fst (split_events (tp_stream sample_tape)))) \<and> wc_events_seen (ws_counts st) \<le> 1"
proof -
  have c: "wo_clock tape_os sample_tape = (Some (0, 1000), snd (tape_clock sample_tape))"
    by (simp add: tape_defs sample_tape_def tape_time_def)
  have "tp_stream (snd (tape_clock sample_tape)) = tp_stream sample_tape" by (simp add: tape_defs)
  then show ?thesis
    using watch_counts_the_stream[OF tape.watch_platform_axioms c, of "watch_defaults\<lparr>wp_max_events := 1\<rparr>" 3]
    by (auto simp: watch_defaults_def)
qed

end
