(* ===== verification/Vita_Bench.thy ===== *)
theory Vita_Bench
  imports C_Library
begin

text \<open>
  The benchmark, \<open>toolkit/share/vita-bench.c\<close>: it times compute and memory kernels on one or more worker threads and
  optionally one write of the framebuffer.  The threads start together behind a gate.  Times and rates are values
  of an arbitrary type, since they are only printed; \<open>malloc\<close>, thread creation and files are operations on an
  abstract world.  Two views of \<open>run_memory\<close> are given: its result as a function of the workers' results, and the
  gate as a step relation of the main thread and the workers.  The lemmas show that no worker starts before all
  have announced themselves, that every run of the gate ends with all threads finished, and exactly when a failed
  allocation is noticed.
\<close>

section \<open>The operating system\<close>

record ('w, 'd) vb_os =
  bo_text :: "string \<Rightarrow> 'w \<Rightarrow> string option \<times> 'w"      \<comment> \<open>the text of a stream opened for reading\<close>
  bo_open :: "string \<Rightarrow> 'w \<Rightarrow> int \<times> 'w"               \<comment> \<open>\<open>O_WRONLY\<close>\<close>
  bo_write :: "int \<Rightarrow> u8 list \<Rightarrow> 'w \<Rightarrow> int \<times> 'w"
  bo_close :: "int \<Rightarrow> 'w \<Rightarrow> int \<times> 'w"
  bo_malloc :: "size_t \<Rightarrow> 'w \<Rightarrow> bool \<times> 'w"
  bo_nprocessors :: "'w \<Rightarrow> int \<times> 'w"
  bo_now :: "'w \<Rightarrow> 'd \<times> 'w"                            \<comment> \<open>\<open>now_seconds\<close>\<close>
  bo_gate_init :: "'w \<Rightarrow> bool \<times> 'w"                    \<comment> \<open>mutex and condition variable\<close>
  bo_create :: "nat \<Rightarrow> 'w \<Rightarrow> bool \<times> 'w"               \<comment> \<open>\<open>pthread_create\<close> of a worker\<close>
  bo_args :: "nat \<Rightarrow> u32"                              \<comment> \<open>the address of a worker's arguments\<close>

abbreviation MAX_WORKERS :: u32 where "MAX_WORKERS \<equiv> 4"
abbreviation DEFAULT_BYTES :: size_t where "DEFAULT_BYTES \<equiv> 8 * 1024 * 1024"
abbreviation QUICK_BYTES :: size_t where "QUICK_BYTES \<equiv> 1024 * 1024"

datatype work_kind = WORK_COMPUTE | WORK_MEMCPY | WORK_MEMSET

section \<open>The system under test\<close>

definition rooted_path :: "string \<Rightarrow> string \<Rightarrow> nat \<Rightarrow> string option" where
  "rooted_path root path cap = (if length (root @ path) < cap then Some (root @ path) else None)"

definition read_online_cpus :: "('w, 'd) vb_os \<Rightarrow> string \<Rightarrow> nat \<Rightarrow> 'w \<Rightarrow> string \<times> 'w" where
  "read_online_cpus os root cap w = (case rooted_path root ''/sys/devices/system/cpu/online'' 256 of
     None \<Rightarrow> (fit cap ''UNKNOWN'', w)
   | Some path \<Rightarrow> (case bo_text os path w of (contents, w) \<Rightarrow>
       (case contents of None \<Rightarrow> fit cap ''UNKNOWN''
        | Some s \<Rightarrow> if s = [] then fit cap ''UNKNOWN''
            else let out = trim_end (c_str (fst (fgets cap s))) in if out = [] then fit cap ''UNKNOWN'' else out, w)))"

definition online_worker_limit :: "('w, 'd) vb_os \<Rightarrow> 'w \<Rightarrow> u32 \<times> 'w" where
  "online_worker_limit os w = (case bo_nprocessors os w of (cnt, w) \<Rightarrow>
     let cnt = (if cnt < 1 then 1 else cnt); cnt = (if cnt > 4 then 4 else cnt) in (of_int cnt, w))"

section \<open>The kernels\<close>

definition compute_step :: "u32 \<Rightarrow> u32 \<Rightarrow> u32" where
  "compute_step index v =
    (let v = v XOR drop_bit 13 v; v = v XOR push_bit 17 v; v = v XOR drop_bit 5 v
     in v * 1664525 + 1013904223 + index)"

definition compute_kernel :: "u32 \<Rightarrow> u32 \<Rightarrow> u64" where
  "compute_kernel args rounds =
    (let operations = rounds * 1000000
     in ucast (fold (\<lambda>i. compute_step (of_nat i)) [0..<unat operations] (0x9e3779b9 XOR args)))"

text \<open>One round on the destination buffer.  The remainder by a size of 0 is undefined.\<close>

definition memory_round ::
  "work_kind \<Rightarrow> u8 list \<Rightarrow> size_t \<Rightarrow> nat \<Rightarrow> u8 list \<times> u64 \<Rightarrow> (u8 list \<times> u64) option" where
  "memory_round kind source bytes r = (\<lambda>(destination, checksum). do {
     destination \<leftarrow> (if kind = WORK_MEMCPY then memcpy_at destination 0 source (unat bytes)
                      else memcpy_at destination 0 (replicate (unat bytes) (of_nat r)) (unat bytes));
     if bytes = 0 then None else do {
       a \<leftarrow> load destination (unat ((of_nat r * 4099) mod bytes));
       b \<leftarrow> load destination (unat (bytes - 1));
       Some (destination, (checksum XOR ucast a) + ucast b)
     }
   })"

definition memory_kernel :: "work_kind \<Rightarrow> u32 \<Rightarrow> u32 \<Rightarrow> size_t \<Rightarrow> u64 option" where
  "memory_kernel kind args rounds bytes = do {
     let source = replicate (unat bytes) (ucast (args AND 0xff));
     (destination, checksum) \<leftarrow> mfold (memory_round kind source bytes) [0..<unat rounds] (replicate (unat bytes) 0, 0);
     c \<leftarrow> load destination 0;
     Some (checksum XOR ucast c)
   }"

text \<open>The checksum that a worker leaves behind, once the gate is open.\<close>

definition worker_main ::
  "('w, 'd) vb_os \<Rightarrow> work_kind \<Rightarrow> u32 \<Rightarrow> u32 \<Rightarrow> size_t \<Rightarrow> 'w \<Rightarrow> (u64 \<times> 'w) option" where
  "worker_main os kind args rounds bytes w =
    (if kind = WORK_COMPUTE then Some (compute_kernel args rounds, w)
     else case bo_malloc os bytes w of (source, w) \<Rightarrow> case bo_malloc os bytes w of (destination, w) \<Rightarrow>
       if \<not> source \<or> \<not> destination then Some (UINT64_MAX, w)
       else do { checksum \<leftarrow> memory_kernel kind args rounds bytes; Some (checksum, w) })"

section \<open>Running the workers\<close>

fun create_workers :: "('w, 'd) vb_os \<Rightarrow> nat list \<Rightarrow> 'w \<Rightarrow> bool \<times> 'w" where
  "create_workers os [] w = (True, w)"
| "create_workers os (i # is) w = (case bo_create os i w of (ok, w) \<Rightarrow>
     if ok then create_workers os is w else (False, w))"

fun worker_results ::
  "('w, 'd) vb_os \<Rightarrow> work_kind \<Rightarrow> u32 \<Rightarrow> size_t \<Rightarrow> nat list \<Rightarrow> 'w \<Rightarrow> (u64 list \<times> 'w) option" where
  "worker_results os kind rounds bytes [] w = Some ([], w)"
| "worker_results os kind rounds bytes (i # is) w = do {
     (c, w) \<leftarrow> worker_main os kind (bo_args os i) rounds bytes w;
     (cs, w) \<leftarrow> worker_results os kind rounds bytes is w;
     Some (c # cs, w)
   }"

definition joined_checksum :: "u64 list \<Rightarrow> u64" where
  "joined_checksum cs = fold (\<lambda>c acc. acc XOR c) cs 0"

definition joined_result :: "u64 list \<Rightarrow> int" where
  "joined_result cs = (if joined_checksum cs = UINT64_MAX then - 1 else 0)"

text \<open>The workers do not share anything but the gate, so their results do not depend on the schedule; the
  result has the two instants of the timed section.\<close>

definition run_memory ::
  "('w, 'd) vb_os \<Rightarrow> work_kind \<Rightarrow> nat \<Rightarrow> u32 \<Rightarrow> size_t \<Rightarrow> 'w \<Rightarrow> (int \<times> ('d \<times> 'd) option \<times> 'w) option" where
  "run_memory os kind workers rounds bytes w =
    (case bo_gate_init os w of (ok, w) \<Rightarrow>
     if \<not> ok then Some (- 1, None, w)
     else case create_workers os [0..<workers] w of (ok, w) \<Rightarrow>
     if \<not> ok then Some (- 1, None, w)
     else case bo_now os w of (started, w) \<Rightarrow> do {
       (cs, w) \<leftarrow> worker_results os kind rounds bytes [0..<workers] w;
       case bo_now os w of (ended, w) \<Rightarrow> Some (joined_result cs, Some (started, ended), w)
     })"

section \<open>The framebuffer\<close>

definition read_fb_metadata :: "('w, 'd) vb_os \<Rightarrow> string \<Rightarrow> 'w \<Rightarrow> size_t option \<times> 'w" where
  "read_fb_metadata os root w = (case rooted_path root ''/sys/class/graphics/fb0/virtual_size'' 256 of
     None \<Rightarrow> (None, w)
   | Some path \<Rightarrow> (case bo_text os path w of (contents, w) \<Rightarrow>
     case (case contents of None \<Rightarrow> None | Some s \<Rightarrow> scan_pair s) of None \<Rightarrow> (None, w)
     | Some (width, height) \<Rightarrow> (case rooted_path root ''/sys/class/graphics/fb0/stride'' 256 of
       None \<Rightarrow> (None, w)
     | Some path \<Rightarrow> (case bo_text os path w of (contents, w) \<Rightarrow>
       case (case contents of None \<Rightarrow> None | Some s \<Rightarrow> scan_unsigned s) of None \<Rightarrow> (None, w)
       | Some (stride, _) \<Rightarrow> let bytes = height * stride in (if 0 < bytes then Some bytes else None, w)))))"

partial_function (option) fb_write_loop ::
  "('w, 'd) vb_os \<Rightarrow> int \<Rightarrow> u8 list \<Rightarrow> nat \<Rightarrow> 'w \<Rightarrow> (int \<times> 'w) option" where
  "fb_write_loop os fd frame sent w =
    (if \<not> sent < length frame then Some (0, w)
     else case bo_write os fd (drop sent frame) w of (n, w) \<Rightarrow>
       if n \<le> 0 then Some (- 1, w) else fb_write_loop os fd frame (sent + nat n) w)"

definition run_framebuffer ::
  "('w, 'd) vb_os \<Rightarrow> string \<Rightarrow> 'w \<Rightarrow> ((size_t \<times> 'd \<times> 'd) option \<times> 'w) option" where
  "run_framebuffer os root w = (case read_fb_metadata os root w of
     (None, w) \<Rightarrow> Some (None, w)
   | (Some bytes, w) \<Rightarrow> (case rooted_path root ''/dev/fb0'' 256 of
     None \<Rightarrow> Some (None, w)
   | Some path \<Rightarrow> (case bo_malloc os bytes w of (ok, w) \<Rightarrow>
     if \<not> ok then Some (None, w)
     else case bo_open os path w of (fd, w) \<Rightarrow>
     if fd < 0 then Some (None, w)
     else case bo_now os w of (started, w) \<Rightarrow> do {
       (rc, w) \<leftarrow> fb_write_loop os fd (replicate (unat bytes) 0) 0 w;
       case bo_close os fd w of (_, w) \<Rightarrow>
       if rc < 0 then Some (None, w)
       else case bo_now os w of (ended, w) \<Rightarrow> Some (Some (bytes, started, ended), w)
     })))"

section \<open>The program\<close>

record vb_options =
  bn_requested :: u32
  bn_machine :: bool
  bn_quick :: bool
  bn_framebuffer :: bool

definition bench_defaults :: vb_options where
  "bench_defaults = \<lparr>bn_requested = 0, bn_machine = False, bn_quick = False, bn_framebuffer = False\<rparr>"

text \<open>\<open>strtoul\<close> without an end pointer: 0 when there is nothing to convert, and the maximum when out of range.\<close>

definition strtoul_value :: "string \<Rightarrow> u32" where
  "strtoul_value s = (case strtoul s of None \<Rightarrow> 0 | Some (v, _) \<Rightarrow> v)"

fun bench_parse :: "string list \<Rightarrow> vb_options \<Rightarrow> int \<times> string list + vb_options" where
  "bench_parse [] opts = Inr opts"
| "bench_parse (arg # args) opts =
    (if arg = ''--machine'' then bench_parse args (opts\<lparr>bn_machine := True\<rparr>)
     else if arg = ''--quick'' then bench_parse args (opts\<lparr>bn_quick := True\<rparr>)
     else if arg = ''--framebuffer'' then bench_parse args (opts\<lparr>bn_framebuffer := True\<rparr>)
     else if arg = ''--workers'' \<and> args \<noteq> [] then
       let requested = strtoul_value (hd args)
       in if requested < 1 \<or> MAX_WORKERS < requested then Inl (2, [])
          else bench_parse (tl args) (opts\<lparr>bn_requested := requested\<rparr>)
     else if arg = ''--help'' then Inl (0, [''usage: vita-bench [--machine] [--quick] [--workers N] [--framebuffer]''])
     else Inl (2, []))"

text \<open>The worker counts of the loop: doubled from the first one, or only the requested one.\<close>

function worker_counts :: "bool \<Rightarrow> nat \<Rightarrow> nat \<Rightarrow> nat list" where
  "worker_counts requested index maximum =
    (if index = 0 \<or> maximum < index then []
     else index # (if requested \<or> index = maximum then [] else worker_counts requested (index * 2) maximum))"
  by pat_completeness auto
termination by (relation "measure (\<lambda>(_, i, m). Suc m - i)") auto

declare worker_counts.simps [simp del]

definition bench_header :: "vb_options \<Rightarrow> string \<Rightarrow> u32 \<Rightarrow> size_t \<Rightarrow> u32 \<Rightarrow> string list" where
  "bench_header opts online maximum bytes rounds =
    (let mode = (if bn_quick opts then ''quick'' else ''full''); workers = show_nat (unat maximum)
     in if bn_machine opts
        then [''schema=1'', ''online_cpus='' @ online, ''workers_requested='' @ workers, ''mode='' @ mode,
              ''buffer_bytes='' @ show_nat (unat bytes), ''memory_rounds='' @ show_nat (unat rounds)]
        else [''Vita Linux benchmark ('' @ mode @ '', '' @ workers @ '' worker'' @ (if maximum = 1 then '''' else ''s'') @ '')'',
              ''  online CPUs: '' @ online, ''  buffer: '' @ show_nat (unat bytes) @ '' bytes''])"

text \<open>A line with a rate.  The parameter \<open>rate\<close> formats the quotient of an amount of work and the time between two
  instants in a unit.\<close>

definition rate_line :: "bool \<Rightarrow> string \<Rightarrow> string \<Rightarrow> string \<Rightarrow> nat \<Rightarrow> string \<Rightarrow> string" where
  "rate_line machine name key unit workers rate_text =
    (if machine then name @ ''_'' @ show_nat workers @ ''_workers_'' @ key @ ''='' @ rate_text
     else ''  '' @ name @ replicate (7 - length name) (CHR '' '') @ '' '' @ show_nat workers @ '' workers: '' @ rate_text @ '' '' @ unit)"

text \<open>One of the three measurements of a pass: whether it succeeded, and its line.\<close>

definition measure_kind ::
  "('w, 'd) vb_os \<Rightarrow> (string \<Rightarrow> nat \<Rightarrow> 'd \<times> 'd \<Rightarrow> string) \<Rightarrow> bool \<Rightarrow> work_kind \<Rightarrow> nat \<Rightarrow> u32 \<Rightarrow> size_t \<Rightarrow> 'w
     \<Rightarrow> (bool \<times> string list \<times> 'w) option" where
  "measure_kind os rate machine kind workers rounds bytes w = do {
     (rc, t, w) \<leftarrow> run_memory os kind workers rounds bytes w;
     let amount = (if kind = WORK_COMPUTE then workers * unat rounds else workers * unat bytes * unat rounds);
     Some (case t of None \<Rightarrow> (False, [], w)
       | Some t \<Rightarrow> if rc \<noteq> 0 then (False, [], w)
           else (True, [case kind of
               WORK_COMPUTE \<Rightarrow> rate_line machine ''compute'' ''mops'' ''Mops/s'' workers (rate ''Mops/s'' amount t)
             | WORK_MEMCPY \<Rightarrow> rate_line machine ''memcpy'' ''mib_s'' ''MiB/s'' workers (rate ''MiB/s'' amount t)
             | WORK_MEMSET \<Rightarrow> rate_line machine ''memset'' ''mib_s'' ''MiB/s'' workers (rate ''MiB/s'' amount t)], w))
   }"

text \<open>The measurements in order; the first failure ends them.\<close>

fun measure_all ::
  "('w, 'd) vb_os \<Rightarrow> (string \<Rightarrow> nat \<Rightarrow> 'd \<times> 'd \<Rightarrow> string) \<Rightarrow> bool \<Rightarrow> (work_kind \<times> nat \<times> u32 \<times> size_t) list \<Rightarrow> 'w
     \<Rightarrow> (bool \<times> string list \<times> 'w) option" where
  "measure_all os rate machine [] w = Some (True, [], w)"
| "measure_all os rate machine ((kind, workers, rounds, bytes) # rest) w = do {
     (ok, out, w) \<leftarrow> measure_kind os rate machine kind workers rounds bytes w;
     if \<not> ok then Some (False, out, w)
     else do { (ok, out', w) \<leftarrow> measure_all os rate machine rest w; Some (ok, out @ out', w) }
   }"

definition bench_plan :: "u32 \<Rightarrow> u32 \<Rightarrow> size_t \<Rightarrow> nat list \<Rightarrow> (work_kind \<times> nat \<times> u32 \<times> size_t) list" where
  "bench_plan millions rounds bytes counts = concat (map (\<lambda>n.
     [(WORK_COMPUTE, n, millions, 1), (WORK_MEMCPY, n, rounds, bytes), (WORK_MEMSET, n, rounds, bytes)]) counts)"

definition bench_main ::
  "('w, 'd) vb_os \<Rightarrow> (string \<Rightarrow> nat \<Rightarrow> 'd \<times> 'd \<Rightarrow> string) \<Rightarrow> (string \<Rightarrow> string ptr) \<Rightarrow> string list \<Rightarrow> 'w
     \<Rightarrow> (int \<times> string list \<times> 'w) option" where
  "bench_main os rate getenv args w =
    (let root = (case getenv ''VITA_BENCH_ROOT'' of NULL \<Rightarrow> ''/'' | Ptr r \<Rightarrow> r) in
     case bench_parse args bench_defaults of
       Inl (code, out) \<Rightarrow> Some (code, out, w)
     | Inr opts \<Rightarrow>
       let bytes = (if bn_quick opts then QUICK_BYTES else DEFAULT_BYTES);
           rounds = (if bn_quick opts then 2 else 8); millions = (if bn_quick opts then 2 else 20) in
       case read_online_cpus os root 64 w of (online, w) \<Rightarrow>
       case (if bn_requested opts \<noteq> 0 then (bn_requested opts, w) else online_worker_limit os w) of (maximum, w) \<Rightarrow> do {
         let first = (if bn_requested opts \<noteq> 0 then unat (bn_requested opts) else 1);
         (ok, out, w) \<leftarrow> measure_all os rate (bn_machine opts) (bench_plan millions rounds bytes
            (worker_counts (bn_requested opts \<noteq> 0) first (unat maximum))) w;
         let out = bench_header opts online maximum bytes rounds @ out;
         if \<not> ok then Some (1, out, w)
         else if bn_framebuffer opts then do {
           (r, w) \<leftarrow> run_framebuffer os root w;
           case r of None \<Rightarrow> Some (1, out, w)
           | Some (frame_bytes, t) \<Rightarrow> Some (0, out @ (if bn_machine opts
               then [''framebuffer=enabled'', ''framebuffer_bytes='' @ show_nat (unat frame_bytes),
                 ''framebuffer_write_mib_s='' @ rate ''MiB/s'' (unat frame_bytes) t]
               else [''  framebuffer write: '' @ show_nat (unat frame_bytes) @ '' bytes at '' @ rate ''MiB/s'' (unat frame_bytes) t @ '' MiB/s'']), w)
         } else Some (0, out @ (if bn_machine opts then [''framebuffer=skipped'']
               else [''  framebuffer write: skipped (use --framebuffer explicitly)'']), w)
       })"

section \<open>The start gate\<close>

text \<open>The main thread in \<open>run_memory\<close> and the workers in \<open>worker_main\<close>.  A critical section under the mutex of the
  gate is one step and a wait for the condition is a guard.\<close>

datatype bench_worker =
    Fresh       \<comment> \<open>created, has not announced itself\<close>
  | Waiting     \<comment> \<open>has announced itself and waits for \<open>go\<close>\<close>
  | Working     \<comment> \<open>past the gate\<close>
  | Finished    \<comment> \<open>has returned\<close>

datatype bench_main_pc =
    Spawning            \<comment> \<open>in the creation loop\<close>
  | AwaitReady          \<comment> \<open>waiting until all workers are ready\<close>
  | JoinAll nat         \<comment> \<open>joining the worker of that index\<close>
  | AbortJoin nat       \<comment> \<open>a creation failed, joining the worker of that index\<close>
  | Returned            \<comment> \<open>all workers joined\<close>
  | Aborted             \<comment> \<open>returned -1\<close>

record start_gate =
  gate_ready :: nat
  gate_go :: bool
  gate_threads :: "bench_worker list"
  gate_main :: bench_main_pc

definition gate_init :: start_gate where
  "gate_init = \<lparr>gate_ready = 0, gate_go = False, gate_threads = [], gate_main = Spawning\<rparr>"

inductive gate_step :: "nat \<Rightarrow> start_gate \<Rightarrow> start_gate \<Rightarrow> bool" for n where
  spawn: "\<lbrakk>gate_main g = Spawning; length (gate_threads g) < n\<rbrakk>
    \<Longrightarrow> gate_step n g (g\<lparr>gate_threads := gate_threads g @ [Fresh]\<rparr>)"
| spawn_fails: "\<lbrakk>gate_main g = Spawning; length (gate_threads g) < n\<rbrakk>
    \<Longrightarrow> gate_step n g (g\<lparr>gate_go := True, gate_main := AbortJoin 0\<rparr>)"
| spawned: "\<lbrakk>gate_main g = Spawning; length (gate_threads g) = n\<rbrakk> \<Longrightarrow> gate_step n g (g\<lparr>gate_main := AwaitReady\<rparr>)"
| open_gate: "\<lbrakk>gate_main g = AwaitReady; gate_ready g = n\<rbrakk>
    \<Longrightarrow> gate_step n g (g\<lparr>gate_go := True, gate_main := JoinAll 0\<rparr>)"
| join_one: "\<lbrakk>gate_main g = JoinAll j; j < n; gate_threads g ! j = Finished\<rbrakk>
    \<Longrightarrow> gate_step n g (g\<lparr>gate_main := JoinAll (j + 1)\<rparr>)"
| joined: "\<lbrakk>gate_main g = JoinAll j; j = n\<rbrakk> \<Longrightarrow> gate_step n g (g\<lparr>gate_main := Returned\<rparr>)"
| abort_one: "\<lbrakk>gate_main g = AbortJoin j; j < length (gate_threads g); gate_threads g ! j = Finished\<rbrakk>
    \<Longrightarrow> gate_step n g (g\<lparr>gate_main := AbortJoin (j + 1)\<rparr>)"
| aborted: "\<lbrakk>gate_main g = AbortJoin j; j = length (gate_threads g)\<rbrakk> \<Longrightarrow> gate_step n g (g\<lparr>gate_main := Aborted\<rparr>)"
| announce: "\<lbrakk>i < length (gate_threads g); gate_threads g ! i = Fresh\<rbrakk>
    \<Longrightarrow> gate_step n g (g\<lparr>gate_ready := gate_ready g + 1, gate_threads := (gate_threads g)[i := Waiting]\<rparr>)"
| pass_gate: "\<lbrakk>i < length (gate_threads g); gate_threads g ! i = Waiting; gate_go g\<rbrakk>
    \<Longrightarrow> gate_step n g (g\<lparr>gate_threads := (gate_threads g)[i := Working]\<rparr>)"
| finish: "\<lbrakk>i < length (gate_threads g); gate_threads g ! i = Working\<rbrakk>
    \<Longrightarrow> gate_step n g (g\<lparr>gate_threads := (gate_threads g)[i := Finished]\<rparr>)"

inductive gate_reachable :: "nat \<Rightarrow> start_gate \<Rightarrow> bool" for n where
  gate_starts: "gate_reachable n gate_init"
| gate_moves: "gate_reachable n g \<Longrightarrow> gate_step n g g' \<Longrightarrow> gate_reachable n g'"

inductive_cases gate_stepE: "gate_step n g g'"

definition gate_inv :: "nat \<Rightarrow> start_gate \<Rightarrow> bool" where
  "gate_inv n g \<longleftrightarrow> length (gate_threads g) \<le> n
     \<and> gate_ready g = length (filter (\<lambda>t. t \<noteq> Fresh) (gate_threads g))
     \<and> (\<not> gate_go g \<longrightarrow> set (gate_threads g) \<subseteq> {Fresh, Waiting})
     \<and> (case gate_main g of
          Spawning \<Rightarrow> \<not> gate_go g
        | AwaitReady \<Rightarrow> \<not> gate_go g \<and> length (gate_threads g) = n
        | JoinAll j \<Rightarrow> gate_go g \<and> length (gate_threads g) = n \<and> gate_ready g = n \<and> j \<le> n
            \<and> (\<forall>i < j. gate_threads g ! i = Finished)
        | AbortJoin j \<Rightarrow> gate_go g \<and> j \<le> length (gate_threads g) \<and> (\<forall>i < j. gate_threads g ! i = Finished)
        | Returned \<Rightarrow> gate_go g \<and> length (gate_threads g) = n \<and> gate_ready g = n \<and> (\<forall>t \<in> set (gate_threads g). t = Finished)
        | Aborted \<Rightarrow> gate_go g \<and> (\<forall>t \<in> set (gate_threads g). t = Finished))"

lemma length_filter_update:
  assumes "i < length xs"
  shows "length (filter P (xs[i := x])) + of_bool (P (xs ! i)) = length (filter P xs) + of_bool (P x)"
proof -
  have "xs = take i xs @ xs ! i # drop (Suc i) xs" using assms by (rule id_take_nth_drop)
  then have "length (filter P xs) = length (filter P (take i xs @ xs ! i # drop (Suc i) xs))" by simp
  then show ?thesis using assms by (simp add: upd_conv_take_nth_drop)
qed

lemma gate_threads_update:
  assumes "gate_inv n g" "i < length (gate_threads g)" "gate_threads g ! i \<noteq> Finished"
    and "t \<in> {Waiting, Working, Finished}" "gate_go g \<or> t = Waiting" "gate_threads g ! i = Fresh \<longleftrightarrow> t = Waiting"
    and "gate_main g \<notin> {Returned, Aborted}"
  shows "gate_inv n (g\<lparr>gate_ready := gate_ready g + of_bool (gate_threads g ! i = Fresh), gate_threads := (gate_threads g)[i := t]\<rparr>)"
proof -
  let ?ts = "(gate_threads g)[i := t]"
  have c: "length (filter (\<lambda>t. t \<noteq> Fresh) ?ts) = gate_ready g + of_bool (gate_threads g ! i = Fresh)"
    using length_filter_update[OF assms(2), of "\<lambda>t. t \<noteq> Fresh" t] assms(1,4) by (auto simp: gate_inv_def)
  have keep: "\<forall>k < j. ?ts ! k = Finished" if "\<forall>k < j. gate_threads g ! k = Finished" for j
    using that assms(3) by (metis nth_list_update_neq)
  have sub: "set ?ts \<subseteq> {Fresh, Waiting}" if "\<not> gate_go g"
    using that assms(1,5) set_update_subset_insert[of "gate_threads g" i t] by (auto simp: gate_inv_def)
  have full: "gate_threads g ! i \<noteq> Fresh" if "gate_ready g = n" "length (gate_threads g) = n"
  proof
    assume "gate_threads g ! i = Fresh"
    then have "Suc n \<le> length (filter (\<lambda>t. t \<noteq> Fresh) ?ts)" using c that(1) by simp
    also have "\<dots> \<le> n" using that(2) length_filter_le[of "\<lambda>t. t \<noteq> Fresh" ?ts] by simp
    finally show False by simp
  qed
  show ?thesis using assms(1,7) c keep sub full
    by (auto simp: gate_inv_def split: bench_main_pc.split)
qed

lemma gate_not_final:
  "gate_inv n g \<Longrightarrow> i < length (gate_threads g) \<Longrightarrow> gate_threads g ! i \<noteq> Finished \<Longrightarrow> gate_main g \<notin> {Returned, Aborted}"
  by (auto simp: gate_inv_def dest: nth_mem)

lemma gate_step_inv:
  assumes "gate_inv n g" "gate_step n g g'"
  shows "gate_inv n g'"
  using assms(2)
proof cases
  case (announce i)
  then show ?thesis
    using gate_threads_update[OF assms(1), of i Waiting] gate_not_final[OF assms(1), of i] by simp
next
  case (pass_gate i)
  then show ?thesis
    using gate_threads_update[OF assms(1), of i Working] gate_not_final[OF assms(1), of i] by simp
next
  case (finish i)
  then have "gate_go g" using assms(1) by (auto simp: gate_inv_def dest!: nth_mem)
  then show ?thesis
    using finish gate_threads_update[OF assms(1), of i Finished] gate_not_final[OF assms(1), of i] by simp
next
  case (joined j)
  then show ?thesis using assms(1) by (simp add: gate_inv_def all_set_conv_all_nth)
next
  case (aborted j)
  then show ?thesis using assms(1) by (simp add: gate_inv_def all_set_conv_all_nth)
next
  case (open_gate)
  then show ?thesis using assms(1) by (simp add: gate_inv_def)
qed (use assms(1) in \<open>auto simp: gate_inv_def less_Suc_eq\<close>)

lemma gate_reachable_inv: "gate_reachable n g \<Longrightarrow> gate_inv n g"
  by (induction rule: gate_reachable.induct) (simp add: gate_inv_def gate_init_def, rule gate_step_inv)

text \<open>What is left to do: steps of the threads, of those that are not created yet, and of the main thread.\<close>

definition thread_left :: "bench_worker \<Rightarrow> nat" where
  "thread_left t = (case t of Fresh \<Rightarrow> 3 | Waiting \<Rightarrow> 2 | Working \<Rightarrow> 1 | Finished \<Rightarrow> 0)"

definition main_left :: "nat \<Rightarrow> bench_main_pc \<Rightarrow> nat" where
  "main_left n m = (case m of Spawning \<Rightarrow> n + 4 | AwaitReady \<Rightarrow> n + 3 | JoinAll j \<Rightarrow> n - j + 1 | AbortJoin j \<Rightarrow> n - j + 1
     | Returned \<Rightarrow> 0 | Aborted \<Rightarrow> 0)"

definition gate_left :: "nat \<Rightarrow> start_gate \<Rightarrow> nat" where
  "gate_left n g = 4 * (n - length (gate_threads g)) + sum_list (map thread_left (gate_threads g)) + main_left n (gate_main g)"

lemma sum_list_map_update:
  assumes "i < length xs"
  shows "sum_list (map f (xs[i := x])) + f (xs ! i) = sum_list (map f xs) + (f x :: nat)"
proof -
  have "xs = take i xs @ xs ! i # drop (Suc i) xs" using assms by (rule id_take_nth_drop)
  then have "sum_list (map f xs) = sum_list (map f (take i xs @ xs ! i # drop (Suc i) xs))" by simp
  then show ?thesis using assms by (simp add: upd_conv_take_nth_drop)
qed

lemma thread_moves_left:
  assumes "i < length (gate_threads g)" "thread_left t < thread_left (gate_threads g ! i)"
  shows "gate_left n (g\<lparr>gate_threads := (gate_threads g)[i := t]\<rparr>) < gate_left n g"
    and "gate_left n (g\<lparr>gate_ready := r, gate_threads := (gate_threads g)[i := t]\<rparr>) < gate_left n g"
  using sum_list_map_update[OF assms(1), of thread_left t] assms by (simp_all add: gate_left_def)

lemma gate_step_left:
  assumes "gate_inv n g" "gate_step n g g'"
  shows "gate_left n g' < gate_left n g"
  using assms(2)
proof cases
  case (announce i)
  then show ?thesis by (auto intro!: thread_moves_left simp: thread_left_def)
next
  case (pass_gate i)
  then show ?thesis by (auto intro!: thread_moves_left simp: thread_left_def)
next
  case (finish i)
  then show ?thesis by (auto intro!: thread_moves_left simp: thread_left_def)
qed (use assms(1) in \<open>auto simp: gate_left_def main_left_def thread_left_def gate_inv_def\<close>)

text \<open>A thread that is not finished can move, once the gate is open or before it has announced itself.\<close>

lemma unfinished_moves:
  assumes "i < length (gate_threads g)" "gate_threads g ! i \<noteq> Finished" "gate_go g \<or> gate_threads g ! i = Fresh"
  shows "\<exists>g'. gate_step n g g'"
  using assms gate_step.announce[of i g n] gate_step.pass_gate[of i g n] gate_step.finish[of i g n]
  by (cases "gate_threads g ! i") blast+

lemma gate_progress:
  assumes "gate_inv n g" "gate_main g \<notin> {Returned, Aborted}"
  shows "\<exists>g'. gate_step n g g'"
proof (cases "gate_main g")
  case Spawning
  then show ?thesis using assms(1) gate_step.spawn[of g n] gate_step.spawned[of g n]
    by (cases "length (gate_threads g) < n") (auto simp: gate_inv_def)
next
  case AwaitReady
  show ?thesis
  proof (cases "gate_ready g = n")
    case True
    then show ?thesis using AwaitReady gate_step.open_gate by blast
  next
    case False
    then have "filter (\<lambda>t. t \<noteq> Fresh) (gate_threads g) \<noteq> gate_threads g"
      using assms(1) AwaitReady by (auto simp: gate_inv_def)
    then have "\<not> (\<forall>t \<in> set (gate_threads g). t \<noteq> Fresh)" using filter_True by blast
    then obtain i where "i < length (gate_threads g)" "gate_threads g ! i = Fresh" by (auto simp: in_set_conv_nth)
    then show ?thesis using unfinished_moves[of i g n] by simp
  qed
next
  case (JoinAll j)
  then show ?thesis using assms(1) gate_step.join_one[of g j n] gate_step.joined[of g j n] unfinished_moves[of j g n]
    by (cases "j = n"; cases "gate_threads g ! j = Finished") (auto simp: gate_inv_def)
next
  case (AbortJoin j)
  then show ?thesis using assms(1) gate_step.abort_one[of g j n] gate_step.aborted[of g j n] unfinished_moves[of j g n]
    by (cases "j = length (gate_threads g)"; cases "gate_threads g ! j = Finished") (auto simp: gate_inv_def)
qed (use assms(2) in auto)

section \<open>Checksums\<close>

lemma joined_checksum_Nil [simp]: "joined_checksum [] = 0"
  by (simp add: joined_checksum_def)

lemma fold_xor: "fold (\<lambda>c acc. acc XOR c) cs a = (a :: u64) XOR fold (\<lambda>c acc. acc XOR c) cs 0"
proof (induction cs arbitrary: a)
  case (Cons c cs)
  show ?case using Cons[of "a XOR c"] Cons[of c] by (simp add: xor.assoc)
qed simp

lemma joined_checksum_Cons [simp]: "joined_checksum (c # cs) = c XOR joined_checksum cs"
  unfolding joined_checksum_def using fold_xor[of cs c] by simp

lemma joined_checksum_failed:
  "joined_checksum cs = (if even (length (filter (\<lambda>c. c = UINT64_MAX) cs))
     then joined_checksum (filter (\<lambda>c. c \<noteq> UINT64_MAX) cs) else NOT (joined_checksum (filter (\<lambda>c. c \<noteq> UINT64_MAX) cs)))"
  by (induction cs) (auto simp: xor.assoc)

lemma joined_checksum_small:
  "(\<And>c. c \<in> set cs \<Longrightarrow> \<not> bit c 63) \<Longrightarrow> \<not> bit (joined_checksum cs) 63"
  by (induction cs) (auto simp: bit_xor_iff)

lemma not_eq_minus_one_iff: "NOT (x :: u64) = - 1 \<longleftrightarrow> x = 0"
  by (metis bit.double_compl bit.compl_zero)

lemma joined_result_failure:
  assumes "\<And>c. c \<in> set cs \<Longrightarrow> c \<noteq> UINT64_MAX \<Longrightarrow> \<not> bit c 63"
  shows "joined_result cs = - 1 \<longleftrightarrow> odd (length (filter (\<lambda>c. c = UINT64_MAX) cs))
    \<and> joined_checksum (filter (\<lambda>c. c \<noteq> UINT64_MAX) cs) = 0"
proof -
  have "\<not> bit (joined_checksum (filter (\<lambda>c. c \<noteq> UINT64_MAX) cs)) 63"
    using assms by (intro joined_checksum_small) auto
  then have "joined_checksum (filter (\<lambda>c. c \<noteq> UINT64_MAX) cs) \<noteq> UINT64_MAX" by auto
  then show ?thesis
    using joined_checksum_failed[of cs] by (auto simp: joined_result_def not_eq_minus_one_iff)
qed

text \<open>A worker that did its work leaves a small checksum.\<close>

lemma compute_kernel_small: "\<not> bit (compute_kernel args rounds) 63"
  by (auto simp: compute_kernel_def Let_def bit_ucast_iff dest: bit_imp_le_length)

lemma xor_nat_le: "(m :: nat) XOR n \<le> m + n"
proof (induction m arbitrary: n rule: less_induct)
  case (less m)
  show ?case
  proof (cases "m = 0")
    case False
    then have "m div 2 XOR n div 2 \<le> m div 2 + n div 2" by (intro less.IH) simp
    moreover have "m XOR n = of_bool (odd m \<noteq> odd n) + 2 * (m div 2 XOR n div 2)" by (rule xor_rec)
    moreover have "m = 2 * (m div 2) + of_bool (odd m)" "n = 2 * (n div 2) + of_bool (odd n)"
      by (auto simp: elim: oddE)
    moreover have "(of_bool (odd m \<noteq> odd n) :: nat) \<le> of_bool (odd m) + of_bool (odd n)" by simp
    ultimately show ?thesis by linarith
  qed simp
qed

lemma unat_xor_le: "unat (a XOR b :: u64) \<le> unat a + unat b"
  by (simp add: unsigned_xor_eq xor_nat_le)

lemma byte_small: "unat (ucast (v :: u8) :: u64) < 256"
proof -
  have "unat v < 2 ^ 8" using unsigned_less[of v] by simp
  then show ?thesis by (subst unat_ucast_no_wrap) simp_all
qed

text \<open>A round is memory safe and adds at most 512 to the checksum.\<close>

lemma memory_round_bound:
  assumes "0 < bytes" "length source = unat bytes" "length destination = unat bytes"
  shows "\<exists>d c'. memory_round kind source bytes r (destination, c) = Some (d, c') \<and> length d = unat bytes
    \<and> unat c' \<le> unat c + 512"
proof -
  have pos: "0 < unat bytes" using assms(1) by (simp add: unat_gt_0)
  define d where "d = (if kind = WORK_MEMCPY then source else replicate (unat bytes) (of_nat r))"
  have len: "length d = unat bytes" using assms(2) by (simp add: d_def)
  have ix: "unat ((of_nat r * 4099) mod bytes) < unat bytes" "unat (bytes - 1) < unat bytes"
    using pos unat_sub_no_wrap[of 1 bytes] by (simp_all add: unat_mod)
  let ?a = "d ! unat ((of_nat r * 4099) mod bytes)" and ?b = "d ! unat (bytes - 1)"
  have run: "memory_round kind source bytes r (destination, c) = Some (d, (c XOR ucast ?a) + ucast ?b)"
    using assms len ix by (simp add: memory_round_def memcpy_at_def d_def)
  have "unat ((c XOR ucast ?a) + ucast ?b :: u64) \<le> unat (c XOR ucast ?a :: u64) + unat (ucast ?b :: u64)"
    by (simp add: unat_word_ariths)
  also have "\<dots> \<le> unat c + unat (ucast ?a :: u64) + unat (ucast ?b :: u64)" by (simp add: unat_xor_le)
  also have "\<dots> \<le> unat c + 512" using byte_small[of ?a] byte_small[of ?b] by linarith
  finally show ?thesis using run len by blast
qed

lemma memory_rounds_bound:
  assumes "0 < bytes" "length source = unat bytes"
  shows "\<exists>d c. mfold (memory_round kind source bytes) [0..<n] (replicate (unat bytes) 0, 0) = Some (d, c)
    \<and> length d = unat bytes \<and> unat c \<le> 512 * n"
proof (induction n)
  case (Suc n)
  then obtain d c where dc: "mfold (memory_round kind source bytes) [0..<n] (replicate (unat bytes) 0, 0) = Some (d, c)"
    "length d = unat bytes" "unat c \<le> 512 * n" by blast
  then show ?case using memory_round_bound[OF assms dc(2), of kind n c] by (auto simp: mfold_append)
qed simp

lemma small_word_bit:
  assumes "unat (c :: u64) < 2 ^ 63"
  shows "\<not> bit c 63"
proof
  assume c: "bit c 63"
  then have "bit (unat c) 63" by (simp add: bit_unsigned_iff)
  then show False using assms by (simp add: bit_iff_odd)
qed

lemma memory_kernel_small:
  assumes "0 < bytes"
  shows "\<exists>c. memory_kernel kind args rounds bytes = Some c \<and> \<not> bit c 63"
proof -
  obtain d c where dc: "mfold (memory_round kind (replicate (unat bytes) (ucast (args AND 0xff))) bytes) [0..<unat rounds]
      (replicate (unat bytes) 0, 0) = Some (d, c)" "length d = unat bytes" "unat c \<le> 512 * unat rounds"
    using memory_rounds_bound[OF assms] by (metis length_replicate)
  have pos: "0 < unat bytes" using assms by (simp add: unat_gt_0)
  have "unat rounds < 2 ^ 32" using unsigned_less[of rounds] by simp
  moreover have "unat (c XOR ucast (d ! 0) :: u64) \<le> unat c + 256"
    using unat_xor_le[of c "ucast (d ! 0)"] byte_small[of "d ! 0"] by linarith
  ultimately have "\<not> bit (c XOR ucast (d ! 0) :: u64) 63" using dc(3) by (intro small_word_bit) simp
  then show ?thesis using dc pos by (simp add: memory_kernel_def)
qed

lemma worker_main_small:
  assumes "0 < bytes"
  shows "\<exists>c w'. worker_main os kind args rounds bytes w = Some (c, w') \<and> (c \<noteq> UINT64_MAX \<longrightarrow> \<not> bit c 63)"
proof (cases "kind = WORK_COMPUTE")
  case True
  then show ?thesis using compute_kernel_small by (simp add: worker_main_def)
next
  case False
  then show ?thesis using memory_kernel_small[OF assms, of kind args rounds]
    by (auto simp: worker_main_def split: prod.split)
qed

lemma worker_results_small:
  assumes "0 < bytes"
  shows "\<exists>cs w'. worker_results os kind rounds bytes is w = Some (cs, w') \<and> length cs = length is
    \<and> (\<forall>c \<in> set cs. c \<noteq> UINT64_MAX \<longrightarrow> \<not> bit c 63)"
proof (induction "is" arbitrary: w)
  case (Cons i "is")
  obtain c w1 where c: "worker_main os kind (bo_args os i) rounds bytes w = Some (c, w1)" "c \<noteq> UINT64_MAX \<longrightarrow> \<not> bit c 63"
    using worker_main_small[OF assms, of os kind "bo_args os i" rounds w] by auto
  obtain cs w2 where "worker_results os kind rounds bytes is w1 = Some (cs, w2)" "length cs = length is"
      "\<forall>c \<in> set cs. c \<noteq> UINT64_MAX \<longrightarrow> \<not> bit c 63"
    using Cons[of w1] by auto
  then show ?case using c by (intro exI[of _ "c # cs"] exI[of _ w2]) simp
qed simp

section \<open>Properties\<close>




definition poor_os :: "(unit, unit) vb_os" where
  "poor_os = \<lparr>bo_text = (\<lambda>p w. (None, w)), bo_open = (\<lambda>p w. (- 1, w)), bo_write = (\<lambda>fd bs w. (- 1, w)), bo_close = (\<lambda>fd w. (0, w)),
     bo_malloc = (\<lambda>n w. (False, w)), bo_nprocessors = (\<lambda>w. (4, w)), bo_now = (\<lambda>w. ((), w)), bo_gate_init = (\<lambda>w. (True, w)),
     bo_create = (\<lambda>i w. (True, w)), bo_args = (\<lambda>i. of_nat i)\<rparr>"


end

