(* ===== verification/Fb_Safe.thy ===== *)
theory Fb_Safe
  imports C_Library
begin

text \<open>
  The example \<open>toolkit/examples/fb-safe/src/main.c\<close>: it reads the geometry of the framebuffer, draws six bands into a
  buffer of that size and reports, without touching the device.  A store outside the buffer is \<open>None\<close>.  The
  lemmas say for which geometries the drawing stays inside the buffer, and that the program does not refuse
  the others.
\<close>

section \<open>The operating system\<close>

record 'w safe_os =
  sf_text :: "string \<Rightarrow> 'w \<Rightarrow> string option \<times> 'w"      \<comment> \<open>the text of a stream opened for reading\<close>
  sf_calloc :: "size_t \<Rightarrow> 'w \<Rightarrow> bool \<times> 'w"
  sf_flush :: "string list \<Rightarrow> 'w \<Rightarrow> bool \<times> 'w"        \<comment> \<open>the report on \<open>stdout\<close>\<close>

record fb_geometry =
  geo_width :: u32
  geo_height :: u32
  geo_bpp :: u32
  geo_stride :: u32

section \<open>Operations\<close>

definition read_line :: "'w safe_os \<Rightarrow> string \<Rightarrow> nat \<Rightarrow> 'w \<Rightarrow> string option \<times> 'w" where
  "read_line os path len w = (case sf_text os path w of (contents, w) \<Rightarrow>
     (case contents of None \<Rightarrow> None
      | Some s \<Rightarrow> if s = [] then None
          else Some (takeWhile (\<lambda>c. c \<noteq> CHR 0x0D \<and> c \<noteq> CHR 0x0A) (c_str (fst (fgets len s)))), w))"

definition read_number :: "'w safe_os \<Rightarrow> string \<Rightarrow> 'w \<Rightarrow> u32 option \<times> 'w" where
  "read_number os path w = (case read_line os path 64 w of (line, w) \<Rightarrow>
     (case line of None \<Rightarrow> None | Some s \<Rightarrow> map_option fst (scan_unsigned s), w))"

definition read_geometry :: "'w safe_os \<Rightarrow> 'w \<Rightarrow> fb_geometry option \<times> 'w" where
  "read_geometry os w = (case read_line os ''/sys/class/graphics/fb0/virtual_size'' 64 w of (line, w) \<Rightarrow>
     case (case line of None \<Rightarrow> None | Some s \<Rightarrow> scan_pair s) of None \<Rightarrow> (None, w)
     | Some (wd, ht) \<Rightarrow> (case read_number os ''/sys/class/graphics/fb0/bits_per_pixel'' w of
         (None, w) \<Rightarrow> (None, w)
       | (Some bpp, w) \<Rightarrow>
         if wd = 0 \<or> ht = 0 \<or> bpp = 0 then (None, w)
         else case read_number os ''/sys/class/graphics/fb0/stride'' w of (stride, w) \<Rightarrow>
           (Some \<lparr>geo_width = wd, geo_height = ht, geo_bpp = bpp,
              geo_stride = (case stride of None \<Rightarrow> wd * (bpp div 8) | Some s \<Rightarrow> if s \<noteq> 0 then s else wd * (bpp div 8))\<rparr>, w)))"

text \<open>One pixel.  The products are computed in \<open>size_t\<close>; the sum is a pointer.\<close>

definition fill_pixel :: "fb_geometry \<Rightarrow> u32 \<Rightarrow> u32 \<Rightarrow> u32 \<Rightarrow> u8 list \<Rightarrow> u8 list option" where
  "fill_pixel geo rgba row col shadow = do {
     let bytes = geo_bpp geo div 8;
     let pixel = unat (row * geo_stride geo) + unat (col * bytes);
     shadow \<leftarrow> store shadow pixel (ucast (drop_bit 24 rgba AND 0xFF));
     shadow \<leftarrow> store shadow (pixel + 1) (ucast (drop_bit 16 rgba AND 0xFF));
     shadow \<leftarrow> store shadow (pixel + 2) (ucast (drop_bit 8 rgba AND 0xFF));
     if 4 \<le> bytes then store shadow (pixel + 3) (ucast (rgba AND 0xFF)) else Some shadow
   }"

definition fill_rect :: "fb_geometry \<Rightarrow> u32 \<Rightarrow> u32 \<Rightarrow> u32 \<Rightarrow> u32 \<Rightarrow> u32 \<Rightarrow> u8 list \<Rightarrow> u8 list option" where
  "fill_rect geo x y w h rgba shadow =
    (if geo_width geo \<le> x \<or> geo_height geo \<le> y then Some shadow
     else let w = (if geo_width geo - x < w then geo_width geo - x else w);
              h = (if geo_height geo - y < h then geo_height geo - y else h)
     in mfold (\<lambda>row. mfold (\<lambda>col. fill_pixel geo rgba (of_nat row) (of_nat col)) [unat x..<unat (x + w)])
          [unat y..<unat (y + h)] shadow)"

definition band_colors :: "u32 list" where
  "band_colors = [0xFF0000FF, 0xFF7F00FF, 0xFFFF00FF, 0x00FF00FF, 0x0000FFFF, 0x7F00FFFF]"

definition draw_bands :: "fb_geometry \<Rightarrow> u8 list \<Rightarrow> u8 list option" where
  "draw_bands geo = mfold (\<lambda>band. fill_rect geo 0 (of_nat band * (geo_height geo div 6)) (geo_width geo + 64)
     (geo_height geo div 6) (band_colors ! band)) [0..<6]"

definition safe_report :: "fb_geometry \<Rightarrow> size_t \<Rightarrow> string list" where
  "safe_report geo frame_bytes = [''schema=1'', ''example=fb-safe'',
     ''framebuffer='' @ show_nat (unat (geo_width geo)) @ ''x'' @ show_nat (unat (geo_height geo)) @ ''x'' @ show_nat (unat (geo_bpp geo)),
     ''stride='' @ show_nat (unat (geo_stride geo)), ''shadow_bytes='' @ show_nat (unat frame_bytes),
     ''framebuffer_writes=0'', ''status=ok'']"

definition safe_main :: "'w safe_os \<Rightarrow> 'w \<Rightarrow> (int \<times> 'w) option" where
  "safe_main os w = (case read_geometry os w of
     (None, w) \<Rightarrow> Some (2, w)
   | (Some geo, w) \<Rightarrow>
     let frame_bytes = geo_stride geo * geo_height geo in
     if frame_bytes = 0 \<or> 64 * 1024 * 1024 < frame_bytes then Some (3, w)
     else case sf_calloc os frame_bytes w of (ok, w) \<Rightarrow>
     if \<not> ok then Some (4, w)
     else do {
       shadow \<leftarrow> draw_bands geo (replicate (unat frame_bytes) 0);
       case sf_flush os (safe_report geo frame_bytes) w of (ok, w) \<Rightarrow> Some (if ok then 0 else 5, w)
     })"

section \<open>Memory safety\<close>

text \<open>A geometry whose rows hold their pixels of at least three bytes, and whose size does not wrap.\<close>

definition sane :: "fb_geometry \<Rightarrow> bool" where
  "sane geo \<longleftrightarrow> 24 \<le> geo_bpp geo \<and> unat (geo_width geo) * unat (geo_bpp geo div 8) \<le> unat (geo_stride geo)
     \<and> unat (geo_stride geo) * unat (geo_height geo) < 2 ^ 32"

lemma fill_pixel_inside:
  assumes "sane geo" "row < geo_height geo" "col < geo_width geo"
    and "length shadow = unat (geo_stride geo) * unat (geo_height geo)"
  shows "\<exists>s. fill_pixel geo rgba row col shadow = Some s \<and> length s = length shadow"
proof -
  let ?b = "unat (geo_bpp geo div 8)" and ?st = "unat (geo_stride geo)"
  have "24 \<le> unat (geo_bpp geo)" using assms(1) by (simp add: sane_def word_le_nat_alt)
  then have b: "3 \<le> ?b" by (simp add: unat_div)
  have rc: "Suc (unat row) \<le> unat (geo_height geo)" "Suc (unat col) \<le> unat (geo_width geo)"
    using assms(2,3) by (simp_all add: word_less_nat_alt)
  have col: "unat col * ?b + ?b \<le> ?st"
  proof -
    have "Suc (unat col) * ?b \<le> unat (geo_width geo) * ?b" using rc(2) by (rule mult_le_mono1)
    then show ?thesis using assms(1) by (simp add: sane_def)
  qed
  have row: "unat row * ?st + ?st \<le> length shadow"
  proof -
    have "Suc (unat row) * ?st \<le> unat (geo_height geo) * ?st" using rc(1) by (rule mult_le_mono1)
    then show ?thesis using assms(4) by (simp add: mult.commute)
  qed
  have "unat (row * geo_stride geo) = unat row * ?st"
    using row assms(1,4) b col by (intro unat_mult_no_wrap) (simp add: sane_def)
  moreover have "unat (col * (geo_bpp geo div 8)) = unat col * ?b"
    using row col b assms(1,4) by (intro unat_mult_no_wrap) (simp add: sane_def)
  ultimately have "unat (row * geo_stride geo) + unat (col * (geo_bpp geo div 8)) + ?b \<le> length shadow"
    using row col by simp
  moreover have "4 \<le> geo_bpp geo div 8 \<Longrightarrow> 4 \<le> ?b" by (simp add: word_le_nat_alt)
  ultimately show ?thesis using b by (cases "4 \<le> geo_bpp geo div 8") (simp_all add: fill_pixel_def Let_def)
qed

lemma index_below:
  fixes y h H :: u32
  assumes "y < H" "h \<le> H - y" "k \<in> set [unat y..<unat (y + h)]"
  shows "(of_nat k :: u32) < H"
proof -
  have "unat (H - y) = unat H - unat y" using assms(1) by (intro unat_sub_no_wrap) (simp add: word_less_nat_alt)
  then have h: "unat y + unat h \<le> unat H" using assms(1,2) by (simp add: word_less_nat_alt word_le_nat_alt)
  moreover have "unat H < 2 ^ 32" using unsigned_less[of H] by simp
  ultimately have "unat (y + h) = unat y + unat h" by (intro unat_add_no_wrap) simp
  then have "k < unat H" using assms(3) h by simp
  then show ?thesis by (simp add: word_less_nat_alt unat_of_nat mod_less[OF less_trans] unsigned_less)
qed

lemma fill_rect_inside:
  assumes "sane geo" "length shadow = unat (geo_stride geo) * unat (geo_height geo)"
  shows "\<exists>s. fill_rect geo x y w h rgba shadow = Some s \<and> length s = length shadow"
proof (cases "geo_width geo \<le> x \<or> geo_height geo \<le> y")
  case True
  then show ?thesis by (auto simp: fill_rect_def)
next
  case False
  define w' where "w' = (if geo_width geo - x < w then geo_width geo - x else w)"
  define h' where "h' = (if geo_height geo - y < h then geo_height geo - y else h)"
  have w': "w' \<le> geo_width geo - x" and h': "h' \<le> geo_height geo - y" by (auto simp: w'_def h'_def)
  have xy: "x < geo_width geo" "y < geo_height geo" using False by auto
  have "\<exists>s. mfold (\<lambda>row. mfold (\<lambda>col. fill_pixel geo rgba (of_nat row) (of_nat col)) [unat x..<unat (x + w')])
      [unat y..<unat (y + h')] shadow = Some s \<and> length s = length shadow"
  proof (rule mfold_invariant)
    fix row and s :: "u8 list"
    assume row: "row \<in> set [unat y..<unat (y + h')]" and s: "length s = length shadow"
    show "\<exists>t. mfold (\<lambda>col. fill_pixel geo rgba (of_nat row) (of_nat col)) [unat x..<unat (x + w')] s = Some t
        \<and> length t = length shadow"
    proof (rule mfold_invariant)
      fix col and s :: "u8 list"
      assume "col \<in> set [unat x..<unat (x + w')]" "length s = length shadow"
      then show "\<exists>t. fill_pixel geo rgba (of_nat row) (of_nat col) s = Some t \<and> length t = length shadow"
        using fill_pixel_inside[OF assms(1) index_below[OF xy(2) h' row] index_below[OF xy(1) w']] assms(2) by simp
    qed (rule s)
  qed simp
  then show ?thesis using False by (simp add: fill_rect_def w'_def h'_def Let_def)
qed

lemma draw_bands_inside:
  assumes "sane geo"
  shows "\<exists>s. draw_bands geo (replicate (unat (geo_stride geo) * unat (geo_height geo)) 0) = Some s
    \<and> length s = unat (geo_stride geo) * unat (geo_height geo)"
  unfolding draw_bands_def
  by (rule mfold_invariant) (use fill_rect_inside[OF assms] in simp_all)

section \<open>Properties\<close>

text \<open>C28. On a geometry with at least 24 bits per pixel, rows that hold their pixels and a size that does not
  wrap, the example never stores outside its buffer: whatever the system answers it ends with one of its
  exit codes.  The program checks none of the three conditions: a framebuffer of 8 bits per pixel passes its checks, and
  the last pixel is stored past the end of the buffer.\<close>

theorem bands_stay_inside:
  assumes "read_geometry os w = (Some geo, w1)"
  shows "(sane geo \<longrightarrow> (\<exists>code w'. safe_main os w = Some (code, w') \<and> code \<in> {0, 3, 4, 5}))
    \<and> (geo = \<lparr>geo_width = 1, geo_height = 6, geo_bpp = 8, geo_stride = 1\<rparr> \<and> fst (sf_calloc os 6 w1) \<longrightarrow> safe_main os w = None)"
proof -
  have "\<exists>code w'. safe_main os w = Some (code, w') \<and> code \<in> {0, 3, 4, 5}" if sn: "sane geo"
  proof -
    have "unat (geo_stride geo * geo_height geo) = unat (geo_stride geo) * unat (geo_height geo)"
      using sn by (intro unat_mult_no_wrap) (simp add: sane_def)
    then obtain s where "draw_bands geo (replicate (unat (geo_stride geo * geo_height geo)) 0) = Some s"
      using draw_bands_inside[OF sn] by auto
    then show ?thesis using assms by (auto simp: safe_main_def Let_def split: prod.split)
  qed
  moreover have "safe_main os w = None"
    if "geo = \<lparr>geo_width = 1, geo_height = 6, geo_bpp = 8, geo_stride = 1\<rparr>" "fst (sf_calloc os 6 w1)"
  proof -
    have "draw_bands geo (replicate 6 0) = None"
      unfolding that(1) by (simp add: draw_bands_def fill_rect_def fill_pixel_def store_def band_colors_def upt_rec)
    then show ?thesis using assms that by (auto simp: safe_main_def split: prod.split)
  qed
  ultimately show ?thesis by blast
qed

definition sysfs_os :: "string \<Rightarrow> string \<Rightarrow> string \<Rightarrow> unit safe_os" where
  "sysfs_os sz bpp stride = \<lparr>sf_text = (\<lambda>path w. (if path = ''/sys/class/graphics/fb0/virtual_size'' then Some sz
       else if path = ''/sys/class/graphics/fb0/bits_per_pixel'' then Some bpp else Some stride, w)),
     sf_calloc = (\<lambda>n w. (True, w)), sf_flush = (\<lambda>out w. (True, w))\<rparr>"

lemma fgets_short: "length s < cap \<Longrightarrow> CHR 0x0A \<notin> set s \<Longrightarrow> fgets cap s = (s, [])"
  by (induction cap s rule: fgets.induct) auto

lemmas geometry_eval = read_geometry_def read_number_def read_line_def sysfs_os_def c_str_def scan_pair_def scan_unsigned_def
  scan_sign_def isdigit_def isspace_def digits_value_def digit_value_def Let_def fgets_short

theorem bands_stay_inside_witness:
  "(\<exists>code w'. safe_main (sysfs_os ''2,6'' ''32'' ''8'') () = Some (code, w')) \<and> safe_main (sysfs_os ''1,6'' ''8'' ''1'') () = None"
proof -
  have g: "read_geometry (sysfs_os ''2,6'' ''32'' ''8'') ()
      = (Some \<lparr>geo_width = 2, geo_height = 6, geo_bpp = 32, geo_stride = 8\<rparr>, ())"
    by (simp add: geometry_eval)
  have h: "read_geometry (sysfs_os ''1,6'' ''8'' ''1'') ()
      = (Some \<lparr>geo_width = 1, geo_height = 6, geo_bpp = 8, geo_stride = 1\<rparr>, ())"
    by (simp add: geometry_eval)
  have "sane \<lparr>geo_width = 2, geo_height = 6, geo_bpp = 32, geo_stride = 8\<rparr>" by (simp add: sane_def)
  moreover have "fst (sf_calloc (sysfs_os ''1,6'' ''8'' ''1'') 6 ())" by (simp add: sysfs_os_def)
  ultimately show ?thesis using bands_stay_inside[OF g] bands_stay_inside[OF h] by blast
qed

end
