(* ===== verification/Spec2Isabelle.thy ===== *)
theory Spec2Isabelle
  imports Release_Cart Legacy_Input Hello_Native Demo_Cart Dashboard Vita_Control Vita_Fbserve Vita_Inputwatch Vita_Bench Fb_Safe
begin

text \<open>
  Verification of the C programs of Vita Linux Next: the demo cart (\<open>cart/\<close>), the framebuffer dashboard
  (\<open>toolkit/examples/vita-dashboard/\<close>), the tools (\<open>toolkit/share/\<close>) and the examples \<open>fb-safe\<close> and \<open>hello-native\<close> of
  \<open>toolkit/examples/\<close>.

  \<^bold>\<open>The programs.\<close>  The demo cart shows animated scenes on a 320 by 180 canvas, four times enlarged on a
  1280 by 720 framebuffer.  Its frame loop (\<open>pstv-demo-cart.c\<close>) asks the runtime which scene is selected,
  polls the input engine, draws the scene with a pool of row workers, fades between scenes, enlarges the
  picture and sleeps until the next deadline.  The dashboard takes the framebuffer away from the kernel's
  text console, shows status screens, and gives the console back.  The tools are small programs beside them:
  \<open>vita-control\<close> asks the running cart for the next scene, \<open>vita-fbserve\<close> serves pictures of the screen over HTTP,
  \<open>vita-inputwatch\<close> counts input events and \<open>vita-bench\<close> measures the machine.

  \<^bold>\<open>Conventions.\<close>  The target is 32-bit ARM: \<open>size_t\<close> and \<open>unsigned long\<close> are \<open>32 word\<close>.  A C \<open>int\<close> is an
  \<open>int\<close>; where a computation can leave its range the model checks it, and undefined behaviour (an access
  outside an object, an overflow, a NULL dereference) is \<open>None\<close>, so that a theorem that an operation
  returns \<open>Some\<close> states its safety.  A pointer parameter is \<open>NULL\<close> or \<open>Ptr\<close> of the object.  The operating
  system is a record of operations on a world of an arbitrary type; what they promise is a locale or a
  named predicate.  Loops over index ranges are \<open>mfold\<close> on the list of indices, loops that end on a
  condition of the world are \<open>partial_function (option)\<close>, and their ends are proved; no fuel is used.

  \<^bold>\<open>Shared theories.\<close>
  \<^item> \<open>Cart_Prelude\<close>: machine integers, pointers, buffers, \<open>mfold\<close> and its rules.
  \<^item> \<open>C_Library\<close>: decimal printing and scanning with round trips (\<open>strtoul\<close>, \<open>strtoull\<close>, \<open>scanf\<close>), \<open>fgets\<close>, output
    streams, strings in fixed buffers.

  \<^bold>\<open>The demo cart.\<close>
  \<^item> \<open>Runtime\<close> (\<open>runtime.c\<close>): the state machine of frames, attract schedule, manual holds and the cooldown;
    invariant of all runs, pacing, and the bound on scene changes per window (locale \<open>rate_limited\<close>).
  \<^item> \<open>Transition\<close> (\<open>transition.c\<close>): the crossfade; its length, the smoothstep weight, the bound on the change per frame.
  \<^item> \<open>Canvas\<close> (\<open>canvas.c\<close>): clipped drawing as the set of painted pixels, colour arithmetic (locale
    \<open>channel_blend\<close>), the PPM writer with a round trip through a reader.
  \<^item> \<open>Presentation\<close> (\<open>presentation.c\<close>): the enlargement as a reference image.
  \<^item> \<open>Scene_Registry\<close> (\<open>scenes_builtin.c\<close>): the ring of scenes.
  \<^item> \<open>Input_Decode\<close>, \<open>Input_Device\<close>, \<open>Input_Discovery\<close>, \<open>Input_Poll\<close>, \<open>Input_Read_Loop\<close>, \<open>Input_Frame\<close>,
    \<open>Input_Runs\<close> (\<open>input_actions.c\<close>, \<open>input_normalize.c\<close>, \<open>input_evdev.c\<close>): key and axis decoding, discovery and
    ranking of devices, the read loop that reassembles events, the bounded queue of actions (locale
    \<open>bounded_fifo\<close>), the merged frame, and whole lives of the engine: descriptors are neither leaked nor closed twice
    (locale \<open>input_ops\<close> for the operations table).
  \<^item> \<open>Worker_Pool\<close> (\<open>worker_pool.c\<close>): main thread and workers as a step relation with two barriers; every band runs once,
    a dispatch returns under every schedule, and no thread outlives the pool.
  \<^item> \<open>Legacy_Scenes\<close> (\<open>scene_2d_legacy.c\<close>) and \<open>Render_Frame\<close> (the renderer of \<open>pstv-demo-cart.c\<close>): the six scenes, and
    that parallel rendering equals the single-threaded reference image (locale \<open>scheduler\<close>).
  \<^item> \<open>Demo_Cart\<close> (\<open>pstv-demo-cart.c\<close>): start-up, frame loop and shutdown, composed of all of the above.
  \<^item> \<open>Release_Scenes\<close> and \<open>Release_Cart\<close> (\<open>cart/provenance/v0.1/pstv-demo-cart.c\<close>): the released program from which the cart
    was factored, with its own drawing, its four threads per frame and its display loop.  For the first 65536
    frames its successor draws the same pictures, by a correspondence of every drawing operation with that of
    \<open>Canvas\<close> and \<open>Legacy_Scenes\<close>; beyond, the successor restarts its frame phase.
  \<^item> \<open>Legacy_Input\<close> (\<open>cart/src/input.c\<close>): the input engine before \<open>input_evdev.c\<close>, which no target builds any more:
    its scan takes the preferred device and keeps its descriptors, its poll drains the device, and its test of
    a capability text reads one number across the spaces between the words.

  \<^bold>\<open>The dashboard.\<close>
  \<^item> \<open>Fb_Owner\<close> (\<open>fb_owner.c\<close>): probing, acquiring, writing frames, releasing.  An abstract lease of the console is the
    specification; the owner refines it on every platform (locale \<open>fb_platform\<close>).
  \<^item> \<open>Dash_Render\<close> (\<open>render.c\<close>): the font and clipped drawing in a byte buffer; text paints exactly its ink.
  \<^item> \<open>Dash_Input\<close> (\<open>input.c\<close>): selection by identity, draining of events (locale \<open>event_queue\<close>).
  \<^item> \<open>Dash_Status\<close> (\<open>status.c\<close>): the status providers and the well-formedness of what they collect.
  \<^item> \<open>Dashboard\<close> (\<open>main.c\<close>): options, screens, loop and exit paths (locale \<open>dash_platform\<close>, which extends the two
    platforms); every exit gives the console back, and a run of a bounded number of frames ends.

  \<^bold>\<open>The tools.\<close>
  \<^item> \<open>Vita_Control\<close> (\<open>vita-control.c\<close>): target inspection and the rate limiter with its state file (locale
    \<open>ctl_platform\<close>); triggers of runs that follow each other are an interval apart, signals go only to the expected
    executable, the advertised waiting time is exact, and overlapping runs escape the limiter.
  \<^item> \<open>Vita_Fbserve\<close> (\<open>vita-fbserve.c\<close>): the bitmap with a round trip through a reader, and the request handler, which
    refines a reference answer for every way of cutting the bytes into pieces (locale \<open>srv_platform\<close>).
  \<^item> \<open>Vita_Inputwatch\<close> (\<open>vita-inputwatch.c\<close>): device selection and the event loop (locale \<open>watch_platform\<close>); the counts
    are those of the byte stream.
  \<^item> \<open>Vita_Bench\<close> (\<open>vita-bench.c\<close>): the kernels, the start gate as a step relation of all threads, and when a failed
    allocation is noticed.
  \<^item> \<open>Fb_Safe\<close> (\<open>fb-safe/src/main.c\<close>): the geometries on which the example stays inside its buffer.
  \<^item> \<open>Hello_Native\<close> (\<open>hello-native/src/main.c\<close>, \<open>system.c\<close>): doubles as reals with a rounding after every operation
    (locale \<open>double_rounding\<close>, interpreted on binary64).  The check of the sum accepts what the worker computes for
    up to \<open>2 ^ 22\<close> iterations and nothing that is a whole step away; one step need not be exactly 1.

  \<^bold>\<open>Parameters.\<close>  The table that \<open>sinf\<close> fills, the conversion of a decimal fraction through \<open>double\<close>, the formatting of
  rates, \<open>malloc\<close>, the clock, the kernel's system calls and the schedule of the threads.  Each hypothesis on them is met by a
  concrete instance: \<open>fixture\<close>, \<open>bench\<close>, \<open>queue_device\<close>, \<open>box\<close>, \<open>sbox\<close>, \<open>tape\<close>, \<open>node_ops\<close>, the scripted input world of \<open>Input_Runs\<close>, and \<open>any\<close>
  for the schedules.

  \<^bold>\<open>Not modelled.\<close>  Every C program of the repository has a model.  Outside the models are the messages on
  \<open>stderr\<close>, the C test programs, and what is not written in C: shell and Python scripts, the kernel and the loader.
  Subnormal and overflowing doubles do not occur in \<open>hello-native\<close> and are left out of its rounding.
\<close>

end
